(* ===== verification/Go_Prelude.thy ===== *)
theory Go_Prelude
  imports Main "HOL-Library.Word" "HOL-Library.Signed_Division" "HOL-Library.Monad_Syntax"
begin

section \<open>Go values and the shared lemmas\<close>

text \<open>
  The conventions every theory of the development uses.

  \<^item> A Go integer is a word of its width: \<open>i64\<close> for \<open>int64\<close> (read with \<open>sint\<close>),
    \<open>u64\<close>, \<open>u32\<close> and \<open>u8\<close> for the unsigned types (read with \<open>unat\<close>).
    \<open>+\<close>, \<open>-\<close> and \<open>*\<close> wrap around as in Go.  The counts that Go keeps in an \<open>int\<close>
    and that the pools bound (orders of a level, levels of a tree, slots) are \<open>int\<close> or \<open>nat\<close>.
  \<^item> A Go function that may panic, or may loop for ever, has an \<open>option\<close> result: \<open>None\<close>
    means that the call does not return.  The \<open>do\<close> notation of \<open>Monad_Syntax\<close> sequences
    such calls.  A Go \<open>error\<close> that is returned is a value of a sum type.
  \<^item> A Go pointer to an order or a price level is the index of its slot in the pool that
    owns it, and \<open>nil\<close> is \<open>None\<close>: every such object is a slot of a pool.
\<close>

type_synonym i64 = "64 word"
type_synonym u64 = "64 word"
type_synonym u32 = "32 word"
type_synonym u8 = "8 word"

named_theorems go_prec \<open>operations that need equal precisions, rewritten when they have them\<close>

subsection \<open>Signed 64-bit arithmetic\<close>

text \<open>Go's \<open>/\<close> and \<open>%\<close> truncate towards zero and panic on a zero divisor.\<close>

definition go_quot :: "i64 \<Rightarrow> i64 \<Rightarrow> i64 option" where
  "go_quot a b = (if b = 0 then None else Some (word_of_int (sint a sdiv sint b)))"

definition go_rem :: "i64 \<Rightarrow> i64 \<Rightarrow> i64 option" where
  "go_rem a b = (if b = 0 then None else Some (word_of_int (sint a smod sint b)))"

definition in_i64 :: "int \<Rightarrow> bool" where
  "in_i64 k \<longleftrightarrow> - (2 ^ 63) \<le> k \<and> k < 2 ^ 63"

lemma in_i64_sint [simp]: "in_i64 (sint (a :: i64))"
  using sint_ge [of a] sint_lt [of a] by (simp add: in_i64_def)

lemma sint_upper: "sint (a :: i64) < 9223372036854775808"
  using sint_lt [of a] by simp

lemma sint_lower: "- 9223372036854775808 \<le> sint (a :: i64)"
  using sint_ge [of a] by simp

lemma sint_word_of_int: "in_i64 k \<Longrightarrow> sint (word_of_int k :: i64) = k"
  by (simp add: in_i64_def sint_sbintrunc' signed_take_bit_int_eq_self)

lemma sint_eq_iff: "sint a = sint b \<longleftrightarrow> a = (b :: i64)"
proof
  assume "sint a = sint b"
  then have "word_of_int (sint a) = (word_of_int (sint b) :: i64)" by simp
  then show "a = b" by simp
qed simp

lemma sint_add: "in_i64 (sint a + sint b) \<Longrightarrow> sint (a + b :: i64) = sint a + sint b"
  by (simp add: in_i64_def sint_word_add signed_take_bit_int_eq_self)

lemma sint_sub: "in_i64 (sint a - sint b) \<Longrightarrow> sint (a - b :: i64) = sint a - sint b"
  by (simp add: in_i64_def sint_word_diff signed_take_bit_int_eq_self)

lemma sint_neg: "in_i64 (- sint a) \<Longrightarrow> sint (- a :: i64) = - sint a"
  by (simp add: in_i64_def sint_word_minus signed_take_bit_int_eq_self)

lemma sint_mul: "in_i64 (sint a * sint b) \<Longrightarrow> sint (a * b :: i64) = sint a * sint b"
  by (simp add: in_i64_def sint_word_mult signed_take_bit_int_eq_self)

lemma sint_sub_nonneg:
  "0 \<le> sint b \<Longrightarrow> sint b \<le> sint a \<Longrightarrow> sint (a - b :: i64) = sint a - sint b"
  using sint_upper [of a] by (intro sint_sub) (simp add: in_i64_def)

lemma sint_0_iff: "sint (a :: i64) = 0 \<longleftrightarrow> a = 0"
  using sint_eq_iff [of a 0] by simp

lemma uint_sint_nonneg: "0 \<le> sint (a :: i64) \<Longrightarrow> uint a = sint a"
proof -
  assume nn: "0 \<le> sint a"
  have "uint a = take_bit 64 (sint a)" by (simp add: uint_sint)
  also have "\<dots> = sint a"
    using nn sint_upper [of a] by (simp add: take_bit_int_eq_self)
  finally show "uint a = sint a" .
qed

text \<open>The magnitude of a signed value, as Go computes it: negate if negative.  The minimal
  value negates to itself, and its unsigned reading is still its magnitude.\<close>

definition go_abs :: "i64 \<Rightarrow> i64" where
  "go_abs a = (if sint a < 0 then - a else a)"

lemma uint_go_abs: "uint (go_abs a) = \<bar>sint a\<bar>"
proof (cases "sint a < 0")
  case True
  have "uint (- a) = take_bit 64 (sint (- a))" by (simp add: uint_sint)
  also have "\<dots> = take_bit 64 (- sint a)"
    by (simp add: sint_word_minus take_bit_signed_take_bit)
  also have "\<dots> = - sint a"
    using True sint_lower [of a] by (simp add: take_bit_int_eq_self)
  finally show ?thesis using True by (simp add: go_abs_def)
next
  case False
  then have "uint a = sint a" by (simp add: uint_sint_nonneg)
  moreover have "go_abs a = a" using False by (simp add: go_abs_def)
  ultimately show ?thesis using False by (simp only: abs_of_nonneg not_less)
qed

lemma unat_word64_less: "unat (a :: u64) < 2 ^ 64"
  using unsigned_less [where w = a and ?'a = nat] by simp

lemma unat_of_nat64: "n < 2 ^ 64 \<Longrightarrow> unat (of_nat n :: u64) = n"
  by (simp add: unsigned_of_nat take_bit_nat_eq_self)

subsection \<open>Truncated division of integers\<close>

lemma sdiv_nonneg: "0 \<le> a \<Longrightarrow> 0 \<le> b \<Longrightarrow> a sdiv b = a div (b :: int)"
  by (auto simp: signed_divide_int_def sgn_if)

lemma smod_nonneg: "0 \<le> a \<Longrightarrow> 0 < b \<Longrightarrow> a smod b = a mod (b :: int)"
  by (auto simp: signed_modulo_int_def sgn_if abs_if)

lemma sdiv_int_sgn: "a sdiv b = sgn a * sgn b * (\<bar>a\<bar> div \<bar>b\<bar>)" for a b :: int
  by (simp add: signed_divide_int_def mult.assoc sgn_mult)

subsection \<open>Options and lists\<close>

lemma bind_Some_iff:
  "(Option.bind m f = Some y) \<longleftrightarrow> (\<exists>x. m = Some x \<and> f x = Some y)"
  by (cases m) auto

lemma bindE:
  assumes "Option.bind m f = Some y"
  obtains x where "m = Some x" and "f x = Some y"
  using assms by (cases m) auto

lemma sum_list_filter_split:
  "sum_list (map f xs) = sum_list (map f (filter P xs)) + sum_list (map f (filter (\<lambda>x. \<not> P x) xs))"
  for f :: "'a \<Rightarrow> 'b :: comm_monoid_add"
  by (induction xs) (auto simp: algebra_simps)

end
