(* ===== verification/Decimal.thy ===== *)
theory Decimal
  imports Go_Prelude
begin

section \<open>Fixed-point decimals (\<open>types/decimal.go\<close>)\<close>

text \<open>
  \<open>types.Decimal\<close>: a 64-bit mantissa with a precision.  Every operation that asserts equal
  precisions, divides, or reads the table of powers of ten can panic, so it returns an
  \<open>option\<close>.  The last part of the theory is the printer \<open>String\<close> and the parser
  \<open>ParseDecimal\<close>, with the \<open>strconv\<close> functions they call.
\<close>

record Decimal =
  d_value :: i64
  d_precision :: u8

text \<open>The integer a mantissa stands for, and the decimals that only differ in their mantissa.\<close>

abbreviation ival :: "Decimal \<Rightarrow> int" where
  "ival d \<equiv> sint (d_value d)"

subsection \<open>Construction and the table of powers of ten\<close>

definition NewDecimal :: "i64 \<Rightarrow> u8 \<Rightarrow> Decimal" where
  "NewDecimal v p = \<lparr>d_value = v, d_precision = p\<rparr>"

definition Zero :: "u8 \<Rightarrow> Decimal" where
  "Zero p = \<lparr>d_value = 0, d_precision = p\<rparr>"

text \<open>The loop of \<open>init\<close>: each entry is ten times the one before.\<close>

fun pow10_init :: "nat \<Rightarrow> i64 list" where
  "pow10_init 0 = [1]"
| "pow10_init (Suc i) = pow10_init i @ [last (pow10_init i) * 10]"

definition pow10 :: "i64 list" where
  "pow10 = pow10_init 18"

text \<open>An array read: an index outside the table panics.\<close>

definition pow10_at :: "int \<Rightarrow> i64 option" where
  "pow10_at i = (if 0 \<le> i \<and> i < int (length pow10) then Some (pow10 ! nat i) else None)"

subsection \<open>Arithmetic\<close>

definition assertSamePrecision :: "Decimal \<Rightarrow> Decimal \<Rightarrow> unit option" where
  "assertSamePrecision a b = (if d_precision a \<noteq> d_precision b then None else Some ())"

definition Add :: "Decimal \<Rightarrow> Decimal \<Rightarrow> Decimal option" where
  "Add d other = do {
     assertSamePrecision d other;
     Some \<lparr>d_value = d_value d + d_value other, d_precision = d_precision d\<rparr> }"

definition Sub :: "Decimal \<Rightarrow> Decimal \<Rightarrow> Decimal option" where
  "Sub d other = do {
     assertSamePrecision d other;
     Some \<lparr>d_value = d_value d - d_value other, d_precision = d_precision d\<rparr> }"

definition Neg :: "Decimal \<Rightarrow> Decimal" where
  "Neg d = \<lparr>d_value = - d_value d, d_precision = d_precision d\<rparr>"

definition Abs_dec :: "Decimal \<Rightarrow> Decimal" where
  "Abs_dec d = (if ival d < 0 then \<lparr>d_value = - d_value d, d_precision = d_precision d\<rparr> else d)"

definition MulInt :: "Decimal \<Rightarrow> i64 \<Rightarrow> Decimal" where
  "MulInt d n = \<lparr>d_value = d_value d * n, d_precision = d_precision d\<rparr>"

text \<open>\<open>bits.Mul64\<close> and \<open>bits.Div64\<close> of the standard library: the 128-bit product of two
  unsigned words, and the quotient of a 128-bit value, which panics when the divisor is zero
  or the quotient needs more than 64 bits.\<close>

definition Mul64 :: "u64 \<Rightarrow> u64 \<Rightarrow> u64 \<times> u64" where
  "Mul64 x y = (of_nat ((unat x * unat y) div 2 ^ 64), of_nat ((unat x * unat y) mod 2 ^ 64))"

definition Div64 :: "u64 \<Rightarrow> u64 \<Rightarrow> u64 \<Rightarrow> u64 option" where
  "Div64 hi lo y =
     (if y = 0 \<or> unat y \<le> unat hi then None
      else Some (of_nat ((unat hi * 2 ^ 64 + unat lo) div unat y)))"

definition mul128 :: "i64 \<Rightarrow> i64 \<Rightarrow> i64 \<times> u64" where
  "mul128 a b =
     (let (hi64, lo64) = Mul64 a b in
      if (sint a < 0) \<noteq> (sint b < 0) then
        let lo64 = not lo64 + 1; hi64 = not hi64
        in (if lo64 = 0 then hi64 + 1 else hi64, lo64)
      else (hi64, lo64))"

definition div128by64 :: "u64 \<Rightarrow> u64 \<Rightarrow> u64 \<Rightarrow> i64 option" where
  "div128by64 hi lo divisor = Div64 hi lo divisor"

definition Mul :: "Decimal \<Rightarrow> Decimal \<Rightarrow> Decimal option" where
  "Mul d other = do {
     assertSamePrecision d other;
     let (hiSigned, loUnsigned) = mul128 (d_value d) (d_value other);
     let negative =
       (if sint hiSigned < 0 then (ival d < 0) \<noteq> (ival other < 0)
        else (ival d < 0) \<noteq> (ival other < 0));
     let absA = go_abs (d_value d);
     let absB = go_abs (d_value other);
     let (hiU, loU) = Mul64 absA absB;
     divisor \<leftarrow> pow10_at (uint (d_precision other));
     q \<leftarrow> div128by64 hiU loU divisor;
     Some \<lparr>d_value = (if negative then - q else q), d_precision = d_precision d\<rparr> }"

definition MulQty :: "Decimal \<Rightarrow> Decimal \<Rightarrow> Decimal option" where
  "MulQty d qty = do {
     let negative = (ival d < 0) \<noteq> (ival qty < 0);
     let absA = go_abs (d_value d);
     let absB = go_abs (d_value qty);
     let (hiU, loU) = Mul64 absA absB;
     divisor \<leftarrow> pow10_at (uint (d_precision qty));
     q \<leftarrow> div128by64 hiU loU divisor;
     Some \<lparr>d_value = (if negative then - q else q), d_precision = d_precision d\<rparr> }"

definition Div :: "Decimal \<Rightarrow> Decimal \<Rightarrow> u8 \<Rightarrow> Decimal option" where
  "Div d other outPrecision =
     (if d_value other = 0 then None
      else do {
        let scale = uint outPrecision + uint (d_precision other) - uint (d_precision d);
        numerator \<leftarrow>
          (if 0 \<le> scale then do { p \<leftarrow> pow10_at scale; Some (d_value d * p) }
           else do { p \<leftarrow> pow10_at (- scale); go_quot (d_value d) p });
        result \<leftarrow> go_quot numerator (d_value other);
        Some \<lparr>d_value = result, d_precision = outPrecision\<rparr> })"

subsection \<open>Comparison\<close>

definition Min_dec :: "Decimal \<Rightarrow> Decimal \<Rightarrow> Decimal option" where
  "Min_dec a b = do { assertSamePrecision a b; Some (if ival a \<le> ival b then a else b) }"

definition Max_dec :: "Decimal \<Rightarrow> Decimal \<Rightarrow> Decimal option" where
  "Max_dec a b = do { assertSamePrecision a b; Some (if ival a \<ge> ival b then a else b) }"

definition Equal :: "Decimal \<Rightarrow> Decimal \<Rightarrow> bool option" where
  "Equal d other = do { assertSamePrecision d other; Some (d_value d = d_value other) }"

definition LessThan :: "Decimal \<Rightarrow> Decimal \<Rightarrow> bool option" where
  "LessThan d other = do { assertSamePrecision d other; Some (ival d < ival other) }"

definition LessThanOrEqual :: "Decimal \<Rightarrow> Decimal \<Rightarrow> bool option" where
  "LessThanOrEqual d other = do { assertSamePrecision d other; Some (ival d \<le> ival other) }"

definition GreaterThan :: "Decimal \<Rightarrow> Decimal \<Rightarrow> bool option" where
  "GreaterThan d other = do { assertSamePrecision d other; Some (ival d > ival other) }"

definition GreaterThanOrEqual :: "Decimal \<Rightarrow> Decimal \<Rightarrow> bool option" where
  "GreaterThanOrEqual d other = do { assertSamePrecision d other; Some (ival d \<ge> ival other) }"

definition IsZero :: "Decimal \<Rightarrow> bool" where
  "IsZero d \<longleftrightarrow> d_value d = 0"

definition IsPositive :: "Decimal \<Rightarrow> bool" where
  "IsPositive d \<longleftrightarrow> ival d > 0"

definition IsNegative :: "Decimal \<Rightarrow> bool" where
  "IsNegative d \<longleftrightarrow> ival d < 0"

definition IsValidTick :: "Decimal \<Rightarrow> Decimal \<Rightarrow> bool option" where
  "IsValidTick d tickSize = do {
     assertSamePrecision d tickSize;
     if ival d \<le> 0 \<or> ival tickSize \<le> 0 then Some False
     else do { r \<leftarrow> go_rem (d_value d) (d_value tickSize); Some (r = 0) } }"

definition IsValidLot :: "Decimal \<Rightarrow> Decimal \<Rightarrow> bool option" where
  "IsValidLot d lotSize = do {
     assertSamePrecision d lotSize;
     if ival d \<le> 0 \<or> ival lotSize \<le> 0 then Some False
     else do { r \<leftarrow> go_rem (d_value d) (d_value lotSize); Some (r = 0) } }"

subsection \<open>What the operations compute\<close>

lemma assertSamePrecision_same [go_prec]:
  "d_precision a = d_precision b \<Longrightarrow> assertSamePrecision a b = Some ()"
  by (simp add: assertSamePrecision_def)

text \<open>The operations on equal precisions, as total functions.\<close>

abbreviation dadd :: "Decimal \<Rightarrow> Decimal \<Rightarrow> Decimal" where
  "dadd a b \<equiv> a\<lparr>d_value := d_value a + d_value b\<rparr>"

abbreviation dsub :: "Decimal \<Rightarrow> Decimal \<Rightarrow> Decimal" where
  "dsub a b \<equiv> a\<lparr>d_value := d_value a - d_value b\<rparr>"

lemma Decimal_eta: "\<lparr>d_value = v, d_precision = d_precision a\<rparr> = a\<lparr>d_value := v\<rparr>"
  by (cases a) simp

lemma Add_same [go_prec]: "d_precision a = d_precision b \<Longrightarrow> Add a b = Some (dadd a b)"
  by (simp add: Add_def go_prec Decimal_eta)

lemma Sub_same [go_prec]: "d_precision a = d_precision b \<Longrightarrow> Sub a b = Some (dsub a b)"
  by (simp add: Sub_def go_prec Decimal_eta)

lemma Min_dec_same [go_prec]:
  "d_precision a = d_precision b \<Longrightarrow> Min_dec a b = Some (if ival a \<le> ival b then a else b)"
  by (simp add: Min_dec_def go_prec)

lemma compare_same [go_prec]:
  assumes "d_precision a = d_precision b"
  shows "Equal a b = Some (d_value a = d_value b)"
    and "LessThan a b = Some (ival a < ival b)"
    and "LessThanOrEqual a b = Some (ival a \<le> ival b)"
    and "GreaterThan a b = Some (ival a > ival b)"
    and "GreaterThanOrEqual a b = Some (ival a \<ge> ival b)"
  using assms
  by (simp_all add: Equal_def LessThan_def LessThanOrEqual_def GreaterThan_def
      GreaterThanOrEqual_def go_prec)

lemma precision_mismatch:
  assumes "d_precision a \<noteq> d_precision b"
  shows "Add a b = None" "Sub a b = None" "Min_dec a b = None" "Equal a b = None"
    "LessThan a b = None" "LessThanOrEqual a b = None" "GreaterThan a b = None"
    "GreaterThanOrEqual a b = None" "IsValidTick a b = None" "IsValidLot a b = None"
  using assms
  by (simp_all add: Add_def Sub_def Min_dec_def Equal_def LessThan_def LessThanOrEqual_def
      GreaterThan_def GreaterThanOrEqual_def IsValidTick_def IsValidLot_def assertSamePrecision_def)

lemma Zero_sel [simp]: "d_value (Zero p) = 0" "d_precision (Zero p) = p"
  by (simp_all add: Zero_def)

lemma NewDecimal_sel [simp]: "d_value (NewDecimal v p) = v" "d_precision (NewDecimal v p) = p"
  by (simp_all add: NewDecimal_def)

lemma length_pow10_init: "length (pow10_init n) = Suc n"
  by (induction n) auto

lemma length_pow10 [simp]: "length pow10 = 19"
  by (simp add: pow10_def length_pow10_init)

lemma last_pow10_init: "last (pow10_init n) = 10 ^ n"
  by (induction n) auto

lemma nth_pow10_init: "i \<le> n \<Longrightarrow> pow10_init n ! i = 10 ^ i"
proof (induction n)
  case 0
  then show ?case by simp
next
  case (Suc n)
  show ?case
  proof (cases "i = Suc n")
    case True
    then show ?thesis by (simp add: nth_append length_pow10_init last_pow10_init)
  next
    case False
    with Suc show ?thesis by (simp add: nth_append length_pow10_init)
  qed
qed

lemma pow10_at_eq: "0 \<le> i \<Longrightarrow> i \<le> 18 \<Longrightarrow> pow10_at i = Some (10 ^ nat i)"
  by (simp add: pow10_at_def pow10_def nth_pow10_init length_pow10_init)

lemma pow10_at_None: "18 < i \<Longrightarrow> pow10_at i = None"
  by (simp add: pow10_at_def)

lemma pow10_bound: "n \<le> 18 \<Longrightarrow> (10::int) ^ n < 2 ^ 63"
proof -
  assume "n \<le> 18"
  then have "(10::int) ^ n \<le> 10 ^ 18" by (intro power_increasing) auto
  then show ?thesis by simp
qed

lemma sint_pow10: "n \<le> 18 \<Longrightarrow> sint (10 ^ n :: i64) = 10 ^ n"
proof -
  assume "n \<le> 18"
  then have "in_i64 (10 ^ n)" using pow10_bound by (simp add: in_i64_def order_trans [of _ 0])
  then have "sint (word_of_int (10 ^ n) :: i64) = 10 ^ n" by (rule sint_word_of_int)
  then show ?thesis by simp
qed

lemma unat_pow10: "n \<le> 18 \<Longrightarrow> unat (10 ^ n :: i64) = 10 ^ n"
proof -
  assume n: "n \<le> 18"
  have "uint (10 ^ n :: i64) = 10 ^ n"
    using uint_sint_nonneg [of "10 ^ n"] sint_pow10 [OF n] by simp
  then have "int (unat (10 ^ n :: i64)) = int (10 ^ n)" by simp
  then show ?thesis by (simp only: of_nat_eq_iff)
qed

subsection \<open>Scaled products\<close>

text \<open>The part \<open>Mul\<close> and \<open>MulQty\<close> share: the magnitude of the product, divided by a power of
  ten through the 128-bit intermediate.\<close>

lemma Mul64_parts:
  "unat (fst (Mul64 x y)) = (unat x * unat y) div 2 ^ 64"
  "unat (snd (Mul64 x y)) = (unat x * unat y) mod 2 ^ 64"
proof -
  have "unat x * unat y < 2 ^ 64 * 2 ^ 64"
    by (rule mult_strict_mono) (use unat_word64_less [of x] unat_word64_less [of y] in auto)
  then have "(unat x * unat y) div 2 ^ 64 < 2 ^ 64"
    by (simp add: less_mult_imp_div_less)
  then show "unat (fst (Mul64 x y)) = (unat x * unat y) div 2 ^ 64"
    by (simp add: Mul64_def unat_of_nat64)
  show "unat (snd (Mul64 x y)) = (unat x * unat y) mod 2 ^ 64"
    by (simp add: Mul64_def unat_of_nat64)
qed

lemma scaled_div:
  assumes n: "n \<le> 18"
  shows "div128by64 (fst (Mul64 (go_abs a) (go_abs b))) (snd (Mul64 (go_abs a) (go_abs b))) (10 ^ n)
       = (if \<bar>sint a\<bar> * \<bar>sint b\<bar> div 10 ^ n < 2 ^ 64
          then Some (of_nat (nat (\<bar>sint a\<bar> * \<bar>sint b\<bar> div 10 ^ n))) else None)"
proof -
  define m where "m = unat (go_abs a) * unat (go_abs b)"
  have m: "int m = \<bar>sint a\<bar> * \<bar>sint b\<bar>" by (simp add: m_def uint_go_abs)
  have d: "unat (10 ^ n :: u64) = 10 ^ n" using n by (rule unat_pow10)
  have nz: "(10 ^ n :: u64) \<noteq> 0" using d by (metis power_not_zero unat_0 zero_neq_numeral)
  have le: "(10 ^ n \<le> m div 2 ^ 64) = (2 ^ 64 \<le> m div 10 ^ n)"
    by (simp add: less_eq_div_iff_mult_less_eq mult.commute)
  have q: "int (m div 10 ^ n) = \<bar>sint a\<bar> * \<bar>sint b\<bar> div 10 ^ n"
    by (simp add: zdiv_int m)
  have lt: "(2 ^ 64 \<le> m div 10 ^ n) = (\<not> \<bar>sint a\<bar> * \<bar>sint b\<bar> div 10 ^ n < 2 ^ 64)"
    unfolding q [symmetric] by (simp add: not_less)
  have nat: "nat (\<bar>sint a\<bar> * \<bar>sint b\<bar> div 10 ^ n) = m div 10 ^ n"
    using q by simp
  show ?thesis
    unfolding div128by64_def Div64_def Mul64_parts m_def [symmetric] d nat lt [symmetric]
    using nz le lt by (cases "2 ^ 64 \<le> m div 10 ^ n") auto
qed

text \<open>The truncated quotient of the product, with its sign.\<close>

definition scaled :: "Decimal \<Rightarrow> Decimal \<Rightarrow> nat \<Rightarrow> int" where
  "scaled a b n = (ival a * ival b) sdiv 10 ^ n"

lemma scaled_eq:
  "scaled a b n =
     (if (ival a < 0) \<noteq> (ival b < 0) then - (\<bar>ival a\<bar> * \<bar>ival b\<bar> div 10 ^ n)
      else \<bar>ival a\<bar> * \<bar>ival b\<bar> div 10 ^ n)"
proof -
  have "scaled a b n = sgn (ival a) * sgn (ival b) * (\<bar>ival a\<bar> * \<bar>ival b\<bar> div 10 ^ n)"
    by (simp only: scaled_def sdiv_int_sgn sgn_mult) (simp add: abs_mult)
  then show ?thesis by (auto simp: sgn_if)
qed

lemma MulQty_eq:
  assumes n: "unat (d_precision b) \<le> 18"
  shows "MulQty a b =
    (if \<bar>ival a\<bar> * \<bar>ival b\<bar> div 10 ^ unat (d_precision b) < 2 ^ 64
     then Some \<lparr>d_value = word_of_int (scaled a b (unat (d_precision b))),
                d_precision = d_precision a\<rparr>
     else None)"
proof -
  let ?n = "unat (d_precision b)"
  have "int ?n \<le> 18" using n by linarith
  then have p: "pow10_at (uint (d_precision b)) = Some (10 ^ ?n)"
    using pow10_at_eq [of "uint (d_precision b)"] by simp
  have "0 \<le> \<bar>ival a\<bar> * \<bar>ival b\<bar> div 10 ^ ?n"
    by (intro pos_imp_zdiv_nonneg_iff [THEN iffD2] mult_nonneg_nonneg) auto
  then have w: "(of_nat (nat (\<bar>ival a\<bar> * \<bar>ival b\<bar> div 10 ^ ?n)) :: i64)
      = word_of_int (\<bar>ival a\<bar> * \<bar>ival b\<bar> div 10 ^ ?n)"
    by (metis int_nat_eq of_int_of_nat_eq)
  show ?thesis
    by (simp add: MulQty_def p case_prod_beta scaled_div [OF n] scaled_eq w)
qed

lemma Mul_eq:
  assumes "d_precision a = d_precision b"
  shows "Mul a b = MulQty a b"
  by (simp add: Mul_def MulQty_def assertSamePrecision_same [OF assms] case_prod_beta)

end
