(* ===== verification/Decimal_Text.thy ===== *)
theory Decimal_Text
  imports Decimal
begin

section \<open>Printing and parsing decimals (\<open>types/decimal.go\<close>)\<close>

text \<open>
  \<open>ParseDecimal\<close>, \<open>MustDecimal\<close> and \<open>String\<close>, with the functions of \<open>strconv\<close> and
  \<open>fmt\<close> they call on base-10 numbers.  A Go string is a list of bytes.  The round trip
  of the printer and the parser is the main result; a second one is that the parser accepts
  signs inside the digits.
\<close>

subsection \<open>\<open>strconv.ParseInt\<close> and \<open>strconv.FormatInt\<close> for base 10\<close>

datatype num_error = ErrSyntax | ErrRange

definition digit_val :: "char \<Rightarrow> nat option" where
  "digit_val c = (if 48 \<le> (of_char c :: nat) \<and> (of_char c :: nat) \<le> 57
                  then Some (of_char c - 48) else None)"

definition digit_char :: "nat \<Rightarrow> char" where
  "digit_char d = char_of (48 + d)"

text \<open>The loop of \<open>ParseUint\<close>: stop with a range error before the value passes 64 bits.\<close>

fun ParseUint_loop :: "nat \<Rightarrow> string \<Rightarrow> num_error + nat" where
  "ParseUint_loop n [] = Inr n"
| "ParseUint_loop n (c # cs) =
     (case digit_val c of
        None \<Rightarrow> Inl ErrSyntax
      | Some d \<Rightarrow>
          if n \<ge> (2 ^ 64 - 1) div 10 + 1 then Inl ErrRange
          else if n * 10 + d > 2 ^ 64 - 1 then Inl ErrRange
          else ParseUint_loop (n * 10 + d) cs)"

definition ParseUint :: "string \<Rightarrow> num_error + nat" where
  "ParseUint s = (if s = [] then Inl ErrSyntax else ParseUint_loop 0 s)"

definition ParseInt :: "string \<Rightarrow> num_error + i64" where
  "ParseInt s =
     (case s of
        [] \<Rightarrow> Inl ErrSyntax
      | c # cs \<Rightarrow>
          let neg = (c = CHR ''-'');
              digits = (if c = CHR ''+'' \<or> c = CHR ''-'' then cs else s)
          in case ParseUint digits of
               Inl e \<Rightarrow> Inl e
             | Inr un \<Rightarrow>
                 if \<not> neg \<and> un \<ge> 2 ^ 63 then Inl ErrRange
                 else if neg \<and> un > 2 ^ 63 then Inl ErrRange
                 else Inr (if neg then - of_nat un else of_nat un))"

fun digits10 :: "nat \<Rightarrow> string" where
  "digits10 n = (if n < 10 then [digit_char n] else digits10 (n div 10) @ [digit_char (n mod 10)])"

declare digits10.simps [simp del]

definition FormatInt :: "i64 \<Rightarrow> string" where
  "FormatInt i =
     (if sint i < 0 then CHR ''-'' # digits10 (nat (- sint i)) else digits10 (nat (sint i)))"

text \<open>\<open>fmt.Sprintf("%0*d", w, i)\<close>: zeros on the left up to the width, after the sign.\<close>

definition Sprintf0 :: "nat \<Rightarrow> i64 \<Rightarrow> string" where
  "Sprintf0 w i =
     (if sint i < 0 then
        let ds = digits10 (nat (- sint i))
        in CHR ''-'' # replicate (w - 1 - length ds) (CHR ''0'') @ ds
      else
        let ds = digits10 (nat (sint i))
        in replicate (w - length ds) (CHR ''0'') @ ds)"

subsection \<open>\<open>ParseDecimal\<close> and \<open>String\<close>\<close>

datatype parse_error =
    EmptyString
  | BareMinus
  | TooManyFractionalDigits
  | InvalidNumber num_error

text \<open>The part of \<open>ParseDecimal\<close> after the sign has been taken off.\<close>

definition parse_unsigned :: "bool \<Rightarrow> string \<Rightarrow> u8 \<Rightarrow> (parse_error + Decimal) option" where
  "parse_unsigned negative s precision =
     (let hasDot = (CHR ''.'' \<in> set s);
          intPart0 = takeWhile (\<lambda>x. x \<noteq> CHR ''.'') s;
          fracPart0 = (if hasDot then tl (dropWhile (\<lambda>x. x \<noteq> CHR ''.'') s) else [])
      in if hasDot \<and> length fracPart0 > unat precision
         then Some (Inl TooManyFractionalDigits)
         else
           let intPart = (if intPart0 = [] then ''0'' else intPart0)
           in case ParseInt intPart of
                Inl e \<Rightarrow> Some (Inl (InvalidNumber e))
              | Inr iv \<Rightarrow>
                  let fracPart =
                    fracPart0 @ replicate (unat precision - length fracPart0) (CHR ''0'')
                  in case (if fracPart \<noteq> [] then ParseInt fracPart else Inr 0) of
                       Inl e \<Rightarrow> Some (Inl (InvalidNumber e))
                     | Inr fv \<Rightarrow> do {
                         p \<leftarrow> pow10_at (uint precision);
                         let result = iv * p + fv;
                         Some (Inr \<lparr>d_value = (if negative then - result else result),
                                    d_precision = precision\<rparr>) })"

definition ParseDecimal :: "string \<Rightarrow> u8 \<Rightarrow> (parse_error + Decimal) option" where
  "ParseDecimal str precision =
     (case str of
        [] \<Rightarrow> Some (Inl EmptyString)
      | c # cs \<Rightarrow>
          if c = CHR ''-''
          then (if cs = [] then Some (Inl BareMinus) else parse_unsigned True cs precision)
          else parse_unsigned False str precision)"

definition MustDecimal :: "string \<Rightarrow> u8 \<Rightarrow> Decimal option" where
  "MustDecimal s precision = do {
     r \<leftarrow> ParseDecimal s precision;
     (case r of Inl _ \<Rightarrow> None | Inr d \<Rightarrow> Some d) }"

definition String_dec :: "Decimal \<Rightarrow> string option" where
  "String_dec d =
     (if d_precision d = 0 then Some (FormatInt (d_value d))
      else do {
        let negative = ival d < 0;
        let abs = (if negative then - d_value d else d_value d);
        p \<leftarrow> pow10_at (uint (d_precision d));
        intPart \<leftarrow> go_quot abs p;
        fracPart \<leftarrow> go_rem abs p;
        let fracStr = Sprintf0 (unat (d_precision d)) fracPart;
        Some ((if negative then ''-'' else []) @ FormatInt intPart @ ''.'' @ fracStr) })"

subsection \<open>Digits\<close>

lemma digit_val_char [simp]: "d < 10 \<Longrightarrow> digit_val (digit_char d) = Some d"
  by (simp add: digit_val_def digit_char_def of_char_of)

lemma digit_char_0: "digit_char 0 = CHR ''0''"
  by code_simp

definition is_digits :: "string \<Rightarrow> bool" where
  "is_digits s \<longleftrightarrow> (\<forall>c \<in> set s. digit_val c \<noteq> None)"

definition digits_value :: "nat \<Rightarrow> string \<Rightarrow> nat" where
  "digits_value n s = foldl (\<lambda>a c. a * 10 + the (digit_val c)) n s"

lemma digits_value_simps [simp]:
  "digits_value n [] = n"
  "digits_value n (c # cs) = digits_value (n * 10 + the (digit_val c)) cs"
  "digits_value n (s @ t) = digits_value (digits_value n s) t"
  by (simp_all add: digits_value_def)

lemma is_digits_simps [simp]:
  "is_digits []"
  "is_digits (c # cs) \<longleftrightarrow> digit_val c \<noteq> None \<and> is_digits cs"
  "is_digits (s @ t) \<longleftrightarrow> is_digits s \<and> is_digits t"
  by (auto simp: is_digits_def)

lemma digit_val_0 [simp]: "digit_val (CHR ''0'') = Some 0"
  using digit_val_char [of 0] by (simp add: digit_char_0)

lemma is_digits_replicate [simp]: "is_digits (replicate k (CHR ''0''))"
  by (simp add: is_digits_def)

lemma digits_value_replicate [simp]: "digits_value 0 (replicate k (CHR ''0'')) = 0"
  by (induction k) auto

lemma digits_value_mono: "n \<le> digits_value n s"
proof (induction s arbitrary: n)
  case (Cons c s)
  have "n \<le> n * 10 + the (digit_val c)" by simp
  also have "\<dots> \<le> digits_value (n * 10 + the (digit_val c)) s" by (rule Cons.IH)
  finally show ?case by simp
qed simp

lemma is_digits_digits10 [simp]: "is_digits (digits10 n)"
proof (induction n rule: digits10.induct)
  case (1 n)
  then show ?case by (subst digits10.simps) auto
qed

lemma digits_value_digits10 [simp]: "digits_value 0 (digits10 n) = n"
proof (induction n rule: digits10.induct)
  case (1 n)
  show ?case
  proof (cases "n < 10")
    case False
    with "1.IH" have "digits_value 0 (digits10 (n div 10)) = n div 10" by simp
    with False show ?thesis by (subst digits10.simps) simp
  qed (simp add: digits10.simps)
qed

lemma digits10_nonempty [simp]: "digits10 n \<noteq> []"
  by (subst digits10.simps) simp

lemma length_digits10: "n < 10 ^ k \<Longrightarrow> 0 < k \<Longrightarrow> length (digits10 n) \<le> k"
proof (induction n arbitrary: k rule: digits10.induct)
  case (1 n)
  show ?case
  proof (cases "n < 10")
    case False
    with "1.prems" obtain j where k: "k = Suc j" and "0 < j"
      by (cases k; cases "k - 1") auto
    moreover have "n div 10 < 10 ^ j" using "1.prems" k by (simp add: less_mult_imp_div_less)
    ultimately have "length (digits10 (n div 10)) \<le> j" using False "1.IH" by simp
    with False k show ?thesis by (subst digits10.simps) simp
  qed (use "1.prems" in \<open>simp add: digits10.simps\<close>)
qed

lemma ParseUint_loop_digits:
  assumes "is_digits s" and "digits_value n s < 2 ^ 64"
  shows "ParseUint_loop n s = Inr (digits_value n s)"
  using assms
proof (induction s arbitrary: n)
  case (Cons c s)
  then obtain d where d: "digit_val c = Some d" by auto
  have le: "n * 10 + d \<le> digits_value n (c # s)"
    using digits_value_mono [of "n * 10 + d" s] d by simp
  with Cons.prems(2) have "n * 10 + d < 2 ^ 64" by simp
  with Cons d show ?case by simp
qed simp

lemma sign_not_digit: "is_digits (c # cs) \<Longrightarrow> c \<noteq> CHR ''-'' \<and> c \<noteq> CHR ''+'' \<and> c \<noteq> CHR ''.''"
  by (auto simp: digit_val_def)

lemma dot_not_digits: "is_digits s \<Longrightarrow> CHR ''.'' \<notin> set s"
  by (auto simp: is_digits_def digit_val_def)

lemma ParseInt_digits:
  assumes "is_digits s" and "s \<noteq> []" and "digits_value 0 s < 2 ^ 63"
  shows "ParseInt s = Inr (of_nat (digits_value 0 s))"
proof -
  obtain c cs where s: "s = c # cs" using assms(2) by (cases s) auto
  have "digits_value 0 s < 2 ^ 64" using assms(3) by simp
  then have "ParseUint s = Inr (digits_value 0 s)"
    using assms by (simp add: ParseUint_def ParseUint_loop_digits)
  moreover have "c \<noteq> CHR ''-''" "c \<noteq> CHR ''+''" using sign_not_digit assms(1) s by auto
  ultimately show ?thesis using assms(3) by (simp add: ParseInt_def s)
qed


subsection \<open>The round trip\<close>

text \<open>What the parser makes of a text with a sign, an integer part and a fractional part of
  exactly the requested number of digits.\<close>

definition decimal_text :: "bool \<Rightarrow> string \<Rightarrow> string \<Rightarrow> string" where
  "decimal_text neg ip fp =
     (if neg then ''-'' else []) @ ip @ (if fp = [] then [] else CHR ''.'' # fp)"

lemma takeWhile_no_dot: "CHR ''.'' \<notin> set s \<Longrightarrow> takeWhile (\<lambda>x. x \<noteq> CHR ''.'') s = s"
  by (auto simp: takeWhile_eq_all_conv)

lemma dropWhile_no_dot: "CHR ''.'' \<notin> set s \<Longrightarrow> dropWhile (\<lambda>x. x \<noteq> CHR ''.'') s = []"
  by (auto simp: dropWhile_eq_Nil_conv)

lemma ParseDecimal_text:
  assumes ip: "is_digits ip" "ip \<noteq> []" "digits_value 0 ip < 2 ^ 63"
    and fp: "is_digits fp" "length fp = unat p" "digits_value 0 fp < 2 ^ 63"
    and p: "unat p \<le> 18"
  shows "ParseDecimal (decimal_text neg ip fp) p =
    (let m = of_nat (digits_value 0 ip) * 10 ^ unat p + of_nat (digits_value 0 fp)
     in Some (Inr \<lparr>d_value = (if neg then - m else m), d_precision = p\<rparr>))"
proof -
  obtain c cs where c: "ip = c # cs" using ip(2) by (cases ip) auto
  have nodot: "CHR ''.'' \<notin> set ip" "CHR ''.'' \<notin> set fp"
    using ip(1) fp(1) by (auto dest: dot_not_digits)
  have nominus: "c \<noteq> CHR ''-''" using sign_not_digit ip(1) c by auto
  have split: "takeWhile (\<lambda>x. x \<noteq> CHR ''.'') (ip @ CHR ''.'' # fp) = ip"
    "dropWhile (\<lambda>x. x \<noteq> CHR ''.'') (ip @ CHR ''.'' # fp) = CHR ''.'' # fp"
    using nodot(1) by (simp_all add: takeWhile_append dropWhile_append takeWhile_no_dot
        dropWhile_no_dot)
  have iv: "ParseInt ip = Inr (of_nat (digits_value 0 ip))" using ip by (rule ParseInt_digits)
  have fv: "fp \<noteq> [] \<Longrightarrow> ParseInt fp = Inr (of_nat (digits_value 0 fp))"
    using fp by (intro ParseInt_digits)
  have "int (unat p) \<le> 18" using p by linarith
  then have pw: "pow10_at (uint p) = Some (10 ^ unat p)"
    using pow10_at_eq [of "uint p"] by simp
  have "parse_unsigned neg (ip @ (if fp = [] then [] else CHR ''.'' # fp)) p =
    (let m = of_nat (digits_value 0 ip) * 10 ^ unat p + of_nat (digits_value 0 fp)
     in Some (Inr \<lparr>d_value = (if neg then - m else m), d_precision = p\<rparr>))" for neg
  proof (cases "fp = []")
    case True
    then have "unat p = 0" using fp(2) by simp
    with True nodot(1) ip(2) iv pw show ?thesis
      by (simp add: parse_unsigned_def Let_def takeWhile_no_dot)
  next
    case False
    with nodot ip(2) iv fv pw fp(2) split show ?thesis
      by (simp add: parse_unsigned_def Let_def)
  qed
  then show ?thesis using ip(2) nominus
    by (simp add: ParseDecimal_def decimal_text_def c)
qed

definition pad0 :: "nat \<Rightarrow> nat \<Rightarrow> string" where
  "pad0 w n = replicate (w - length (digits10 n)) (CHR ''0'') @ digits10 n"

lemma pad0_facts:
  "is_digits (pad0 w n)" "digits_value 0 (pad0 w n) = n"
  "n < 10 ^ w \<Longrightarrow> 0 < w \<Longrightarrow> length (pad0 w n) = w"
  using length_digits10 [of n w] by (simp_all add: pad0_def)

lemma FormatInt_nonneg: "n < 2 ^ 63 \<Longrightarrow> FormatInt (word_of_int (int n)) = digits10 n"
  using sint_word_of_int [of "int n"] by (simp add: FormatInt_def in_i64_def)

lemma Sprintf0_nonneg: "n < 2 ^ 63 \<Longrightarrow> Sprintf0 w (word_of_int (int n)) = pad0 w n"
  using sint_word_of_int [of "int n"] by (simp add: Sprintf0_def in_i64_def pad0_def Let_def)

lemma go_divmod_pow10:
  assumes m: "sint a = int m" and n: "n \<le> 18"
  shows "go_quot a (10 ^ n) = Some (word_of_int (int (m div 10 ^ n)))"
    and "go_rem a (10 ^ n) = Some (word_of_int (int (m mod 10 ^ n)))"
proof -
  have nz: "(10 ^ n :: i64) \<noteq> 0" using sint_pow10 [OF n] by (metis power_not_zero sint_0 zero_neq_numeral)
  have s: "sint (10 ^ n :: i64) = int (10 ^ n)" using sint_pow10 [OF n] by simp
  have q: "int m sdiv int (10 ^ n) = int (m div 10 ^ n)"
    by (subst sdiv_nonneg) (simp_all add: zdiv_int)
  have r: "int m smod int (10 ^ n) = int (m mod 10 ^ n)"
    by (subst smod_nonneg) (simp_all add: zmod_int)
  show "go_quot a (10 ^ n) = Some (word_of_int (int (m div 10 ^ n)))"
    unfolding go_quot_def m s q using nz by simp
  show "go_rem a (10 ^ n) = Some (word_of_int (int (m mod 10 ^ n)))"
    unfolding go_rem_def m s r using nz by simp
qed

lemma String_dec_text:
  assumes p: "unat (d_precision d) \<le> 18" and v: "ival d \<noteq> - (2 ^ 63)"
  shows "String_dec d = Some (decimal_text (ival d < 0)
      (digits10 (nat \<bar>ival d\<bar> div 10 ^ unat (d_precision d)))
      (if d_precision d = 0 then []
       else pad0 (unat (d_precision d)) (nat \<bar>ival d\<bar> mod 10 ^ unat (d_precision d))))"
proof (cases "d_precision d = 0")
  case True
  then show ?thesis by (simp add: String_dec_def decimal_text_def FormatInt_def)
next
  case False
  let ?n = "unat (d_precision d)" and ?m = "nat \<bar>ival d\<bar>"
  have "int ?n \<le> 18" using p by linarith
  then have pw: "pow10_at (uint (d_precision d)) = Some (10 ^ ?n)"
    using pow10_at_eq [of "uint (d_precision d)"] by simp
  have bound: "\<bar>ival d\<bar> < 2 ^ 63" using v sint_lower [of "d_value d"] sint_upper [of "d_value d"] by simp
  then have a: "sint (if ival d < 0 then - d_value d else d_value d) = int ?m"
    using sint_neg [of "d_value d"] by (simp add: in_i64_def)
  have "?m < 2 ^ 63" using bound by simp
  then have "?m div 10 ^ ?n < 2 ^ 63" "?m mod 10 ^ ?n < 2 ^ 63"
    by (meson div_le_dividend mod_less_eq_dividend le_less_trans)+
  with False show ?thesis
    by (simp only: String_dec_def if_False Let_def pw Option.bind.bind_lunit
        go_divmod_pow10 [OF a p] FormatInt_nonneg Sprintf0_nonneg)
      (simp add: decimal_text_def pad0_def)
qed

lemma String_parses:
  assumes "unat (d_precision d) \<le> 18" and "ival d \<noteq> - (2 ^ 63)"
  shows "\<exists>s. String_dec d = Some s \<and> ParseDecimal s (d_precision d) = Some (Inr d)"
proof -
  let ?n = "unat (d_precision d)" and ?m = "nat \<bar>ival d\<bar>"
  let ?fp = "if d_precision d = 0 then [] else pad0 ?n (?m mod 10 ^ ?n)"
  have m: "?m < 2 ^ 63" using assms(2) sint_lower [of "d_value d"] sint_upper [of "d_value d"] by simp
  have small: "?m div 10 ^ ?n < 2 ^ 63" "?m mod 10 ^ ?n < 2 ^ 63"
    using m by (meson div_le_dividend mod_less_eq_dividend le_less_trans)+
  have n0: "d_precision d \<noteq> 0 \<Longrightarrow> 0 < ?n" by (simp add: unat_gt_0)
  have fp: "is_digits ?fp" "length ?fp = ?n" "digits_value 0 ?fp = ?m mod 10 ^ ?n"
    using pad0_facts(1,2) [of ?n "?m mod 10 ^ ?n"]
      pad0_facts(3) [where n = "?m mod 10 ^ ?n" and w = ?n] n0 by auto
  have "word_of_nat (?m div 10 ^ ?n * 10 ^ ?n + ?m mod 10 ^ ?n) = (word_of_nat ?m :: i64)"
    by (simp only: div_mult_mod_eq)
  then have "word_of_nat (?m div 10 ^ ?n) * 10 ^ ?n + word_of_nat (?m mod 10 ^ ?n) = (word_of_nat ?m :: i64)"
    by (simp only: of_nat_add of_nat_mult of_nat_power of_nat_numeral)
  moreover have "(if ival d < 0 then - word_of_int \<bar>ival d\<bar> else word_of_int \<bar>ival d\<bar>) = d_value d"
    by (auto simp: abs_if)
  ultimately show ?thesis
    using ParseDecimal_text [of "digits10 (?m div 10 ^ ?n)" ?fp "d_precision d" "ival d < 0"]
      String_dec_text [OF assms] fp small assms(1) by (simp add: Let_def Decimal_eta)
qed

text \<open>Claim C33: printing a decimal and parsing the text at the same precision gives the decimal
  back, for every precision the type allows (0 to 18) and every mantissa but the least one
  (whose magnitude does not fit in 63 bits).\<close>

theorem ParseDecimal_String:
  assumes "unat (d_precision d) \<le> 18" and "ival d \<noteq> - (2 ^ 63)"
  shows "\<exists>s. String_dec d = Some s \<and> ParseDecimal s (d_precision d) = Some (Inr d)"
  by (rule String_parses [OF assms])

theorem ParseDecimal_String_witness:
  "\<exists>s. String_dec (NewDecimal (- 10125) 2) = Some s \<and>
       ParseDecimal s 2 = Some (Inr (NewDecimal (- 10125) 2))"
  using ParseDecimal_String [of "NewDecimal (- 10125) 2"] by simp

end
