(* ===== verification/Order_Types.thy ===== *)
theory Order_Types
  imports Decimal_Text
begin

section \<open>Enumerations and identifiers (\<open>types/\<close>)\<close>

text \<open>
  The enumerations of package \<open>types\<close> are \<open>uint8\<close> constants in Go, and nothing stops a
  caller from passing another byte.  Each datatype has the declared constants and a last
  constructor for a byte that is none of them; the code's comparisons and \<open>switch\<close> defaults
  then behave as in Go.  Identifiers are strings.
\<close>

unbundle bit_operations_syntax

type_synonym OrderID = string
type_synonym UserID = string
type_synonym MarketID = string
type_synonym TradeID = string
type_synonym FillID = string

text \<open>\<open>NewOrderID\<close>, given the ULID it draws; the ids of trades and fills are drawn in \<open>Processor\<close>.\<close>

definition NewOrderID :: "string \<Rightarrow> OrderID" where
  "NewOrderID newULID = ''ord_'' @ newULID"

definition show_byte :: "string \<Rightarrow> u8 \<Rightarrow> string" where
  "show_byte name b = name @ ''('' @ digits10 (unat b) @ '')''"

subsection \<open>\<open>Side\<close>\<close>

datatype Side = Bid | Ask | SideByte u8

definition Opposite :: "Side \<Rightarrow> Side" where
  "Opposite s = (if s = Bid then Ask else Bid)"

definition IsBid :: "Side \<Rightarrow> bool" where
  "IsBid s \<longleftrightarrow> s = Bid"

definition IsAsk :: "Side \<Rightarrow> bool" where
  "IsAsk s \<longleftrightarrow> s = Ask"

fun Side_String :: "Side \<Rightarrow> string" where
  "Side_String Bid = ''bid''"
| "Side_String Ask = ''ask''"
| "Side_String (SideByte b) = show_byte ''Side'' b"

definition SideFromString :: "string \<Rightarrow> unit + Side" where
  "SideFromString s =
     (if s = ''bid'' then Inr Bid else if s = ''ask'' then Inr Ask else Inl ())"

subsection \<open>\<open>TIF\<close>\<close>

datatype TIF = GTC | IOC | FOK | GTD | DAY | TIFByte u8

definition CanRest :: "TIF \<Rightarrow> bool" where
  "CanRest t \<longleftrightarrow> t = GTC \<or> t = GTD \<or> t = DAY"

fun TIF_String :: "TIF \<Rightarrow> string" where
  "TIF_String GTC = ''GTC''"
| "TIF_String IOC = ''IOC''"
| "TIF_String FOK = ''FOK''"
| "TIF_String GTD = ''GTD''"
| "TIF_String DAY = ''DAY''"
| "TIF_String (TIFByte b) = show_byte ''TIF'' b"

subsection \<open>\<open>OrderType\<close>\<close>

datatype OrderType = Limit | Market | Stop | StopLimit | Iceberg | OrderTypeByte u8

definition IsLimit :: "OrderType \<Rightarrow> bool" where
  "IsLimit t \<longleftrightarrow> t = Limit \<or> t = StopLimit \<or> t = Iceberg"

definition IsMarket :: "OrderType \<Rightarrow> bool" where
  "IsMarket t \<longleftrightarrow> t = Market"

definition NeedsPrice :: "OrderType \<Rightarrow> bool" where
  "NeedsPrice t \<longleftrightarrow> t = Limit \<or> t = StopLimit \<or> t = Iceberg"

definition NeedsStopPrice :: "OrderType \<Rightarrow> bool" where
  "NeedsStopPrice t \<longleftrightarrow> t = Stop \<or> t = StopLimit"

fun OrderType_String :: "OrderType \<Rightarrow> string" where
  "OrderType_String Limit = ''limit''"
| "OrderType_String Market = ''market''"
| "OrderType_String Stop = ''stop''"
| "OrderType_String StopLimit = ''stop_limit''"
| "OrderType_String Iceberg = ''iceberg''"
| "OrderType_String (OrderTypeByte b) = show_byte ''OrderType'' b"

subsection \<open>\<open>OrderFlags\<close>\<close>

type_synonym OrderFlags = u32

definition FlagPostOnly :: OrderFlags where "FlagPostOnly = push_bit 0 1"
definition FlagReduceOnly :: OrderFlags where "FlagReduceOnly = push_bit 1 1"
definition FlagIceberg :: OrderFlags where "FlagIceberg = push_bit 2 1"

definition Has :: "OrderFlags \<Rightarrow> OrderFlags \<Rightarrow> bool" where
  "Has flags f \<longleftrightarrow> flags AND f = f"

definition Set_flags :: "OrderFlags \<Rightarrow> OrderFlags \<Rightarrow> OrderFlags" where
  "Set_flags flags f = flags OR f"

definition Clear_flags :: "OrderFlags \<Rightarrow> OrderFlags \<Rightarrow> OrderFlags" where
  "Clear_flags flags f = flags AND NOT f"

lemma Has_Set: "Has (Set_flags flags f) f"
  unfolding Has_def Set_flags_def by (rule bit_word_eqI) (auto simp: bit_simps)

lemma Has_Clear: "f \<noteq> 0 \<Longrightarrow> \<not> Has (Clear_flags flags f) f"
proof -
  have "(flags AND NOT f) AND f = 0" by (rule bit_word_eqI) (auto simp: bit_simps)
  then show "f \<noteq> 0 \<Longrightarrow> \<not> Has (Clear_flags flags f) f" by (simp add: Has_def Clear_flags_def)
qed

subsection \<open>\<open>OrderStatus\<close>, \<open>CancelReason\<close>, \<open>RejectionReason\<close>\<close>

datatype OrderStatus =
    StatusNew | StatusRested | StatusPartialFill | StatusFilled | StatusCanceled
  | StatusRejected | StatusExpired | StatusByte u8

fun OrderStatus_String :: "OrderStatus \<Rightarrow> string" where
  "OrderStatus_String StatusNew = ''new''"
| "OrderStatus_String StatusRested = ''rested''"
| "OrderStatus_String StatusPartialFill = ''partial_fill''"
| "OrderStatus_String StatusFilled = ''filled''"
| "OrderStatus_String StatusCanceled = ''canceled''"
| "OrderStatus_String StatusRejected = ''rejected''"
| "OrderStatus_String StatusExpired = ''expired''"
| "OrderStatus_String (StatusByte b) = show_byte ''OrderStatus'' b"

datatype CancelReason =
    CancelUserRequested | CancelIOC | CancelFOK | CancelSTP | CancelExpired
  | CancelMarketClosed | CancelAdminCancel | CancelByte u8

fun CancelReason_String :: "CancelReason \<Rightarrow> string" where
  "CancelReason_String CancelUserRequested = ''user_requested''"
| "CancelReason_String CancelIOC = ''ioc''"
| "CancelReason_String CancelFOK = ''fok''"
| "CancelReason_String CancelSTP = ''stp''"
| "CancelReason_String CancelExpired = ''expired''"
| "CancelReason_String CancelMarketClosed = ''market_closed''"
| "CancelReason_String CancelAdminCancel = ''admin_cancel''"
| "CancelReason_String (CancelByte b) = show_byte ''CancelReason'' b"

datatype RejectionReason =
    RejectInvalidTick | RejectInvalidLot | RejectBelowMinQty | RejectAboveMaxQty
  | RejectAboveMaxValue | RejectFeatureDisabled | RejectMarketNotOpen
  | RejectPostOnlyWouldCross | RejectFOKFailed | RejectPoolExhausted | RejectPreOrderHook
  | RejectInvalidSide | RejectInvalidPrice | RejectDuplicateOrderID | RejectSTPCancelTaker
  | RejectMaxDepth | RejectOrderNotFound | RejectInvalidExpiry | RejectReduceOnly
  | RejectByte u8

fun RejectionReason_String :: "RejectionReason \<Rightarrow> string" where
  "RejectionReason_String RejectInvalidTick = ''invalid_tick''"
| "RejectionReason_String RejectInvalidLot = ''invalid_lot''"
| "RejectionReason_String RejectBelowMinQty = ''below_min_qty''"
| "RejectionReason_String RejectAboveMaxQty = ''above_max_qty''"
| "RejectionReason_String RejectAboveMaxValue = ''above_max_value''"
| "RejectionReason_String RejectFeatureDisabled = ''feature_disabled''"
| "RejectionReason_String RejectMarketNotOpen = ''market_not_open''"
| "RejectionReason_String RejectPostOnlyWouldCross = ''post_only_would_cross''"
| "RejectionReason_String RejectFOKFailed = ''fok_failed''"
| "RejectionReason_String RejectPoolExhausted = ''pool_exhausted''"
| "RejectionReason_String RejectPreOrderHook = ''pre_order_hook''"
| "RejectionReason_String RejectInvalidSide = ''invalid_side''"
| "RejectionReason_String RejectInvalidPrice = ''invalid_price''"
| "RejectionReason_String RejectDuplicateOrderID = ''duplicate_order_id''"
| "RejectionReason_String RejectSTPCancelTaker = ''stp_cancel_taker''"
| "RejectionReason_String RejectMaxDepth = ''max_depth''"
| "RejectionReason_String RejectOrderNotFound = ''order_not_found''"
| "RejectionReason_String RejectInvalidExpiry = ''invalid_expiry''"
| "RejectionReason_String RejectReduceOnly = ''reduce_only_would_increase_position''"
| "RejectionReason_String (RejectByte b) = show_byte ''RejectionReason'' b"

subsection \<open>\<open>Fill\<close>\<close>

text \<open>The record of one execution, as the match loop builds it.  The last four fields are the
  maker's level right after the fill.\<close>

record Fill =
  f_MakerOrderID :: OrderID
  f_TakerOrderID :: OrderID
  f_MakerUserID :: UserID
  f_TakerUserID :: UserID
  f_MakerSide :: Side
  f_Price :: Decimal
  f_Qty :: Decimal
  f_MakerRemainQty :: Decimal
  f_TakerRemainQty :: Decimal
  f_MakerSeqNum :: u64
  f_TakerSeqNum :: u64
  f_Timestamp :: i64
  f_MakerLevelTotalQty :: Decimal
  f_MakerLevelDisplayQty :: Decimal
  f_MakerLevelOrderCount :: int
  f_MakerLevelExists :: bool

text \<open>The zero value of \<open>Decimal\<close>, which Go gives to fields a literal leaves out.\<close>

definition zeroDecimal :: Decimal where
  "zeroDecimal = \<lparr>d_value = 0, d_precision = 0\<rparr>"

end
