(* ===== verification/Market_Config.thy ===== *)
theory Market_Config
  imports Order_Types
begin

section \<open>Market configuration (\<open>config/\<close>)\<close>

text \<open>
  \<open>MarketConfig\<close> with the feature set, the fee schedule and the circuit-breaker and auction
  sub-configurations, and \<open>Validate\<close>, which also fills in defaults.  A duration is its
  \<open>int64\<close> of nanoseconds and a point in time its Unix nanoseconds.
\<close>

datatype DepthMode = DepthRejectOrder | DepthTreatAsIOC | DepthModeByte u8

datatype STPMode =
  STPDisabled | STPCancelBoth | STPCancelMaker | STPCancelTaker | STPDecrementCancel | STPByte u8

datatype RefMode = RefFirstTrade | RefOpenPrice | RefPrevClose | RefModeByte u8

datatype HaltType = HaltCircuitBreaker | HaltCascadeLimit | HaltAdmin | HaltByte u8

fun HaltType_String :: "HaltType \<Rightarrow> string" where
  "HaltType_String HaltCircuitBreaker = ''circuit_breaker''"
| "HaltType_String HaltCascadeLimit = ''cascade_limit''"
| "HaltType_String HaltAdmin = ''admin''"
| "HaltType_String (HaltByte b) = show_byte ''HaltType'' b"

subsection \<open>Features\<close>

type_synonym FeatureSet = u32

definition FeatureMarketOrders :: FeatureSet where "FeatureMarketOrders = push_bit 0 1"
definition FeatureIOC :: FeatureSet where "FeatureIOC = push_bit 1 1"
definition FeatureFOK :: FeatureSet where "FeatureFOK = push_bit 2 1"
definition FeatureStopOrders :: FeatureSet where "FeatureStopOrders = push_bit 3 1"
definition FeatureIcebergOrders :: FeatureSet where "FeatureIcebergOrders = push_bit 4 1"
definition FeaturePostOnly :: FeatureSet where "FeaturePostOnly = push_bit 5 1"
definition FeatureReduceOnly :: FeatureSet where "FeatureReduceOnly = push_bit 6 1"
definition FeatureAuctions :: FeatureSet where "FeatureAuctions = push_bit 7 1"

definition DefaultFeatures :: FeatureSet where
  "DefaultFeatures = FeatureMarketOrders OR FeatureIOC"

definition Has_feature :: "FeatureSet \<Rightarrow> FeatureSet \<Rightarrow> bool" where
  "Has_feature fs f \<longleftrightarrow> fs AND f = f"

definition Add_feature :: "FeatureSet \<Rightarrow> FeatureSet \<Rightarrow> FeatureSet" where
  "Add_feature fs f = fs OR f"

definition Remove_feature :: "FeatureSet \<Rightarrow> FeatureSet \<Rightarrow> FeatureSet" where
  "Remove_feature fs f = fs AND NOT f"

subsection \<open>Fees, circuit breaker, auction\<close>

datatype FeeModel = FeeModelFlat | FeeModelTiered | FeeModelByte u8

record FeeTier =
  ft_MinVolume :: Decimal
  ft_MakerFeeRate :: Decimal
  ft_TakerFeeRate :: Decimal

record FeeSchedule =
  fs_MakerFeeRate :: Decimal
  fs_TakerFeeRate :: Decimal
  fs_FeeCurrency :: string
  fs_FeeModel :: FeeModel
  fs_Tiers :: "FeeTier list"

record CircuitBreakerConfig =
  cb_WindowDuration :: i64
  cb_MaxMovePercent :: Decimal
  cb_CooldownPeriod :: i64
  cb_ReferenceMode :: RefMode

record AuctionConfig =
  ac_PreOpenDuration :: i64
  ac_OpenTime :: i64
  ac_ReferencePrice :: Decimal

record MarketConfig =
  mc_MarketID :: MarketID
  mc_BaseAsset :: string
  mc_QuoteAsset :: string
  mc_Description :: string
  mc_PricePrecision :: u8
  mc_QtyPrecision :: u8
  mc_TickSize :: Decimal
  mc_LotSize :: Decimal
  mc_MinOrderQty :: Decimal
  mc_MaxOrderQty :: Decimal
  mc_MaxOrderValue :: Decimal
  mc_MaxDepth :: int
  mc_MaxDepthMode :: DepthMode
  mc_Features :: FeatureSet
  mc_STPMode :: STPMode
  mc_FeeSchedule :: FeeSchedule
  mc_CircuitBreaker :: "CircuitBreakerConfig option"
  mc_Auction :: "AuctionConfig option"
  mc_MaxCascadeDepth :: int
  mc_SessionEnd :: i64
  mc_InitialOrderSeq :: u64
  mc_InitialEventSeq :: u64
  mc_CreatedByUserID :: UserID
  mc_CreatedAt :: i64
  mc_UpdatedAt :: i64

subsection \<open>\<open>Validate\<close>\<close>

datatype config_error =
    MarketIDRequired
  | TickSizePrecision | TickSizeNotPositive
  | LotSizePrecision | LotSizeNotPositive
  | MinAboveMaxQty
  | MakerRatePrecision | TakerRatePrecision | TakerRateNegative
  | TieredWithoutTiers | TiersNotAscending
  | AuctionConfigMissing

text \<open>The loop over adjacent tiers: whether every tier's volume is above the one before.\<close>

fun tiersAscending :: "FeeTier list \<Rightarrow> bool option" where
  "tiersAscending (t0 # t1 # ts) = do {
     gt \<leftarrow> GreaterThan (ft_MinVolume t1) (ft_MinVolume t0);
     if \<not> gt then Some False else tiersAscending (t1 # ts) }"
| "tiersAscending _ = Some True"

definition Validate :: "MarketConfig \<Rightarrow> (config_error + MarketConfig) option" where
  "Validate c =
     (if mc_MarketID c = [] then Some (Inl MarketIDRequired)
      else if d_precision (mc_TickSize c) \<noteq> mc_PricePrecision c then Some (Inl TickSizePrecision)
      else if \<not> IsPositive (mc_TickSize c) then Some (Inl TickSizeNotPositive)
      else if d_precision (mc_LotSize c) \<noteq> mc_QtyPrecision c then Some (Inl LotSizePrecision)
      else if \<not> IsPositive (mc_LotSize c) then Some (Inl LotSizeNotPositive)
      else do {
        above \<leftarrow> (if \<not> IsZero (mc_MinOrderQty c) \<and> \<not> IsZero (mc_MaxOrderQty c)
                  then GreaterThan (mc_MinOrderQty c) (mc_MaxOrderQty c) else Some False);
        if above then Some (Inl MinAboveMaxQty)
        else
          let fs = mc_FeeSchedule c in
          if d_precision (fs_MakerFeeRate fs) \<noteq> 4 then Some (Inl MakerRatePrecision)
          else if d_precision (fs_TakerFeeRate fs) \<noteq> 4 then Some (Inl TakerRatePrecision)
          else if IsNegative (fs_TakerFeeRate fs) then Some (Inl TakerRateNegative)
          else if fs_FeeModel fs = FeeModelTiered \<and> fs_Tiers fs = []
          then Some (Inl TieredWithoutTiers)
          else do {
            asc \<leftarrow> tiersAscending (fs_Tiers fs);
            if \<not> asc then Some (Inl TiersNotAscending)
            else if Has_feature (mc_Features c) FeatureAuctions \<and> mc_Auction c = None
            then Some (Inl AuctionConfigMissing)
            else
              let c1 = (if mc_MaxCascadeDepth c = 0 then c\<lparr>mc_MaxCascadeDepth := 10\<rparr> else c);
                  c2 = (if mc_InitialOrderSeq c1 = 0 then c1\<lparr>mc_InitialOrderSeq := 1\<rparr> else c1);
                  c3 = (if mc_InitialEventSeq c2 = 0 then c2\<lparr>mc_InitialEventSeq := 1\<rparr> else c2)
              in Some (Inr c3) } })"

subsection \<open>A market for the examples\<close>

text \<open>Prices with two decimals, whole quantities, every feature enabled, a flat fee of 0.1% for
  makers and 0.2% for takers.\<close>

definition demo_config :: MarketConfig where
  "demo_config = \<lparr>mc_MarketID = ''TEST-USD'', mc_BaseAsset = ''TEST'', mc_QuoteAsset = ''USD'',
     mc_Description = [], mc_PricePrecision = 2, mc_QtyPrecision = 0,
     mc_TickSize = NewDecimal 1 2, mc_LotSize = NewDecimal 1 0, mc_MinOrderQty = Zero 0,
     mc_MaxOrderQty = Zero 0, mc_MaxOrderValue = Zero 2, mc_MaxDepth = 0,
     mc_MaxDepthMode = DepthRejectOrder, mc_Features = 255, mc_STPMode = STPDisabled,
     mc_FeeSchedule = \<lparr>fs_MakerFeeRate = NewDecimal 10 4, fs_TakerFeeRate = NewDecimal 20 4,
       fs_FeeCurrency = ''USD'', fs_FeeModel = FeeModelFlat, fs_Tiers = []\<rparr>,
     mc_CircuitBreaker = None,
     mc_Auction = Some \<lparr>ac_PreOpenDuration = 0, ac_OpenTime = 0, ac_ReferencePrice = NewDecimal 10000 2\<rparr>,
     mc_MaxCascadeDepth = 10, mc_SessionEnd = 0, mc_InitialOrderSeq = 1, mc_InitialEventSeq = 1,
     mc_CreatedByUserID = [], mc_CreatedAt = 0, mc_UpdatedAt = 0\<rparr>"

lemma demo_config_valid: "Validate demo_config = Some (Inr demo_config)"
  by (simp add: Validate_def demo_config_def Has_feature_def FeatureAuctions_def IsPositive_def
      IsZero_def IsNegative_def)

end
