(* ===== verification/Pool.thy ===== *)
theory Pool
  imports Go_Prelude
begin

section \<open>Object pools and sequence counters (\<open>pool/\<close>, \<open>sequence/\<close>)\<close>

text \<open>
  \<open>pool.Pool[T]\<close>: a fixed array of slots with a stack of the free ones.  An object is
  known by its slot index, which the caller stores and gives back.  \<open>Release\<close> does not check
  that the slot is in use: what the theory proves is the contract a careful client gets
  (locale \<open>slot_allocator\<close>), which the order book rests on.
\<close>

subsection \<open>The pool\<close>

record 'a Pool =
  store :: "'a list"
  free :: "nat list"
  top :: nat
  capacity :: nat

datatype pool_error = ErrPoolExhausted

definition New :: "'a \<Rightarrow> nat \<Rightarrow> 'a Pool" where
  "New zero cap =
     \<lparr>store = replicate cap zero, free = map (\<lambda>i. cap - 1 - i) [0..<cap], top = cap,
      capacity = cap\<rparr>"

text \<open>\<open>zero\<close> is the zero value of the slot type, which \<open>Acquire\<close> writes into the slot.\<close>

definition Acquire :: "'a \<Rightarrow> 'a Pool \<Rightarrow> pool_error + ('a Pool \<times> nat)" where
  "Acquire zero p =
     (if top p = 0 then Inl ErrPoolExhausted
      else let t = top p - 1; idx = free p ! t
           in Inr (p\<lparr>top := t, store := (store p)[idx := zero]\<rparr>, idx))"

text \<open>Writing above the end of the stack is an index error in Go.\<close>

definition Release :: "nat \<Rightarrow> 'a Pool \<Rightarrow> 'a Pool option" where
  "Release idx p =
     (if top p < length (free p)
      then Some (p\<lparr>free := (free p)[top p := idx], top := top p + 1\<rparr>) else None)"

definition Len :: "'a Pool \<Rightarrow> nat" where
  "Len p = capacity p - top p"

definition Capacity :: "'a Pool \<Rightarrow> nat" where
  "Capacity p = capacity p"

subsection \<open>Slots in use\<close>

definition free_slots :: "'a Pool \<Rightarrow> nat set" where
  "free_slots p = set (take (top p) (free p))"

definition used_slots :: "'a Pool \<Rightarrow> nat set" where
  "used_slots p = {..<capacity p} - free_slots p"

definition pool_ok :: "'a Pool \<Rightarrow> bool" where
  "pool_ok p \<longleftrightarrow>
     length (store p) = capacity p \<and> length (free p) = capacity p \<and> top p \<le> capacity p \<and>
     distinct (take (top p) (free p)) \<and> free_slots p \<subseteq> {..<capacity p}"

lemma pool_ok_New: "pool_ok (New zero cap)"
  by (auto simp: pool_ok_def New_def free_slots_def distinct_map inj_on_def)

lemma used_slots_New: "used_slots (New zero cap) = {}"
proof -
  have "{..<cap} \<subseteq> (\<lambda>i. cap - 1 - i) ` {0..<cap}"
  proof
    fix x assume "x \<in> {..<cap}"
    then have "x = cap - 1 - (cap - 1 - x)" "cap - 1 - x \<in> {0..<cap}" by auto
    then show "x \<in> (\<lambda>i. cap - 1 - i) ` {0..<cap}" by blast
  qed
  then show ?thesis by (auto simp: used_slots_def free_slots_def New_def)
qed

lemma card_used_slots: "pool_ok p \<Longrightarrow> card (used_slots p) = Len p"
  by (simp add: pool_ok_def used_slots_def Len_def free_slots_def card_Diff_subset distinct_card
      del: distinct_card [symmetric])

lemma used_slots_bound: "i \<in> used_slots p \<Longrightarrow> i < capacity p"
  by (simp add: used_slots_def)

lemma Acquire_exhausted: "pool_ok p \<Longrightarrow> Acquire zero p = Inl ErrPoolExhausted \<longleftrightarrow> Len p = Capacity p"
  by (auto simp: Acquire_def Len_def Capacity_def pool_ok_def Let_def)

lemma Acquire_ok:
  assumes ok: "pool_ok p" and acq: "Acquire zero p = Inr (p', i)"
  shows "pool_ok p'" "i \<notin> used_slots p" "used_slots p' = insert i (used_slots p)"
    "store p' = (store p)[i := zero]" "i < length (store p)" "capacity p' = capacity p"
proof -
  define t where "t = top p - 1"
  have t: "top p = Suc t" and i: "i = free p ! t"
    and p': "p' = p\<lparr>top := t, store := (store p)[i := zero]\<rparr>"
    using acq by (auto simp: Acquire_def t_def Let_def split: if_splits)
  have len: "t < length (free p)" using ok t by (simp add: pool_ok_def)
  have split: "take (top p) (free p) = take t (free p) @ [i]"
    using len by (simp add: t i take_Suc_conv_app_nth)
  have ilt: "i < capacity p" using ok by (auto simp: pool_ok_def free_slots_def split)
  show "pool_ok p'" using ok t split by (auto simp: pool_ok_def p' free_slots_def)
  show "i \<notin> used_slots p" by (simp add: used_slots_def free_slots_def split)
  show "used_slots p' = insert i (used_slots p)"
    using ok ilt by (auto simp: pool_ok_def used_slots_def free_slots_def split p')
  show "store p' = (store p)[i := zero]" "capacity p' = capacity p" by (simp_all add: p')
  show "i < length (store p)" using ok ilt by (simp add: pool_ok_def)
qed

lemma Release_ok:
  assumes ok: "pool_ok p" and used: "i \<in> used_slots p"
  shows "\<exists>p'. Release i p = Some p' \<and> pool_ok p' \<and> used_slots p' = used_slots p - {i} \<and>
           store p' = store p \<and> capacity p' = capacity p"
proof -
  have "0 < card (used_slots p)" using used by (auto simp: card_gt_0_iff used_slots_def)
  then have lt: "top p < length (free p)"
    using card_used_slots [OF ok] ok by (auto simp: Len_def pool_ok_def)
  let ?p = "p\<lparr>free := (free p)[top p := i], top := top p + 1\<rparr>"
  have split: "take (top ?p) (free ?p) = take (top p) (free p) @ [i]"
    using lt by (simp add: take_Suc_conv_app_nth)
  have "i \<notin> free_slots p" "i < capacity p" using used by (auto simp: used_slots_def)
  then have "pool_ok ?p" using ok lt split by (auto simp: pool_ok_def free_slots_def)
  moreover have "used_slots ?p = used_slots p - {i}"
    using split by (auto simp: used_slots_def free_slots_def)
  ultimately show ?thesis using lt by (simp add: Release_def)
qed

subsection \<open>The allocator contract\<close>

locale slot_allocator =
  fixes acquire :: "'p \<Rightarrow> 'e + ('p \<times> nat)"
    and release :: "nat \<Rightarrow> 'p \<Rightarrow> 'p option"
    and used :: "'p \<Rightarrow> nat set"
    and invar :: "'p \<Rightarrow> bool"
    and cap :: "'p \<Rightarrow> nat"
  assumes used_bound: "invar p \<Longrightarrow> used p \<subseteq> {..<cap p}"
    and acquire_fails: "invar p \<Longrightarrow> acquire p = Inl e \<Longrightarrow> card (used p) = cap p"
    and acquire_invar: "invar p \<Longrightarrow> acquire p = Inr (p', i) \<Longrightarrow> invar p' \<and> cap p' = cap p"
    and acquire_fresh: "invar p \<Longrightarrow> acquire p = Inr (p', i) \<Longrightarrow> i \<notin> used p"
    and acquire_used: "invar p \<Longrightarrow> acquire p = Inr (p', i) \<Longrightarrow> used p' = insert i (used p)"
    and release_used: "invar p \<Longrightarrow> i \<in> used p \<Longrightarrow>
      \<exists>p'. release i p = Some p' \<and> invar p' \<and> used p' = used p - {i} \<and> cap p' = cap p"
begin

lemma finite_used: "invar p \<Longrightarrow> finite (used p)"
  using used_bound finite_subset by blast

lemma acquire_succeeds:
  assumes "invar p" and "card (used p) < cap p"
  obtains p' i where "acquire p = Inr (p', i)" "invar p'" "i \<notin> used p" "used p' = insert i (used p)"
    "cap p' = cap p"
proof (cases "acquire p")
  case (Inl e)
  then show thesis using acquire_fails [OF assms(1)] assms(2) by auto
next
  case (Inr r)
  then obtain p' i where "acquire p = Inr (p', i)" by (cases r) auto
  with that acquire_invar acquire_fresh acquire_used assms(1) show thesis by blast
qed

text \<open>A slot that is acquired and released at once leaves the slots in use as they were.\<close>

lemma acquire_release:
  assumes "invar p" and "acquire p = Inr (p1, i)"
  obtains p2 where "release i p1 = Some p2" "invar p2" "used p2 = used p" "cap p2 = cap p"
proof -
  have "invar p1" "cap p1 = cap p" "i \<notin> used p" "used p1 = insert i (used p)"
    using assms acquire_invar acquire_fresh acquire_used by blast+
  with release_used [of p1 i] that show thesis by auto
qed

end

interpretation pool_slots: slot_allocator "Acquire zero" Release used_slots pool_ok Capacity
proof
  fix p p' :: "'a Pool" and i e
  assume ok: "pool_ok p"
  show "used_slots p \<subseteq> {..<Capacity p}" by (auto simp: used_slots_def Capacity_def)
  show "Acquire zero p = Inl e \<Longrightarrow> card (used_slots p) = Capacity p"
    using Acquire_exhausted [OF ok, of zero] card_used_slots [OF ok] by (cases e) auto
  assume acq: "Acquire zero p = Inr (p', i)"
  show "pool_ok p' \<and> Capacity p' = Capacity p" "i \<notin> used_slots p"
    "used_slots p' = insert i (used_slots p)"
    using Acquire_ok [OF ok acq] by (simp_all add: Capacity_def)
next
  fix p :: "'a Pool" and i
  assume "pool_ok p" "i \<in> used_slots p"
  then show "\<exists>p'. Release i p = Some p' \<and> pool_ok p' \<and> used_slots p' = used_slots p - {i} \<and>
      Capacity p' = Capacity p"
    using Release_ok [of p i] by (auto simp: Capacity_def)
qed

subsection \<open>Sequence counters\<close>

record Counter =
  cnt :: u64

definition NewCounter :: "u64 \<Rightarrow> Counter" where
  "NewCounter start = \<lparr>cnt = start - 1\<rparr>"

definition Next :: "Counter \<Rightarrow> Counter \<times> u64" where
  "Next c = (c\<lparr>cnt := cnt c + 1\<rparr>, cnt c + 1)"

definition Peek :: "Counter \<Rightarrow> u64" where
  "Peek c = cnt c"

definition Reset_counter :: "u64 \<Rightarrow> Counter \<Rightarrow> Counter" where
  "Reset_counter n c = c\<lparr>cnt := n\<rparr>"

lemma NewCounter_first: "snd (Next (NewCounter start)) = start"
  by (simp add: Next_def NewCounter_def)

end
