(* ===== verification/Linked_Queue.thy ===== *)
theory Linked_Queue
  imports Go_Prelude
begin

section \<open>Doubly linked queues\<close>

text \<open>
  Price levels (\<open>book/level.go\<close>) and stop levels (\<open>stopbook/stoplevel.go\<close>) are doubly
  linked lists through the \<open>prev\<close> and \<open>next\<close> pointers of their nodes.  The theory states
  when a list of slots is such a queue, over the two pointer functions \<open>pv\<close> and \<open>nx\<close>, and
  what unlinking a node and appending one do.
\<close>

definition first :: "nat list \<Rightarrow> nat option \<Rightarrow> nat option" where
  "first xs n = (case xs of [] \<Rightarrow> n | x # _ \<Rightarrow> Some x)"

definition final :: "nat list \<Rightarrow> nat option \<Rightarrow> nat option" where
  "final xs p = (if xs = [] then p else Some (last xs))"

lemma first_simps [simp]: "first [] n = n" "first (x # xs) n = Some x"
  by (simp_all add: first_def)

lemma final_simps [simp]: "final [] p = p" "final (xs @ [x]) p = Some x"
  by (simp_all add: final_def)

lemma final_Cons: "final (x # xs) p = final xs (Some x)"
  by (simp add: final_def)

lemma first_append: "first (xs @ ys) n = first xs (first ys n)"
  by (cases xs) auto

lemma first_None_iff [simp]: "first xs None = None \<longleftrightarrow> xs = []"
  by (cases xs) auto

lemma final_None_iff [simp]: "final xs None = None \<longleftrightarrow> xs = []"
  by (simp add: final_def)

fun linked :: "(nat \<Rightarrow> nat option) \<Rightarrow> (nat \<Rightarrow> nat option) \<Rightarrow> nat option \<Rightarrow> nat list \<Rightarrow>
    nat option \<Rightarrow> bool" where
  "linked pv nx p [] n \<longleftrightarrow> True"
| "linked pv nx p (x # xs) n \<longleftrightarrow> pv x = p \<and> nx x = first xs n \<and> linked pv nx (Some x) xs n"

lemma linked_append:
  "linked pv nx p (xs @ ys) n \<longleftrightarrow> linked pv nx p xs (first ys n) \<and> linked pv nx (final xs p) ys n"
  by (induction xs arbitrary: p) (auto simp: first_append final_Cons)

lemma linked_middle:
  assumes "linked pv nx p (xs @ x # ys) n"
  shows "pv x = final xs p" "nx x = first ys n"
  using assms by (simp_all add: linked_append)

lemma linked_cong:
  assumes "\<And>i. i \<in> set xs \<Longrightarrow> pv' i = pv i \<and> nx' i = nx i"
  shows "linked pv' nx' p xs n = linked pv nx p xs n"
  using assms by (induction xs arbitrary: p) auto

text \<open>Only the last node looks at what follows the segment, and only the first at what
  precedes it.\<close>

lemma linked_set_next:
  assumes "linked pv nx p xs n" and "distinct xs"
    and "\<And>i. i \<in> set xs \<Longrightarrow> pv' i = pv i"
    and "\<And>i. i \<in> set xs \<Longrightarrow> nx' i = (if i = last xs then n' else nx i)"
  shows "linked pv' nx' p xs n'"
  using assms
proof (induction xs arbitrary: p)
  case (Cons x xs)
  have "linked pv' nx' (Some x) xs n'"
    using Cons by (cases xs) (auto intro!: Cons.IH)
  then show ?case using Cons.prems by (cases xs) auto
qed simp

lemma linked_set_prev:
  assumes "linked pv nx p xs n" and "distinct xs"
    and "\<And>i. i \<in> set xs \<Longrightarrow> pv' i = (if i = hd xs then p' else pv i)"
    and "\<And>i. i \<in> set xs \<Longrightarrow> nx' i = nx i"
  shows "linked pv' nx' p' xs n"
proof (cases xs)
  case (Cons x ys)
  have "\<And>i. i \<in> set ys \<Longrightarrow> pv' i = pv i \<and> nx' i = nx i"
    using assms Cons by auto
  then have "linked pv' nx' (Some x) ys n"
    using linked_cong [of ys pv' pv nx' nx "Some x" n] assms(1) Cons by simp
  then show ?thesis using assms Cons by simp
qed simp

lemma linked_unlink:
  assumes "linked pv nx None (xs @ x # ys) None" and "distinct (xs @ x # ys)"
    and "\<And>i. i \<in> set xs \<Longrightarrow> pv' i = pv i"
    and "\<And>i. i \<in> set xs \<Longrightarrow> nx' i = (if i = last xs then first ys None else nx i)"
    and "\<And>i. i \<in> set ys \<Longrightarrow> pv' i = (if i = hd ys then final xs None else pv i)"
    and "\<And>i. i \<in> set ys \<Longrightarrow> nx' i = nx i"
  shows "linked pv' nx' None (xs @ ys) None"
proof -
  have "linked pv nx None xs (Some x)" "linked pv nx (Some x) ys None"
    using assms(1) by (simp_all add: linked_append)
  then have "linked pv' nx' None xs (first ys None)" "linked pv' nx' (final xs None) ys None"
    using assms(2-) linked_set_next [of pv nx None xs "Some x" pv' nx' "first ys None"]
      linked_set_prev [of pv nx "Some x" ys None pv' "final xs None" nx'] by auto
  then show ?thesis by (simp add: linked_append)
qed

lemma linked_snoc:
  assumes "linked pv nx None xs None" and "distinct xs" and "x \<notin> set xs"
    and "\<And>i. i \<in> set xs \<Longrightarrow> pv' i = pv i"
    and "\<And>i. i \<in> set xs \<Longrightarrow> nx' i = (if i = last xs then Some x else nx i)"
    and "pv' x = final xs None" and "nx' x = None"
  shows "linked pv' nx' None (xs @ [x]) None"
  using assms linked_set_next [of pv nx None xs None pv' nx' "Some x"] by (simp add: linked_append)

text \<open>Following the \<open>next\<close> pointers from the head, for at most \<open>k\<close> nodes.\<close>

fun chain :: "(nat \<Rightarrow> nat option) \<Rightarrow> nat \<Rightarrow> nat option \<Rightarrow> nat list" where
  "chain nx 0 p = []"
| "chain nx (Suc k) p = (case p of None \<Rightarrow> [] | Some i \<Rightarrow> i # chain nx k (nx i))"

lemma chain_linked:
  "linked pv nx p xs None \<Longrightarrow> length xs \<le> k \<Longrightarrow> chain nx k (first xs None) = xs"
proof (induction xs arbitrary: p k)
  case Nil
  then show ?case by (cases k) auto
next
  case (Cons x xs)
  then show ?case by (cases k) auto
qed

end
