(* ===== verification/Book_Heap.thy ===== *)
theory Book_Heap
  imports Market_Config Pool Linked_Queue
begin

section \<open>Orders and price levels in memory (\<open>book/node.go\<close>, \<open>book/level.go\<close>)\<close>

text \<open>
  An order is a slot of the node pool and a price level a slot of the level pool; both pools
  together are the \<open>heap\<close> the order book works on.  A pointer is the slot's index.  The
  operations of \<open>PriceLevel\<close> change the heap pointer by pointer, in the order of the code.
\<close>

record OrderNode =
  n_OrderID :: OrderID
  n_UserID :: UserID
  n_MarketID :: MarketID
  n_Side :: Side
  n_Type :: OrderType
  n_TIF :: TIF
  n_Flags :: OrderFlags
  n_STPMode :: STPMode
  n_Price :: Decimal
  n_StopPrice :: Decimal
  n_OrigQty :: Decimal
  n_RemainQty :: Decimal
  n_FilledQty :: Decimal
  n_DisplayQty :: Decimal
  n_HiddenQty :: Decimal
  n_OrigDisplayQty :: Decimal
  n_SeqNum :: u64
  n_Timestamp :: i64
  n_ExpireAt :: i64
  n_prev :: "nat option"
  n_next :: "nat option"
  n_level :: "nat option"
  n_PoolIndex :: nat

record PriceLevel =
  l_Price :: Decimal
  l_TotalQty :: Decimal
  l_DisplayQty :: Decimal
  l_OrderCount :: int
  l_Head :: "nat option"
  l_Tail :: "nat option"
  l_PoolIndex :: nat

text \<open>The zero values, which \<open>Acquire\<close> writes into a slot.\<close>

definition zeroNode :: OrderNode where
  "zeroNode = \<lparr>n_OrderID = [], n_UserID = [], n_MarketID = [], n_Side = SideByte 0,
     n_Type = OrderTypeByte 0, n_TIF = TIFByte 0, n_Flags = 0, n_STPMode = STPDisabled,
     n_Price = zeroDecimal, n_StopPrice = zeroDecimal, n_OrigQty = zeroDecimal,
     n_RemainQty = zeroDecimal, n_FilledQty = zeroDecimal, n_DisplayQty = zeroDecimal,
     n_HiddenQty = zeroDecimal, n_OrigDisplayQty = zeroDecimal, n_SeqNum = 0, n_Timestamp = 0,
     n_ExpireAt = 0, n_prev = None, n_next = None, n_level = None, n_PoolIndex = 0\<rparr>"

definition zeroLevel :: PriceLevel where
  "zeroLevel = \<lparr>l_Price = zeroDecimal, l_TotalQty = zeroDecimal, l_DisplayQty = zeroDecimal,
     l_OrderCount = 0, l_Head = None, l_Tail = None, l_PoolIndex = 0\<rparr>"

subsection \<open>The heap\<close>

record heap =
  h_nodes :: "OrderNode Pool"
  h_levels :: "PriceLevel Pool"

definition node :: "heap \<Rightarrow> nat \<Rightarrow> OrderNode" where
  "node h i = store (h_nodes h) ! i"

definition level :: "heap \<Rightarrow> nat \<Rightarrow> PriceLevel" where
  "level h l = store (h_levels h) ! l"

definition set_node :: "nat \<Rightarrow> (OrderNode \<Rightarrow> OrderNode) \<Rightarrow> heap \<Rightarrow> heap" where
  "set_node i f h = h\<lparr>h_nodes := (h_nodes h)\<lparr>store := (store (h_nodes h))[i := f (node h i)]\<rparr>\<rparr>"

definition set_level :: "nat \<Rightarrow> (PriceLevel \<Rightarrow> PriceLevel) \<Rightarrow> heap \<Rightarrow> heap" where
  "set_level l f h =
     h\<lparr>h_levels := (h_levels h)\<lparr>store := (store (h_levels h))[l := f (level h l)]\<rparr>\<rparr>"

subsection \<open>The operations of a price level\<close>

definition Append :: "nat \<Rightarrow> nat \<Rightarrow> heap \<Rightarrow> heap option" where
  "Append l i h = do {
     let h = (case l_Tail (level h l) of
         None \<Rightarrow>
           set_node i (\<lambda>n. n\<lparr>n_prev := None, n_next := None\<rparr>)
             (set_level l (\<lambda>v. v\<lparr>l_Head := Some i, l_Tail := Some i\<rparr>) h)
       | Some t \<Rightarrow>
           set_level l (\<lambda>v. v\<lparr>l_Tail := Some i\<rparr>)
             (set_node t (\<lambda>n. n\<lparr>n_next := Some i\<rparr>)
               (set_node i (\<lambda>n. n\<lparr>n_prev := Some t, n_next := None\<rparr>) h)));
     total \<leftarrow> Add (l_TotalQty (level h l)) (n_RemainQty (node h i));
     let h = set_level l (\<lambda>v. v\<lparr>l_TotalQty := total\<rparr>) h;
     display \<leftarrow> Add (l_DisplayQty (level h l)) (n_DisplayQty (node h i));
     let h = set_level l (\<lambda>v. v\<lparr>l_DisplayQty := display\<rparr>) h;
     let h = set_level l (\<lambda>v. v\<lparr>l_OrderCount := l_OrderCount v + 1\<rparr>) h;
     Some (set_node i (\<lambda>n. n\<lparr>n_level := Some l\<rparr>) h) }"

text \<open>The four assignments that take a node out of the chain, which \<open>Unlink\<close> and
  \<open>ReplenishIceberg\<close> both have.\<close>

definition take_out :: "nat \<Rightarrow> nat \<Rightarrow> heap \<Rightarrow> heap" where
  "take_out l i h =
     (let h = (case n_prev (node h i) of
           Some p \<Rightarrow> set_node p (\<lambda>n. n\<lparr>n_next := n_next (node h i)\<rparr>) h
         | None \<Rightarrow> set_level l (\<lambda>v. v\<lparr>l_Head := n_next (node h i)\<rparr>) h)
      in case n_next (node h i) of
           Some s \<Rightarrow> set_node s (\<lambda>n. n\<lparr>n_prev := n_prev (node h i)\<rparr>) h
         | None \<Rightarrow> set_level l (\<lambda>v. v\<lparr>l_Tail := n_prev (node h i)\<rparr>) h)"

definition Unlink :: "nat \<Rightarrow> nat \<Rightarrow> heap \<Rightarrow> heap option" where
  "Unlink l i h = do {
     let h = take_out l i h;
     total \<leftarrow> Sub (l_TotalQty (level h l)) (n_RemainQty (node h i));
     let h = set_level l (\<lambda>v. v\<lparr>l_TotalQty := total\<rparr>) h;
     display \<leftarrow> Sub (l_DisplayQty (level h l)) (n_DisplayQty (node h i));
     let h = set_level l (\<lambda>v. v\<lparr>l_DisplayQty := display\<rparr>) h;
     let h = set_level l (\<lambda>v. v\<lparr>l_OrderCount := l_OrderCount v - 1\<rparr>) h;
     Some (set_node i (\<lambda>n. n\<lparr>n_prev := None, n_next := None, n_level := None\<rparr>) h) }"

definition DecrementQty :: "nat \<Rightarrow> nat \<Rightarrow> Decimal \<Rightarrow> heap \<Rightarrow> heap option" where
  "DecrementQty l i fillQty h = do {
     remain \<leftarrow> Sub (n_RemainQty (node h i)) fillQty;
     let h = set_node i (\<lambda>n. n\<lparr>n_RemainQty := remain\<rparr>) h;
     filled \<leftarrow> Add (n_FilledQty (node h i)) fillQty;
     let h = set_node i (\<lambda>n. n\<lparr>n_FilledQty := filled\<rparr>) h;
     displayFill \<leftarrow> Min_dec fillQty (n_DisplayQty (node h i));
     display \<leftarrow> Sub (n_DisplayQty (node h i)) displayFill;
     let h = set_node i (\<lambda>n. n\<lparr>n_DisplayQty := display\<rparr>) h;
     total \<leftarrow> Sub (l_TotalQty (level h l)) fillQty;
     let h = set_level l (\<lambda>v. v\<lparr>l_TotalQty := total\<rparr>) h;
     ldisplay \<leftarrow> Sub (l_DisplayQty (level h l)) displayFill;
     Some (set_level l (\<lambda>v. v\<lparr>l_DisplayQty := ldisplay\<rparr>) h) }"

definition ReplenishIceberg :: "nat \<Rightarrow> nat \<Rightarrow> u64 \<Rightarrow> heap \<Rightarrow> heap option" where
  "ReplenishIceberg l i newSeqNum h = do {
     replenish \<leftarrow> Min_dec (n_HiddenQty (node h i)) (n_OrigDisplayQty (node h i));
     total \<leftarrow> Sub (l_TotalQty (level h l)) (n_RemainQty (node h i));
     let h = set_level l (\<lambda>v. v\<lparr>l_TotalQty := total\<rparr>) h;
     display \<leftarrow> Sub (l_DisplayQty (level h l)) (n_DisplayQty (node h i));
     let h = set_level l (\<lambda>v. v\<lparr>l_DisplayQty := display, l_OrderCount := l_OrderCount v - 1\<rparr>) h;
     hidden \<leftarrow> Sub (n_HiddenQty (node h i)) replenish;
     let h = set_node i (\<lambda>n. n\<lparr>n_HiddenQty := hidden, n_RemainQty := replenish,
                               n_DisplayQty := replenish, n_SeqNum := newSeqNum\<rparr>) h;
     let h = take_out l i h;
     let h = set_node i (\<lambda>n. n\<lparr>n_prev := None, n_next := None\<rparr>) h;
     let h = (case l_Tail (level h l) of
         None \<Rightarrow> set_level l (\<lambda>v. v\<lparr>l_Head := Some i, l_Tail := Some i\<rparr>) h
       | Some t \<Rightarrow>
           set_level l (\<lambda>v. v\<lparr>l_Tail := Some i\<rparr>)
             (set_node t (\<lambda>n. n\<lparr>n_next := Some i\<rparr>)
               (set_node i (\<lambda>n. n\<lparr>n_prev := Some t\<rparr>) h)));
     total \<leftarrow> Add (l_TotalQty (level h l)) (n_RemainQty (node h i));
     let h = set_level l (\<lambda>v. v\<lparr>l_TotalQty := total\<rparr>) h;
     display \<leftarrow> Add (l_DisplayQty (level h l)) (n_DisplayQty (node h i));
     let h = set_level l (\<lambda>v. v\<lparr>l_DisplayQty := display, l_OrderCount := l_OrderCount v + 1\<rparr>) h;
     Some (set_node i (\<lambda>n. n\<lparr>n_level := Some l\<rparr>) h) }"

definition IsEmpty_level :: "PriceLevel \<Rightarrow> bool" where
  "IsEmpty_level v \<longleftrightarrow> l_Head v = None"

subsection \<open>Reading and writing the heap\<close>

text \<open>The order without its links, which is what the rest of the program sees of it.\<close>

definition core :: "OrderNode \<Rightarrow> OrderNode" where
  "core n = n\<lparr>n_prev := None, n_next := None, n_level := None\<rparr>"

text \<open>What an operation on existing slots leaves as it is: the allocation of both pools.\<close>

definition alloc :: "'a Pool \<Rightarrow> nat list \<times> nat \<times> nat \<times> nat" where
  "alloc p = (free p, top p, capacity p, length (store p))"

definition same_alloc :: "heap \<Rightarrow> heap \<Rightarrow> bool" where
  "same_alloc h h' \<longleftrightarrow>
     alloc (h_nodes h') = alloc (h_nodes h) \<and> alloc (h_levels h') = alloc (h_levels h)"

abbreviation nodes_n :: "heap \<Rightarrow> nat" where
  "nodes_n h \<equiv> length (store (h_nodes h))"

abbreviation levels_n :: "heap \<Rightarrow> nat" where
  "levels_n h \<equiv> length (store (h_levels h))"

named_theorems heap_simps \<open>reading the heap after a write\<close>

lemma node_set_node [heap_simps]:
  "i < nodes_n h \<Longrightarrow> node (set_node i f h) = (node h)(i := f (node h i))"
  by (auto simp: node_def set_node_def)

lemma level_set_level [heap_simps]:
  "l < levels_n h \<Longrightarrow> level (set_level l f h) = (level h)(l := f (level h l))"
  by (auto simp: level_def set_level_def)

lemma heap_frame [heap_simps]:
  "level (set_node i f h) = level h" "node (set_level l g h) = node h"
  "nodes_n (set_node i f h) = nodes_n h" "nodes_n (set_level l g h) = nodes_n h"
  "levels_n (set_node i f h) = levels_n h" "levels_n (set_level l g h) = levels_n h"
  by (auto simp: node_def level_def set_node_def set_level_def)

lemma same_alloc_refl [heap_simps]: "same_alloc h h"
  by (simp add: same_alloc_def)

lemma same_alloc_trans: "same_alloc h1 h2 \<Longrightarrow> same_alloc h2 h3 \<Longrightarrow> same_alloc h1 h3"
  by (simp add: same_alloc_def)

lemma same_alloc_set [heap_simps]:
  "same_alloc h (set_node i f h') = same_alloc h h'"
  "same_alloc h (set_level l g h') = same_alloc h h'"
  by (auto simp: same_alloc_def alloc_def set_node_def set_level_def)

lemma same_alloc_sizes:
  "same_alloc h h' \<Longrightarrow> nodes_n h' = nodes_n h \<and> levels_n h' = levels_n h"
  by (simp add: same_alloc_def alloc_def)

lemma alloc_used:
  assumes "alloc p' = alloc p"
  shows "used_slots p' = used_slots p" "pool_ok p' \<longleftrightarrow> pool_ok p"
proof -
  have "free p' = free p" "top p' = top p" "capacity p' = capacity p"
    "length (store p') = length (store p)"
    using assms by (simp_all add: alloc_def)
  then show "used_slots p' = used_slots p" "pool_ok p' \<longleftrightarrow> pool_ok p"
    by (simp_all add: used_slots_def free_slots_def pool_ok_def)
qed

lemma same_alloc_used:
  "same_alloc h h' \<Longrightarrow> used_slots (h_nodes h') = used_slots (h_nodes h) \<and>
     used_slots (h_levels h') = used_slots (h_levels h) \<and>
     (pool_ok (h_nodes h') \<longleftrightarrow> pool_ok (h_nodes h)) \<and> (pool_ok (h_levels h') \<longleftrightarrow> pool_ok (h_levels h))"
  using alloc_used [of "h_nodes h'" "h_nodes h"] alloc_used [of "h_levels h'" "h_levels h"]
  by (simp add: same_alloc_def)

lemma core_links [simp]:
  "core (n\<lparr>n_prev := a\<rparr>) = core n" "core (n\<lparr>n_next := b\<rparr>) = core n"
  "core (n\<lparr>n_level := c\<rparr>) = core n" "core (core n) = core n"
  by (simp_all add: core_def)

lemma core_sel [simp]:
  "n_OrderID (core n) = n_OrderID n" "n_UserID (core n) = n_UserID n"
  "n_MarketID (core n) = n_MarketID n"
  "n_Side (core n) = n_Side n" "n_Type (core n) = n_Type n" "n_TIF (core n) = n_TIF n"
  "n_Flags (core n) = n_Flags n"
  "n_STPMode (core n) = n_STPMode n" "n_Price (core n) = n_Price n"
  "n_StopPrice (core n) = n_StopPrice n" "n_OrigQty (core n) = n_OrigQty n"
  "n_RemainQty (core n) = n_RemainQty n" "n_FilledQty (core n) = n_FilledQty n"
  "n_DisplayQty (core n) = n_DisplayQty n" "n_HiddenQty (core n) = n_HiddenQty n"
  "n_OrigDisplayQty (core n) = n_OrigDisplayQty n" "n_SeqNum (core n) = n_SeqNum n"
  "n_Timestamp (core n) = n_Timestamp n"
  "n_ExpireAt (core n) = n_ExpireAt n" "n_PoolIndex (core n) = n_PoolIndex n"
  by (simp_all add: core_def)

text \<open>A field that is not a link only depends on the core.\<close>

lemma core_eqD:
  assumes "core n' = core n"
  shows "n_OrderID n' = n_OrderID n" "n_UserID n' = n_UserID n" "n_Side n' = n_Side n"
    "n_Type n' = n_Type n" "n_TIF n' = n_TIF n" "n_STPMode n' = n_STPMode n"
    "n_Price n' = n_Price n" "n_RemainQty n' = n_RemainQty n" "n_FilledQty n' = n_FilledQty n"
    "n_DisplayQty n' = n_DisplayQty n" "n_HiddenQty n' = n_HiddenQty n"
    "n_OrigDisplayQty n' = n_OrigDisplayQty n" "n_SeqNum n' = n_SeqNum n"
    "n_ExpireAt n' = n_ExpireAt n" "n_PoolIndex n' = n_PoolIndex n"
  using arg_cong [OF assms, of n_OrderID]
    arg_cong [OF assms, of n_UserID]
    arg_cong [OF assms, of n_Side]
    arg_cong [OF assms, of n_Type]
    arg_cong [OF assms, of n_TIF]
    arg_cong [OF assms, of n_STPMode]
    arg_cong [OF assms, of n_Price]
    arg_cong [OF assms, of n_RemainQty]
    arg_cong [OF assms, of n_FilledQty]
    arg_cong [OF assms, of n_DisplayQty]
    arg_cong [OF assms, of n_HiddenQty]
    arg_cong [OF assms, of n_OrigDisplayQty]
    arg_cong [OF assms, of n_SeqNum]
    arg_cong [OF assms, of n_ExpireAt]
    arg_cong [OF assms, of n_PoolIndex]
  by simp_all

subsection \<open>When a level is the queue of its orders\<close>

definition qsum :: "u8 \<Rightarrow> (OrderNode \<Rightarrow> Decimal) \<Rightarrow> OrderNode list \<Rightarrow> Decimal" where
  "qsum qp f ns = \<lparr>d_value = (\<Sum>n\<leftarrow>ns. d_value (f n)), d_precision = qp\<rparr>"

definition node_prec :: "u8 \<Rightarrow> OrderNode \<Rightarrow> bool" where
  "node_prec qp n \<longleftrightarrow> d_precision (n_RemainQty n) = qp \<and> d_precision (n_FilledQty n) = qp \<and>
     d_precision (n_DisplayQty n) = qp"

definition level_rep :: "u8 \<Rightarrow> heap \<Rightarrow> Decimal \<Rightarrow> nat \<Rightarrow> nat list \<Rightarrow> bool" where
  "level_rep qp h p l q \<longleftrightarrow>
     l < levels_n h \<and> (\<forall>i\<in>set q. i < nodes_n h) \<and> distinct q \<and>
     (let v = level h l in
        l_Price v = p \<and> l_PoolIndex v = l \<and> l_Head v = first q None \<and> l_Tail v = final q None \<and>
        l_OrderCount v = int (length q) \<and>
        l_TotalQty v = qsum qp n_RemainQty (map (node h) q) \<and>
        l_DisplayQty v = qsum qp n_DisplayQty (map (node h) q)) \<and>
     linked (\<lambda>i. n_prev (node h i)) (\<lambda>i. n_next (node h i)) None q None \<and>
     (\<forall>i\<in>set q. n_level (node h i) = Some l \<and> node_prec qp (node h i))"

lemma qsum_append: "qsum qp f (xs @ ys) = dadd (qsum qp f xs) (qsum qp f ys)"
  by (simp add: qsum_def)

lemma qsum_sel [simp]: "d_precision (qsum qp f xs) = qp"
  "d_value (qsum qp f xs) = (\<Sum>n\<leftarrow>xs. d_value (f n))"
  by (simp_all add: qsum_def)

lemma Decimal_eq_iff: "a = b \<longleftrightarrow> d_value a = d_value b \<and> d_precision a = (d_precision b :: u8)"
  for a b :: Decimal
  by (cases a; cases b) simp

text \<open>A level whose slots are not touched stays the queue it was.\<close>

lemma level_rep_frame:
  assumes "level_rep qp h p l q" and "level h' l = level h l"
    and "\<And>i. i \<in> set q \<Longrightarrow> node h' i = node h i"
    and "nodes_n h' = nodes_n h" and "levels_n h' = levels_n h"
  shows "level_rep qp h' p l q"
proof -
  have map: "map (node h') q = map (node h) q" using assms(3) by simp
  have "qsum qp n_RemainQty (map (node h') q) = qsum qp n_RemainQty (map (node h) q)"
    "qsum qp n_DisplayQty (map (node h') q) = qsum qp n_DisplayQty (map (node h) q)" by (simp_all only: map)
  moreover have "linked (\<lambda>i. n_prev (node h' i)) (\<lambda>i. n_next (node h' i)) None q None =
      linked (\<lambda>i. n_prev (node h i)) (\<lambda>i. n_next (node h i)) None q None"
    using assms(3) by (intro linked_cong) simp
  ultimately show ?thesis using assms by (simp add: level_rep_def Let_def cong: map_cong)
qed

text \<open>What an operation on level \<open>l\<close> with the orders \<open>q\<close> does not change.\<close>

definition only_level :: "nat \<Rightarrow> nat set \<Rightarrow> heap \<Rightarrow> heap \<Rightarrow> bool" where
  "only_level l q h h' \<longleftrightarrow>
     same_alloc h h' \<and> (\<forall>k. k \<noteq> l \<longrightarrow> level h' k = level h k) \<and>
     (\<forall>j. j \<notin> q \<longrightarrow> node h' j = node h j)"

lemma only_level_rep:
  assumes "only_level l q h h'" and "level_rep qp h p k r" and "k \<noteq> l" and "set r \<inter> q = {}"
  shows "level_rep qp h' p k r"
  using assms same_alloc_sizes [of h h']
  by (intro level_rep_frame [OF assms(2)]) (auto simp: only_level_def)

end
