(* ===== verification/Level_Queue.thy ===== *)
theory Level_Queue
  imports Book_Heap
begin

section \<open>A price level is a FIFO queue\<close>

text \<open>
  Each operation of \<open>PriceLevel\<close> on the heap is the operation of the same name on a list
  of orders: \<open>Append\<close> adds at the tail, \<open>Unlink\<close> removes from any position, \<open>DecrementQty\<close>
  changes one order, \<open>ReplenishIceberg\<close> moves one to the tail; the totals of the level stay
  the sums over its orders, nothing else of the heap changes and no order changes in
  anything but its links.
\<close>

lemma final_append_Cons [simp]: "final (xs @ y # ys) p = final ys (Some y)"
  by (simp add: final_def)

lemma final_Some [simp]: "final ys (Some y) = Some (if ys = [] then y else last ys)"
  by (simp add: final_def)

lemma level_repD:
  assumes "level_rep qp h p l q"
  shows "l < levels_n h" "\<And>i. i \<in> set q \<Longrightarrow> i < nodes_n h" "distinct q"
    "l_Price (level h l) = p" "l_PoolIndex (level h l) = l"
    "l_Head (level h l) = first q None" "l_Tail (level h l) = final q None"
    "l_OrderCount (level h l) = int (length q)"
    "l_TotalQty (level h l) = qsum qp n_RemainQty (map (node h) q)"
    "l_DisplayQty (level h l) = qsum qp n_DisplayQty (map (node h) q)"
    "linked (\<lambda>i. n_prev (node h i)) (\<lambda>i. n_next (node h i)) None q None"
    "\<And>i. i \<in> set q \<Longrightarrow> n_level (node h i) = Some l"
    "\<And>i. i \<in> set q \<Longrightarrow> node_prec qp (node h i)"
  using assms by (auto simp: level_rep_def Let_def)

lemma level_repI:
  assumes "l < levels_n h" "\<And>i. i \<in> set q \<Longrightarrow> i < nodes_n h" "distinct q"
    "l_Price (level h l) = p" "l_PoolIndex (level h l) = l"
    "l_Head (level h l) = first q None" "l_Tail (level h l) = final q None"
    "l_OrderCount (level h l) = int (length q)"
    "l_TotalQty (level h l) = qsum qp n_RemainQty (map (node h) q)"
    "l_DisplayQty (level h l) = qsum qp n_DisplayQty (map (node h) q)"
    "linked (\<lambda>i. n_prev (node h i)) (\<lambda>i. n_next (node h i)) None q None"
    "\<And>i. i \<in> set q \<Longrightarrow> n_level (node h i) = Some l"
    "\<And>i. i \<in> set q \<Longrightarrow> node_prec qp (node h i)"
  shows "level_rep qp h p l q"
  using assms by (simp add: level_rep_def Let_def)

lemma level_rep_empty_iff:
  "level_rep qp h p l q \<Longrightarrow> IsEmpty_level (level h l) \<longleftrightarrow> q = []"
  by (simp add: IsEmpty_level_def level_repD)

lemma final_Cons_simp [simp]: "final (y # ys) p = Some (if ys = [] then y else last ys)"
  by (simp add: final_def)

subsection \<open>Taking a node out of the chain\<close>

definition links_only :: "heap \<Rightarrow> heap \<Rightarrow> bool" where
  "links_only h h' \<longleftrightarrow>
     (\<forall>j. core (node h' j) = core (node h j) \<and> n_level (node h' j) = n_level (node h j))"

lemma level_same_ends:
  "l_Tail v = t \<Longrightarrow> v\<lparr>l_Head := a, l_Tail := t\<rparr> = v\<lparr>l_Head := a\<rparr>"
  "l_Head v = a \<Longrightarrow> v\<lparr>l_Head := a, l_Tail := t\<rparr> = v\<lparr>l_Tail := t\<rparr>"
  "l_Head v = a \<Longrightarrow> l_Tail v = t \<Longrightarrow> v\<lparr>l_Head := a, l_Tail := t\<rparr> = v"
  for v :: PriceLevel
  by (cases v; simp)+

lemma take_out_effect:
  assumes l: "l < levels_n h" and slots: "\<forall>j\<in>set (q1 @ i # q2). j < nodes_n h"
    and dist: "distinct (q1 @ i # q2)"
    and linked: "linked (\<lambda>j. n_prev (node h j)) (\<lambda>j. n_next (node h j)) None (q1 @ i # q2) None"
    and head: "l_Head (level h l) = first (q1 @ i # q2) None"
    and tail: "l_Tail (level h l) = final (q1 @ i # q2) None"
  shows "node (take_out l i h) = (\<lambda>j.
      let n = (if q1 \<noteq> [] \<and> j = last q1 then (node h j)\<lparr>n_next := first q2 None\<rparr> else node h j)
      in if q2 \<noteq> [] \<and> j = hd q2 then n\<lparr>n_prev := final q1 None\<rparr> else n) \<and>
      level (take_out l i h) = (level h)(l := (level h l)\<lparr>l_Head := first (q1 @ q2) None,
                                               l_Tail := final (q1 @ q2) None\<rparr>) \<and>
      same_alloc h (take_out l i h)"
proof -
  have pv: "n_prev (node h i) = final q1 None" and nx: "n_next (node h i) = first q2 None"
    using linked_middle [OF linked] by auto
  consider (nn) "q1 = []" "q2 = []" | (np) y ys where "q1 = []" "q2 = y # ys"
    | (pn) x xs where "q1 = xs @ [x]" "q2 = []"
    | (pp) x xs y ys where "q1 = xs @ [x]" "q2 = y # ys"
    by (cases q1 rule: rev_cases; cases q2) auto
  then show ?thesis
  proof cases
    case nn
    then show ?thesis using l by (simp add: take_out_def pv nx heap_simps)
  next
    case np
    then show ?thesis using l slots level_same_ends(1) [OF tail, of "Some y"]
      by (simp add: take_out_def pv nx heap_simps fun_eq_iff)
  next
    case pn
    then show ?thesis using l slots dist level_same_ends(2) [OF head, of "Some x"]
      by (simp add: take_out_def pv nx heap_simps fun_eq_iff first_append)
  next
    case pp
    then show ?thesis using l slots dist level_same_ends(3) [OF head tail]
      by (simp add: take_out_def pv nx heap_simps fun_eq_iff first_append)
  qed
qed

lemma take_out_chain:
  assumes l: "l < levels_n h" and slots: "\<forall>j\<in>set (q1 @ i # q2). j < nodes_n h"
    and dist: "distinct (q1 @ i # q2)"
    and linked: "linked (\<lambda>j. n_prev (node h j)) (\<lambda>j. n_next (node h j)) None (q1 @ i # q2) None"
    and head: "l_Head (level h l) = first (q1 @ i # q2) None"
    and tail: "l_Tail (level h l) = final (q1 @ i # q2) None"
    and h': "h' = take_out l i h"
  shows "linked (\<lambda>j. n_prev (node h' j)) (\<lambda>j. n_next (node h' j)) None (q1 @ q2) None"
    and "level h' = (level h)(l := (level h l)\<lparr>l_Head := first (q1 @ q2) None,
                                               l_Tail := final (q1 @ q2) None\<rparr>)"
    and "links_only h h'"
    and "node h' i = node h i"
    and "only_level l (set q1 \<union> set q2) h h'"
proof -
  note eff = take_out_effect [OF l slots dist linked head tail, folded h']
  then have nodes: "node h' j =
      (let n = (if q1 \<noteq> [] \<and> j = last q1 then (node h j)\<lparr>n_next := first q2 None\<rparr> else node h j)
       in if q2 \<noteq> [] \<and> j = hd q2 then n\<lparr>n_prev := final q1 None\<rparr> else n)" for j
    by simp
  show levels: "level h' = (level h)(l := (level h l)\<lparr>l_Head := first (q1 @ q2) None,
                                               l_Tail := final (q1 @ q2) None\<rparr>)"
    using eff by blast
  have in1: "q1 \<noteq> [] \<Longrightarrow> last q1 \<in> set q1" and in2: "q2 \<noteq> [] \<Longrightarrow> hd q2 \<in> set q2" by simp_all
  have "\<not> (q1 \<noteq> [] \<and> i = last q1)" "\<not> (q2 \<noteq> [] \<and> i = hd q2)" using dist in1 in2 by auto
  then show "node h' i = node h i" using nodes [of i] by (simp only: if_False Let_def)
  show "links_only h h'"
    by (simp add: links_only_def nodes Let_def)
  have "node h' j = node h j" if "j \<notin> set q1 \<union> set q2" for j
  proof -
    have "\<not> (q1 \<noteq> [] \<and> j = last q1)" "\<not> (q2 \<noteq> [] \<and> j = hd q2)" using that in1 in2 by auto
    then show ?thesis using nodes [of j] by (simp only: if_False Let_def)
  qed
  then show "only_level l (set q1 \<union> set q2) h h'"
    using eff levels by (simp add: only_level_def)
  have disj: "j \<in> set q1 \<Longrightarrow> \<not> (q2 \<noteq> [] \<and> j = hd q2)" "j \<in> set q2 \<Longrightarrow> \<not> (q1 \<noteq> [] \<and> j = last q1)"
    for j
  proof -
    have "set q1 \<inter> set q2 = {}" using dist by auto
    then show "j \<in> set q1 \<Longrightarrow> \<not> (q2 \<noteq> [] \<and> j = hd q2)" "j \<in> set q2 \<Longrightarrow> \<not> (q1 \<noteq> [] \<and> j = last q1)"
      using in1 in2 by blast+
  qed
  have n1: "node h' j = (if j = last q1 then (node h j)\<lparr>n_next := first q2 None\<rparr> else node h j)"
    if "j \<in> set q1" for j
  proof -
    have "q1 \<noteq> []" using that by auto
    then show ?thesis using nodes [of j] disj(1) [OF that] by (simp only: if_False Let_def) simp
  qed
  have n2: "node h' j = (if j = hd q2 then (node h j)\<lparr>n_prev := final q1 None\<rparr> else node h j)"
    if "j \<in> set q2" for j
  proof -
    have "q2 \<noteq> []" using that by auto
    then show ?thesis using nodes [of j] disj(2) [OF that] by (simp only: if_False Let_def) simp
  qed
  show "linked (\<lambda>j. n_prev (node h' j)) (\<lambda>j. n_next (node h' j)) None (q1 @ q2) None"
    by (rule linked_unlink [OF linked dist]) (simp_all add: n1 n2)
qed

subsection \<open>The operations\<close>

lemma links_onlyD: "links_only h h' \<Longrightarrow> core (node h' j) = core (node h j)"
  by (simp add: links_only_def)

lemma qsum_core: "\<forall>n. f (core n) = f n \<Longrightarrow> qsum qp f (map core ns) = qsum qp f ns"
  by (simp add: qsum_def comp_def)

lemma qsum_cong:
  assumes "\<And>i. i \<in> set q \<Longrightarrow> f (nd' i) = f (nd i)"
  shows "qsum qp f (map nd' q) = qsum qp f (map nd q)"
proof -
  have "map (\<lambda>i. d_value (f (nd' i))) q = map (\<lambda>i. d_value (f (nd i))) q" using assms by simp
  then show ?thesis by (simp only: qsum_def map_map comp_def)
qed

lemma qsum_sub:
  assumes "d_precision (f n) = qp"
  shows "Sub (qsum qp f (ns @ n # ms)) (f n) = Some (qsum qp f (ns @ ms))"
  using assms by (simp add: Sub_same qsum_def)

lemma qsum_add:
  assumes "d_precision (f n) = qp"
  shows "Add (qsum qp f ns) (f n) = Some (qsum qp f (ns @ [n]))"
  using assms by (simp add: Add_same qsum_def)

lemma Append_ok:
  assumes rep: "level_rep qp h p l q" and i: "i < nodes_n h" "i \<notin> set q"
    and prec: "node_prec qp (node h i)"
  shows "\<exists>h'. Append l i h = Some h' \<and> level_rep qp h' p l (q @ [i]) \<and>
     only_level l (insert i (set q)) h h' \<and> (\<forall>j. core (node h' j) = core (node h j))"
proof -
  note r = level_repD [OF rep]
  define g where "g = (case l_Tail (level h l) of
         None \<Rightarrow>
           set_node i (\<lambda>n. n\<lparr>n_prev := None, n_next := None\<rparr>)
             (set_level l (\<lambda>v. v\<lparr>l_Head := Some i, l_Tail := Some i\<rparr>) h)
       | Some t \<Rightarrow>
           set_level l (\<lambda>v. v\<lparr>l_Tail := Some i\<rparr>)
             (set_node t (\<lambda>n. n\<lparr>n_next := Some i\<rparr>)
               (set_node i (\<lambda>n. n\<lparr>n_prev := Some t, n_next := None\<rparr>) h)))"
  have g: "node g = (\<lambda>j. if j = i then (node h i)\<lparr>n_prev := final q None, n_next := None\<rparr>
                         else if q \<noteq> [] \<and> j = last q then (node h j)\<lparr>n_next := Some i\<rparr>
                         else node h j) \<and>
      level g = (level h)(l := (level h l)\<lparr>l_Head := first (q @ [i]) None, l_Tail := Some i\<rparr>) \<and>
      same_alloc h g"
  proof (cases q rule: rev_cases)
    case Nil
    then show ?thesis using r(1,7) i by (simp add: g_def heap_simps fun_eq_iff)
  next
    case (snoc qs t)
    have "(level h l)\<lparr>l_Head := first (q @ [i]) None, l_Tail := Some i\<rparr>
        = (level h l)\<lparr>l_Tail := Some i\<rparr>"
      using r(6) snoc by (intro level_same_ends(2)) (simp add: first_append)
    then show ?thesis
      using r(1,2,7) i snoc by (simp add: g_def heap_simps fun_eq_iff first_append)
  qed
  then have gn: "node g j = (if j = i then (node h i)\<lparr>n_prev := final q None, n_next := None\<rparr>
                         else if q \<noteq> [] \<and> j = last q then (node h j)\<lparr>n_next := Some i\<rparr>
                         else node h j)" for j
    by simp
  have gl: "level g = (level h)(l := (level h l)\<lparr>l_Head := first (q @ [i]) None, l_Tail := Some i\<rparr>)"
    and ga: "same_alloc h g" using g by simp_all
  have sz: "nodes_n g = nodes_n h" "levels_n g = levels_n h" using same_alloc_sizes [OF ga] by auto
  have rem: "Add (l_TotalQty (level g l)) (n_RemainQty (node g i)) =
      Some (qsum qp n_RemainQty (map (node h) (q @ [i])))"
    using prec qsum_add [of n_RemainQty "node h i" qp "map (node h) q"]
    by (simp add: gl gn r(9) node_prec_def)
  have dis: "Add (l_DisplayQty (level g l)) (n_DisplayQty (node g i)) =
      Some (qsum qp n_DisplayQty (map (node h) (q @ [i])))"
    using prec qsum_add [of n_DisplayQty "node h i" qp "map (node h) q"]
    by (simp add: gl gn r(10) node_prec_def)
  define v where "v = (level h l)\<lparr>l_Head := first (q @ [i]) None, l_Tail := Some i,
      l_TotalQty := qsum qp n_RemainQty (map (node h) (q @ [i])),
      l_DisplayQty := qsum qp n_DisplayQty (map (node h) (q @ [i])),
      l_OrderCount := l_OrderCount (level h l) + 1\<rparr>"
  obtain h' where h': "Append l i h = Some h'"
      and hn: "node h' = (node g)(i := (node g i)\<lparr>n_level := Some l\<rparr>)"
      and hl: "level h' = (level h)(l := v)" and ha: "same_alloc h h'"
    using rem dis r(1) i(1) sz ga
    by (simp add: Append_def g_def [symmetric] heap_simps gl v_def)
  have inq: "q \<noteq> [] \<Longrightarrow> last q \<in> set q" by simp
  have nodes: "node h' j = (if j = i then (node h i)\<lparr>n_prev := final q None, n_next := None,
                                                      n_level := Some l\<rparr>
                         else if q \<noteq> [] \<and> j = last q then (node h j)\<lparr>n_next := Some i\<rparr>
                         else node h j)" for j
    by (simp add: hn gn)
  have core: "core (node h' j) = core (node h j)" for j by (simp add: nodes)
  have "linked (\<lambda>j. n_prev (node h' j)) (\<lambda>j. n_next (node h' j)) None (q @ [i]) None"
    by (rule linked_snoc [OF r(11,3) i(2)]) (use i in \<open>auto simp: nodes\<close>)
  moreover have "qsum qp n_RemainQty (map (node h') (q @ [i])) = qsum qp n_RemainQty (map (node h) (q @ [i]))"
    "qsum qp n_DisplayQty (map (node h') (q @ [i])) = qsum qp n_DisplayQty (map (node h) (q @ [i]))"
    by (intro qsum_cong; simp add: nodes)+
  ultimately have rep': "level_rep qp h' p l (q @ [i])"
    using r i prec same_alloc_sizes [OF ha]
    by (intro level_repI) (auto simp: hl v_def nodes node_prec_def)
  have "node h' j = node h j" if "j \<notin> insert i (set q)" for j
  proof -
    have "j \<noteq> i" "\<not> (q \<noteq> [] \<and> j = last q)" using that inq by auto
    then show ?thesis using nodes [of j] by (simp only: if_False)
  qed
  then have "only_level l (insert i (set q)) h h'"
    using ha by (simp add: only_level_def hl)
  then show ?thesis using h' core rep' by blast
qed

lemma Unlink_ok:
  assumes rep: "level_rep qp h p l (q1 @ i # q2)"
  shows "\<exists>h'. Unlink l i h = Some h' \<and> level_rep qp h' p l (q1 @ q2) \<and>
     only_level l (set (q1 @ i # q2)) h h' \<and> (\<forall>j. core (node h' j) = core (node h j))"
proof -
  note r = level_repD [OF rep]
  define g where "g = take_out l i h"
  have slots: "\<forall>j\<in>set (q1 @ i # q2). j < nodes_n h" using r(2) by blast
  note t = take_out_chain [OF r(1) slots r(3,11,6,7) g_def]
  have ga: "same_alloc h g" using t(5) by (simp add: only_level_def)
  have sz: "nodes_n g = nodes_n h" "levels_n g = levels_n h" using same_alloc_sizes [OF ga] by auto
  have il: "i < nodes_n g" using r(2) [of i] sz by simp
  have prec: "node_prec qp (node h i)" using r(13) [of i] by simp
  have rem: "Sub (l_TotalQty (level g l)) (n_RemainQty (node g i)) =
      Some (qsum qp n_RemainQty (map (node h) (q1 @ q2)))"
    using prec qsum_sub [of n_RemainQty "node h i" qp "map (node h) q1" "map (node h) q2"]
    by (simp add: t(2,4) r(9) node_prec_def)
  have dis: "Sub (l_DisplayQty (level g l)) (n_DisplayQty (node g i)) =
      Some (qsum qp n_DisplayQty (map (node h) (q1 @ q2)))"
    using prec qsum_sub [of n_DisplayQty "node h i" qp "map (node h) q1" "map (node h) q2"]
    by (simp add: t(2,4) r(10) node_prec_def)
  define v where "v = (level h l)\<lparr>l_Head := first (q1 @ q2) None, l_Tail := final (q1 @ q2) None,
      l_TotalQty := qsum qp n_RemainQty (map (node h) (q1 @ q2)),
      l_DisplayQty := qsum qp n_DisplayQty (map (node h) (q1 @ q2)),
      l_OrderCount := l_OrderCount (level h l) - 1\<rparr>"
  obtain h' where h': "Unlink l i h = Some h'"
      and hn: "node h' = (node g)(i := (node g i)\<lparr>n_prev := None, n_next := None, n_level := None\<rparr>)"
      and hl: "level h' = (level h)(l := v)" and ha: "same_alloc h h'"
    using rem dis r(1) il sz ga
    by (simp add: Unlink_def g_def [symmetric] heap_simps t(2) v_def)
  have core: "core (node h' j) = core (node h j)" for j
    using links_onlyD [OF t(3), of j] links_onlyD [OF t(3), of i] by (simp add: hn)
  have ni: "i \<notin> set (q1 @ q2)" using r(3) by auto
  then have same: "node h' j = node g j" if "j \<in> set (q1 @ q2)" for j
    using that by (auto simp: hn)
  have lnk: "linked (\<lambda>j. n_prev (node h' j)) (\<lambda>j. n_next (node h' j)) None (q1 @ q2) None"
    using t(1) by (subst linked_cong) (use same in auto)
  have sums: "qsum qp n_RemainQty (map (node h') (q1 @ q2)) = qsum qp n_RemainQty (map (node h) (q1 @ q2))"
    "qsum qp n_DisplayQty (map (node h') (q1 @ q2)) = qsum qp n_DisplayQty (map (node h) (q1 @ q2))"
    by (intro qsum_cong core_eqD core)+
  have levels: "n_level (node h' j) = Some l \<and> node_prec qp (node h' j)" if "j \<in> set (q1 @ q2)" for j
    using that t(3) r(12,13) [of j] core_eqD [OF core [of j]]
    by (auto simp: same links_only_def node_prec_def)
  have "level_rep qp h' p l (q1 @ q2)"
    using r(1,4,5,8) same_alloc_sizes [OF ha] slots r(3) lnk levels sums
    by (intro level_repI) (simp_all add: hl v_def)
  moreover have "only_level l (set (q1 @ i # q2)) h h'"
    using t(5) ha by (auto simp: only_level_def hl hn)
  ultimately show ?thesis using h' core by blast
qed

text \<open>What a fill does to the resting order, and what replenishing does to an iceberg order.\<close>

definition dmin :: "Decimal \<Rightarrow> Decimal \<Rightarrow> Decimal" where
  "dmin a b = (if ival a \<le> ival b then a else b)"

definition taken :: "Decimal \<Rightarrow> OrderNode \<Rightarrow> OrderNode" where
  "taken q n = n\<lparr>n_RemainQty := dsub (n_RemainQty n) q, n_FilledQty := dadd (n_FilledQty n) q,
     n_DisplayQty := dsub (n_DisplayQty n) (dmin q (n_DisplayQty n))\<rparr>"

definition replenished :: "u64 \<Rightarrow> OrderNode \<Rightarrow> OrderNode" where
  "replenished s n = n\<lparr>n_HiddenQty := dsub (n_HiddenQty n) (dmin (n_HiddenQty n) (n_OrigDisplayQty n)),
     n_RemainQty := dmin (n_HiddenQty n) (n_OrigDisplayQty n),
     n_DisplayQty := dmin (n_HiddenQty n) (n_OrigDisplayQty n), n_SeqNum := s\<rparr>"

lemma core_taken: "core (taken q n) = taken q (core n)"
  by (simp add: taken_def core_def)

lemma core_replenished: "core (replenished s n) = replenished s (core n)"
  by (simp add: replenished_def core_def)

lemma dmin_prec: "d_precision a = qp \<Longrightarrow> d_precision b = qp \<Longrightarrow> d_precision (dmin a b) = qp"
  by (simp add: dmin_def)

lemma qsum_update:
  assumes "distinct (q1 @ i # q2)" and "\<And>j. j \<noteq> i \<Longrightarrow> nd' j = nd j"
    and "d_value (f (nd' i)) = d_value (f (nd i)) - d_value x"
  shows "qsum qp f (map nd' (q1 @ i # q2)) = dsub (qsum qp f (map nd (q1 @ i # q2))) x"
proof -
  have m: "map nd' q1 = map nd q1" "map nd' q2 = map nd q2"
    using assms(1) by (auto intro!: map_cong [OF refl] assms(2))
  show ?thesis by (simp add: qsum_def assms(3) m del: map_map)
qed

lemma DecrementQty_ok:
  assumes rep: "level_rep qp h p l (q1 @ i # q2)" and fq: "d_precision fq = qp"
  shows "\<exists>h'. DecrementQty l i fq h = Some h' \<and> level_rep qp h' p l (q1 @ i # q2) \<and>
     only_level l {i} h h' \<and> node h' i = taken fq (node h i)"
proof -
  note r = level_repD [OF rep]
  have il: "i < nodes_n h" using r(2) [of i] by simp
  have prec: "node_prec qp (node h i)" using r(13) [of i] by simp
  let ?d = "dmin fq (n_DisplayQty (node h i))"
  have dp: "d_precision ?d = qp" using prec fq by (simp add: dmin_prec node_prec_def)
  define v where "v = (level h l)\<lparr>l_TotalQty := dsub (l_TotalQty (level h l)) fq,
                                  l_DisplayQty := dsub (l_DisplayQty (level h l)) ?d\<rparr>"
  obtain h' where h': "DecrementQty l i fq h = Some h'"
      and hn: "node h' = (node h)(i := taken fq (node h i))"
      and hl: "level h' = (level h)(l := v)" and ha: "same_alloc h h'"
    using prec fq dp r(1,9,10) il
    by (simp add: DecrementQty_def heap_simps go_prec node_prec_def taken_def v_def
        dmin_def [symmetric])
  have same: "node h' j = node h j" if "j \<noteq> i" for j using that by (simp add: hn)
  have lnk: "linked (\<lambda>j. n_prev (node h' j)) (\<lambda>j. n_next (node h' j)) None (q1 @ i # q2) None"
    using r(11) by (subst linked_cong) (auto simp: hn taken_def)
  have sums: "qsum qp n_RemainQty (map (node h') (q1 @ i # q2)) = l_TotalQty v"
    "qsum qp n_DisplayQty (map (node h') (q1 @ i # q2)) = l_DisplayQty v"
    using qsum_update [OF r(3), of "node h'" "node h" n_RemainQty fq qp]
      qsum_update [OF r(3), of "node h'" "node h" n_DisplayQty ?d qp] r(9,10)
    by (simp_all add: hn taken_def v_def)
  have "level_rep qp h' p l (q1 @ i # q2)"
  proof (rule level_repI [OF _ _ r(3) _ _ _ _ _ _ _ lnk])
    show "node_prec qp (node h' j)" if "j \<in> set (q1 @ i # q2)" for j
      using r(13) [OF that] prec by (simp add: hn taken_def node_prec_def)
    show "n_level (node h' j) = Some l" if "j \<in> set (q1 @ i # q2)" for j
      using r(12) [OF that] by (auto simp: hn taken_def)
  qed (use r same_alloc_sizes [OF ha] sums in \<open>simp_all add: hl v_def\<close>)
  moreover have "only_level l {i} h h'" using ha by (simp add: only_level_def hl hn)
  ultimately show ?thesis using h' by (auto simp: hn)
qed

text \<open>The second half of \<open>ReplenishIceberg\<close>: the node, whose links are clear, goes to the tail.\<close>

lemma push_effect:
  assumes l: "l < levels_n h" and i: "i < nodes_n h" "i \<notin> set q" "\<forall>j\<in>set q. j < nodes_n h"
    and ends: "l_Head (level h l) = first q None" "l_Tail (level h l) = final q None"
    and nil: "n_prev (node h i) = None" "n_next (node h i) = None"
    and linked: "linked (\<lambda>j. n_prev (node h j)) (\<lambda>j. n_next (node h j)) None q None"
    and dist: "distinct q"
    and g: "g = (case l_Tail (level h l) of
         None \<Rightarrow> set_level l (\<lambda>v. v\<lparr>l_Head := Some i, l_Tail := Some i\<rparr>) h
       | Some t \<Rightarrow>
           set_level l (\<lambda>v. v\<lparr>l_Tail := Some i\<rparr>)
             (set_node t (\<lambda>n. n\<lparr>n_next := Some i\<rparr>)
               (set_node i (\<lambda>n. n\<lparr>n_prev := Some t\<rparr>) h)))"
  shows "linked (\<lambda>j. n_prev (node g j)) (\<lambda>j. n_next (node g j)) None (q @ [i]) None"
    and "level g = (level h)(l := (level h l)\<lparr>l_Head := first (q @ [i]) None, l_Tail := Some i\<rparr>)"
    and "links_only h g" and "only_level l (insert i (set q)) h g"
proof -
  have eff: "node g = (\<lambda>j. if j = i then (node h i)\<lparr>n_prev := final q None\<rparr>
                         else if final q None = Some j then (node h j)\<lparr>n_next := Some i\<rparr>
                         else node h j) \<and>
      level g = (level h)(l := (level h l)\<lparr>l_Head := first (q @ [i]) None, l_Tail := Some i\<rparr>) \<and>
      same_alloc h g"
  proof (cases q rule: rev_cases)
    case Nil
    have "(node h i)\<lparr>n_prev := None\<rparr> = node h i" using nil by (cases "node h i") simp
    then show ?thesis using l ends(2) Nil by (simp add: g heap_simps fun_eq_iff)
  next
    case (snoc qs t)
    have "(level h l)\<lparr>l_Head := first (q @ [i]) None, l_Tail := Some i\<rparr>
        = (level h l)\<lparr>l_Tail := Some i\<rparr>"
      using ends(1) snoc by (intro level_same_ends(2)) (simp add: first_append)
    then show ?thesis using l i snoc ends(2) by (auto simp: g heap_simps fun_eq_iff first_append)
  qed
  then have nodes: "node g j = (if j = i then (node h i)\<lparr>n_prev := final q None\<rparr>
                         else if final q None = Some j then (node h j)\<lparr>n_next := Some i\<rparr>
                         else node h j)" for j by simp
  have inq: "final q None = Some j \<Longrightarrow> j \<in> set q" for j by (auto simp: final_def split: if_splits)
  show "level g = (level h)(l := (level h l)\<lparr>l_Head := first (q @ [i]) None, l_Tail := Some i\<rparr>)"
    using eff by blast
  show "links_only h g" by (simp add: links_only_def nodes)
  show "only_level l (insert i (set q)) h g"
    using eff inq by (auto simp: only_level_def)
  have fin: "final q None = Some j \<longleftrightarrow> j = last q" if "j \<in> set q" for j
    using that by (auto simp: final_def)
  show "linked (\<lambda>j. n_prev (node g j)) (\<lambda>j. n_next (node g j)) None (q @ [i]) None"
  proof (rule linked_snoc [OF linked dist i(2)])
    fix j assume j: "j \<in> set q"
    then have "j \<noteq> i" using i(2) by auto
    then show "n_prev (node g j) = n_prev (node h j)"
      "n_next (node g j) = (if j = last q then Some i else n_next (node h j))"
      using nodes [of j] fin [OF j] by simp_all
  qed (use nil nodes [of i] in simp_all)
qed

text \<open>The level that results: the node with its new lot stands last, and the sums are those of the new queue.\<close>

lemma requeued_rep:
  assumes rep: "level_rep qp h p l (q1 @ i # q2)"
    and hid: "d_precision (n_HiddenQty (node h i)) = qp" "d_precision (n_OrigDisplayQty (node h i)) = qp"
    and core: "\<And>j. core (node h' j) = core (if j = i then replenished s (node h i) else node h j)"
    and at: "\<And>j. j \<in> set (q1 @ i # q2) \<Longrightarrow> n_level (node h' j) = Some l"
    and lnk: "linked (\<lambda>j. n_prev (node h' j)) (\<lambda>j. n_next (node h' j)) None (q1 @ q2 @ [i]) None"
    and al: "same_alloc h h'" and ns: "ns = map (node h) (q1 @ q2) @ [replenished s (node h i)]"
    and hl: "level h' l = (level h l)\<lparr>l_Head := first (q1 @ q2 @ [i]) None, l_Tail := Some i,
      l_TotalQty := qsum qp n_RemainQty ns, l_DisplayQty := qsum qp n_DisplayQty ns\<rparr>"
  shows "level_rep qp h' p l (q1 @ q2 @ [i])"
proof -
  note r = level_repD [OF rep]
  let ?q = "q1 @ q2"
  have ni: "i \<notin> set ?q" and dist: "distinct ?q" using r(3) by auto
  have rest: "core (node h' j) = core (node h j)" if "j \<in> set ?q" for j
    using core [of j] that ni by auto
  have sums: "qsum qp n_RemainQty (map (node h') (q1 @ q2 @ [i])) = qsum qp n_RemainQty ns"
    "qsum qp n_DisplayQty (map (node h') (q1 @ q2 @ [i])) = qsum qp n_DisplayQty ns"
    using qsum_cong [of ?q n_RemainQty "node h'" "node h" qp]
      qsum_cong [of ?q n_DisplayQty "node h'" "node h" qp]
      core_eqD [OF rest] core_eqD [OF core [of i]]
    by (simp_all add: ns qsum_def)
  have "n_level (node h' j) = Some l \<and> node_prec qp (node h' j)" if "j \<in> set (q1 @ q2 @ [i])" for j
  proof (cases "j = i")
    case True
    then show ?thesis using core_eqD [OF core [of i]] hid r(13) [of i] at [of i]
      by (simp add: node_prec_def replenished_def dmin_prec)
  next
    case False
    then have j: "j \<in> set ?q" "j \<in> set (q1 @ i # q2)" using that by auto
    then show ?thesis using at [OF j(2)] r(13) [OF j(2)] core_eqD [OF rest [OF j(1)]] by (simp add: node_prec_def)
  qed
  moreover have "final (q1 @ q2 @ [i]) None = Some i" using final_simps(2) [of ?q i] by simp
  ultimately show ?thesis
    using r(1,2,4,5,8) same_alloc_sizes [OF al] dist ni lnk sums
    by (intro level_repI) (auto simp: hl)
qed

lemma ReplenishIceberg_ok:
  assumes rep: "level_rep qp h p l (q1 @ i # q2)"
    and hid: "d_precision (n_HiddenQty (node h i)) = qp" "d_precision (n_OrigDisplayQty (node h i)) = qp"
  shows "\<exists>h'. ReplenishIceberg l i s h = Some h' \<and> level_rep qp h' p l (q1 @ q2 @ [i]) \<and>
     only_level l (set (q1 @ i # q2)) h h' \<and>
     (\<forall>j. core (node h' j) = core (if j = i then replenished s (node h i) else node h j))"
proof -
  note r = level_repD [OF rep]
  have il: "i < nodes_n h" using r(2) [of i] by simp
  have prec: "node_prec qp (node h i)" using r(13) [of i] by simp
  let ?q = "q1 @ q2" and ?n = "node h i"
  let ?r = "dmin (n_HiddenQty ?n) (n_OrigDisplayQty ?n)"
  have rp: "d_precision ?r = qp" using hid by (simp add: dmin_prec)
  have ni: "i \<notin> set ?q" and dist: "distinct ?q" using r(3) by auto
  define v where "v = (level h l)\<lparr>l_TotalQty := qsum qp n_RemainQty (map (node h) ?q),
      l_DisplayQty := qsum qp n_DisplayQty (map (node h) ?q),
      l_OrderCount := l_OrderCount (level h l) - 1\<rparr>"
  define h1 where "h1 = set_node i (replenished s) (set_level l (\<lambda>_. v) h)"
  have n1: "node h1 = (node h)(i := replenished s ?n)" and l1: "level h1 = (level h)(l := v)"
    and a1: "same_alloc h h1" and sz1: "nodes_n h1 = nodes_n h" "levels_n h1 = levels_n h"
    using il r(1) by (simp_all add: h1_def heap_simps)
  define h2 where "h2 = take_out l i h1"
  have lk1: "linked (\<lambda>j. n_prev (node h1 j)) (\<lambda>j. n_next (node h1 j)) None (q1 @ i # q2) None"
    using r(11) by (subst linked_cong) (auto simp: n1 replenished_def)
  have slots: "\<forall>j\<in>set (q1 @ i # q2). j < nodes_n h1" using r(2) sz1 by simp
  have e1: "l_Head (level h1 l) = first (q1 @ i # q2) None"
    "l_Tail (level h1 l) = final (q1 @ i # q2) None" using r(6,7) by (simp_all add: l1 v_def)
  have sz1l: "l < levels_n h1" using r(1) sz1 by simp
  note t = take_out_chain [OF sz1l slots r(3) lk1 e1 h2_def]
  have a2: "same_alloc h1 h2" using t(5) by (simp add: only_level_def)
  note sz2 = same_alloc_sizes [OF a2]
  define h3 where "h3 = set_node i (\<lambda>n. n\<lparr>n_prev := None, n_next := None\<rparr>) h2"
  have n3: "node h3 = (node h2)(i := (node h2 i)\<lparr>n_prev := None, n_next := None\<rparr>)"
    and l3: "level h3 = level h2" and a3: "same_alloc h2 h3"
    and sz3: "nodes_n h3 = nodes_n h" "levels_n h3 = levels_n h"
    using il sz2 sz1 by (simp_all add: h3_def heap_simps)
  define g where "g = (case l_Tail (level h3 l) of
         None \<Rightarrow> set_level l (\<lambda>v. v\<lparr>l_Head := Some i, l_Tail := Some i\<rparr>) h3
       | Some t \<Rightarrow>
           set_level l (\<lambda>v. v\<lparr>l_Tail := Some i\<rparr>)
             (set_node t (\<lambda>n. n\<lparr>n_next := Some i\<rparr>)
               (set_node i (\<lambda>n. n\<lparr>n_prev := Some t\<rparr>) h3)))"
  have "linked (\<lambda>j. n_prev (node h3 j)) (\<lambda>j. n_next (node h3 j)) None ?q None"
    using t(1) ni by (subst linked_cong) (auto simp: n3)
  from push_effect [OF _ _ ni _ _ _ _ _ this dist g_def]
  have u: "linked (\<lambda>j. n_prev (node g j)) (\<lambda>j. n_next (node g j)) None (?q @ [i]) None"
    "level g = (level h3)(l := (level h3 l)\<lparr>l_Head := first (?q @ [i]) None, l_Tail := Some i\<rparr>)"
    "links_only h3 g" "only_level l (insert i (set ?q)) h3 g"
    using r(1,2) il sz3 by (simp_all add: l3 t(2) n3)
  have g_i: "core (node g i) = core (replenished s ?n)"
    using links_onlyD [OF u(3), of i] by (simp add: n3 t(4) n1)
  note ci = core_eqD [OF g_i]
  have ga: "same_alloc h g"
    using a1 a2 a3 u(4) by (auto simp: only_level_def intro: same_alloc_trans)
  note szg = same_alloc_sizes [OF ga]
  have gl: "level g l = v\<lparr>l_Head := first (?q @ [i]) None, l_Tail := Some i\<rparr>"
    by (simp add: u(2) l3 t(2) l1)
  define ns where "ns = map (node h) ?q @ [replenished s ?n]"
  have rem: "Add (l_TotalQty (level g l)) (n_RemainQty (node g i)) = Some (qsum qp n_RemainQty ns)"
    "Add (l_DisplayQty (level g l)) (n_DisplayQty (node g i)) = Some (qsum qp n_DisplayQty ns)"
    using qsum_add [of n_RemainQty "replenished s ?n" qp "map (node h) ?q"]
      qsum_add [of n_DisplayQty "replenished s ?n" qp "map (node h) ?q"] rp ci
    by (simp_all add: gl v_def ns_def replenished_def)
  have out: "Sub (l_TotalQty (level h l)) (n_RemainQty ?n) = Some (qsum qp n_RemainQty (map (node h) ?q))"
    "Sub (l_DisplayQty (level h l)) (n_DisplayQty ?n) = Some (qsum qp n_DisplayQty (map (node h) ?q))"
    using prec qsum_sub [of n_RemainQty ?n qp "map (node h) q1" "map (node h) q2"]
      qsum_sub [of n_DisplayQty ?n qp "map (node h) q1" "map (node h) q2"]
    by (simp_all add: r(9,10) node_prec_def)
  have h1_code: "set_node i (\<lambda>n. n\<lparr>n_HiddenQty := dsub (n_HiddenQty ?n) ?r, n_RemainQty := ?r,
      n_DisplayQty := ?r, n_SeqNum := s\<rparr>)
    (set_level l (\<lambda>v. v\<lparr>l_DisplayQty := qsum qp n_DisplayQty (map (node h) ?q),
                       l_OrderCount := l_OrderCount v - 1\<rparr>)
      (set_level l (\<lambda>v. v\<lparr>l_TotalQty := qsum qp n_RemainQty (map (node h) ?q)\<rparr>) h)) = h1"
    using r(1) by (simp add: h1_def set_node_def set_level_def node_def level_def replenished_def v_def)
  define w where "w = (level g l)\<lparr>l_TotalQty := qsum qp n_RemainQty ns,
      l_DisplayQty := qsum qp n_DisplayQty ns, l_OrderCount := l_OrderCount (level g l) + 1\<rparr>"
  obtain h' where h': "ReplenishIceberg l i s h = Some h'"
      and hn: "node h' = (node g)(i := (node g i)\<lparr>n_level := Some l\<rparr>)"
      and hl: "level h' = (level g)(l := w)" and ha: "same_alloc h h'"
    using out rem hid Sub_same [of "n_HiddenQty ?n" ?r] rp r(1) il szg ga h1_code
    by (simp add: ReplenishIceberg_def go_prec dmin_def [symmetric] heap_simps
        h2_def [symmetric] h3_def [symmetric] g_def [unfolded l3, symmetric] w_def)
  have core: "core (node h' j) = core (if j = i then replenished s ?n else node h j)" for j
    using links_onlyD [OF u(3), of j] links_onlyD [OF t(3), of j] g_i by (simp add: hn n3 n1)
  have only: "only_level l (set (q1 @ i # q2)) h h'"
    using u(4) t(5) ha by (auto simp: only_level_def hn n3 l3 n1 hl l1)
  have lnk: "linked (\<lambda>j. n_prev (node h' j)) (\<lambda>j. n_next (node h' j)) None (q1 @ q2 @ [i]) None"
    using u(1) by (subst linked_cong) (auto simp: hn)
  have at: "n_level (node h' j) = Some l" if "j \<in> set (q1 @ i # q2)" for j
  proof (cases "j = i")
    case False
    then have "n_level (node h' j) = n_level (node h j)" using u(3) t(3) by (simp add: hn links_only_def n3 n1)
    then show ?thesis using r(12) [OF that] by simp
  qed (simp add: hn)
  have "level_rep qp h' p l (q1 @ q2 @ [i])"
    by (rule requeued_rep [OF rep hid core at lnk _ ns_def])
      (use ha in \<open>simp_all add: hl w_def gl v_def\<close>)
  then show ?thesis using h' core only by blast
qed

end
