(* ===== verification/BTree_Lib.thy ===== *)
theory BTree_Lib
  imports Go_Prelude
begin

section \<open>The ordered-map library (\<open>github.com/tidwall/btree\<close>)\<close>

text \<open>
  The price trees and the stop trees are third-party B-trees.  The development takes their
  operations as a parameter: a record of the functions the code calls.  The items the code
  stores are pointers to levels, and the comparator it passes reads only the level's
  price, which does not change while the level is in the tree: so an entry here is a
  pair of the key the comparator reads and the item.  The comparator can panic (\<open>None\<close>),
  and then so can an operation.

  What the code relies on is the documented behaviour, the locale \<open>btree\<close>: it speaks only of
  trees that were made by \<open>New\<close>, \<open>Set\<close> and \<open>Delete\<close>, whose keys the comparator orders.
\<close>

record ('k, 'v, 't) btree_ops =
  bt_new :: "('k \<Rightarrow> 'k \<Rightarrow> bool option) \<Rightarrow> 't"
  bt_set :: "'k \<Rightarrow> 'v \<Rightarrow> 't \<Rightarrow> 't option"
  bt_get :: "'k \<Rightarrow> 't \<Rightarrow> 'v option option"
  bt_delete :: "'k \<Rightarrow> 't \<Rightarrow> 't option"
  bt_min :: "'t \<Rightarrow> ('k \<times> 'v) option"
  bt_scan :: "'t \<Rightarrow> ('k \<times> 'v) list"

text \<open>The comparator is a strict linear order on the keys \<open>K\<close>.\<close>

definition orders :: "('k \<Rightarrow> 'k \<Rightarrow> bool option) \<Rightarrow> 'k set \<Rightarrow> bool" where
  "orders lt K \<longleftrightarrow>
     (\<forall>x\<in>K. lt x x = Some False) \<and>
     (\<forall>x\<in>K. \<forall>y\<in>K. x \<noteq> y \<longrightarrow> lt x y = Some True \<and> lt y x = Some False \<or>
                          lt x y = Some False \<and> lt y x = Some True) \<and>
     (\<forall>x\<in>K. \<forall>y\<in>K. \<forall>z\<in>K. lt x y = Some True \<longrightarrow> lt y z = Some True \<longrightarrow> lt x z = Some True)"

text \<open>The trees a client can have, with keys in \<open>K\<close>.\<close>

inductive built :: "('k, 'v, 't) btree_ops \<Rightarrow> ('k \<Rightarrow> 'k \<Rightarrow> bool option) \<Rightarrow> 'k set \<Rightarrow> 't \<Rightarrow> bool"
  for B lt K where
  built_new: "built B lt K (bt_new B lt)"
| built_set: "built B lt K t \<Longrightarrow> k \<in> K \<Longrightarrow> bt_set B k v t = Some t' \<Longrightarrow> built B lt K t'"
| built_delete: "built B lt K t \<Longrightarrow> k \<in> K \<Longrightarrow> bt_delete B k t = Some t' \<Longrightarrow> built B lt K t'"

text \<open>The entries in order, after setting and after deleting a key.\<close>

definition entries_set :: "('k \<Rightarrow> 'k \<Rightarrow> bool option) \<Rightarrow> 'k \<Rightarrow> 'v \<Rightarrow> ('k \<times> 'v) list \<Rightarrow> ('k \<times> 'v) list" where
  "entries_set lt k v es =
     filter (\<lambda>e. lt (fst e) k = Some True) es @ (k, v) # filter (\<lambda>e. lt k (fst e) = Some True) es"

definition entries_delete :: "'k \<Rightarrow> ('k \<times> 'v) list \<Rightarrow> ('k \<times> 'v) list" where
  "entries_delete k es = filter (\<lambda>e. fst e \<noteq> k) es"

lemma entries_set_sorted:
  assumes ord: "orders lt K"
    and sorted: "sorted_wrt (\<lambda>x y. lt x y = Some True) (map fst es)"
    and keys: "fst ` set es \<subseteq> K" and k: "k \<in> K"
  shows "sorted_wrt (\<lambda>x y. lt x y = Some True) (map fst (entries_set lt k v es))"
proof -
  have trans: "lt x z = Some True"
    if "x \<in> K" "y \<in> K" "z \<in> K" "lt x y = Some True" "lt y z = Some True" for x y z
    using ord that unfolding orders_def by blast
  have below: "lt (fst e) (fst f) = Some True"
    if "e \<in> set es" "f \<in> set es" "lt (fst e) k = Some True" "lt k (fst f) = Some True" for e f
    using trans [of "fst e" k "fst f"] that keys k by auto
  show ?thesis
    using sorted below
    by (auto simp: entries_set_def sorted_wrt_append sorted_wrt_map sorted_wrt_filter)
qed

lemma keys_distinct:
  assumes ord: "orders lt K"
    and sorted: "sorted_wrt (\<lambda>x y. lt x y = Some True) ks" and keys: "set ks \<subseteq> K"
  shows "distinct ks"
  using sorted keys
proof (induction ks)
  case (Cons x ks)
  then have "lt x x = Some False" using ord by (simp add: orders_def)
  then have "x \<notin> set ks" using Cons.prems by auto
  then show ?case using Cons by simp
qed simp

text \<open>A sorted list is its part below a missing key followed by its part above.\<close>

lemma split_sorted:
  assumes ord: "orders lt K" and sorted: "sorted_wrt (\<lambda>x y. lt x y = Some True) (map fst es)"
    and keys: "fst ` set es \<subseteq> K" and k: "k \<in> K" "k \<notin> fst ` set es"
  shows "filter (\<lambda>e. lt (fst e) k = Some True) es @ filter (\<lambda>e. lt k (fst e) = Some True) es = es"
  using sorted keys k(2)
proof (induction es)
  case (Cons e es)
  have e: "fst e \<in> K" "fst e \<noteq> k" using Cons.prems by auto
  have dich: "lt a k = Some True \<and> lt k a = Some False \<or> lt a k = Some False \<and> lt k a = Some True"
    if "a \<in> K" "a \<noteq> k" for a using ord that k(1) unfolding orders_def by blast
  show ?case
  proof (cases "lt (fst e) k = Some True")
    case True
    then show ?thesis using Cons dich [OF e] by auto
  next
    case False
    then have ke: "lt k (fst e) = Some True" using dich [OF e] by simp
    have all: "lt k (fst f) = Some True" if "f \<in> set es" for f
    proof -
      have "lt (fst e) (fst f) = Some True" "fst f \<in> K" using Cons.prems that by auto
      then show ?thesis using ord ke k(1) e(1) unfolding orders_def by blast
    qed
    then have "filter (\<lambda>e. lt (fst e) k = Some True) es = []"
    proof -
      have "lt (fst f) k \<noteq> Some True" if "f \<in> set es" for f
      proof -
        have "fst f \<in> K" "fst f \<noteq> k" using Cons.prems that by auto
        then show ?thesis using all [OF that] dich [of "fst f"] by auto
      qed
      then show ?thesis by (simp add: filter_empty_conv)
    qed
    then show ?thesis using False ke all by (simp add: filter_id_conv)
  qed
qed simp

locale btree =
  fixes B :: "('k, 'v, 't) btree_ops"
  assumes scan_new: "bt_scan B (bt_new B lt) = []"
    and set_entries: "orders lt K \<Longrightarrow> built B lt K t \<Longrightarrow> k \<in> K \<Longrightarrow>
      \<exists>t'. bt_set B k v t = Some t' \<and> bt_scan B t' = entries_set lt k v (bt_scan B t)"
    and delete_entries: "orders lt K \<Longrightarrow> built B lt K t \<Longrightarrow> k \<in> K \<Longrightarrow>
      \<exists>t'. bt_delete B k t = Some t' \<and> bt_scan B t' = entries_delete k (bt_scan B t)"
    and get_entries: "orders lt K \<Longrightarrow> built B lt K t \<Longrightarrow> k \<in> K \<Longrightarrow>
      bt_get B k t = Some (map_of (bt_scan B t) k)"
    and min_entries: "orders lt K \<Longrightarrow> built B lt K t \<Longrightarrow>
      bt_min B t = (case bt_scan B t of [] \<Rightarrow> None | e # _ \<Rightarrow> Some e)"
begin

text \<open>The entries of a tree stay in the order of the comparator, so no key occurs twice.\<close>

lemma scan_keys:
  assumes "orders lt K" and "built B lt K t"
  shows "fst ` set (bt_scan B t) \<subseteq> K"
  using assms(2)
proof (induction rule: built.induct)
  case (built_set t k v t')
  then show ?case using set_entries [OF assms(1), of t k v] by (auto simp: entries_set_def)
next
  case (built_delete t k t')
  then show ?case using delete_entries [OF assms(1), of t k] by (auto simp: entries_delete_def)
qed (simp add: scan_new)

lemma scan_sorted:
  assumes "orders lt K" and "built B lt K t"
  shows "sorted_wrt (\<lambda>x y. lt x y = Some True) (map fst (bt_scan B t))"
  using assms(2)
proof (induction rule: built.induct)
  case (built_set t k v t')
  then show ?case
    using set_entries [OF assms(1) built_set.hyps(1,2), of v]
      entries_set_sorted [OF assms(1) _ scan_keys [OF assms(1) built_set.hyps(1)] built_set.hyps(2)]
    by simp
next
  case (built_delete t k t')
  then show ?case
    using delete_entries [OF assms(1) built_delete.hyps(1,2)]
    by (simp add: entries_delete_def sorted_wrt_map sorted_wrt_filter)
qed (simp add: scan_new)

lemma scan_distinct:
  assumes "orders lt K" and "built B lt K t"
  shows "distinct (map fst (bt_scan B t))"
  using keys_distinct [OF assms(1) scan_sorted [OF assms]] scan_keys [OF assms] by auto

end

text \<open>A tree that keeps its comparator and its entries in a list: the instance on which the
  theorems are evaluated.\<close>

type_synonym ('k, 'v) list_tree = "('k \<Rightarrow> 'k \<Rightarrow> bool option) \<times> ('k \<times> 'v) list"

definition list_btree :: "('k, 'v, ('k, 'v) list_tree) btree_ops" where
  "list_btree =
     \<lparr>bt_new = (\<lambda>lt. (lt, [])),
      bt_set = (\<lambda>k v (lt, es). Some (lt, entries_set lt k v es)),
      bt_get = (\<lambda>k (lt, es). Some (map_of es k)),
      bt_delete = (\<lambda>k (lt, es). Some (lt, entries_delete k es)),
      bt_min = (\<lambda>(lt, es). case es of [] \<Rightarrow> None | e # _ \<Rightarrow> Some e),
      bt_scan = snd\<rparr>"

lemma list_btree_less: "built list_btree lt K t \<Longrightarrow> fst t = lt"
  by (induction rule: built.induct) (auto simp: list_btree_def split: prod.splits)

interpretation list_tree: btree list_btree
proof
  fix lt :: "'k \<Rightarrow> 'k \<Rightarrow> bool option" and K and t :: "('k, 'v) list_tree" and k v
  assume b: "built list_btree lt K t"
  obtain es where t: "t = (lt, es)" using list_btree_less [OF b] by (cases t) auto
  show "\<exists>t'. bt_set list_btree k v t = Some t' \<and>
      bt_scan list_btree t' = entries_set lt k v (bt_scan list_btree t)"
    by (simp add: list_btree_def t)
  show "\<exists>t'. bt_delete list_btree k t = Some t' \<and>
      bt_scan list_btree t' = entries_delete k (bt_scan list_btree t)"
    by (simp add: list_btree_def t)
  show "bt_get list_btree k t = Some (map_of (bt_scan list_btree t) k)"
    by (simp add: list_btree_def t)
  show "bt_min list_btree t =
      (case bt_scan list_btree t of [] \<Rightarrow> None | e # _ \<Rightarrow> Some e)"
    by (simp add: list_btree_def t)
qed (simp add: list_btree_def)

end
