(* ===== verification/Price_Tree.thy ===== *)
theory Price_Tree
  imports Level_Queue BTree_Lib
begin

section \<open>One side of the book (\<open>book/tree.go\<close>)\<close>

text \<open>
  \<open>PriceLevelTree\<close> keeps the levels of one side in a B-tree ordered by price, highest bid or
  lowest ask first.  An entry of the tree is the level's price and its slot.  The theory
  gives the operations, over a parameter \<open>B\<close> for the tree library, and what they do to the
  list of entries.
\<close>

record 't PriceLevelTree =
  t_tree :: 't
  t_side :: Side
  t_count :: int

type_synonym 't btree_fns = "(Decimal, nat, 't) btree_ops"

text \<open>The comparator: best price first.\<close>

definition tree_less :: "Side \<Rightarrow> Decimal \<Rightarrow> Decimal \<Rightarrow> bool option" where
  "tree_less side = (if side = Bid then GreaterThan else LessThan)"

definition NewPriceLevelTree :: "'t btree_fns \<Rightarrow> Side \<Rightarrow> 't PriceLevelTree" where
  "NewPriceLevelTree B side = \<lparr>t_tree = bt_new B (tree_less side), t_side = side, t_count = 0\<rparr>"

definition Best :: "'t btree_fns \<Rightarrow> 't PriceLevelTree \<Rightarrow> nat option" where
  "Best B t = map_option snd (bt_min B (t_tree t))"

definition Insert :: "'t btree_fns \<Rightarrow> Decimal \<Rightarrow> nat \<Rightarrow> 't PriceLevelTree \<Rightarrow> 't PriceLevelTree option" where
  "Insert B price l t = do {
     s \<leftarrow> bt_set B price l (t_tree t);
     Some (t\<lparr>t_tree := s, t_count := t_count t + 1\<rparr>) }"

definition Delete :: "'t btree_fns \<Rightarrow> Decimal \<Rightarrow> 't PriceLevelTree \<Rightarrow> 't PriceLevelTree option" where
  "Delete B price t = do {
     s \<leftarrow> bt_delete B price (t_tree t);
     Some (t\<lparr>t_tree := s, t_count := t_count t - 1\<rparr>) }"

definition Get :: "'t btree_fns \<Rightarrow> Decimal \<Rightarrow> 't PriceLevelTree \<Rightarrow> nat option option" where
  "Get B price t = bt_get B price (t_tree t)"

definition GetOrCreate :: "'t btree_fns \<Rightarrow> Decimal \<Rightarrow> heap \<Rightarrow> 't PriceLevelTree \<Rightarrow>
    (pool_error + nat \<times> bool \<times> heap \<times> 't PriceLevelTree) option" where
  "GetOrCreate B price h t = do {
     found \<leftarrow> Get B price t;
     case found of
       Some l \<Rightarrow> Some (Inr (l, False, h, t))
     | None \<Rightarrow>
         (case Acquire zeroLevel (h_levels h) of
            Inl err \<Rightarrow> Some (Inl err)
          | Inr (pool, idx) \<Rightarrow> do {
              let h = h\<lparr>h_levels := pool\<rparr>;
              let h = set_level idx (\<lambda>v. v\<lparr>l_PoolIndex := idx\<rparr>) h;
              let h = set_level idx (\<lambda>v. v\<lparr>l_Price := price\<rparr>) h;
              t \<leftarrow> Insert B (l_Price (level h idx)) idx t;
              Some (Inr (idx, True, h, t)) }) }"

record DepthLevel =
  dl_Price :: Decimal
  dl_TotalQty :: Decimal
  dl_DisplayQty :: Decimal
  dl_OrderCount :: int

text \<open>\<open>Scan\<close> with a callback that returns whether to go on, over the entries in order.\<close>

fun Iterate :: "('e \<Rightarrow> 's \<Rightarrow> ('s \<times> bool) option) \<Rightarrow> 'e list \<Rightarrow> 's \<Rightarrow> 's option" where
  "Iterate fn [] s = Some s"
| "Iterate fn (e # es) s = do {
     (s', more) \<leftarrow> fn e s;
     if more then Iterate fn es s' else Some s' }"

definition depthLevel :: "PriceLevel \<Rightarrow> DepthLevel" where
  "depthLevel v = \<lparr>dl_Price = l_Price v, dl_TotalQty = l_TotalQty v,
     dl_DisplayQty = l_DisplayQty v, dl_OrderCount = l_OrderCount v\<rparr>"

definition Depth :: "'t btree_fns \<Rightarrow> int \<Rightarrow> heap \<Rightarrow> 't PriceLevelTree \<Rightarrow> DepthLevel list option" where
  "Depth B n h t =
     (if n \<le> 0 then Some []
      else Iterate (\<lambda>(p, l) result.
             let result = result @ [depthLevel (level h l)]
             in Some (result, int (length result) < n))
           (bt_scan B (t_tree t)) [])"

definition Len_tree :: "'t PriceLevelTree \<Rightarrow> int" where
  "Len_tree t = t_count t"

definition IsEmpty_tree :: "'t PriceLevelTree \<Rightarrow> bool" where
  "IsEmpty_tree t \<longleftrightarrow> t_count t = 0"

subsection \<open>The comparator orders the prices of one precision\<close>

definition prices :: "u8 \<Rightarrow> Decimal set" where
  "prices pp = {d. d_precision d = pp}"

lemma prices_iff [simp]: "d \<in> prices pp \<longleftrightarrow> d_precision d = pp"
  by (simp add: prices_def)

lemma tree_less_same:
  "d_precision a = d_precision b \<Longrightarrow>
     tree_less side a b = Some (if side = Bid then ival b < ival a else ival a < ival b)"
  by (simp add: tree_less_def compare_same)

lemma ival_neq: "d_precision a = d_precision b \<Longrightarrow> a \<noteq> b \<Longrightarrow> ival a \<noteq> ival b"
  by (simp add: Decimal_eq_iff sint_eq_iff)

lemma tree_less_orders: "orders (tree_less side) (prices pp)"
  unfolding orders_def
proof (intro conjI ballI impI)
  fix x y assume "x \<in> prices pp" "y \<in> prices pp" "x \<noteq> y"
  then have "d_precision x = d_precision y" "ival x \<noteq> ival y" using ival_neq by auto
  then show "tree_less side x y = Some True \<and> tree_less side y x = Some False \<or>
      tree_less side x y = Some False \<and> tree_less side y x = Some True"
    by (auto simp: tree_less_same)
qed (auto simp: tree_less_same split: if_splits)

subsection \<open>The entries of a side\<close>

definition tree_rep :: "'t btree_fns \<Rightarrow> Side \<Rightarrow> u8 \<Rightarrow> 't PriceLevelTree \<Rightarrow> (Decimal \<times> nat) list \<Rightarrow> bool" where
  "tree_rep B side pp t es \<longleftrightarrow>
     built B (tree_less side) (prices pp) (t_tree t) \<and> bt_scan B (t_tree t) = es \<and>
     t_side t = side \<and> t_count t = int (length es)"

lemma entries_delete_absent: "k \<notin> fst ` set es \<Longrightarrow> entries_delete k es = es"
  by (force simp: entries_delete_def intro!: filter_True)

lemma entries_delete_middle:
  "distinct (map fst (es @ (k, v) # fs)) \<Longrightarrow> entries_delete k (es @ (k, v) # fs) = es @ fs"
  using entries_delete_absent [of k es] entries_delete_absent [of k fs]
  by (force simp: entries_delete_def)

lemma entries_set_map:
  "entries_set lt k (f v) (map (apsnd f) es) = map (apsnd f) (entries_set lt k v es)"
  by (simp add: entries_set_def filter_map comp_def)

text \<open>The tree library on price keys, for the lemmas about one side.\<close>

locale price_index = btree B for B :: "(Decimal, nat, 't) btree_ops"
begin

lemma tree_new: "tree_rep B side pp (NewPriceLevelTree B side) []"
  by (simp add: tree_rep_def NewPriceLevelTree_def built_new scan_new)

lemma tree_keys:
  assumes "tree_rep B side pp t es"
  shows "fst ` set es \<subseteq> prices pp" "distinct (map fst es)"
    "sorted_wrt (\<lambda>x y. tree_less side x y = Some True) (map fst es)"
  using assms scan_keys [OF tree_less_orders] scan_distinct [OF tree_less_orders]
    scan_sorted [OF tree_less_orders]
  unfolding tree_rep_def by blast+

lemma Best_ok: "tree_rep B side pp t es \<Longrightarrow> Best B t = map_option snd (case es of [] \<Rightarrow> None | e # _ \<Rightarrow> Some e)"
  using min_entries [OF tree_less_orders] by (auto simp: tree_rep_def Best_def)

lemma Get_ok: "tree_rep B side pp t es \<Longrightarrow> d_precision p = pp \<Longrightarrow> Get B p t = Some (map_of es p)"
  using get_entries [OF tree_less_orders] by (auto simp: tree_rep_def Get_def)

lemma entries_set_absent:
  assumes "fst ` set es \<subseteq> prices pp" and "d_precision p = pp" and "p \<notin> fst ` set es"
  shows "length (entries_set (tree_less side) p l es) = Suc (length es)"
    "set (entries_set (tree_less side) p l es) = insert (p, l) (set es)"
proof -
  let ?b = "\<lambda>e. tree_less side (fst e) p = Some True"
  have "tree_less side p (fst e) = Some True \<longleftrightarrow> \<not> ?b e" if "e \<in> set es" for e
  proof -
    have "d_precision (fst e) = d_precision p" "fst e \<noteq> p" using assms that by auto
    then show ?thesis using ival_neq [of "fst e" p] by (auto simp: tree_less_same)
  qed
  then have f: "filter (\<lambda>e. tree_less side p (fst e) = Some True) es = filter (\<lambda>e. \<not> ?b e) es"
    by (intro filter_cong) auto
  show "length (entries_set (tree_less side) p l es) = Suc (length es)"
    using sum_length_filter_compl [of ?b es] by (simp add: entries_set_def f)
  show "set (entries_set (tree_less side) p l es) = insert (p, l) (set es)"
    by (auto simp: entries_set_def f)
qed

lemma Insert_ok:
  assumes "tree_rep B side pp t es" and "d_precision p = pp" and "p \<notin> fst ` set es"
  shows "\<exists>t'. Insert B p l t = Some t' \<and> tree_rep B side pp t' (entries_set (tree_less side) p l es)"
proof -
  obtain s where s: "bt_set B p l (t_tree t) = Some s"
    "bt_scan B s = entries_set (tree_less side) p l es"
    using assms set_entries [OF tree_less_orders, of side pp "t_tree t" p l] by (auto simp: tree_rep_def)
  moreover have "built B (tree_less side) (prices pp) s"
    using assms s by (auto simp: tree_rep_def intro: built_set)
  ultimately show ?thesis
    using assms entries_set_absent [OF tree_keys(1) [OF assms(1)] assms(2,3)]
    by (simp add: Insert_def tree_rep_def)
qed

lemma Delete_ok:
  assumes "tree_rep B side pp t (es @ (p, l) # fs)"
  shows "\<exists>t'. Delete B p t = Some t' \<and> tree_rep B side pp t' (es @ fs)"
proof -
  have p: "p \<in> prices pp" using tree_keys(1) [OF assms] by auto
  obtain s where s: "bt_delete B p (t_tree t) = Some s"
    "bt_scan B s = entries_delete p (es @ (p, l) # fs)"
    using assms p delete_entries [OF tree_less_orders, of side pp "t_tree t" p]
    by (auto simp: tree_rep_def)
  moreover have "built B (tree_less side) (prices pp) s"
    using assms s p by (auto simp: tree_rep_def intro: built_delete)
  moreover have "entries_delete p (es @ (p, l) # fs) = es @ fs"
    using tree_keys(2) [OF assms] by (rule entries_delete_middle)
  ultimately show ?thesis using assms by (simp add: Delete_def tree_rep_def)
qed

lemma Depth_ok:
  assumes "tree_rep B side pp t es"
  shows "Depth B n h t = Some (map (\<lambda>(p, l). depthLevel (level h l)) (take (nat n) es))"
proof -
  define f where "f = (\<lambda>(p :: Decimal, l) result.
             let result = result @ [depthLevel (level h l)]
             in Some (result, int (length result) < n))"
  have "Iterate f es rs = Some (rs @ map (\<lambda>(p, l). depthLevel (level h l)) (take (nat n - length rs) es))"
    if "int (length rs) < n" for es rs
    using that
  proof (induction es arbitrary: rs)
    case (Cons e es)
    obtain p l where e: "e = (p, l)" by (cases e)
    have "nat n - length rs = Suc (nat n - Suc (length rs))" using Cons.prems by simp
    then show ?case using Cons by (auto simp: e f_def Let_def)
  qed simp
  from this [of "[]" es] show ?thesis
    using assms unfolding Depth_def f_def [symmetric] tree_rep_def by auto
qed

end

interpretation price_list: price_index list_btree
  by unfold_locales

end
