(* ===== verification/Order_Book.thy ===== *)
theory Order_Book
  imports Price_Tree
begin

section \<open>The order book (\<open>book/book.go\<close>, \<open>book/index.go\<close>)\<close>

text \<open>
  \<open>OrderBook\<close>: the two sides, the index from order ids to resting orders, the shared pools
  (the heap), the configuration and the order sequence counter.  The operations other than
  matching, which \<open>Matching\<close> models; \<open>restNode\<close> and \<open>cleanupLevelIfEmpty\<close> of
  \<open>book/matching.go\<close> are here because the operations of this file use them.
  A sentinel error of the package is a constructor of \<open>book_error\<close>.
\<close>

record 't OrderBook =
  b_bids :: "'t PriceLevelTree"
  b_asks :: "'t PriceLevelTree"
  b_index :: "OrderID \<rightharpoonup> nat"
  b_heap :: heap
  b_config :: MarketConfig
  b_orderSeq :: Counter

datatype book_error = ErrOrderNotFound | ErrOwnershipMismatch | ErrDuplicateOrderID

definition NewOrderBook :: "'t btree_fns \<Rightarrow> MarketConfig \<Rightarrow> heap \<Rightarrow> Counter \<Rightarrow> 't OrderBook" where
  "NewOrderBook B cfg h seq =
     \<lparr>b_bids = NewPriceLevelTree B Bid, b_asks = NewPriceLevelTree B Ask, b_index = Map.empty,
      b_heap = h, b_config = cfg, b_orderSeq = seq\<rparr>"

abbreviation b_node :: "'t OrderBook \<Rightarrow> nat \<Rightarrow> OrderNode" where
  "b_node b \<equiv> node (b_heap b)"

abbreviation b_level :: "'t OrderBook \<Rightarrow> nat \<Rightarrow> PriceLevel" where
  "b_level b \<equiv> level (b_heap b)"

text \<open>The code selects a side with \<open>if side == types.Bid\<close>: the bids for \<open>True\<close>.\<close>

definition side_tree :: "bool \<Rightarrow> 't OrderBook \<Rightarrow> 't PriceLevelTree" where
  "side_tree x b = (if x then b_bids b else b_asks b)"

definition set_side_tree :: "bool \<Rightarrow> 't PriceLevelTree \<Rightarrow> 't OrderBook \<Rightarrow> 't OrderBook" where
  "set_side_tree x t b = (if x then b\<lparr>b_bids := t\<rparr> else b\<lparr>b_asks := t\<rparr>)"

definition releaseNode :: "nat \<Rightarrow> 't OrderBook \<Rightarrow> 't OrderBook option" where
  "releaseNode idx b = do {
     p \<leftarrow> Release idx (h_nodes (b_heap b));
     Some (b\<lparr>b_heap := (b_heap b)\<lparr>h_nodes := p\<rparr>\<rparr>) }"

definition releaseLevel :: "nat \<Rightarrow> 't OrderBook \<Rightarrow> 't OrderBook option" where
  "releaseLevel idx b = do {
     p \<leftarrow> Release idx (h_levels (b_heap b));
     Some (b\<lparr>b_heap := (b_heap b)\<lparr>h_levels := p\<rparr>\<rparr>) }"

subsection \<open>Resting and removing\<close>

text \<open>Take a level that has become empty out of its tree and give its slot back.\<close>

definition dropLevelIfEmpty :: "'t btree_fns \<Rightarrow> bool \<Rightarrow> nat \<Rightarrow> 't OrderBook \<Rightarrow> 't OrderBook option" where
  "dropLevelIfEmpty B x l b =
     (if \<not> IsEmpty_level (b_level b l) then Some b
      else do {
        t \<leftarrow> Delete B (l_Price (b_level b l)) (side_tree x b);
        releaseLevel (l_PoolIndex (b_level b l)) (set_side_tree x t b) })"

definition cleanupLevelIfEmpty :: "'t btree_fns \<Rightarrow> nat \<Rightarrow> Side \<Rightarrow> 't OrderBook \<Rightarrow> 't OrderBook option" where
  "cleanupLevelIfEmpty B l side b = dropLevelIfEmpty B (side = Bid) l b"

definition restNode :: "'t btree_fns \<Rightarrow> nat \<Rightarrow> 't OrderBook \<Rightarrow> (pool_error + 't OrderBook) option" where
  "restNode B i b = do {
     let n = b_node b i;
     let x = (n_Side n = Bid);
     r \<leftarrow> GetOrCreate B (n_Price n) (b_heap b) (side_tree x b);
     case r of
       Inl err \<Rightarrow> Some (Inl err)
     | Inr (l, created, h, t) \<Rightarrow> do {
         let h = (if created
                  then set_level l (\<lambda>v. v\<lparr>l_TotalQty := Zero (d_precision (n_RemainQty n)),
                                          l_DisplayQty := Zero (d_precision (n_DisplayQty n))\<rparr>) h
                  else h);
         h \<leftarrow> Append l i h;
         Some (Inr (set_side_tree x t
           (b\<lparr>b_heap := h, b_index := (b_index b)(n_OrderID n \<mapsto> i)\<rparr>))) } }"

definition PlaceResting :: "'t btree_fns \<Rightarrow> nat \<Rightarrow> 't OrderBook \<Rightarrow> (pool_error + 't OrderBook) option" where
  "PlaceResting B i b = restNode B i b"

definition Cancel :: "'t btree_fns \<Rightarrow> OrderID \<Rightarrow> UserID \<Rightarrow> 't OrderBook \<Rightarrow>
    (book_error + nat \<times> 't OrderBook) option" where
  "Cancel B orderID userID b =
     (case b_index b orderID of
        None \<Rightarrow> Some (Inl ErrOrderNotFound)
      | Some i \<Rightarrow>
          if n_UserID (b_node b i) \<noteq> userID then Some (Inl ErrOwnershipMismatch)
          else do {
            l \<leftarrow> n_level (b_node b i);
            h \<leftarrow> Unlink l i (b_heap b);
            let b = b\<lparr>b_heap := h, b_index := (b_index b)(orderID := None)\<rparr>;
            b \<leftarrow> cleanupLevelIfEmpty B l (n_Side (b_node b i)) b;
            Some (Inr (i, b)) })"

text \<open>\<open>IterateExpired\<close> ranges over the index, in an order Go does not fix: \<open>ids\<close> lists the
  keys in the order the run takes.  The callback only deletes the entry it is called with.\<close>

fun ExpireGTD :: "'t btree_fns \<Rightarrow> OrderID list \<Rightarrow> i64 \<Rightarrow> 't OrderBook \<Rightarrow> (nat list \<times> 't OrderBook) option" where
  "ExpireGTD B [] now b = Some ([], b)"
| "ExpireGTD B (oid # ids) now b =
     (case b_index b oid of
        None \<Rightarrow> ExpireGTD B ids now b
      | Some i \<Rightarrow>
          let n = b_node b i in
          if 0 < sint (n_ExpireAt n) \<and> sint (n_ExpireAt n) \<le> sint now then do {
            l \<leftarrow> n_level n;
            h \<leftarrow> Unlink l i (b_heap b);
            let b = b\<lparr>b_heap := h, b_index := (b_index b)(n_OrderID n := None)\<rparr>;
            b \<leftarrow> cleanupLevelIfEmpty B l (n_Side (b_node b i)) b;
            (expired, b) \<leftarrow> ExpireGTD B ids now b;
            Some (i # expired, b) }
          else ExpireGTD B ids now b)"

subsection \<open>Queries\<close>

definition HasLevel :: "'t btree_fns \<Rightarrow> Side \<Rightarrow> Decimal \<Rightarrow> 't OrderBook \<Rightarrow> bool option" where
  "HasLevel B side price b = do {
     r \<leftarrow> Get B price (side_tree (side \<noteq> Ask) b);
     Some (r \<noteq> None) }"

definition LevelPoolFull :: "'t OrderBook \<Rightarrow> bool" where
  "LevelPoolFull b \<longleftrightarrow> Len (h_levels (b_heap b)) \<ge> Capacity (h_levels (b_heap b))"

definition HasOrder :: "OrderID \<Rightarrow> 't OrderBook \<Rightarrow> bool" where
  "HasOrder oid b \<longleftrightarrow> b_index b oid \<noteq> None"

definition WouldCross :: "'t btree_fns \<Rightarrow> Decimal \<Rightarrow> Side \<Rightarrow> 't OrderBook \<Rightarrow> bool option" where
  "WouldCross B price side b =
     (if side = Bid then
        (case Best B (b_asks b) of
           None \<Rightarrow> Some False
         | Some l \<Rightarrow> GreaterThanOrEqual price (l_Price (b_level b l)))
      else
        (case Best B (b_bids b) of
           None \<Rightarrow> Some False
         | Some l \<Rightarrow> LessThanOrEqual price (l_Price (b_level b l))))"

definition BBO :: "'t btree_fns \<Rightarrow> 't OrderBook \<Rightarrow> Decimal \<times> Decimal \<times> bool \<times> bool" where
  "BBO B b =
     (let (bid, hasBid) = (case Best B (b_bids b) of
            Some l \<Rightarrow> (l_Price (b_level b l), True) | None \<Rightarrow> (zeroDecimal, False));
          (ask, hasAsk) = (case Best B (b_asks b) of
            Some l \<Rightarrow> (l_Price (b_level b l), True) | None \<Rightarrow> (zeroDecimal, False))
      in (bid, ask, hasBid, hasAsk))"

definition Snapshot :: "'t btree_fns \<Rightarrow> int \<Rightarrow> 't OrderBook \<Rightarrow> (DepthLevel list \<times> DepthLevel list) option" where
  "Snapshot B levels b = do {
     bids \<leftarrow> Depth B levels (b_heap b) (b_bids b);
     asks \<leftarrow> Depth B levels (b_heap b) (b_asks b);
     Some (bids, asks) }"

definition OrderRestInfo :: "OrderID \<Rightarrow> 't OrderBook \<Rightarrow> (Decimal \<times> Decimal \<times> bool) option" where
  "OrderRestInfo orderID b =
     (case b_index b orderID of
        None \<Rightarrow> Some (zeroDecimal, zeroDecimal, False)
      | Some i \<Rightarrow> do {
          let n = b_node b i;
          total \<leftarrow> (if IsPositive (n_HiddenQty n) then Add (n_RemainQty n) (n_HiddenQty n)
                   else Some (n_RemainQty n));
          Some (total, n_DisplayQty n, True) })"

definition LevelInfo :: "'t btree_fns \<Rightarrow> Side \<Rightarrow> Decimal \<Rightarrow> 't OrderBook \<Rightarrow>
    (Decimal \<times> Decimal \<times> int \<times> bool) option" where
  "LevelInfo B side price b = do {
     r \<leftarrow> Get B price (side_tree (side = Bid) b);
     case r of
       None \<Rightarrow> Some (Zero (mc_QtyPrecision (b_config b)), Zero (mc_QtyPrecision (b_config b)), 0, False)
     | Some l \<Rightarrow> let v = b_level b l
                 in Some (l_TotalQty v, l_DisplayQty v, l_OrderCount v, True) }"

definition WouldExceedMaxDepth :: "'t btree_fns \<Rightarrow> Decimal \<Rightarrow> Side \<Rightarrow> 't OrderBook \<Rightarrow> bool option" where
  "WouldExceedMaxDepth B price side b =
     (let maxDepth = mc_MaxDepth (b_config b); t = side_tree (side = Bid) b in
      if maxDepth = 0 then Some False
      else if Len_tree t < maxDepth then Some False
      else do {
        r \<leftarrow> Get B price t;
        if r \<noteq> None then Some False
        else do {
          levels \<leftarrow> Depth B maxDepth (b_heap b) t;
          if int (length levels) < maxDepth then Some False
          else if maxDepth - 1 < 0 then None
          else let worst = dl_Price (levels ! nat (maxDepth - 1))
               in if side = Bid then LessThan price worst else GreaterThan price worst } })"

definition OpenOrderCount :: "'t OrderBook \<Rightarrow> nat" where
  "OpenOrderCount b = card (dom (b_index b))"

definition BidLevelCount :: "'t OrderBook \<Rightarrow> int" where
  "BidLevelCount b = Len_tree (b_bids b)"

definition AskLevelCount :: "'t OrderBook \<Rightarrow> int" where
  "AskLevelCount b = Len_tree (b_asks b)"

end
