(* ===== verification/Book_Inv.thy ===== *)
theory Book_Inv
  imports Order_Book "HOL-Library.Multiset"
begin

section \<open>The invariant of the order book\<close>

text \<open>
  The order book as it is in memory represents, per side, the list of its price levels from
  best to worst, each with its queue of orders in time priority.  \<open>book_rep B b G X\<close> says
  that \<open>b\<close> represents \<open>G\<close> while the orders \<open>X\<close> hold slots of the node pool but do not rest
  (an incoming order, or one that was just removed): the trees and the levels agree, every
  level is the queue of its orders, no order is in two places, the index has exactly the
  resting orders, and no slot of either pool is leaked.  Each operation is then described by
  what it does to \<open>G\<close>.
\<close>

type_synonym glevel = "Decimal \<times> nat \<times> nat list"
type_synonym ghost = "bool \<Rightarrow> glevel list"

abbreviation entries :: "glevel list \<Rightarrow> (Decimal \<times> nat) list" where
  "entries g \<equiv> map (apsnd fst) g"

definition level_nodes :: "glevel list \<Rightarrow> nat list" where
  "level_nodes g = concat (map (\<lambda>(p, l, q). q) g)"

definition level_slots :: "glevel list \<Rightarrow> nat list" where
  "level_slots g = map (\<lambda>(p, l, q). l) g"

lemma level_nodes_simps [simp]:
  "level_nodes [] = []" "level_nodes ((p, l, q) # g) = q @ level_nodes g"
  "level_nodes (g @ g') = level_nodes g @ level_nodes g'"
  by (simp_all add: level_nodes_def)

lemma level_slots_simps [simp]:
  "level_slots [] = []" "level_slots ((p, l, q) # g) = l # level_slots g"
  "level_slots (g @ g') = level_slots g @ level_slots g'"
  by (simp_all add: level_slots_def)

definition all_nodes :: "ghost \<Rightarrow> nat set" where
  "all_nodes G = set (level_nodes (G True)) \<union> set (level_nodes (G False))"

definition all_slots :: "ghost \<Rightarrow> nat set" where
  "all_slots G = set (level_slots (G True)) \<union> set (level_slots (G False))"

lemma all_nodes_side: "all_nodes G = set (level_nodes (G x)) \<union> set (level_nodes (G (\<not> x)))"
  by (cases x) (auto simp: all_nodes_def)

lemma all_slots_side: "all_slots G = set (level_slots (G x)) \<union> set (level_slots (G (\<not> x)))"
  by (cases x) (auto simp: all_slots_def)

definition disjoint_ghost :: "ghost \<Rightarrow> bool" where
  "disjoint_ghost G \<longleftrightarrow>
     distinct (level_nodes (G True) @ level_nodes (G False)) \<and>
     distinct (level_slots (G True) @ level_slots (G False))"

lemma disjoint_ghost_side:
  "disjoint_ghost G \<longleftrightarrow>
     distinct (level_nodes (G x) @ level_nodes (G (\<not> x))) \<and>
     distinct (level_slots (G x) @ level_slots (G (\<not> x)))"
  by (cases x) (auto simp: disjoint_ghost_def)

lemma slots_card: "disjoint_ghost G \<Longrightarrow> card (all_slots G) = length (G True) + length (G False)"
  using distinct_card [of "level_slots (G True) @ level_slots (G False)"]
  by (simp add: disjoint_ghost_def all_slots_def level_slots_def)

text \<open>What the code relies on of a resting order besides the links: an iceberg reserve and its
  lot have the precision of the market and the lot is positive, and the per-order
  self-trade mode is one of the declared ones.\<close>

definition sound_order :: "u8 \<Rightarrow> OrderNode \<Rightarrow> bool" where
  "sound_order qp n \<longleftrightarrow> node_prec qp n \<and>
     (0 < ival (n_HiddenQty n) \<longrightarrow>
        d_precision (n_HiddenQty n) = qp \<and> d_precision (n_OrigDisplayQty n) = qp \<and>
        0 < ival (n_OrigDisplayQty n)) \<and>
     (\<forall>u. n_STPMode n \<noteq> STPByte u)"

definition resting_order :: "u8 \<Rightarrow> bool \<Rightarrow> Decimal \<Rightarrow> nat \<Rightarrow> OrderNode \<Rightarrow> bool" where
  "resting_order qp x p i n \<longleftrightarrow> sound_order qp n \<and> n_Price n = p \<and>
     (n_Side n = Bid) = x \<and> n_PoolIndex n = i"

abbreviation qty_prec :: "'t OrderBook \<Rightarrow> u8" where
  "qty_prec b \<equiv> mc_QtyPrecision (b_config b)"

abbreviation price_prec :: "'t OrderBook \<Rightarrow> u8" where
  "price_prec b \<equiv> mc_PricePrecision (b_config b)"

definition side_of :: "bool \<Rightarrow> Side" where
  "side_of x = (if x then Bid else Ask)"

definition levels_rep :: "'t OrderBook \<Rightarrow> bool \<Rightarrow> glevel list \<Rightarrow> bool" where
  "levels_rep b x g \<longleftrightarrow> (\<forall>(p, l, q)\<in>set g. level_rep (qty_prec b) (b_heap b) p l q \<and>
     (\<forall>i\<in>set q. resting_order (qty_prec b) x p i (b_node b i)))"

definition pools_rep :: "heap \<Rightarrow> nat set \<Rightarrow> nat set \<Rightarrow> bool" where
  "pools_rep h ns ls \<longleftrightarrow> pool_ok (h_nodes h) \<and> pool_ok (h_levels h) \<and>
     used_slots (h_nodes h) = ns \<and> used_slots (h_levels h) = ls"

text \<open>An index has exactly the entries of the slots \<open>ns\<close>, under their ids.\<close>

definition index_on :: "('k \<rightharpoonup> nat) \<Rightarrow> (nat \<Rightarrow> 'k) \<Rightarrow> nat set \<Rightarrow> bool" where
  "index_on m ids ns \<longleftrightarrow> (\<forall>oid i. m oid = Some i \<longleftrightarrow> i \<in> ns \<and> ids i = oid)"

abbreviation index_rep :: "(OrderID \<rightharpoonup> nat) \<Rightarrow> (nat \<Rightarrow> OrderNode) \<Rightarrow> nat set \<Rightarrow> bool" where
  "index_rep m nd ns \<equiv> index_on m (\<lambda>i. n_OrderID (nd i)) ns"

definition book_rep :: "'t btree_fns \<Rightarrow> 't OrderBook \<Rightarrow> ghost \<Rightarrow> nat set \<Rightarrow> bool" where
  "book_rep B b G X \<longleftrightarrow>
     (\<forall>x. tree_rep B (side_of x) (price_prec b) (side_tree x b) (entries (G x)) \<and>
          levels_rep b x (G x)) \<and>
     disjoint_ghost G \<and> X \<inter> all_nodes G = {} \<and>
     index_rep (b_index b) (b_node b) (all_nodes G) \<and>
     pools_rep (b_heap b) (all_nodes G \<union> X) (all_slots G)"

text \<open>Between operations no level is empty and every resting order has something left.\<close>

definition tidy :: "'t OrderBook \<Rightarrow> ghost \<Rightarrow> bool" where
  "tidy b G \<longleftrightarrow> (\<forall>x. \<forall>(p, l, q)\<in>set (G x). q \<noteq> [] \<and> (\<forall>i\<in>set q. 0 < ival (n_RemainQty (b_node b i))))"

definition book_ok :: "'t btree_fns \<Rightarrow> 't OrderBook \<Rightarrow> nat set \<Rightarrow> bool" where
  "book_ok B b X \<longleftrightarrow> (\<exists>G. book_rep B b G X \<and> tidy b G)"

subsection \<open>The visible book\<close>

text \<open>The orders of a level, following the chain, and the book a side shows: its levels from
  best to worst, each with its orders (without their links) in time priority.\<close>

definition level_queue :: "heap \<Rightarrow> nat \<Rightarrow> nat list" where
  "level_queue h l = chain (\<lambda>i. n_next (node h i)) (nodes_n h) (l_Head (level h l))"

definition side_view :: "'t btree_fns \<Rightarrow> bool \<Rightarrow> 't OrderBook \<Rightarrow> (Decimal \<times> OrderNode list) list" where
  "side_view B x b = map (\<lambda>(p, l). (p, map (core \<circ> b_node b) (level_queue (b_heap b) l)))
     (bt_scan B (t_tree (side_tree x b)))"

definition view_of :: "'t OrderBook \<Rightarrow> glevel list \<Rightarrow> (Decimal \<times> OrderNode list) list" where
  "view_of b g = map (\<lambda>(p, l, q). (p, map (core \<circ> b_node b) q)) g"

lemma level_queue_ok:
  assumes "level_rep qp h p l q"
  shows "level_queue h l = q"
proof -
  note r = level_repD [OF assms]
  have "length q = card (set q)" using r(3) by (simp add: distinct_card)
  also have "\<dots> \<le> card {..<nodes_n h}" using r(2) by (intro card_mono) auto
  finally have "length q \<le> nodes_n h" by simp
  then show ?thesis using chain_linked [OF r(11)] r(6) by (simp add: level_queue_def)
qed

lemma side_view_ok:
  assumes "book_rep B b G X"
  shows "side_view B x b = view_of b (G x)"
proof -
  have "bt_scan B (t_tree (side_tree x b)) = entries (G x)"
    using assms by (auto simp: book_rep_def tree_rep_def)
  moreover have "level_queue (b_heap b) l = q" if "(p, l, q) \<in> set (G x)" for p l q
    using assms that by (auto simp: book_rep_def levels_rep_def intro!: level_queue_ok)
  ultimately show ?thesis
    by (auto simp: side_view_def view_of_def)
qed

lemma view_of_simps [simp]:
  "view_of b [] = []" "view_of b ((p, l, q) # g) = (p, map (core \<circ> b_node b) q) # view_of b g"
  "view_of b (g @ g') = view_of b g @ view_of b g'"
  by (simp_all add: view_of_def)

lemma view_of_cong:
  assumes "\<And>i. i \<in> set (level_nodes g) \<Longrightarrow> core (b_node b' i) = core (b_node b i)"
  shows "view_of b' g = view_of b g"
  using assms by (induction g) auto

subsection \<open>How the representation changes\<close>

lemma side_tree_simps [simp]:
  "side_tree x (b\<lparr>b_heap := h\<rparr>) = side_tree x b"
  "side_tree x (b\<lparr>b_index := m\<rparr>) = side_tree x b"
  "side_tree x (b\<lparr>b_orderSeq := c\<rparr>) = side_tree x b"
  "side_tree y (set_side_tree x t b) = (if x = y then t else side_tree y b)"
  "b_heap (set_side_tree x t b) = b_heap b" "b_index (set_side_tree x t b) = b_index b"
  "b_config (set_side_tree x t b) = b_config b"
  "b_orderSeq (set_side_tree x t b) = b_orderSeq b"
  by (auto simp: side_tree_def set_side_tree_def)

lemma book_repD:
  assumes "book_rep B b G X"
  shows "tree_rep B (side_of x) (price_prec b) (side_tree x b) (entries (G x))"
    "levels_rep b x (G x)" "disjoint_ghost G" "X \<inter> all_nodes G = {}"
    "index_rep (b_index b) (b_node b) (all_nodes G)"
    "pools_rep (b_heap b) (all_nodes G \<union> X) (all_slots G)"
  using assms by (auto simp: book_rep_def)

lemma book_repI:
  assumes "\<And>x. tree_rep B (side_of x) (price_prec b) (side_tree x b) (entries (G x))"
    "\<And>x. levels_rep b x (G x)" "disjoint_ghost G" "X \<inter> all_nodes G = {}"
    "index_rep (b_index b) (b_node b) (all_nodes G)"
    "pools_rep (b_heap b) (all_nodes G \<union> X) (all_slots G)"
  shows "book_rep B b G X"
  using assms by (auto simp: book_rep_def)

lemma levels_repD:
  assumes "levels_rep b x g" and "(p, l, q) \<in> set g"
  shows "level_rep (qty_prec b) (b_heap b) p l q"
    "i \<in> set q \<Longrightarrow> resting_order (qty_prec b) x p i (b_node b i)"
  using assms by (auto simp: levels_rep_def)

lemma all_nodes_in: "(p, l, q) \<in> set (G x) \<Longrightarrow> i \<in> set q \<Longrightarrow> i \<in> all_nodes G"
  by (auto simp: all_nodes_side [of G x] level_nodes_def)

lemma all_slots_in: "(p, l, q) \<in> set (G x) \<Longrightarrow> l \<in> all_slots G"
  by (force simp: all_slots_side [of G x] level_slots_def)

lemma pools_rep_same_alloc:
  "same_alloc h h' \<Longrightarrow> pools_rep h ns ls \<Longrightarrow> pools_rep h' ns ls"
  using same_alloc_used [of h h'] by (simp add: pools_rep_def)

lemma pools_repD:
  assumes "pools_rep h ns ls"
  shows "i \<in> ns \<Longrightarrow> i < nodes_n h" "l \<in> ls \<Longrightarrow> l < levels_n h"
  using assms used_slots_bound by (fastforce simp: pools_rep_def pool_ok_def)+

text \<open>Levels whose slots an operation does not touch.\<close>

lemma levels_rep_only:
  assumes "levels_rep b x g" and "only_level l Q (b_heap b) h'"
    and "l \<notin> set (level_slots g)" and "set (level_nodes g) \<inter> Q = {}"
  shows "levels_rep (b\<lparr>b_heap := h', b_index := m\<rparr>) x g"
  unfolding levels_rep_def
proof (clarify, intro conjI ballI)
  fix p k r assume kr: "(p, k, r) \<in> set g"
  then have k: "k \<noteq> l" "set r \<inter> Q = {}"
    using assms(3,4) by (force simp: level_slots_def level_nodes_def)+
  then show "level_rep (qty_prec (b\<lparr>b_heap := h', b_index := m\<rparr>)) (b_heap (b\<lparr>b_heap := h', b_index := m\<rparr>)) p k r"
    using only_level_rep [OF assms(2) levels_repD(1) [OF assms(1) kr]] by simp
  fix i assume i: "i \<in> set r"
  then have "node h' i = b_node b i" using assms(2) k by (auto simp: only_level_def)
  then show "resting_order (qty_prec (b\<lparr>b_heap := h', b_index := m\<rparr>)) x p i
      (b_node (b\<lparr>b_heap := h', b_index := m\<rparr>) i)"
    using levels_repD(2) [OF assms(1) kr i] by simp
qed

lemma book_rep_level:
  assumes rep: "book_rep B b G X" and G: "G x = A @ (p, l, q) # C"
    and only: "only_level l (set q \<union> Y) (b_heap b) h'" and Y: "Y \<subseteq> X"
    and lev: "level_rep (qty_prec b) h' p l q'"
    and ord: "\<And>i. i \<in> set q' \<Longrightarrow> resting_order (qty_prec b) x p i (node h' i)"
    and q': "set q' \<union> X' = set q \<union> X" "set q' \<inter> X' = {}"
    and X': "X' \<inter> (all_nodes G - set q) = {}"
    and idx: "index_rep m (node h') (all_nodes (G(x := A @ (p, l, q') # C)))"
  shows "book_rep B (b\<lparr>b_heap := h', b_index := m\<rparr>) (G(x := A @ (p, l, q') # C)) X'"
proof -
  let ?G = "G(x := A @ (p, l, q') # C)" and ?b = "b\<lparr>b_heap := h', b_index := m\<rparr>"
  note r = book_repD [OF rep]
  have dist: "distinct (level_nodes (G x) @ level_nodes (G (\<not> x)))"
    "distinct (level_slots (G x) @ level_slots (G (\<not> x)))"
    using r(3) by (simp_all add: disjoint_ghost_side [of _ x])
  have disjX: "set (level_nodes (G y)) \<inter> X = {}" for y
    using r(4) by (cases "y = x") (auto simp: all_nodes_side [of _ x])
  have sub: "set q' \<subseteq> set q \<union> X" using q'(1) by auto
  have dq': "distinct q'" using level_repD(3) [OF lev] .
  have ents: "entries (?G y) = entries (G y)" for y by (cases "y = x") (simp_all add: G)
  have slots: "level_slots (?G y) = level_slots (G y)" for y by (cases "y = x") (simp_all add: G)
  have nodes: "all_nodes ?G = (all_nodes G - set q) \<union> set q'"
    using dist sub disjX by (auto simp: all_nodes_side [of _ x] G)
  have other: "set (level_nodes g) \<inter> (set q \<union> Y) = {}" "l \<notin> set (level_slots g)"
    if "g = A \<or> g = C \<or> g = G (\<not> x)" for g
    using that dist disjX [of x] disjX [of "\<not> x"] Y by (auto simp: G)
  have frame: "levels_rep ?b y g" if "levels_rep b y g" "g = A \<or> g = C \<or> g = G (\<not> x)" for y g
    using levels_rep_only [OF that(1) only] other [OF that(2)] by simp
  show ?thesis
  proof (rule book_repI)
    fix y
    show "tree_rep B (side_of y) (price_prec ?b) (side_tree y ?b) (entries (?G y))"
      unfolding ents using r(1) [of y] by simp
    show "levels_rep ?b y (?G y)"
    proof (cases "y = x")
      case True
      have "levels_rep b x A" "levels_rep b x C"
        using r(2) [of x] by (auto simp: levels_rep_def G)
      then have "levels_rep ?b x A" "levels_rep ?b x C" using frame by auto
      then show ?thesis using True lev ord by (auto simp: levels_rep_def)
    next
      case False
      then have "y = (\<not> x)" by auto
      then show ?thesis using frame [OF r(2) [of "\<not> x"]] by simp
    qed
  next
    have "distinct (level_nodes (?G x) @ level_nodes (?G (\<not> x)))"
      using dist(1) dq' sub disjX [of x] disjX [of "\<not> x"] by (auto simp: G)
    then show "disjoint_ghost ?G"
      using dist(2) slots by (simp only: disjoint_ghost_side [of _ x])
    show "X' \<inter> all_nodes ?G = {}" using q'(2) X' by (auto simp: nodes)
    show "index_rep (b_index ?b) (b_node ?b) (all_nodes ?G)" using idx by simp
    have "all_slots ?G = all_slots G" by (simp only: all_slots_def slots)
    moreover have "set q \<subseteq> all_nodes G" by (auto simp: all_nodes_side [of G x] G)
    then have "all_nodes ?G \<union> X' = all_nodes G \<union> X" using q'(1) by (auto simp: nodes)
    ultimately show "pools_rep (b_heap ?b) (all_nodes ?G \<union> X') (all_slots ?G)"
      using pools_rep_same_alloc [OF _ r(6)] only by (simp add: only_level_def)
  qed
qed

text \<open>A write to an order that does not rest.\<close>

lemma book_rep_outside:
  assumes rep: "book_rep B b G X" and same: "same_alloc (b_heap b) h'"
    and levels: "level h' = b_level b"
    and nodes: "\<And>j. j \<notin> X \<Longrightarrow> node h' j = b_node b j"
  shows "book_rep B (b\<lparr>b_heap := h'\<rparr>) G X"
proof (rule book_repI)
  note r = book_repD [OF rep]
  have in_all: "j \<in> all_nodes G \<Longrightarrow> node h' j = b_node b j" for j using r(4) nodes by auto
  show "tree_rep B (side_of x) (price_prec (b\<lparr>b_heap := h'\<rparr>)) (side_tree x (b\<lparr>b_heap := h'\<rparr>)) (entries (G x))"
    for x using r(1) by simp
  show "levels_rep (b\<lparr>b_heap := h'\<rparr>) x (G x)" for x
    unfolding levels_rep_def
  proof (clarify, intro conjI ballI)
    fix p l q assume lq: "(p, l, q) \<in> set (G x)"
    then have "\<And>i. i \<in> set q \<Longrightarrow> node h' i = b_node b i" using in_all all_nodes_in by blast
    then show "level_rep (qty_prec (b\<lparr>b_heap := h'\<rparr>)) (b_heap (b\<lparr>b_heap := h'\<rparr>)) p l q"
      "i \<in> set q \<Longrightarrow> resting_order (qty_prec (b\<lparr>b_heap := h'\<rparr>)) x p i (b_node (b\<lparr>b_heap := h'\<rparr>) i)" for i
      using level_rep_frame [OF levels_repD(1) [OF r(2) lq], of h'] levels levels_repD(2) [OF r(2) lq]
        same_alloc_sizes [OF same] by simp_all
  qed
  show "disjoint_ghost G" "X \<inter> all_nodes G = {}" by (fact r)+
  show "index_rep (b_index (b\<lparr>b_heap := h'\<rparr>)) (b_node (b\<lparr>b_heap := h'\<rparr>)) (all_nodes G)"
    using r(5) in_all by (auto simp: index_on_def)
  show "pools_rep (b_heap (b\<lparr>b_heap := h'\<rparr>)) (all_nodes G \<union> X) (all_slots G)"
    using pools_rep_same_alloc [OF same r(6)] by simp
qed

lemma book_rep_set_node:
  assumes rep: "book_rep B b G X" and i: "i \<in> X"
  shows "book_rep B (b\<lparr>b_heap := set_node i f (b_heap b)\<rparr>) G X"
proof (rule book_rep_outside [OF rep])
  have "i < nodes_n (b_heap b)" using pools_repD(1) [OF book_repD(6) [OF rep]] i by blast
  then show "node (set_node i f (b_heap b)) j = b_node b j" if "j \<notin> X" for j
    using that i by (auto simp: heap_simps)
qed (simp_all add: heap_simps)

text \<open>Giving back the slot of an order that does not rest.\<close>

lemma book_rep_release:
  assumes rep: "book_rep B b G X" and i: "i \<in> X"
  shows "\<exists>h'. releaseNode i b = Some (b\<lparr>b_heap := h'\<rparr>) \<and> node h' = b_node b \<and> level h' = b_level b \<and>
     book_rep B (b\<lparr>b_heap := h'\<rparr>) G (X - {i})"
proof -
  note r = book_repD [OF rep]
  have "pool_ok (h_nodes (b_heap b))" "i \<in> used_slots (h_nodes (b_heap b))"
    using r(6) i by (auto simp: pools_rep_def)
  from Release_ok [OF this] obtain p' where p': "Release i (h_nodes (b_heap b)) = Some p'"
    "pool_ok p'" "used_slots p' = used_slots (h_nodes (b_heap b)) - {i}"
    "store p' = store (h_nodes (b_heap b))" by blast
  let ?h = "(b_heap b)\<lparr>h_nodes := p'\<rparr>"
  have rel: "releaseNode i b = Some (b\<lparr>b_heap := ?h\<rparr>)" by (simp add: releaseNode_def p')
  have n: "node ?h = b_node b" and l: "level ?h = b_level b"
    by (simp_all add: fun_eq_iff node_def level_def p'(4))
  have lev: "levels_rep (b\<lparr>b_heap := ?h\<rparr>) x g" if "levels_rep b x g" for x g
    unfolding levels_rep_def
  proof (clarify, intro conjI ballI)
    fix p l q assume lq: "(p, l, q) \<in> set g"
    show "level_rep (qty_prec (b\<lparr>b_heap := ?h\<rparr>)) (b_heap (b\<lparr>b_heap := ?h\<rparr>)) p l q"
      "i \<in> set q \<Longrightarrow> resting_order (qty_prec (b\<lparr>b_heap := ?h\<rparr>)) x p i (b_node (b\<lparr>b_heap := ?h\<rparr>) i)" for i
      using level_rep_frame [OF levels_repD(1) [OF that lq], of ?h] levels_repD(2) [OF that lq]
      by (simp_all add: n l p'(4))
  qed
  have "i \<notin> all_nodes G" using r(4) i by auto
  then have "pools_rep ?h (all_nodes G \<union> (X - {i})) (all_slots G)"
    using r(6) p' by (auto simp: pools_rep_def)
  then have "book_rep B (b\<lparr>b_heap := ?h\<rparr>) G (X - {i})"
    using r lev by (intro book_repI) (auto simp: n)
  then show ?thesis using rel n l by blast
qed

subsection \<open>The level operations inside the book\<close>

lemma resting_order_core:
  "core n' = core n \<Longrightarrow> resting_order qp x p i n \<Longrightarrow> resting_order qp x p i n'"
  using core_eqD [of n' n] by (simp add: resting_order_def sound_order_def node_prec_def)

lemma book_rep_level_facts:
  assumes rep: "book_rep B b G X" and G: "G x = A @ (p, l, q) # C"
  shows "level_rep (qty_prec b) (b_heap b) p l q"
    "\<And>i. i \<in> set q \<Longrightarrow> resting_order (qty_prec b) x p i (b_node b i)"
    "\<And>i. i \<in> set q \<Longrightarrow> b_index b (n_OrderID (b_node b i)) = Some i"
    "set q \<subseteq> all_nodes G" "set q \<inter> X = {}"
proof -
  note r = book_repD [OF rep]
  have m: "(p, l, q) \<in> set (G x)" by (simp add: G)
  show "level_rep (qty_prec b) (b_heap b) p l q"
    "\<And>i. i \<in> set q \<Longrightarrow> resting_order (qty_prec b) x p i (b_node b i)"
    using levels_repD [OF r(2) m] by auto
  show a: "set q \<subseteq> all_nodes G" using all_nodes_in [of p l q G x] m by auto
  then show "\<And>i. i \<in> set q \<Longrightarrow> b_index b (n_OrderID (b_node b i)) = Some i"
    using r(5) by (auto simp: index_on_def)
  show "set q \<inter> X = {}" using a r(4) by auto
qed

lemma index_rep_inj:
  "index_on m ids ns \<Longrightarrow> i \<in> ns \<Longrightarrow> j \<in> ns \<Longrightarrow> ids i = ids j \<Longrightarrow> i = j"
  unfolding index_on_def by (metis option.inject)

lemma index_card:
  assumes "index_on m ids ns"
  shows "card (dom m) = card ns"
proof -
  have "inj_on ids ns" using index_rep_inj [OF assms] by (intro inj_onI)
  moreover have "ids ` ns = dom m" using assms by (auto simp: index_on_def image_iff)
  ultimately show ?thesis using card_image by metis
qed

lemma index_rep_delete:
  assumes "index_on m ids ns" and "i \<in> ns" and "\<And>j. ids' j = ids j"
  shows "index_on (m(ids i := None)) ids' (ns - {i})"
  unfolding index_on_def
proof (intro allI)
  fix oid j
  show "((m(ids i := None)) oid = Some j) = (j \<in> ns - {i} \<and> ids' j = oid)"
  proof (cases "oid = ids i")
    case True
    then show ?thesis using index_rep_inj [OF assms(1,2), of j] assms(3) by auto
  next
    case False
    then show ?thesis using assms(1,3) by (auto simp: index_on_def)
  qed
qed

lemma index_rep_insert:
  assumes "index_on m ids ns" and "m (ids i) = None" and "\<And>j. ids' j = ids j"
  shows "index_on (m(ids i \<mapsto> i)) ids' (insert i ns)"
  unfolding index_on_def
proof (intro allI)
  fix oid j
  have none: "j \<notin> ns" if "ids j = ids i" for j
    using assms(1) [unfolded index_on_def, rule_format, of "ids j" j] assms(2) that
    by auto
  show "((m(ids i \<mapsto> i)) oid = Some j) = (j \<in> insert i ns \<and> ids' j = oid)"
  proof (cases "oid = ids i")
    case True
    then show ?thesis using none [of j] assms(3) by auto
  next
    case False
    then show ?thesis using assms(1,3) by (auto simp: index_on_def)
  qed
qed

lemma book_rep_unlink:
  assumes rep: "book_rep B b G X" and G: "G x = A @ (p, l, q1 @ i # q2) # C"
  shows "\<exists>h'. Unlink l i (b_heap b) = Some h' \<and> (\<forall>j. core (node h' j) = core (b_node b j)) \<and>
     book_rep B (b\<lparr>b_heap := h', b_index := (b_index b)(n_OrderID (b_node b i) := None)\<rparr>)
       (G(x := A @ (p, l, q1 @ q2) # C)) (insert i X)"
proof -
  note r = book_repD [OF rep] and f = book_rep_level_facts [OF rep G]
  obtain h' where h': "Unlink l i (b_heap b) = Some h'" "level_rep (qty_prec b) h' p l (q1 @ q2)"
    "only_level l (set (q1 @ i # q2)) (b_heap b) h'" "\<And>j. core (node h' j) = core (b_node b j)"
    using Unlink_ok [OF f(1)] by blast
  let ?G = "G(x := A @ (p, l, q1 @ q2) # C)"
  have dist: "distinct (level_nodes (G x) @ level_nodes (G (\<not> x)))"
    using r(3) by (simp add: disjoint_ghost_side [of _ x])
  have nodes: "all_nodes ?G = all_nodes G - {i}"
    using dist by (auto simp: all_nodes_side [of _ x] G)
  have idx: "index_rep ((b_index b)(n_OrderID (b_node b i) := None)) (node h') (all_nodes ?G)"
    unfolding nodes using f(4) by (intro index_rep_delete [OF r(5)] core_eqD(1) h'(4)) auto
  have i: "i \<notin> set (q1 @ q2)" using level_repD(3) [OF f(1)] by auto
  have "book_rep B (b\<lparr>b_heap := h', b_index := (b_index b)(n_OrderID (b_node b i) := None)\<rparr>)
       ?G (insert i X)"
  proof (rule book_rep_level [OF rep G _ empty_subsetI h'(2)])
    show "only_level l (set (q1 @ i # q2) \<union> {}) (b_heap b) h'" using h'(3) by simp
    show "resting_order (qty_prec b) x p j (node h' j)" if "j \<in> set (q1 @ q2)" for j
      using resting_order_core [OF h'(4) f(2)] that by auto
    show "set (q1 @ q2) \<inter> insert i X = {}" using i f(5) by auto
    show "insert i X \<inter> (all_nodes G - set (q1 @ i # q2)) = {}" using r(4) by auto
  qed (use idx in auto)
  then show ?thesis using h'(1,4) by blast
qed

lemma book_rep_decrement:
  assumes rep: "book_rep B b G X" and G: "G x = A @ (p, l, q1 @ i # q2) # C"
    and fq: "d_precision fq = qty_prec b"
  shows "\<exists>h'. DecrementQty l i fq (b_heap b) = Some h' \<and>
     (\<forall>j. node h' j = (if j = i then taken fq (b_node b i) else b_node b j)) \<and>
     book_rep B (b\<lparr>b_heap := h'\<rparr>) G X"
proof -
  note r = book_repD [OF rep] and f = book_rep_level_facts [OF rep G]
  obtain h' where h': "DecrementQty l i fq (b_heap b) = Some h'"
    "level_rep (qty_prec b) h' p l (q1 @ i # q2)" "only_level l {i} (b_heap b) h'"
    "node h' i = taken fq (b_node b i)"
    using DecrementQty_ok [OF f(1) fq] by blast
  have nodes: "node h' j = (if j = i then taken fq (b_node b i) else b_node b j)" for j
    using h'(3,4) by (simp add: only_level_def)
  have "i \<in> all_nodes G" using f(4) by auto
  then have idx: "index_rep (b_index b) (node h') (all_nodes G)"
    using r(5) by (auto simp: index_on_def nodes taken_def)
  have same: "G(x := A @ (p, l, q1 @ i # q2) # C) = G" using G by (simp add: fun_upd_idem)
  have sound: "sound_order (qty_prec b) (taken fq n)" if "sound_order (qty_prec b) n" for n
    using that by (simp add: sound_order_def node_prec_def taken_def)
  have "book_rep B (b\<lparr>b_heap := h', b_index := b_index b\<rparr>) (G(x := A @ (p, l, q1 @ i # q2) # C)) X"
  proof (rule book_rep_level [OF rep G _ empty_subsetI h'(2)])
    show "only_level l (set (q1 @ i # q2) \<union> {}) (b_heap b) h'"
      using h'(3) by (auto simp: only_level_def)
    show "resting_order (qty_prec b) x p j (node h' j)" if "j \<in> set (q1 @ i # q2)" for j
    proof (cases "j = i")
      case True
      then show ?thesis using f(2) [of i] sound by (simp add: nodes resting_order_def) (simp add: taken_def)
    next
      case False
      then show ?thesis using f(2) [OF that] by (simp add: nodes)
    qed
    show "X \<inter> (all_nodes G - set (q1 @ i # q2)) = {}" using r(4) by auto
  qed (use idx same f(5) in auto)
  then have "book_rep B (b\<lparr>b_heap := h'\<rparr>) G X" unfolding same by simp
  then show ?thesis using h'(1) nodes by blast
qed

lemma book_rep_replenish:
  assumes rep: "book_rep B b G X" and G: "G x = A @ (p, l, q1 @ i # q2) # C"
    and hid: "0 < ival (n_HiddenQty (b_node b i))"
  shows "\<exists>h'. ReplenishIceberg l i s (b_heap b) = Some h' \<and>
     (\<forall>j. core (node h' j) = core (if j = i then replenished s (b_node b i) else b_node b j)) \<and>
     book_rep B (b\<lparr>b_heap := h'\<rparr>) (G(x := A @ (p, l, q1 @ q2 @ [i]) # C)) X"
proof -
  note r = book_repD [OF rep] and f = book_rep_level_facts [OF rep G]
  have so: "sound_order (qty_prec b) (b_node b i)" using f(2) [of i] by (simp add: resting_order_def)
  then have prec: "d_precision (n_HiddenQty (b_node b i)) = qty_prec b"
    "d_precision (n_OrigDisplayQty (b_node b i)) = qty_prec b"
    using hid by (simp_all add: sound_order_def)
  obtain h' where h': "ReplenishIceberg l i s (b_heap b) = Some h'"
    "level_rep (qty_prec b) h' p l (q1 @ q2 @ [i])" "only_level l (set (q1 @ i # q2)) (b_heap b) h'"
    "\<And>j. core (node h' j) = core (if j = i then replenished s (b_node b i) else b_node b j)"
    using ReplenishIceberg_ok [OF f(1) prec] by blast
  let ?G = "G(x := A @ (p, l, q1 @ q2 @ [i]) # C)"
  have nodes: "all_nodes ?G = all_nodes G" by (auto simp: all_nodes_side [of _ x] G)
  have ids: "n_OrderID (node h' j) = n_OrderID (b_node b j)" for j
    using core_eqD(1) [OF h'(4) [of j]] by (simp add: replenished_def)
  have idx: "index_rep (b_index b) (node h') (all_nodes ?G)"
    using r(5) by (simp add: index_on_def nodes ids)
  have sound: "resting_order (qty_prec b) x p i (replenished s (b_node b i))"
    using f(2) [of i] prec hid
    by (simp add: resting_order_def sound_order_def node_prec_def replenished_def dmin_prec)
  have "book_rep B (b\<lparr>b_heap := h', b_index := b_index b\<rparr>) ?G X"
  proof (rule book_rep_level [OF rep G _ empty_subsetI h'(2)])
    show "only_level l (set (q1 @ i # q2) \<union> {}) (b_heap b) h'" using h'(3) by simp
    show "resting_order (qty_prec b) x p j (node h' j)" if "j \<in> set (q1 @ q2 @ [i])" for j
    proof (cases "j = i")
      case True
      then show ?thesis using resting_order_core [OF _ sound, of "node h' i"] h'(4) [of i] by simp
    next
      case False
      then show ?thesis using resting_order_core [OF _ f(2), of "node h' j" j] h'(4) [of j] that by auto
    qed
    show "X \<inter> (all_nodes G - set (q1 @ i # q2)) = {}" using r(4) by auto
  qed (use idx f(5) in auto)
  then have "book_rep B (b\<lparr>b_heap := h'\<rparr>) ?G X" by simp
  then show ?thesis using h'(1,4) by blast
qed

lemma book_rep_append:
  assumes rep: "book_rep B b G X" and G: "G x = A @ (p, l, q) # C" and i: "i \<in> X"
    and ord: "resting_order (qty_prec b) x p i (b_node b i)"
    and fresh: "b_index b (n_OrderID (b_node b i)) = None"
  shows "\<exists>h'. Append l i (b_heap b) = Some h' \<and> (\<forall>j. core (node h' j) = core (b_node b j)) \<and>
     book_rep B (b\<lparr>b_heap := h', b_index := (b_index b)(n_OrderID (b_node b i) \<mapsto> i)\<rparr>)
       (G(x := A @ (p, l, q @ [i]) # C)) (X - {i})"
proof -
  note r = book_repD [OF rep] and f = book_rep_level_facts [OF rep G]
  have iq: "i \<notin> set q" using f(5) i by auto
  have il: "i < nodes_n (b_heap b)" using pools_repD(1) [OF r(6)] i by blast
  have prec: "node_prec (qty_prec b) (b_node b i)" using ord by (simp add: resting_order_def sound_order_def)
  obtain h' where h': "Append l i (b_heap b) = Some h'" "level_rep (qty_prec b) h' p l (q @ [i])"
    "only_level l (insert i (set q)) (b_heap b) h'" "\<And>j. core (node h' j) = core (b_node b j)"
    using Append_ok [OF f(1) il iq prec] by blast
  let ?G = "G(x := A @ (p, l, q @ [i]) # C)"
  have nodes: "all_nodes ?G = insert i (all_nodes G)" by (auto simp: all_nodes_side [of _ x] G)
  have idx: "index_rep ((b_index b)(n_OrderID (b_node b i) \<mapsto> i)) (node h') (all_nodes ?G)"
    unfolding nodes by (intro index_rep_insert [OF r(5) fresh] core_eqD(1) h'(4))
  have "book_rep B (b\<lparr>b_heap := h', b_index := (b_index b)(n_OrderID (b_node b i) \<mapsto> i)\<rparr>)
       ?G (X - {i})"
  proof (rule book_rep_level [OF rep G _ _ h'(2)])
    show "only_level l (set q \<union> {i}) (b_heap b) h'" using h'(3) by simp
    show "resting_order (qty_prec b) x p j (node h' j)" if "j \<in> set (q @ [i])" for j
      using resting_order_core [OF h'(4)] f(2) ord that by auto
    show "(X - {i}) \<inter> (all_nodes G - set q) = {}" using r(4) by auto
  qed (use idx i f(5) in auto)
  then show ?thesis using h'(1,4) by blast
qed

lemma tree_rep_split:
  "entries (A @ (p, l, q) # C) = entries A @ (p, l) # entries C"
  by simp

lemma price_prec_of:
  assumes "price_index B" and "book_rep B b G X" and "(p, l, q) \<in> set (G x)"
  shows "d_precision p = price_prec b"
  using price_index.tree_keys(1) [OF assms(1) book_repD(1) [OF assms(2), of x]] assms(3) by force

text \<open>Taking an empty level out of its side.\<close>

lemma book_rep_drop:
  assumes B: "price_index B" and rep: "book_rep B b G X" and G: "G x = A @ (p, l, []) # C"
  shows "\<exists>b'. dropLevelIfEmpty B x l b = Some b' \<and> b_node b' = b_node b \<and>
     b_index b' = b_index b \<and> b_config b' = b_config b \<and> b_orderSeq b' = b_orderSeq b \<and>
     book_rep B b' (G(x := A @ C)) X"
proof -
  note r = book_repD [OF rep] and f = book_rep_level_facts [OF rep G]
  note v = level_repD [OF f(1)]
  obtain t where t: "Delete B p (side_tree x b) = Some t"
    "tree_rep B (side_of x) (price_prec b) t (entries (A @ C))"
    using price_index.Delete_ok [OF B, of "side_of x" "price_prec b" "side_tree x b" "entries A" p l "entries C"]
      r(1) [of x] by (auto simp: G)
  have "pool_ok (h_levels (b_heap b))" "l \<in> used_slots (h_levels (b_heap b))"
    using r(6) by (auto simp: pools_rep_def all_slots_side [of _ x] G)
  from Release_ok [OF this] obtain p' where p': "Release l (h_levels (b_heap b)) = Some p'"
    "pool_ok p'" "used_slots p' = used_slots (h_levels (b_heap b)) - {l}"
    "store p' = store (h_levels (b_heap b))" by blast
  let ?h = "(b_heap b)\<lparr>h_levels := p'\<rparr>" and ?G = "G(x := A @ C)"
  let ?b = "(set_side_tree x t b)\<lparr>b_heap := ?h\<rparr>"
  have n: "node ?h = b_node b" and lv: "level ?h = b_level b"
    by (simp_all add: fun_eq_iff node_def level_def p'(4))
  have run: "dropLevelIfEmpty B x l b = Some ?b"
    using v(4,5,6) t(1)
    by (simp add: dropLevelIfEmpty_def IsEmpty_level_def releaseLevel_def p'(1))
  have dist: "distinct (level_slots (G x) @ level_slots (G (\<not> x)))"
    using r(3) by (simp add: disjoint_ghost_side [of _ x])
  have nodes: "all_nodes ?G = all_nodes G" by (auto simp: all_nodes_side [of _ x] G)
  have slots: "all_slots ?G = all_slots G - {l}"
    using dist by (auto simp: all_slots_side [of _ x] G)
  have "book_rep B ?b ?G X"
  proof (rule book_repI)
    fix y
    show "tree_rep B (side_of y) (price_prec ?b) (side_tree y ?b) (entries (?G y))"
      using r(1) [of y] t(2) by auto
    have lev: "levels_rep ?b y g" if "levels_rep b y g" for g
      unfolding levels_rep_def
    proof (clarify, intro conjI ballI)
      fix p k q assume lq: "(p, k, q) \<in> set g"
      show "level_rep (qty_prec ?b) (b_heap ?b) p k q"
        "i \<in> set q \<Longrightarrow> resting_order (qty_prec ?b) y p i (b_node ?b i)" for i
        using level_rep_frame [OF levels_repD(1) [OF that lq], of ?h] levels_repD(2) [OF that lq]
        by (simp_all add: n lv p'(4))
    qed
    have "set (?G y) \<subseteq> set (G y)" by (cases "y = x") (auto simp: G)
    then have "levels_rep b y (?G y)" using r(2) [of y] unfolding levels_rep_def by blast
    then show "levels_rep ?b y (?G y)" by (rule lev)
  next
    show "disjoint_ghost ?G" using r(3) by (auto simp: disjoint_ghost_side [of _ x] G)
    show "X \<inter> all_nodes ?G = {}" using r(4) nodes by simp
    show "index_rep (b_index ?b) (b_node ?b) (all_nodes ?G)" using r(5) by (simp add: n nodes)
    show "pools_rep (b_heap ?b) (all_nodes ?G \<union> X) (all_slots ?G)"
      using r(6) p' by (simp add: pools_rep_def nodes slots)
  qed
  then show ?thesis using run n by auto
qed

text \<open>Finding a level, or making an empty one at its place in the price order.\<close>

definition with_level :: "bool \<Rightarrow> Decimal \<Rightarrow> nat \<Rightarrow> glevel list \<Rightarrow> glevel list" where
  "with_level x p l g = (if p \<in> fst ` set g then g else entries_set (tree_less (side_of x)) p (l, []) g)"

lemma with_level_split:
  assumes "p \<notin> fst ` set g"
  obtains A C where "with_level x p l g = A @ (p, l, []) # C"
  using assms by (auto simp: with_level_def entries_set_def)

lemma mset_level_nodes: "mset (level_nodes g) = (\<Sum>e\<in>#mset g. mset (snd (snd e)))"
  by (induction g) (auto simp: level_nodes_def)

lemma mset_level_slots: "mset (level_slots g) = image_mset (fst \<circ> snd) (mset g)"
  by (induction g) (auto simp: level_slots_def)

lemma with_level_mset:
  assumes "fst ` set g \<subseteq> prices pp" and "d_precision p = pp" and "p \<notin> fst ` set g"
  shows "mset (with_level x p l g) = add_mset (p, l, []) (mset g)"
proof -
  let ?b = "\<lambda>e. tree_less (side_of x) (fst e) p = Some True"
  have "tree_less (side_of x) p (fst e) = Some True \<longleftrightarrow> \<not> ?b e" if "e \<in> set g" for e
  proof -
    have "d_precision (fst e) = d_precision p" "fst e \<noteq> p" using assms that by auto
    then show ?thesis using ival_neq [of "fst e" p] by (auto simp: tree_less_same)
  qed
  then have f: "filter (\<lambda>e. tree_less (side_of x) p (fst e) = Some True) g = filter (\<lambda>e. \<not> ?b e) g"
    by (intro filter_cong) auto
  show ?thesis using assms(3) by (simp add: with_level_def entries_set_def f)
qed

definition fresh_level :: "Decimal \<Rightarrow> u8 \<Rightarrow> u8 \<Rightarrow> nat \<Rightarrow> PriceLevel" where
  "fresh_level p rq dq idx = zeroLevel\<lparr>l_PoolIndex := idx, l_Price := p, l_TotalQty := Zero rq,
     l_DisplayQty := Zero dq\<rparr>"

lemma book_rep_create:
  assumes B: "price_index B" and rep: "book_rep B b G X"
    and p: "d_precision p = price_prec b" "p \<notin> fst ` set (G x)"
    and acq: "Acquire zeroLevel (h_levels (b_heap b)) = Inr (pool, idx)"
    and nodes: "h_nodes h' = h_nodes (b_heap b)" and al: "alloc (h_levels h') = alloc pool"
    and lev: "level h' = (b_level b)(idx := fresh_level p (qty_prec b) (qty_prec b) idx)"
  shows "\<exists>t. Insert B p idx (side_tree x b) = Some t \<and>
     book_rep B (set_side_tree x t (b\<lparr>b_heap := h'\<rparr>)) (G(x := with_level x p idx (G x))) X"
proof -
  note r = book_repD [OF rep]
  have fst_entries: "fst ` set (entries g) = fst ` set g" for g :: "glevel list" by force
  obtain t where t: "Insert B p idx (side_tree x b) = Some t"
    "tree_rep B (side_of x) (price_prec b) t (entries_set (tree_less (side_of x)) p idx (entries (G x)))"
    using price_index.Insert_ok [OF B r(1) p(1)] p(2) by (metis fst_entries)
  let ?G = "G(x := with_level x p idx (G x))" and ?b = "set_side_tree x t (b\<lparr>b_heap := h'\<rparr>)"
  obtain A C where AC: "with_level x p idx (G x) = A @ (p, idx, []) # C"
    using with_level_split [OF p(2)] .
  have wl: "with_level x p idx (G x) = entries_set (tree_less (side_of x)) p (idx, []) (G x)"
    using p(2) by (simp add: with_level_def)
  have ents: "entries (with_level x p idx (G x)) = entries_set (tree_less (side_of x)) p idx (entries (G x))"
    unfolding wl using entries_set_map [of "tree_less (side_of x)" p fst "(idx, [])" "G x"] by simp
  have keys: "fst ` set (G x) \<subseteq> prices (price_prec b)"
    using price_index.tree_keys(1) [OF B r(1), of x] unfolding fst_entries .
  note ms = with_level_mset [OF keys p, of x idx]
  have mem: "set (with_level x p idx (G x)) = insert (p, idx, []) (set (G x))"
    using ms by (metis set_mset_add_mset_insert set_mset_mset)
  have mn: "mset (level_nodes (with_level x p idx (G x))) = mset (level_nodes (G x))"
    "mset (level_slots (with_level x p idx (G x))) = add_mset idx (mset (level_slots (G x)))"
    by (simp_all add: mset_level_nodes mset_level_slots ms)
  have mns: "set (level_nodes (with_level x p idx (G x))) = set (level_nodes (G x))"
    "set (level_slots (with_level x p idx (G x))) = insert idx (set (level_slots (G x)))"
    using arg_cong [OF mn(1), of set_mset] arg_cong [OF mn(2), of set_mset] by simp_all
  have ok: "pool_ok (h_levels (b_heap b))" using r(6) by (simp add: pools_rep_def)
  note acq' = Acquire_ok [OF ok acq]
  have sz: "length (store pool) = levels_n (b_heap b)" using acq'(4) by simp
  have used: "used_slots (h_levels h') = insert idx (all_slots G)" "pool_ok (h_levels h')"
    using alloc_used [OF al] acq'(1,3) r(6) by (simp_all add: pools_rep_def)
  have idx: "idx \<notin> all_slots G" using acq'(2) r(6) by (simp add: pools_rep_def)
  have n: "node h' = b_node b" using nodes by (simp add: fun_eq_iff node_def)
  have lsz: "levels_n h' = levels_n (b_heap b)" "nodes_n h' = nodes_n (b_heap b)"
    using al sz nodes by (simp_all add: alloc_def)
  have node_sets: "all_nodes ?G = all_nodes G" "all_slots ?G = insert idx (all_slots G)"
    by (simp_all add: all_nodes_side [of _ x] all_slots_side [of _ x] mns)
  have "book_rep B ?b ?G X"
  proof (rule book_repI)
    fix y
    show "tree_rep B (side_of y) (price_prec ?b) (side_tree y ?b) (entries (?G y))"
      using r(1) [of y] t(2) by (cases "y = x") (auto simp: ents)
    have old: "level_rep (qty_prec b) h' p' k q \<and> (\<forall>i\<in>set q. resting_order (qty_prec b) y p' i (node h' i))"
      if "(p', k, q) \<in> set (G y)" for p' k q
    proof -
      have "k \<noteq> idx" using idx all_slots_in [of p' k q G y] that by auto
      then show ?thesis
        using level_rep_frame [OF levels_repD(1) [OF r(2) that], of h'] levels_repD(2) [OF r(2) that]
        by (simp add: lev n lsz)
    qed
    have "idx < levels_n h'" using acq'(5) lsz sz by simp
    then have new: "level_rep (qty_prec b) h' p idx []"
      by (intro level_repI) (simp_all add: lev fresh_level_def zeroLevel_def qsum_def Zero_def)
    have "levels_rep (b\<lparr>b_heap := h'\<rparr>) y (?G y)"
      using old new mem by (cases "y = x") (auto simp: levels_rep_def)
    then show "levels_rep ?b y (?G y)" by (simp add: levels_rep_def)
  next
    show "disjoint_ghost ?G"
      using r(3) idx mset_eq_imp_distinct_iff [OF mn(1)] mset_eq_imp_distinct_iff [of _ "idx # level_slots (G x)"] mn(2)
      by (simp add: disjoint_ghost_side [of _ x] mns all_slots_side [of _ x])
    show "X \<inter> all_nodes ?G = {}" using r(4) node_sets by simp
    show "index_rep (b_index ?b) (b_node ?b) (all_nodes ?G)" using r(5) by (simp add: n node_sets)
    show "pools_rep (b_heap ?b) (all_nodes ?G \<union> X) (all_slots ?G)"
      using r(6) used by (simp add: pools_rep_def node_sets nodes)
  qed
  then show ?thesis using t(1) by blast
qed

text \<open>Resting, for a price that has a level and for one that needs a new one.\<close>

lemma rest_append:
  assumes rep: "book_rep B (set_side_tree x t (b\<lparr>b_heap := h\<rparr>)) (G(x := A @ (n_Price n, l, q) # C)) X"
    and same: "node h = b_node b" and i: "i \<in> X" and n: "n = b_node b i"
    and ord: "resting_order (qty_prec b) x (n_Price n) i n" and fresh: "b_index b (n_OrderID n) = None"
  shows "\<exists>h'. Append l i h = Some h' \<and> (\<forall>j. core (node h' j) = core (b_node b j)) \<and>
     book_rep B (set_side_tree x t (b\<lparr>b_heap := h', b_index := (b_index b)(n_OrderID n \<mapsto> i)\<rparr>))
       (G(x := A @ (n_Price n, l, q @ [i]) # C)) (X - {i})"
proof -
  have "set_side_tree x t (b\<lparr>b_heap := h', b_index := m\<rparr>) = set_side_tree x t (b\<lparr>b_heap := h\<rparr>)\<lparr>b_heap := h', b_index := m\<rparr>"
    for h' m by (simp add: set_side_tree_def)
  then show ?thesis
    using book_rep_append [OF rep _ i, of x A "n_Price n" l q C] ord fresh by (simp add: same n [symmetric])
qed

lemma restNode_existing:
  assumes B: "price_index B" and rep: "book_rep B b G X" and i: "i \<in> X"
    and n: "n = b_node b i" and ord: "resting_order (qty_prec b) x (n_Price n) i n"
    and pp: "d_precision (n_Price n) = price_prec b" and fresh: "b_index b (n_OrderID n) = None"
    and get: "map_of (entries (G x)) (n_Price n) = Some l"
  shows "\<exists>b' A q C. restNode B i b = Some (Inr b') \<and> G x = A @ (n_Price n, l, q) # C \<and>
     (\<forall>j. core (b_node b' j) = core (b_node b j)) \<and> b_config b' = b_config b \<and> b_orderSeq b' = b_orderSeq b \<and>
     book_rep B b' (G(x := A @ (n_Price n, l, q @ [i]) # C)) (X - {i})"
proof -
  have x: "(n_Side n = Bid) = x" using ord by (simp add: resting_order_def)
  obtain q where "(n_Price n, l, q) \<in> set (G x)" using get by (auto dest!: map_of_SomeD)
  then obtain A C where AC: "G x = A @ (n_Price n, l, q) # C" by (metis split_list)
  have idem: "set_side_tree x (side_tree x b) (b\<lparr>b_heap := b_heap b\<rparr>) = b"
    by (cases b) (simp add: set_side_tree_def side_tree_def)
  have "G(x := A @ (n_Price n, l, q) # C) = G" using AC by (simp add: fun_upd_idem)
  then have rep': "book_rep B (set_side_tree x (side_tree x b) (b\<lparr>b_heap := b_heap b\<rparr>))
      (G(x := A @ (n_Price n, l, q) # C)) X" using rep idem by simp
  obtain h' where h': "Append l i (b_heap b) = Some h'" "\<forall>j. core (node h' j) = core (b_node b j)"
    "book_rep B (set_side_tree x (side_tree x b) (b\<lparr>b_heap := h', b_index := (b_index b)(n_OrderID n \<mapsto> i)\<rparr>))
       (G(x := A @ (n_Price n, l, q @ [i]) # C)) (X - {i})"
    using rest_append [OF rep' refl i n ord fresh] by blast
  let ?b = "set_side_tree x (side_tree x b) (b\<lparr>b_heap := h', b_index := (b_index b)(n_OrderID n \<mapsto> i)\<rparr>)"
  have "restNode B i b = Some (Inr ?b)"
    using price_index.Get_ok [OF B book_repD(1) [OF rep, of x] pp] get h'(1)
    by (simp add: restNode_def GetOrCreate_def n [symmetric] x)
  then show ?thesis using AC h'(2,3) by (intro exI [of _ ?b]) fastforce
qed

lemma restNode_created:
  assumes B: "price_index B" and rep: "book_rep B b G X" and i: "i \<in> X"
    and n: "n = b_node b i" and ord: "resting_order (qty_prec b) x (n_Price n) i n"
    and pp: "d_precision (n_Price n) = price_prec b" and fresh: "b_index b (n_OrderID n) = None"
    and get: "map_of (entries (G x)) (n_Price n) = None" and abs: "n_Price n \<notin> fst ` set (G x)"
    and acq: "Acquire zeroLevel (h_levels (b_heap b)) = Inr (pool, idx)"
  shows "\<exists>b' A C. restNode B i b = Some (Inr b') \<and> with_level x (n_Price n) idx (G x) = A @ (n_Price n, idx, []) # C \<and>
     (\<forall>j. core (b_node b' j) = core (b_node b j)) \<and> b_config b' = b_config b \<and> b_orderSeq b' = b_orderSeq b \<and>
     book_rep B b' (G(x := A @ (n_Price n, idx, [i]) # C)) (X - {i})"
proof -
  have x: "(n_Side n = Bid) = x" using ord by (simp add: resting_order_def)
  have prec: "d_precision (n_RemainQty n) = qty_prec b" "d_precision (n_DisplayQty n) = qty_prec b"
    using ord by (simp_all add: resting_order_def sound_order_def node_prec_def)
  have ok: "pool_ok (h_levels (b_heap b))" using book_repD(6) [OF rep] by (simp add: pools_rep_def)
  note acq' = Acquire_ok [OF ok acq]
  define h1 where "h1 = set_level idx (\<lambda>v. v\<lparr>l_Price := n_Price n\<rparr>)
      (set_level idx (\<lambda>v. v\<lparr>l_PoolIndex := idx\<rparr>) ((b_heap b)\<lparr>h_levels := pool\<rparr>))"
  define h where "h = set_level idx (\<lambda>v. v\<lparr>l_TotalQty := Zero (d_precision (n_RemainQty n)),
      l_DisplayQty := Zero (d_precision (n_DisplayQty n))\<rparr>) h1"
  have base: "level ((b_heap b)\<lparr>h_levels := pool\<rparr>) = (b_level b)(idx := zeroLevel)"
    "node ((b_heap b)\<lparr>h_levels := pool\<rparr>) = b_node b"
    using acq'(4,5) by (auto simp: level_def node_def fun_eq_iff)
  have il: "idx < length (store pool)" using acq'(4,5) by simp
  have nodes: "h_nodes h = h_nodes (b_heap b)" by (simp add: h_def h1_def set_level_def)
  have al: "alloc (h_levels h) = alloc pool" by (simp add: h_def h1_def set_level_def alloc_def)
  have price: "l_Price (level h1 idx) = n_Price n" using il by (simp add: h1_def heap_simps)
  have lev: "level h = (b_level b)(idx := fresh_level (n_Price n) (qty_prec b) (qty_prec b) idx)"
    using il prec by (simp add: h_def h1_def heap_simps base fresh_level_def)
  have same: "node h = b_node b" using nodes by (simp add: fun_eq_iff node_def)
  obtain t where t: "Insert B (n_Price n) idx (side_tree x b) = Some t"
    "book_rep B (set_side_tree x t (b\<lparr>b_heap := h\<rparr>)) (G(x := with_level x (n_Price n) idx (G x))) X"
    using book_rep_create [OF B rep pp abs acq nodes al lev] by blast
  obtain A C where AC: "with_level x (n_Price n) idx (G x) = A @ (n_Price n, idx, []) # C"
    using with_level_split [OF abs] .
  obtain h' where h': "Append idx i h = Some h'" "\<forall>j. core (node h' j) = core (b_node b j)"
    "book_rep B (set_side_tree x t (b\<lparr>b_heap := h', b_index := (b_index b)(n_OrderID n \<mapsto> i)\<rparr>))
       (G(x := A @ (n_Price n, idx, [] @ [i]) # C)) (X - {i})"
    using rest_append [OF _ same i n ord fresh] t(2) unfolding AC by blast
  let ?b = "set_side_tree x t (b\<lparr>b_heap := h', b_index := (b_index b)(n_OrderID n \<mapsto> i)\<rparr>)"
  have "GetOrCreate B (n_Price n) (b_heap b) (side_tree x b) = Some (Inr (idx, True, h1, t))"
    using price_index.Get_ok [OF B book_repD(1) [OF rep, of x] pp] get acq t(1) price
    by (simp add: GetOrCreate_def h1_def [symmetric])
  then have "restNode B i b = Some (Inr ?b)"
    using h'(1) by (simp add: restNode_def n [symmetric] x h_def [symmetric])
  then show ?thesis using AC h'(2,3) by (intro exI [of _ ?b]) fastforce
qed

lemma restNode_cases:
  assumes B: "price_index B" and rep: "book_rep B b G X" and i: "i \<in> X"
    and n: "n = b_node b i" and ord: "resting_order (qty_prec b) x (n_Price n) i n"
    and pp: "d_precision (n_Price n) = price_prec b"
    and fresh: "b_index b (n_OrderID n) = None"
  shows "(\<exists>err. restNode B i b = Some (Inl err) \<and> n_Price n \<notin> fst ` set (G x) \<and> LevelPoolFull b) \<or>
    (\<exists>b' l A q C. restNode B i b = Some (Inr b') \<and>
       with_level x (n_Price n) l (G x) = A @ (n_Price n, l, q) # C \<and>
       (\<forall>j. core (b_node b' j) = core (b_node b j)) \<and>
       b_config b' = b_config b \<and> b_orderSeq b' = b_orderSeq b \<and>
       book_rep B b' (G(x := A @ (n_Price n, l, q @ [i]) # C)) (X - {i}))"
proof (cases "map_of (entries (G x)) (n_Price n)")
  case (Some l)
  from restNode_existing [OF assms Some] show ?thesis by (fastforce simp: with_level_def)
next
  case None
  have "fst ` set (entries g) = fst ` set g" for g :: "glevel list" by force
  then have abs: "n_Price n \<notin> fst ` set (G x)" using None unfolding map_of_eq_None_iff by simp
  show ?thesis
  proof (cases "Acquire zeroLevel (h_levels (b_heap b))")
    case (Inl err)
    have "pool_ok (h_levels (b_heap b))" using book_repD(6) [OF rep] by (simp add: pools_rep_def)
    then have "LevelPoolFull b"
      using Acquire_exhausted [of "h_levels (b_heap b)" zeroLevel] Inl by (cases err) (simp add: LevelPoolFull_def)
    moreover have "(n_Side n = Bid) = x" using ord by (simp add: resting_order_def)
    then have "restNode B i b = Some (Inl err)"
      using price_index.Get_ok [OF B book_repD(1) [OF rep, of x] pp] None Inl
      by (simp add: restNode_def GetOrCreate_def n [symmetric])
    ultimately show ?thesis using abs by blast
  next
    case (Inr r0)
    then obtain pool idx where "Acquire zeroLevel (h_levels (b_heap b)) = Inr (pool, idx)" by (cases r0) simp
    from restNode_created [OF assms None abs this] show ?thesis by (metis append_Nil)
  qed
qed

end
