(* ===== verification/Matching.thy ===== *)
theory Matching
  imports Book_Inv
begin

section \<open>The matching loop (\<open>book/matching.go\<close>)\<close>

text \<open>
  \<open>match\<close> fills an incoming order against the opposite side of the book.  The incoming order
  is an object of the node pool too, and every write to it and to a maker is a write to the
  heap.  The two nested loops are \<open>match_level\<close> (one price level) and \<open>match_loop\<close>; neither is
  bounded in the code (with an STP mode that is no declared constant, \<open>applySTP\<close> skips
  the makers for ever), so both are partial functions: \<open>None\<close> is a panic or a call that never
  returns.
\<close>

datatype Disposition =
    FullyFilled | PartialFill_Rested | PartialFill_Canceled | Rested | Canceled | Rejected
  | STPCanceled_Taker

record STPCanceled =
  sc_OrderID :: OrderID
  sc_UserID :: UserID
  sc_Side :: Side
  sc_Price :: Decimal
  sc_RemainQty :: Decimal
  sc_FilledQty :: Decimal

definition set_b_node :: "nat \<Rightarrow> (OrderNode \<Rightarrow> OrderNode) \<Rightarrow> 't OrderBook \<Rightarrow> 't OrderBook" where
  "set_b_node i f b = b\<lparr>b_heap := set_node i f (b_heap b)\<rparr>"

definition crosses :: "OrderNode \<Rightarrow> PriceLevel \<Rightarrow> bool option" where
  "crosses incoming v =
     (if n_Type incoming = Market then Some True
      else if n_Side incoming = Bid then GreaterThanOrEqual (n_Price incoming) (l_Price v)
      else LessThanOrEqual (n_Price incoming) (l_Price v))"

text \<open>The fill-or-kill dry run: add up levels from the best on, until one does not cross or
  the sum reaches the order's quantity.\<close>

definition canFillFull :: "'t btree_fns \<Rightarrow> nat \<Rightarrow> 't OrderBook \<Rightarrow> bool option" where
  "canFillFull B inc b = do {
     let incoming = b_node b inc;
     let oppTree = side_tree (n_Side incoming \<noteq> Bid) b;
     available \<leftarrow> Iterate (\<lambda>(p, l) available. do {
         c \<leftarrow> crosses incoming (b_level b l);
         if \<not> c then Some (available, False)
         else do {
           available \<leftarrow> Add available (l_TotalQty (b_level b l));
           go_on \<leftarrow> LessThan available (n_RemainQty incoming);
           Some (available, go_on) } })
       (bt_scan B (t_tree oppTree)) (Zero (d_precision (n_RemainQty incoming)));
     GreaterThanOrEqual available (n_RemainQty incoming) }"

subsection \<open>Self-trade prevention\<close>

definition effectiveSTPMode :: "MarketConfig \<Rightarrow> OrderNode \<Rightarrow> OrderNode \<Rightarrow> STPMode" where
  "effectiveSTPMode cfg incoming maker =
     (if n_STPMode incoming \<noteq> STPDisabled then n_STPMode incoming
      else if n_STPMode maker \<noteq> STPDisabled then n_STPMode maker
      else mc_STPMode cfg)"

definition stpEnabled :: "MarketConfig \<Rightarrow> OrderNode \<Rightarrow> OrderNode \<Rightarrow> bool" where
  "stpEnabled cfg incoming maker \<longleftrightarrow>
     n_UserID incoming = n_UserID maker \<and> effectiveSTPMode cfg incoming maker \<noteq> STPDisabled"

definition stp_canceled :: "OrderNode \<Rightarrow> Decimal \<Rightarrow> STPCanceled" where
  "stp_canceled maker price =
     \<lparr>sc_OrderID = n_OrderID maker, sc_UserID = n_UserID maker, sc_Side = n_Side maker,
      sc_Price = price, sc_RemainQty = n_RemainQty maker, sc_FilledQty = n_FilledQty maker\<rparr>"

text \<open>The three calls by which both loops take a maker out of the book.\<close>

definition removeMaker :: "nat \<Rightarrow> nat \<Rightarrow> 't OrderBook \<Rightarrow> 't OrderBook option" where
  "removeMaker m l b = do {
     h \<leftarrow> Unlink l m (b_heap b);
     let b = b\<lparr>b_heap := h\<rparr>;
     let b = b\<lparr>b_index := (b_index b)(n_OrderID (b_node b m) := None)\<rparr>;
     releaseNode (n_PoolIndex (b_node b m)) b }"

definition cancelMakerNode :: "nat \<Rightarrow> nat \<Rightarrow> 't OrderBook \<Rightarrow> (STPCanceled \<times> 't OrderBook) option" where
  "cancelMakerNode m l b = do {
     let sc = stp_canceled (b_node b m) (l_Price (b_level b l));
     b \<leftarrow> removeMaker m l b;
     Some (sc, b) }"

definition zero_remain :: "OrderNode \<Rightarrow> OrderNode" where
  "zero_remain n = n\<lparr>n_RemainQty := Zero (d_precision (n_RemainQty n))\<rparr>"

text \<open>The result: the next maker, whether matching goes on, the cancels so far and the book.\<close>

definition applySTP :: "'t btree_fns \<Rightarrow> nat \<Rightarrow> nat \<Rightarrow> nat \<Rightarrow> STPMode \<Rightarrow> STPCanceled list \<Rightarrow>
    't OrderBook \<Rightarrow> (nat option \<times> bool \<times> STPCanceled list \<times> 't OrderBook) option" where
  "applySTP B inc m l mode cancels b =
     (case mode of
        STPCancelBoth \<Rightarrow> do {
          (sc, b) \<leftarrow> cancelMakerNode m l b;
          b \<leftarrow> cleanupLevelIfEmpty B l (n_Side (b_node b m)) b;
          Some (None, False, cancels @ [sc], set_b_node inc zero_remain b) }
      | STPCancelMaker \<Rightarrow> do {
          let nxt = n_next (b_node b m);
          (sc, b) \<leftarrow> cancelMakerNode m l b;
          Some (nxt, True, cancels @ [sc], b) }
      | STPCancelTaker \<Rightarrow> Some (None, False, cancels, set_b_node inc zero_remain b)
      | STPDecrementCancel \<Rightarrow> do {
          gt \<leftarrow> GreaterThan (n_RemainQty (b_node b m)) (n_RemainQty (b_node b inc));
          if gt then do {
            h \<leftarrow> DecrementQty l m (n_RemainQty (b_node b inc)) (b_heap b);
            Some (None, False, cancels, set_b_node inc zero_remain (b\<lparr>b_heap := h\<rparr>)) }
          else do {
            remain \<leftarrow> Sub (n_RemainQty (b_node b inc)) (n_RemainQty (b_node b m));
            let b = set_b_node inc (\<lambda>n. n\<lparr>n_RemainQty := remain\<rparr>) b;
            filled \<leftarrow> Add (n_FilledQty (b_node b inc)) (n_RemainQty (b_node b m));
            let b = set_b_node inc (\<lambda>n. n\<lparr>n_FilledQty := filled\<rparr>) b;
            let nxt = n_next (b_node b m);
            (sc, b) \<leftarrow> cancelMakerNode m l b;
            Some (nxt, True, cancels @ [sc], b) } }
      | _ \<Rightarrow> Some (n_next (b_node b m), True, cancels, b))"

subsection \<open>One fill\<close>

text \<open>The literal of \<open>types.Fill\<close>; the level fields start as zero values.\<close>

definition new_fill :: "OrderNode \<Rightarrow> OrderNode \<Rightarrow> Decimal \<Rightarrow> Decimal \<Rightarrow> Fill" where
  "new_fill maker taker price qty =
     \<lparr>f_MakerOrderID = n_OrderID maker, f_TakerOrderID = n_OrderID taker,
      f_MakerUserID = n_UserID maker, f_TakerUserID = n_UserID taker,
      f_MakerSide = n_Side maker, f_Price = price, f_Qty = qty,
      f_MakerRemainQty = n_RemainQty maker, f_TakerRemainQty = n_RemainQty taker,
      f_MakerSeqNum = n_SeqNum maker, f_TakerSeqNum = n_SeqNum taker, f_Timestamp = 0,
      f_MakerLevelTotalQty = zeroDecimal, f_MakerLevelDisplayQty = zeroDecimal,
      f_MakerLevelOrderCount = 0, f_MakerLevelExists = False\<rparr>"

definition level_fields :: "PriceLevel \<Rightarrow> Fill \<Rightarrow> Fill" where
  "level_fields v f = f\<lparr>f_MakerLevelExists := True, f_MakerLevelTotalQty := l_TotalQty v,
     f_MakerLevelDisplayQty := l_DisplayQty v, f_MakerLevelOrderCount := l_OrderCount v\<rparr>"

text \<open>The body of the inner loop after the quantities were changed: replenish an iceberg maker,
  remove an exhausted one, and complete the fill.  The result: the next maker, whether the
  loop goes on at this level, the fill and the book.\<close>

definition afterFill :: "nat \<Rightarrow> nat \<Rightarrow> Fill \<Rightarrow> 't OrderBook \<Rightarrow> (nat option \<times> bool \<times> Fill \<times> 't OrderBook) option" where
  "afterFill m l f b = do {
     let makerExhausted = IsZero (n_RemainQty (b_node b m));
     if makerExhausted \<and> IsPositive (n_HiddenQty (b_node b m)) then do {
       let (c, s) = Next (b_orderSeq b);
       let b = b\<lparr>b_orderSeq := c\<rparr>;
       h \<leftarrow> ReplenishIceberg l m s (b_heap b);
       let b = b\<lparr>b_heap := h\<rparr>;
       Some (l_Head (b_level b l), True, level_fields (b_level b l) f, b) }
     else do {
       (nxt, b) \<leftarrow>
         (if makerExhausted then do {
            let nxt = n_next (b_node b m);
            b \<leftarrow> removeMaker m l b;
            Some (nxt, b) }
          else Some (Some m, b));
       let f = (if IsEmpty_level (b_level b l) then f else level_fields (b_level b l) f);
       Some (nxt, makerExhausted, f, b) } }"

definition fillMaker :: "nat \<Rightarrow> nat \<Rightarrow> nat \<Rightarrow> 't OrderBook \<Rightarrow> (nat option \<times> bool \<times> Fill \<times> 't OrderBook) option" where
  "fillMaker inc m l b = do {
     fillQty \<leftarrow> Min_dec (n_RemainQty (b_node b m)) (n_RemainQty (b_node b inc));
     remain \<leftarrow> Sub (n_RemainQty (b_node b inc)) fillQty;
     let b = set_b_node inc (\<lambda>n. n\<lparr>n_RemainQty := remain\<rparr>) b;
     filled \<leftarrow> Add (n_FilledQty (b_node b inc)) fillQty;
     let b = set_b_node inc (\<lambda>n. n\<lparr>n_FilledQty := filled\<rparr>) b;
     h \<leftarrow> DecrementQty l m fillQty (b_heap b);
     let b = b\<lparr>b_heap := h\<rparr>;
     afterFill m l (new_fill (b_node b m) (b_node b inc) (l_Price (b_level b l)) fillQty) b }"

subsection \<open>The loops\<close>

text \<open>The inner loop over the makers of one level.  The first component of the result is
  \<open>False\<close> when the code jumps to \<open>done\<close>.\<close>

partial_function (option) match_level :: "'t btree_fns \<Rightarrow> nat \<Rightarrow> nat \<Rightarrow> nat option \<Rightarrow> Fill list \<Rightarrow>
    STPCanceled list \<Rightarrow> 't OrderBook \<Rightarrow> (bool \<times> Fill list \<times> STPCanceled list \<times> 't OrderBook) option" where
  "match_level B inc l maker fills cancels b =
     (case maker of
        None \<Rightarrow> Some (True, fills, cancels, b)
      | Some m \<Rightarrow>
          if \<not> IsPositive (n_RemainQty (b_node b inc)) then Some (True, fills, cancels, b)
          else if stpEnabled (b_config b) (b_node b inc) (b_node b m) then
            Option.bind (applySTP B inc m l
                (effectiveSTPMode (b_config b) (b_node b inc) (b_node b m)) cancels b)
              (\<lambda>r. case r of (maker', cont, cancels', b') \<Rightarrow>
                 if \<not> cont then Some (False, fills, cancels', b')
                 else match_level B inc l maker' fills cancels' b')
          else
            Option.bind (fillMaker inc m l b)
              (\<lambda>r. case r of (maker', go_on, f, b') \<Rightarrow>
                 if go_on then match_level B inc l maker' (fills @ [f]) cancels b'
                 else Some (True, fills @ [f], cancels, b')))"

text \<open>The outer loop over the levels of the opposite side \<open>x\<close>; the first component of the result
  is \<open>stpCanceledTaker\<close>.\<close>

partial_function (option) match_loop :: "'t btree_fns \<Rightarrow> nat \<Rightarrow> bool \<Rightarrow> Fill list \<Rightarrow>
    STPCanceled list \<Rightarrow> 't OrderBook \<Rightarrow> (bool \<times> Fill list \<times> STPCanceled list \<times> 't OrderBook) option" where
  "match_loop B inc x fills cancels b =
     (if \<not> IsPositive (n_RemainQty (b_node b inc)) then Some (False, fills, cancels, b)
      else case Best B (side_tree x b) of
        None \<Rightarrow> Some (False, fills, cancels, b)
      | Some l \<Rightarrow>
          Option.bind (crosses (b_node b inc) (b_level b l)) (\<lambda>c.
            if \<not> c then Some (False, fills, cancels, b)
            else Option.bind (match_level B inc l (l_Head (b_level b l)) fills cancels b)
              (\<lambda>r. case r of (fin, fills', cancels', b') \<Rightarrow>
                 if \<not> fin then Some (IsZero (n_RemainQty (b_node b' inc)), fills', cancels', b')
                 else Option.bind (dropLevelIfEmpty B x l b')
                   (\<lambda>b''. match_loop B inc x fills' cancels' b''))))"

declare match_level.simps [code]
declare match_loop.simps [code]

definition match :: "'t btree_fns \<Rightarrow> nat \<Rightarrow> 't OrderBook \<Rightarrow>
    (Fill list \<times> STPCanceled list \<times> Disposition \<times> 't OrderBook) option" where
  "match B inc b = do {
     let release = releaseNode (n_PoolIndex (b_node b inc));
     possible \<leftarrow> (if n_TIF (b_node b inc) = FOK then canFillFull B inc b else Some True);
     if \<not> possible then do { b \<leftarrow> release b; Some ([], [], Rejected, b) }
     else do {
       (stpCanceledTaker, fills, cancels, b) \<leftarrow>
         match_loop B inc (n_Side (b_node b inc) \<noteq> Bid) [] [] b;
       let n = b_node b inc;
       if stpCanceledTaker then do { b \<leftarrow> release b; Some (fills, cancels, STPCanceled_Taker, b) }
       else if IsZero (n_RemainQty n) then do { b \<leftarrow> release b; Some (fills, cancels, FullyFilled, b) }
       else if n_TIF n = IOC then do {
         b \<leftarrow> release b;
         Some (fills, cancels, if fills \<noteq> [] then PartialFill_Canceled else Canceled, b) }
       else if n_Type n = Market then do { b \<leftarrow> release b; Some (fills, cancels, Canceled, b) }
       else do {
         r \<leftarrow> restNode B inc b;
         case r of
           Inl err \<Rightarrow> do {
             b \<leftarrow> release b;
             Some (fills, cancels, if fills \<noteq> [] then PartialFill_Canceled else Canceled, b) }
         | Inr b \<Rightarrow> Some (fills, cancels, if fills \<noteq> [] then PartialFill_Rested else Rested, b) } } }"

definition PlaceLimit :: "'t btree_fns \<Rightarrow> nat \<Rightarrow> 't OrderBook \<Rightarrow>
    (Fill list \<times> STPCanceled list \<times> Disposition \<times> 't OrderBook) option" where
  "PlaceLimit B inc b = match B inc b"

definition PlaceMarket :: "'t btree_fns \<Rightarrow> nat \<Rightarrow> 't OrderBook \<Rightarrow>
    (Fill list \<times> STPCanceled list \<times> Disposition \<times> 't OrderBook) option" where
  "PlaceMarket B inc b = match B inc b"

end
