(* ===== verification/Match_Spec.thy ===== *)
theory Match_Spec
  imports Matching
begin

section \<open>Price-time priority\<close>

text \<open>
  The specification the matching loop implements: a machine over the visible opposite side
  (its levels from best to worst, each a queue of orders) and the incoming order.  A step
  looks only at the first order of the first level.  The machine has no pointers, no pools
  and no index; \<open>Match_Proof\<close> shows that \<open>match\<close> runs it.
\<close>

type_synonym queue = "OrderNode list"

record mstate =
  ms_levels :: "(Decimal \<times> queue) list"
  ms_taker :: OrderNode
  ms_fills :: "Fill list"
  ms_cancels :: "STPCanceled list"
  ms_seq :: Counter
  ms_killed :: bool

text \<open>The taker after a fill of \<open>k\<close>, and the maker's queue: an exhausted maker leaves, an iceberg
  with a reserve goes to the back with a new sequence number.\<close>

definition hit :: "Decimal \<Rightarrow> OrderNode \<Rightarrow> OrderNode" where
  "hit k n = n\<lparr>n_RemainQty := dsub (n_RemainQty n) k, n_FilledQty := dadd (n_FilledQty n) k\<rparr>"

definition exhausted :: "OrderNode \<Rightarrow> bool" where
  "exhausted n \<longleftrightarrow> d_value (n_RemainQty n) = 0"

definition replenishes :: "OrderNode \<Rightarrow> bool" where
  "replenishes n \<longleftrightarrow> exhausted n \<and> 0 < ival (n_HiddenQty n)"

definition queue_after :: "Counter \<Rightarrow> OrderNode \<Rightarrow> queue \<Rightarrow> queue" where
  "queue_after c m q =
     (if replenishes m then q @ [replenished (snd (Next c)) m] else if exhausted m then q else m # q)"

definition seq_after :: "Counter \<Rightarrow> OrderNode \<Rightarrow> Counter" where
  "seq_after c m = (if replenishes m then fst (Next c) else c)"

text \<open>The fill with what the level shows afterwards.\<close>

definition fill_after :: "u8 \<Rightarrow> OrderNode \<Rightarrow> OrderNode \<Rightarrow> Decimal \<Rightarrow> Decimal \<Rightarrow> queue \<Rightarrow> Fill" where
  "fill_after qp m t p k q =
     (if q = [] then new_fill m t p k
      else (new_fill m t p k)\<lparr>f_MakerLevelExists := True,
        f_MakerLevelTotalQty := qsum qp n_RemainQty q,
        f_MakerLevelDisplayQty := qsum qp n_DisplayQty q,
        f_MakerLevelOrderCount := int (length q)\<rparr>)"

definition price_ok :: "OrderNode \<Rightarrow> Decimal \<Rightarrow> bool" where
  "price_ok t p \<longleftrightarrow> n_Type t = Market \<or>
     (if n_Side t = Bid then ival p \<le> ival (n_Price t) else ival (n_Price t) \<le> ival p)"

abbreviation remaining :: "OrderNode \<Rightarrow> int" where
  "remaining n \<equiv> ival (n_RemainQty n)"

inductive mstep :: "MarketConfig \<Rightarrow> mstate \<Rightarrow> mstate \<Rightarrow> bool" for cfg where
  trade:
    "\<lbrakk> ms_levels s = (p, m # q) # L; \<not> ms_killed s; t = ms_taker s; 0 < remaining t; price_ok t p;
       \<not> stpEnabled cfg t m; k = dmin (n_RemainQty m) (n_RemainQty t);
       q' = queue_after (ms_seq s) (taken k m) q \<rbrakk>
     \<Longrightarrow> mstep cfg s (s\<lparr>ms_levels := (p, q') # L, ms_taker := hit k t,
           ms_fills := ms_fills s @ [fill_after (mc_QtyPrecision cfg) (taken k m) (hit k t) p k q'],
           ms_seq := seq_after (ms_seq s) (taken k m)\<rparr>)"
| stp_maker:
    "\<lbrakk> ms_levels s = (p, m # q) # L; \<not> ms_killed s; t = ms_taker s; 0 < remaining t; price_ok t p;
       stpEnabled cfg t m; effectiveSTPMode cfg t m = STPCancelMaker \<rbrakk>
     \<Longrightarrow> mstep cfg s (s\<lparr>ms_levels := (p, q) # L,
           ms_cancels := ms_cancels s @ [stp_canceled m p]\<rparr>)"
| stp_taker:
    "\<lbrakk> ms_levels s = (p, m # q) # L; \<not> ms_killed s; t = ms_taker s; 0 < remaining t; price_ok t p;
       stpEnabled cfg t m; effectiveSTPMode cfg t m = STPCancelTaker \<rbrakk>
     \<Longrightarrow> mstep cfg s (s\<lparr>ms_taker := zero_remain t, ms_killed := True\<rparr>)"
| stp_both:
    "\<lbrakk> ms_levels s = (p, m # q) # L; \<not> ms_killed s; t = ms_taker s; 0 < remaining t; price_ok t p;
       stpEnabled cfg t m; effectiveSTPMode cfg t m = STPCancelBoth \<rbrakk>
     \<Longrightarrow> mstep cfg s (s\<lparr>ms_levels := (p, q) # L, ms_taker := zero_remain t,
           ms_cancels := ms_cancels s @ [stp_canceled m p], ms_killed := True\<rparr>)"
| stp_decrement_taker:
    "\<lbrakk> ms_levels s = (p, m # q) # L; \<not> ms_killed s; t = ms_taker s; 0 < remaining t; price_ok t p;
       stpEnabled cfg t m; effectiveSTPMode cfg t m = STPDecrementCancel; remaining t < remaining m \<rbrakk>
     \<Longrightarrow> mstep cfg s (s\<lparr>ms_levels := (p, taken (n_RemainQty t) m # q) # L,
           ms_taker := zero_remain t, ms_killed := True\<rparr>)"
| stp_decrement_maker:
    "\<lbrakk> ms_levels s = (p, m # q) # L; \<not> ms_killed s; t = ms_taker s; 0 < remaining t; price_ok t p;
       stpEnabled cfg t m; effectiveSTPMode cfg t m = STPDecrementCancel; remaining m \<le> remaining t \<rbrakk>
     \<Longrightarrow> mstep cfg s (s\<lparr>ms_levels := (p, q) # L, ms_taker := hit (n_RemainQty m) t,
           ms_cancels := ms_cancels s @ [stp_canceled m p]\<rparr>)"
| next_level:
    "ms_levels s = (p, []) # L \<Longrightarrow> mstep cfg s (s\<lparr>ms_levels := L\<rparr>)"

abbreviation msteps :: "MarketConfig \<Rightarrow> mstate \<Rightarrow> mstate \<Rightarrow> bool" where
  "msteps cfg \<equiv> (mstep cfg)\<^sup>*\<^sup>*"

text \<open>The machine is done when the taker is spent or killed, or nothing is left that it crosses.\<close>

definition final_state :: "mstate \<Rightarrow> bool" where
  "final_state s \<longleftrightarrow> ms_killed s \<or> remaining (ms_taker s) \<le> 0 \<or>
     (case ms_levels s of [] \<Rightarrow> True | (p, q) # L \<Rightarrow> \<not> price_ok (ms_taker s) p)"

definition start_state :: "(Decimal \<times> queue) list \<Rightarrow> OrderNode \<Rightarrow> Counter \<Rightarrow> mstate" where
  "start_state L t c = \<lparr>ms_levels = L, ms_taker = t, ms_fills = [], ms_cancels = [], ms_seq = c,
     ms_killed = False\<rparr>"

subsection \<open>What every step keeps\<close>

text \<open>The orders the machine is run on: makers with something left, quantities of the market's
  precision, a taker that is not negative.\<close>

definition good_maker :: "u8 \<Rightarrow> OrderNode \<Rightarrow> bool" where
  "good_maker qp n \<longleftrightarrow> sound_order qp n \<and> 0 < remaining n"

definition good_state :: "MarketConfig \<Rightarrow> mstate \<Rightarrow> bool" where
  "good_state cfg s \<longleftrightarrow>
     (\<forall>(p, q)\<in>set (ms_levels s). \<forall>m\<in>set q. good_maker (mc_QtyPrecision cfg) m) \<and>
     node_prec (mc_QtyPrecision cfg) (ms_taker s) \<and> 0 \<le> remaining (ms_taker s)"

lemma remaining_taken:
  assumes "0 \<le> ival k" "ival k \<le> remaining m"
  shows "remaining (taken k m) = remaining m - ival k" "remaining (hit k m) = remaining m - ival k"
  using assms by (simp_all add: taken_def hit_def sint_sub_nonneg)

lemma dmin_le: "ival (dmin a b) \<le> ival a" "ival (dmin a b) \<le> ival b"
  by (simp_all add: dmin_def)

lemma dmin_pos: "0 < ival a \<Longrightarrow> 0 < ival b \<Longrightarrow> 0 < ival (dmin a b)"
  by (simp add: dmin_def)

lemma zero_remain_simps [simp]:
  "remaining (zero_remain n) = 0" "d_precision (n_RemainQty (zero_remain n)) = d_precision (n_RemainQty n)"
  "n_FilledQty (zero_remain n) = n_FilledQty n" "n_Price (zero_remain n) = n_Price n"
  "n_Side (zero_remain n) = n_Side n" "n_Type (zero_remain n) = n_Type n"
  "n_TIF (zero_remain n) = n_TIF n" "n_OrderID (zero_remain n) = n_OrderID n"
  "n_UserID (zero_remain n) = n_UserID n" "n_DisplayQty (zero_remain n) = n_DisplayQty n"
  by (simp_all add: zero_remain_def)

lemma good_maker_taken:
  assumes "good_maker qp m" "0 \<le> ival k" "ival k < remaining m"
  shows "good_maker qp (taken k m)"
  using assms remaining_taken [of k m]
  by (simp add: good_maker_def) (simp add: sound_order_def node_prec_def taken_def)

lemma good_maker_replenished:
  assumes "sound_order qp m" "0 < ival (n_HiddenQty m)"
  shows "good_maker qp (replenished c m)"
  using assms dmin_pos [of "n_HiddenQty m" "n_OrigDisplayQty m"]
  by (simp add: good_maker_def sound_order_def node_prec_def replenished_def dmin_prec)

lemma exhausted_iff: "exhausted n \<longleftrightarrow> remaining n = 0"
  by (simp add: exhausted_def sint_0_iff)

text \<open>The quantity of a fill: positive, and no more than either side has.\<close>

lemma trade_qty:
  assumes "good_maker qp m" and "0 < remaining t" and "k = dmin (n_RemainQty m) (n_RemainQty t)"
  shows "0 < ival k" "ival k \<le> remaining m" "ival k \<le> remaining t"
    "remaining (taken k m) = remaining m - ival k" "remaining (hit k t) = remaining t - ival k"
    "sound_order qp (taken k m)" "d_precision k = d_precision (n_RemainQty t) \<or> d_precision k = qp"
proof -
  have m: "0 < remaining m" "node_prec qp m"
    using assms(1) by (simp_all add: good_maker_def sound_order_def)
  show k: "0 < ival k" "ival k \<le> remaining m" "ival k \<le> remaining t"
    using m assms(2,3) dmin_pos dmin_le by auto
  then show "remaining (taken k m) = remaining m - ival k" "remaining (hit k t) = remaining t - ival k"
    by (simp_all add: remaining_taken)
  show "sound_order qp (taken k m)"
    using assms(1) by (simp add: good_maker_def sound_order_def node_prec_def taken_def)
  show "d_precision k = d_precision (n_RemainQty t) \<or> d_precision k = qp"
    using m(2) assms(3) by (simp add: dmin_def node_prec_def)
qed

lemma queue_after_good:
  assumes "\<forall>n\<in>set q. good_maker qp n" and "sound_order qp m" and "0 \<le> remaining m"
  shows "\<forall>n\<in>set (queue_after c m q). good_maker qp n"
  using assms good_maker_replenished [of qp m "snd (Next c)"]
  by (auto simp: queue_after_def replenishes_def exhausted_iff good_maker_def)

lemma good_taker:
  "node_prec qp t \<Longrightarrow> node_prec qp (hit k t)" "node_prec qp t \<Longrightarrow> node_prec qp (zero_remain t)"
  by (simp_all add: node_prec_def hit_def)

lemma mstep_good: "mstep cfg s s' \<Longrightarrow> good_state cfg s \<Longrightarrow> good_state cfg s'"
proof (induction rule: mstep.induct)
  case (trade s p m q L t k q')
  have m: "good_maker (mc_QtyPrecision cfg) m" using trade by (simp add: good_state_def)
  note k = trade_qty [OF m trade.hyps(4,7)]
  have "\<forall>n\<in>set q'. good_maker (mc_QtyPrecision cfg) n"
    using trade.hyps(1,8) trade.prems k queue_after_good [of q _ "taken k m" "ms_seq s"]
    by (simp add: good_state_def)
  then show ?case using trade.hyps(1,3) trade.prems k(3,5) good_taker(1) by (auto simp: good_state_def)
next
  case (stp_decrement_taker s p m q L t)
  have m: "good_maker (mc_QtyPrecision cfg) m" using stp_decrement_taker by (simp add: good_state_def)
  then have "good_maker (mc_QtyPrecision cfg) (taken (n_RemainQty t) m)"
    using stp_decrement_taker by (intro good_maker_taken) auto
  then show ?case using stp_decrement_taker good_taker(2) by (auto simp: good_state_def)
next
  case (stp_decrement_maker s p m q L t)
  have m: "good_maker (mc_QtyPrecision cfg) m" using stp_decrement_maker by (simp add: good_state_def)
  then have "remaining (hit (n_RemainQty m) t) = remaining t - remaining m"
    using stp_decrement_maker by (intro remaining_taken) (auto simp: good_maker_def)
  then show ?case using stp_decrement_maker good_taker(1) by (auto simp: good_state_def)
qed (use good_taker(2) in \<open>auto simp: good_state_def\<close>)

lemma msteps_good: "msteps cfg s s' \<Longrightarrow> good_state cfg s \<Longrightarrow> good_state cfg s'"
  by (induction rule: rtranclp_induct) (auto intro: mstep_good)

text \<open>The taker keeps everything but its two quantities.\<close>

definition strip :: "OrderNode \<Rightarrow> OrderNode" where
  "strip n = n\<lparr>n_RemainQty := zeroDecimal, n_FilledQty := zeroDecimal\<rparr>"

lemma strip_eqD:
  assumes "strip n' = strip n"
  shows "n_OrderID n' = n_OrderID n" "n_UserID n' = n_UserID n" "n_Side n' = n_Side n"
    "n_Type n' = n_Type n" "n_TIF n' = n_TIF n" "n_STPMode n' = n_STPMode n"
    "n_Price n' = n_Price n" "n_DisplayQty n' = n_DisplayQty n" "n_HiddenQty n' = n_HiddenQty n"
    "n_OrigDisplayQty n' = n_OrigDisplayQty n" "n_PoolIndex n' = n_PoolIndex n"
    "price_ok n' p = price_ok n p"
proof -
  show *: "n_OrderID n' = n_OrderID n" "n_UserID n' = n_UserID n" "n_Side n' = n_Side n"
    "n_Type n' = n_Type n" "n_TIF n' = n_TIF n" "n_STPMode n' = n_STPMode n"
    "n_Price n' = n_Price n" "n_DisplayQty n' = n_DisplayQty n" "n_HiddenQty n' = n_HiddenQty n"
    "n_OrigDisplayQty n' = n_OrigDisplayQty n" "n_PoolIndex n' = n_PoolIndex n"
    using arg_cong [OF assms, of n_OrderID] arg_cong [OF assms, of n_UserID]
      arg_cong [OF assms, of n_Side] arg_cong [OF assms, of n_Type] arg_cong [OF assms, of n_TIF]
      arg_cong [OF assms, of n_STPMode] arg_cong [OF assms, of n_Price]
      arg_cong [OF assms, of n_DisplayQty] arg_cong [OF assms, of n_HiddenQty]
      arg_cong [OF assms, of n_OrigDisplayQty] arg_cong [OF assms, of n_PoolIndex]
    by (simp_all add: strip_def)
  show "price_ok n' p = price_ok n p" by (simp add: price_ok_def *)
qed

lemma strip_hit [simp]: "strip (hit k n) = strip n" "strip (zero_remain n) = strip n"
  by (simp_all add: strip_def hit_def zero_remain_def)

lemma mstep_strip: "mstep cfg s s' \<Longrightarrow> strip (ms_taker s') = strip (ms_taker s)"
  by (induction rule: mstep.induct) auto

lemma msteps_strip: "msteps cfg s s' \<Longrightarrow> strip (ms_taker s') = strip (ms_taker s)"
  by (induction rule: rtranclp_induct) (auto dest: mstep_strip)

end
