(* ===== verification/Match_Proof.thy ===== *)
theory Match_Proof
  imports Match_Spec
begin

section \<open>The matching loop implements price-time priority\<close>

text \<open>
  The simulation between \<open>match\<close> on the heap and the machine of \<open>Match_Spec\<close>.  \<open>simulates\<close>
  relates a book in the middle of matching to a state of the machine; every pass of the
  inner loop is one step, so the loops end and the book they leave is the one the machine
  computes.
\<close>

definition simulates :: "'t btree_fns \<Rightarrow> bool \<Rightarrow> nat \<Rightarrow> nat set \<Rightarrow> 't OrderBook \<Rightarrow> ghost \<Rightarrow>
    't OrderBook \<Rightarrow> ghost \<Rightarrow> mstate \<Rightarrow> bool" where
  "simulates B x inc X b0 G0 b G s \<longleftrightarrow>
     book_rep B b G X \<and> inc \<in> X \<and> b_config b = b_config b0 \<and> G (\<not> x) = G0 (\<not> x) \<and>
     (\<forall>i\<in>set (level_nodes (G0 (\<not> x))). core (b_node b i) = core (b_node b0 i)) \<and>
     (\<forall>oid. b_index b0 oid = None \<longrightarrow> b_index b oid = None) \<and>
     ms_levels s = view_of b (G x) \<and> ms_taker s = core (b_node b inc) \<and> ms_seq s = b_orderSeq b"

lemma simulatesD:
  assumes "simulates B x inc X b0 G0 b G s"
  shows "book_rep B b G X" "inc \<in> X" "b_config b = b_config b0" "G (\<not> x) = G0 (\<not> x)"
    "\<And>i. i \<in> set (level_nodes (G0 (\<not> x))) \<Longrightarrow> core (b_node b i) = core (b_node b0 i)"
    "\<And>oid. b_index b0 oid = None \<Longrightarrow> b_index b oid = None"
    "ms_levels s = view_of b (G x)" "ms_taker s = core (b_node b inc)" "ms_seq s = b_orderSeq b"
  using assms by (auto simp: simulates_def)

text \<open>The slots of a book are apart.\<close>

lemma book_rep_apart:
  assumes rep: "book_rep B b G X" and G: "G x = (p, l, m # q) # C" and inc: "inc \<in> X"
  shows "m \<notin> set q" "m \<notin> set (level_nodes C)" "m \<notin> set (level_nodes (G (\<not> x)))" "m \<noteq> inc"
    "inc \<notin> set q" "inc \<notin> set (level_nodes C)" "inc \<notin> set (level_nodes (G (\<not> x)))"
    "m \<notin> X" "inc < nodes_n (b_heap b)" "m < nodes_n (b_heap b)"
proof -
  note r = book_repD [OF rep]
  have dist: "distinct (level_nodes (G x) @ level_nodes (G (\<not> x)))"
    using r(3) by (simp add: disjoint_ghost_side [of _ x])
  then show "m \<notin> set q" "m \<notin> set (level_nodes C)" "m \<notin> set (level_nodes (G (\<not> x)))"
    by (auto simp: G)
  show "m \<noteq> inc" "inc \<notin> set q" "inc \<notin> set (level_nodes C)" "inc \<notin> set (level_nodes (G (\<not> x)))"
    "m \<notin> X" using r(4) inc by (auto simp: all_nodes_side [of _ x] G)
  show "inc < nodes_n (b_heap b)" "m < nodes_n (b_heap b)"
    using pools_repD(1) [OF r(6)] inc by (auto simp: all_nodes_side [of _ x] G)
qed

subsection \<open>Writes to the incoming order\<close>

lemma set_b_node_simps:
  assumes "i < nodes_n (b_heap b)"
  shows "b_node (set_b_node i f b) = (b_node b)(i := f (b_node b i))"
    "b_level (set_b_node i f b) = b_level b"
  using assms by (simp_all add: set_b_node_def heap_simps)

lemma set_b_node_fields [simp]:
  "b_config (set_b_node i f b) = b_config b" "b_index (set_b_node i f b) = b_index b"
  "b_orderSeq (set_b_node i f b) = b_orderSeq b"
  "nodes_n (b_heap (set_b_node i f b)) = nodes_n (b_heap b)"
  "levels_n (b_heap (set_b_node i f b)) = levels_n (b_heap b)"
  by (simp_all add: set_b_node_def set_node_def)

lemma set_b_node_twice:
  "i < nodes_n (b_heap b) \<Longrightarrow> set_b_node i f (set_b_node i g b) = set_b_node i (f \<circ> g) b"
  by (simp add: set_b_node_def set_node_def node_def)

lemma set_b_node_cong:
  "f (b_node b i) = g (b_node b i) \<Longrightarrow> set_b_node i f b = set_b_node i g b"
  by (simp add: set_b_node_def set_node_def)

text \<open>Writing the taker of the machine.\<close>

lemma simulates_taker:
  assumes sim: "simulates B x inc X b0 G0 b G s" and f: "core (f (b_node b inc)) = t"
  shows "simulates B x inc X b0 G0 (set_b_node inc f b) G (s\<lparr>ms_taker := t\<rparr>)"
proof -
  note d = simulatesD [OF sim]
  note r = book_repD [OF d(1)]
  have rep: "book_rep B (set_b_node inc f b) G X"
    unfolding set_b_node_def by (rule book_rep_set_node [OF d(1,2)])
  have il: "inc < nodes_n (b_heap b)" using pools_repD(1) [OF r(6)] d(2) by blast
  have "inc \<notin> set (level_nodes (G y))" for y
    using r(4) d(2) by (cases y) (auto simp: all_nodes_def)
  then have other: "b_node (set_b_node inc f b) i = b_node b i" if "i \<in> set (level_nodes (G y))" for i y
    using that by (auto simp: set_b_node_simps [OF il])
  have "view_of (set_b_node inc f b) (G x) = view_of b (G x)"
    by (rule view_of_cong) (simp add: other)
  then show ?thesis
    using rep d f other [of _ "\<not> x"] by (simp add: simulates_def) (simp add: set_b_node_simps [OF il])
qed

lemma core_views [simp]:
  "stp_canceled (core m) p = stp_canceled m p"
  "effectiveSTPMode cfg (core t) (core m) = effectiveSTPMode cfg t m"
  "stpEnabled cfg (core t) (core m) = stpEnabled cfg t m"
  "price_ok (core t) p = price_ok t p"
  "new_fill (core m) (core t) p k = new_fill m t p k"
  "hit k (core n) = core (hit k n)" "zero_remain (core n) = core (zero_remain n)"
  "taken k (core n) = core (taken k n)" "replenished c (core n) = core (replenished c n)"
  "exhausted (core n) = exhausted n" "replenishes (core n) = replenishes n"
  by (simp_all add: stp_canceled_def effectiveSTPMode_def stpEnabled_def price_ok_def new_fill_def
      hit_def zero_remain_def taken_def replenished_def exhausted_def replenishes_def core_def)

text \<open>A change of the first level of the opposite side.\<close>

lemma simulates_level:
  assumes sim: "simulates B x inc X b0 G0 b G s" and G: "G x = (p, l, q) # C"
    and rep: "book_rep B b' (G(x := (p, l, q') # C)) X" and cfg: "b_config b' = b_config b"
    and idx: "\<And>oid. b_index b oid = None \<Longrightarrow> b_index b' oid = None"
    and cores: "\<And>i. i \<in> set (level_nodes C) \<union> set (level_nodes (G (\<not> x))) \<union> {inc} \<Longrightarrow>
      core (b_node b' i) = core (b_node b i)"
    and s': "ms_levels s' = (p, map (core \<circ> b_node b') q') # view_of b C" "ms_taker s' = ms_taker s"
      "ms_seq s' = b_orderSeq b'"
  shows "simulates B x inc X b0 G0 b' (G(x := (p, l, q') # C)) s'"
proof -
  note d = simulatesD [OF sim]
  have "view_of b' C = view_of b C" by (rule view_of_cong) (simp add: cores)
  then show ?thesis
    using d rep cfg idx cores s' by (auto simp: simulates_def)
qed

lemma removeMaker_ok:
  assumes sim: "simulates B x inc X b0 G0 b G s" and G: "G x = (p, l, m # q) # C"
  shows "\<exists>b'. removeMaker m l b = Some b' \<and>
     b_orderSeq b' = b_orderSeq b \<and> n_Side (b_node b' m) = n_Side (b_node b m) \<and>
     simulates B x inc X b0 G0 b' (G(x := (p, l, q) # C)) (s\<lparr>ms_levels := (p, map (core \<circ> b_node b) q) # view_of b C\<rparr>)"
proof -
  note d = simulatesD [OF sim]
  have G': "G x = [] @ (p, l, [] @ m # q) # C" by (simp add: G)
  note f = book_rep_level_facts [OF d(1) G']
  have idx: "n_PoolIndex (b_node b m) = m" using f(2) [of m] by (simp add: resting_order_def)
  obtain h where h: "Unlink l m (b_heap b) = Some h" "\<And>j. core (node h j) = core (b_node b j)"
    "book_rep B (b\<lparr>b_heap := h, b_index := (b_index b)(n_OrderID (b_node b m) := None)\<rparr>)
       (G(x := [] @ (p, l, [] @ q) # C)) (insert m X)"
    using book_rep_unlink [OF d(1) G'] by blast
  let ?b = "b\<lparr>b_heap := h, b_index := (b_index b)(n_OrderID (b_node b m) := None)\<rparr>"
  obtain h' where h': "releaseNode m ?b = Some (?b\<lparr>b_heap := h'\<rparr>)" "node h' = b_node ?b"
    "book_rep B (?b\<lparr>b_heap := h'\<rparr>) (G(x := [] @ (p, l, [] @ q) # C)) (insert m X - {m})"
    using book_rep_release [OF h(3), of m] by blast
  have "m \<notin> X" using book_rep_apart(8) [OF d(1) G d(2)] .
  then have rep: "book_rep B (?b\<lparr>b_heap := h'\<rparr>) (G(x := (p, l, q) # C)) X" using h'(3) by simp
  have ids: "n_OrderID (node h m) = n_OrderID (b_node b m)" "n_PoolIndex (node h m) = m"
    "n_Side (node h m) = n_Side (b_node b m)"
    using core_eqD [OF h(2) [of m]] idx by simp_all
  have run: "removeMaker m l b = Some (?b\<lparr>b_heap := h'\<rparr>)"
    using h(1) h'(1) by (simp add: removeMaker_def ids)
  have "simulates B x inc X b0 G0 (?b\<lparr>b_heap := h'\<rparr>) (G(x := (p, l, q) # C))
      (s\<lparr>ms_levels := (p, map (core \<circ> b_node b) q) # view_of b C\<rparr>)"
    by (rule simulates_level [OF sim G rep]) (use d(9) h(2) h'(2) in \<open>auto simp: fun_eq_iff\<close>)
  then show ?thesis using run h'(2) ids(3) by auto
qed

lemma simulates_drop:
  assumes B: "price_index B" and sim: "simulates B x inc X b0 G0 b G s"
    and G: "G x = (p, l, []) # C"
  shows "\<exists>b'. dropLevelIfEmpty B x l b = Some b' \<and> b_node b' = b_node b \<and>
     simulates B x inc X b0 G0 b' (G(x := C)) (s\<lparr>ms_levels := view_of b C\<rparr>)"
proof -
  note d = simulatesD [OF sim]
  have G': "G x = [] @ (p, l, []) # C" by (simp add: G)
  obtain b' where b': "dropLevelIfEmpty B x l b = Some b'" "b_node b' = b_node b"
    "b_index b' = b_index b" "b_config b' = b_config b" "b_orderSeq b' = b_orderSeq b"
    "book_rep B b' (G(x := [] @ C)) X"
    using book_rep_drop [OF B d(1) G'] by blast
  have "view_of b' C = view_of b C" by (rule view_of_cong) (simp add: b')
  then have "simulates B x inc X b0 G0 b' (G(x := C)) (s\<lparr>ms_levels := view_of b C\<rparr>)"
    using d b' by (simp add: simulates_def)
  then show ?thesis using b'(1,2) by blast
qed

lemma dropLevel_nonempty:
  assumes rep: "book_rep B b G X" and G: "G x = (p, l, q) # C" and q: "q \<noteq> []"
  shows "dropLevelIfEmpty B y l b = Some b"
proof -
  have "level_rep (qty_prec b) (b_heap b) p l q"
    using book_rep_level_facts(1) [OF rep, of x "[]"] G by simp
  then have "\<not> IsEmpty_level (b_level b l)" using q level_rep_empty_iff by blast
  then show ?thesis by (simp add: dropLevelIfEmpty_def)
qed

lemma simulates_seq:
  assumes "simulates B x inc X b0 G0 b G s"
  shows "simulates B x inc X b0 G0 (b\<lparr>b_orderSeq := c\<rparr>) G (s\<lparr>ms_seq := c\<rparr>)"
proof -
  note d = simulatesD [OF assms]
  have "levels_rep (b\<lparr>b_orderSeq := c\<rparr>) y g = levels_rep b y g" for y g
    by (simp add: levels_rep_def)
  then have "book_rep B (b\<lparr>b_orderSeq := c\<rparr>) G X" using d(1) by (simp add: book_rep_def)
  moreover have "view_of (b\<lparr>b_orderSeq := c\<rparr>) g = view_of b g" for g by (simp add: view_of_def)
  ultimately show ?thesis using d by (simp add: simulates_def)
qed

subsection \<open>One fill is one step\<close>

lemma level_shows:
  assumes "book_rep B b G X" and "G x = (p, l, q) # C"
  shows "IsEmpty_level (b_level b l) \<longleftrightarrow> q = []"
    "l_TotalQty (b_level b l) = qsum (qty_prec b) n_RemainQty (map (core \<circ> b_node b) q)"
    "l_DisplayQty (b_level b l) = qsum (qty_prec b) n_DisplayQty (map (core \<circ> b_node b) q)"
    "l_OrderCount (b_level b l) = int (length q)" "l_Head (b_level b l) = first q None"
    "l_Price (b_level b l) = p"
proof -
  have rep: "level_rep (qty_prec b) (b_heap b) p l q"
    using book_rep_level_facts(1) [OF assms(1), of x "[]"] assms(2) by simp
  note v = level_repD [OF rep]
  show "IsEmpty_level (b_level b l) \<longleftrightarrow> q = []" by (rule level_rep_empty_iff [OF rep])
  show "l_TotalQty (b_level b l) = qsum (qty_prec b) n_RemainQty (map (core \<circ> b_node b) q)"
    "l_DisplayQty (b_level b l) = qsum (qty_prec b) n_DisplayQty (map (core \<circ> b_node b) q)"
    using v(9,10) by (simp_all add: qsum_def comp_def)
  show "l_OrderCount (b_level b l) = int (length q)" "l_Head (b_level b l) = first q None"
    "l_Price (b_level b l) = p" using v by simp_all
qed

lemma head_next:
  assumes "book_rep B b G X" and "G x = (p, l, m # q) # C"
  shows "n_next (b_node b m) = first q None"
proof -
  have rep: "level_rep (qty_prec b) (b_heap b) p l (m # q)"
    using book_rep_level_facts(1) [OF assms(1), of x "[]"] assms(2) by simp
  then show ?thesis using level_repD(11) [OF rep] by simp
qed

text \<open>The fill and the maker's removal, replenishing or decrement, after the taker was written.\<close>

lemma maker_after:
  assumes sim: "simulates B x inc X b0 G0 b G s" and G: "G x = (p, l, m # q) # C"
    and kp: "d_precision k = qty_prec b"
  shows "\<exists>h. DecrementQty l m k (b_heap b) = Some h \<and>
     node h = (b_node b)(m := taken k (b_node b m)) \<and>
     simulates B x inc X b0 G0 (b\<lparr>b_heap := h\<rparr>) G
       (s\<lparr>ms_levels := (p, core (taken k (b_node b m)) # map (core \<circ> b_node b) q) # view_of b C\<rparr>)"
proof -
  note d = simulatesD [OF sim] and a = book_rep_apart [OF simulatesD(1) [OF sim] G simulatesD(2) [OF sim]]
  have G': "G x = [] @ (p, l, [] @ m # q) # C" by (simp add: G)
  obtain h where h: "DecrementQty l m k (b_heap b) = Some h"
    "\<And>j. node h j = (if j = m then taken k (b_node b m) else b_node b j)"
    "book_rep B (b\<lparr>b_heap := h\<rparr>) G X"
    using book_rep_decrement [OF d(1) G' kp] by blast
  have same: "G(x := (p, l, m # q) # C) = G" using G by (simp add: fun_upd_idem)
  have q: "map (core \<circ> node h) q = map (core \<circ> b_node b) q"
    using a(1) by (auto simp: h(2))
  have "simulates B x inc X b0 G0 (b\<lparr>b_heap := h\<rparr>) (G(x := (p, l, m # q) # C))
       (s\<lparr>ms_levels := (p, core (taken k (b_node b m)) # map (core \<circ> b_node b) q) # view_of b C\<rparr>)"
    by (rule simulates_level [OF sim G]) (use h(3) same a d(9) q in \<open>auto simp: h(2)\<close>)
  then show ?thesis using h(1,2) unfolding same by (auto simp: fun_eq_iff)
qed

lemma afterFill_ok:
  assumes sim: "simulates B x inc X b0 G0 b G s" and G: "G x = (p, l, m # q) # C"
    and c: "c = ms_seq s" and m': "m' = core (b_node b m)"
    and q'': "q'' = queue_after c m' (map (core \<circ> b_node b) q)"
  shows "\<exists>nd b' q'. afterFill m l (new_fill m' (ms_taker s) p k) b =
       Some (nd, exhausted m', fill_after (qty_prec b) m' (ms_taker s) p k q'', b') \<and>
     length q' = length q'' \<and> (exhausted m' \<longrightarrow> nd = first q' None) \<and>
     simulates B x inc X b0 G0 b' (G(x := (p, l, q') # C))
       (s\<lparr>ms_levels := (p, q'') # view_of b C, ms_seq := seq_after c m'\<rparr>)"
proof -
  note d = simulatesD [OF sim] and a = book_rep_apart [OF simulatesD(1) [OF sim] G simulatesD(2) [OF sim]]
  let ?f = "new_fill m' (ms_taker s) p k"
  have zero: "IsZero (n_RemainQty (b_node b m)) = exhausted m'"
    "IsPositive (n_HiddenQty (b_node b m)) = (0 < ival (n_HiddenQty m'))"
    by (simp_all add: m' IsZero_def exhausted_def IsPositive_def)
  consider (repl) "replenishes m'" | (gone) "exhausted m'" "\<not> replenishes m'" | (stays) "\<not> exhausted m'"
    by blast
  then show ?thesis
  proof cases
    case repl
    then have hid: "exhausted m'" "0 < ival (n_HiddenQty (b_node b m))" by (simp_all add: replenishes_def m')
    let ?c = "fst (Next c)" and ?n = "snd (Next c)"
    have G': "G x = [] @ (p, l, [] @ m # q) # C" by (simp add: G)
    note sim1 = simulates_seq [OF sim, of ?c]
    obtain h where h: "ReplenishIceberg l m ?n (b_heap b) = Some h"
      "\<And>j. core (node h j) = core (if j = m then replenished ?n (b_node b m) else b_node b j)"
      "book_rep B (b\<lparr>b_orderSeq := ?c, b_heap := h\<rparr>) (G(x := (p, l, q @ [m]) # C)) X"
      using book_rep_replenish [OF simulatesD(1) [OF sim1] G', of ?n] hid by auto
    let ?b = "b\<lparr>b_orderSeq := ?c, b_heap := h\<rparr>"
    have q: "map (core \<circ> node h) (q @ [m]) = q''"
      using repl a(1) h(2) by (auto simp: q'' queue_after_def m')
    have "length q'' = Suc (length q)" using arg_cong [OF q, of length] by simp
    then have len: "length q'' = Suc (length q)" "q'' \<noteq> []" by auto
    have "simulates B x inc X b0 G0 ?b (G(x := (p, l, q @ [m]) # C))
        (s\<lparr>ms_levels := (p, q'') # view_of b C, ms_seq := seq_after c m'\<rparr>)"
    proof (rule simulates_level [OF sim1 G h(3)])
      fix i assume "i \<in> set (level_nodes C) \<union> set (level_nodes (G (\<not> x))) \<union> {inc}"
      then have "i \<noteq> m" using a(2,3,4) by auto
      then show "core (b_node ?b i) = core (b_node (b\<lparr>b_orderSeq := ?c\<rparr>) i)" using h(2) by simp
    qed (use q repl in \<open>simp_all add: seq_after_def view_of_def\<close>)
    moreover have "afterFill m l ?f b = Some (first (q @ [m]) None, exhausted m',
        fill_after (qty_prec b) m' (ms_taker s) p k q'', ?b)"
      using level_shows [OF h(3), of x p l "q @ [m]" C] h(1) q len hid c d(9)
      by (simp add: afterFill_def zero m' case_prod_beta fill_after_def level_fields_def)
    ultimately show ?thesis using q length_map by (metis (lifting))
  next
    case gone
    obtain b' where b': "removeMaker m l b = Some b'" "b_orderSeq b' = b_orderSeq b"
      "simulates B x inc X b0 G0 b' (G(x := (p, l, q) # C)) (s\<lparr>ms_levels := (p, map (core \<circ> b_node b) q) # view_of b C\<rparr>)"
      using removeMaker_ok [OF sim G] by blast
    note d' = simulatesD [OF b'(3)]
    have "map (core \<circ> b_node b') q = map (core \<circ> b_node b) q" using d'(7) by simp
    then have q: "map (core \<circ> b_node b') q = q''" using gone by (simp add: q'' queue_after_def)
    have "seq_after c m' = ms_seq s" using gone c by (simp add: seq_after_def)
    then have "simulates B x inc X b0 G0 b' (G(x := (p, l, q) # C))
        (s\<lparr>ms_levels := (p, q'') # view_of b C, ms_seq := seq_after c m'\<rparr>)"
      using b'(3) gone by (simp add: simulates_def q'' queue_after_def)
    moreover have "qty_prec b' = qty_prec b" using d(3) d'(3) by simp
    then have "afterFill m l ?f b = Some (first q None, exhausted m',
        fill_after (qty_prec b) m' (ms_taker s) p k q'', b')"
      using level_shows [OF d'(1), of x p l q C] b'(1) q gone head_next [OF d(1) G]
      by (auto simp: afterFill_def zero replenishes_def fill_after_def level_fields_def)
    ultimately show ?thesis using q length_map by (metis (lifting))
  next
    case stays
    then have q: "map (core \<circ> b_node b) (m # q) = q''"
      by (simp add: q'' queue_after_def replenishes_def m')
    have same: "G(x := (p, l, m # q) # C) = G" using G by (simp add: fun_upd_idem)
    have "seq_after c m' = ms_seq s" using stays c by (simp add: seq_after_def replenishes_def)
    then have "simulates B x inc X b0 G0 b (G(x := (p, l, m # q) # C))
        (s\<lparr>ms_levels := (p, q'') # view_of b C, ms_seq := seq_after c m'\<rparr>)"
      using sim q unfolding same by (simp add: simulates_def G)
    moreover have "afterFill m l ?f b = Some (Some m, exhausted m',
        fill_after (qty_prec b) m' (ms_taker s) p k q'', b)"
      using level_shows [OF d(1) G] stays q
      by (auto simp: afterFill_def zero fill_after_def level_fields_def)
    ultimately show ?thesis using q stays length_map by (metis (lifting))
  qed
qed

lemma fillMaker_ok:
  assumes sim: "simulates B x inc X b0 G0 b G s" and G: "G x = (p, l, m # q) # C"
    and good: "good_state (b_config b0) s" and alive: "\<not> ms_killed s"
    and pos: "0 < remaining (ms_taker s)" and cross: "price_ok (ms_taker s) p"
    and stp: "\<not> stpEnabled (b_config b0) (b_node b inc) (b_node b m)"
  shows "\<exists>nd go f b' q' s'. fillMaker inc m l b = Some (nd, go, f, b') \<and> mstep (b_config b0) s s' \<and>
     simulates B x inc X b0 G0 b' (G(x := (p, l, q') # C)) s' \<and>
     ms_fills s' = ms_fills s @ [f] \<and> ms_cancels s' = ms_cancels s \<and> \<not> ms_killed s' \<and>
     price_ok (ms_taker s') p \<and>
     (if go then nd = first q' None else remaining (ms_taker s') = 0) \<and>
     nat (remaining (ms_taker s')) + length q' < nat (remaining (ms_taker s)) + length (m # q)"
proof -
  note d = simulatesD [OF sim] and a = book_rep_apart [OF simulatesD(1) [OF sim] G simulatesD(2) [OF sim]]
  let ?t = "b_node b inc" and ?m = "b_node b m" and ?qp = "mc_QtyPrecision (b_config b0)"
  have lv: "ms_levels s = (p, core ?m # map (core \<circ> b_node b) q) # view_of b C" by (simp add: d(7) G)
  have mk: "good_maker ?qp (core ?m)" using good lv by (simp add: good_state_def)
  define k where "k = dmin (n_RemainQty ?m) (n_RemainQty ?t)"
  have tp: "0 < remaining (core ?t)" and kd: "k = dmin (n_RemainQty (core ?m)) (n_RemainQty (core ?t))"
    using pos d(8) by (simp_all add: k_def)
  note tq = trade_qty [OF mk tp kd]
  have precs: "d_precision (n_RemainQty ?t) = ?qp" "d_precision (n_FilledQty ?t) = ?qp"
    "d_precision (n_RemainQty ?m) = ?qp"
    using good mk d(8) by (auto simp: good_state_def node_prec_def good_maker_def sound_order_def)
  have kp: "d_precision k = ?qp" using precs by (simp add: k_def dmin_prec)
  define b1 where "b1 = set_b_node inc (hit k) b"
  have b1: "set_b_node inc (\<lambda>n. n\<lparr>n_FilledQty := dadd (n_FilledQty ?t) k\<rparr>)
      (set_b_node inc (\<lambda>n. n\<lparr>n_RemainQty := dsub (n_RemainQty ?t) k\<rparr>) b) = b1"
    unfolding b1_def set_b_node_twice [OF a(9)] by (rule set_b_node_cong) (simp add: hit_def)
  have n1: "b_node b1 = (b_node b)(inc := hit k ?t)"
    using set_b_node_simps [OF a(9)] by (simp add: b1_def)
  let ?t' = "core (hit k ?t)"
  have sim1: "simulates B x inc X b0 G0 b1 G (s\<lparr>ms_taker := ?t'\<rparr>)"
    unfolding b1_def by (rule simulates_taker [OF sim refl])
  have qp1: "qty_prec b1 = ?qp" using d(3) by (simp add: b1_def)
  have m1: "b_node b1 m = ?m" "map (core \<circ> b_node b1) q = map (core \<circ> b_node b) q"
    using a(4,5) by (auto simp: n1)
  have v1: "view_of b1 C = view_of b C" by (rule view_of_cong) (use a(6) in \<open>auto simp: n1\<close>)
  obtain h where h: "DecrementQty l m k (b_heap b1) = Some h"
    "node h = (b_node b1)(m := taken k ?m)"
    "simulates B x inc X b0 G0 (b1\<lparr>b_heap := h\<rparr>) G (s\<lparr>ms_taker := ?t',
       ms_levels := (p, core (taken k ?m) # map (core \<circ> b_node b) q) # view_of b C\<rparr>)"
    using maker_after [OF sim1 G, of k] kp qp1 by (auto simp: m1 v1)
  define b2 where "b2 = b1\<lparr>b_heap := h\<rparr>"
  note sim2 = h(3) [folded b2_def]
  note d2 = simulatesD [OF sim2]
  let ?m' = "core (taken k ?m)"
  have n2: "b_node b2 m = taken k ?m" "b_node b2 inc = hit k ?t"
    "\<And>j. j \<noteq> m \<Longrightarrow> j \<noteq> inc \<Longrightarrow> b_node b2 j = b_node b j"
    using h(2) a(4) by (auto simp: b2_def n1)
  have q2: "map (core \<circ> b_node b2) q = map (core \<circ> b_node b) q"
    and v2: "view_of b2 C = view_of b C" using d2(7) by (simp_all add: G)
  define q'' where "q'' = queue_after (ms_seq s) ?m' (map (core \<circ> b_node b) q)"
  let ?f = "fill_after ?qp ?m' ?t' p k q''"
  obtain nd b' q' where out: "afterFill m l (new_fill ?m' ?t' p k) b2 = Some (nd, exhausted ?m', ?f, b')"
    "length q' = length q''" "exhausted ?m' \<longrightarrow> nd = first q' None"
    "simulates B x inc X b0 G0 b' (G(x := (p, l, q') # C))
       (s\<lparr>ms_taker := ?t', ms_levels := (p, q'') # view_of b C, ms_seq := seq_after (ms_seq s) ?m'\<rparr>)"
    using afterFill_ok [OF sim2 G refl refl refl, of k] d2(3)
    by (simp add: n2(1) q2 v2 q''_def [symmetric]) blast
  let ?s = "s\<lparr>ms_levels := (p, q'') # view_of b C, ms_taker := ?t',
      ms_fills := ms_fills s @ [?f], ms_seq := seq_after (ms_seq s) ?m'\<rparr>"
  have run: "fillMaker inc m l b = Some (nd, exhausted ?m', ?f, b')"
  proof -
    have "Min_dec (n_RemainQty ?m) (n_RemainQty ?t) = Some k"
      using precs by (simp add: Min_dec_same k_def dmin_def)
    moreover have "Sub (n_RemainQty ?t) k = Some (dsub (n_RemainQty ?t) k)"
      "Add (n_FilledQty ?t) k = Some (dadd (n_FilledQty ?t) k)"
      using precs kp by (simp_all add: go_prec)
    moreover have "n_FilledQty (b_node (set_b_node inc (\<lambda>n. n\<lparr>n_RemainQty := r\<rparr>) b) inc) = n_FilledQty ?t" for r
      by (simp add: set_b_node_simps [OF a(9)])
    moreover have "l_Price (b_level b2 l) = p" using level_shows(6) [OF d2(1) G] .
    ultimately show ?thesis
      using b1 h(1) out(1) n2(1,2) by (simp add: fillMaker_def b2_def)
  qed
  have step: "mstep (b_config b0) s ?s"
    using mstep.trade [OF lv alive refl, of "b_config b0" k q''] pos cross stp d(8) kd
    by (simp add: q''_def)
  have len: "length q'' \<le> Suc (length q)" by (simp add: q''_def queue_after_def)
  have t': "remaining ?t' = remaining (ms_taker s) - ival k" using tq(5) d(8) by simp
  have dec: "nat (remaining ?t') + length q' < nat (remaining (ms_taker s)) + length (m # q)"
    using len out(2) t' tq(1,3) pos by simp
  have stay: "remaining ?t' = 0" if "\<not> exhausted ?m'"
  proof -
    have "remaining ?m' \<noteq> 0" using that by (simp only: exhausted_iff not_False_eq_True)
    then have "ival k \<noteq> remaining (core ?m)" using tq(4) by simp
    then show ?thesis using t' d(8) by (auto simp: kd dmin_def split: if_splits)
  qed
  have "simulates B x inc X b0 G0 b' (G(x := (p, l, q') # C)) ?s"
    using out(4) by (simp add: simulates_def)
  moreover have "price_ok ?t' p" using cross d(8) by (auto simp: price_ok_def hit_def split: if_splits)
  ultimately show ?thesis
    using run step alive out(3) dec stay
    by (intro exI [of _ nd] exI [of _ "exhausted ?m'"] exI [of _ ?f] exI [of _ b'] exI [of _ q']
        exI [of _ ?s]) auto
qed

subsection \<open>Self-trade prevention is one step\<close>

lemma price_ok_zero [simp]: "price_ok (zero_remain t) p = price_ok t p"
  by (simp add: price_ok_def)

lemma simulates_kill:
  assumes "simulates B x inc X b0 G0 b G s"
  shows "simulates B x inc X b0 G0 (set_b_node inc zero_remain b) G (s\<lparr>ms_taker := zero_remain (ms_taker s)\<rparr>)"
  using simulates_taker [OF assms, of zero_remain "zero_remain (ms_taker s)"] simulatesD(8) [OF assms] by simp

text \<open>Taking the maker out, in a book in which only the taker may have changed since \<open>b\<close>.\<close>

lemma cancelMakerNode_ok:
  assumes sim: "simulates B x inc X b0 G0 b1 G s1" and G: "G x = (p, l, m # q) # C"
    and m: "b_node b1 m = b_node b m"
    and lv: "ms_levels s1 = (p, core (b_node b m) # map (core \<circ> b_node b) q) # view_of b C"
  shows "\<exists>b'. cancelMakerNode m l b1 = Some (stp_canceled (b_node b m) p, b') \<and>
     n_Side (b_node b' m) = n_Side (b_node b m) \<and> simulates B x inc X b0 G0 b' (G(x := (p, l, q) # C))
       (s1\<lparr>ms_levels := (p, map (core \<circ> b_node b) q) # view_of b C\<rparr>)"
proof -
  have "(p, core (b_node b m) # map (core \<circ> b_node b1) q) # view_of b1 C =
      (p, core (b_node b m) # map (core \<circ> b_node b) q) # view_of b C"
    using simulatesD(7) [OF sim] lv m by (simp add: G)
  then have eqs: "map (core \<circ> b_node b1) q = map (core \<circ> b_node b) q" "view_of b1 C = view_of b C"
    by simp_all
  obtain b' where "removeMaker m l b1 = Some b'" "n_Side (b_node b' m) = n_Side (b_node b1 m)"
    "simulates B x inc X b0 G0 b' (G(x := (p, l, q) # C)) (s1\<lparr>ms_levels := (p, map (core \<circ> b_node b) q) # view_of b C\<rparr>)"
    using removeMaker_ok [OF sim G] unfolding eqs by blast
  then show ?thesis
    using m level_shows(6) [OF simulatesD(1) [OF sim] G] by (simp add: cancelMakerNode_def)
qed

text \<open>The situation of \<open>applySTP\<close> -- the taker meets an order of its own user at the head of the
  best level -- and what each of its modes does.\<close>

definition self_trade :: "'t btree_fns \<Rightarrow> bool \<Rightarrow> nat \<Rightarrow> nat set \<Rightarrow> 't OrderBook \<Rightarrow> ghost \<Rightarrow>
    't OrderBook \<Rightarrow> ghost \<Rightarrow> mstate \<Rightarrow> Decimal \<Rightarrow> nat \<Rightarrow> nat \<Rightarrow> nat list \<Rightarrow> glevel list \<Rightarrow> STPMode \<Rightarrow> bool" where
  "self_trade B x inc X b0 G0 b G s p l m q C mode \<longleftrightarrow>
     simulates B x inc X b0 G0 b G s \<and> G x = (p, l, m # q) # C \<and> good_state (b_config b0) s \<and>
     \<not> ms_killed s \<and> 0 < remaining (ms_taker s) \<and> price_ok (ms_taker s) p \<and>
     stpEnabled (b_config b0) (ms_taker s) (core (b_node b m)) \<and>
     effectiveSTPMode (b_config b0) (ms_taker s) (core (b_node b m)) = mode"

definition stp_done :: "'t btree_fns \<Rightarrow> bool \<Rightarrow> nat \<Rightarrow> nat set \<Rightarrow> 't OrderBook \<Rightarrow> ghost \<Rightarrow> ghost \<Rightarrow> mstate \<Rightarrow>
    Decimal \<Rightarrow> nat \<Rightarrow> nat \<Rightarrow> nat list \<Rightarrow> glevel list \<Rightarrow>
    (nat option \<times> bool \<times> STPCanceled list \<times> 't OrderBook) option \<Rightarrow> bool" where
  "stp_done B x inc X b0 G0 G s p l m q C r \<longleftrightarrow>
     (\<exists>nd cont b' g q' s'. r = Some (nd, cont, ms_cancels s', b') \<and>
       msteps (b_config b0) s s' \<and> simulates B x inc X b0 G0 b' (G(x := g)) s' \<and> ms_fills s' = ms_fills s \<and>
       (if cont then \<not> ms_killed s' \<and> nd = first q' None \<and> g = (p, l, q') # C \<and> price_ok (ms_taker s') p \<and>
          nat (remaining (ms_taker s')) + length q' < nat (remaining (ms_taker s)) + length (m # q)
        else ms_killed s' \<and> remaining (ms_taker s') = 0 \<and> g = (if q' = [] then C else (p, l, q') # C)))"

lemma stp_done_stop:
  assumes "msteps (b_config b0) s s'" and "simulates B x inc X b0 G0 b' (G(x := if q' = [] then C else (p, l, q') # C)) s'"
    and "ms_fills s' = ms_fills s" and "ms_killed s'" and "remaining (ms_taker s') = 0"
  shows "stp_done B x inc X b0 G0 G s p l m q C (Some (nd, False, ms_cancels s', b'))"
  unfolding stp_done_def using assms
  by (intro exI [of _ nd] exI [of _ False] exI [of _ b'] exI [of _ "if q' = [] then C else (p, l, q') # C"]
      exI [of _ q'] exI [of _ s']) simp

lemma stp_done_next:
  assumes "msteps (b_config b0) s s'" and "simulates B x inc X b0 G0 b' (G(x := (p, l, q) # C)) s'"
    and "ms_fills s' = ms_fills s" and "\<not> ms_killed s'" and "price_ok (ms_taker s') p"
    and "remaining (ms_taker s') \<le> remaining (ms_taker s)"
  shows "stp_done B x inc X b0 G0 G s p l m q C (Some (first q None, True, ms_cancels s', b'))"
  unfolding stp_done_def using assms
  by (intro exI [of _ "first q None"] exI [of _ True] exI [of _ b'] exI [of _ "(p, l, q) # C"]
      exI [of _ q] exI [of _ s']) (simp add: le_imp_less_Suc nat_mono)

lemma self_tradeD:
  assumes "self_trade B x inc X b0 G0 b G s p l m q C mode"
  shows "simulates B x inc X b0 G0 b G s" "G x = (p, l, m # q) # C"
    "ms_levels s = (p, core (b_node b m) # map (core \<circ> b_node b) q) # view_of b C"
    "\<not> ms_killed s" "price_ok (ms_taker s) p"
    "effectiveSTPMode (b_config b0) (ms_taker s) (core (b_node b m)) = mode"
    "good_state (b_config b0) s" "good_maker (mc_QtyPrecision (b_config b0)) (core (b_node b m))"
    "n_next (b_node b m) = first q None"
proof -
  note h = assms [unfolded self_trade_def]
  then show sim: "simulates B x inc X b0 G0 b G s" and G: "G x = (p, l, m # q) # C"
    and good: "good_state (b_config b0) s" and "\<not> ms_killed s" "price_ok (ms_taker s) p"
    "effectiveSTPMode (b_config b0) (ms_taker s) (core (b_node b m)) = mode" by simp_all
  show lv: "ms_levels s = (p, core (b_node b m) # map (core \<circ> b_node b) q) # view_of b C"
    using simulatesD(7) [OF sim] by (simp add: G)
  show "good_maker (mc_QtyPrecision (b_config b0)) (core (b_node b m))" using good lv by (simp add: good_state_def)
  show "n_next (b_node b m) = first q None" using head_next [OF simulatesD(1) [OF sim] G] .
qed

lemma self_trade_steps:
  assumes "self_trade B x inc X b0 G0 b G s p l m q C mode"
  shows "0 < remaining (ms_taker s)" "stpEnabled (b_config b0) (ms_taker s) (core (b_node b m))"
  using assms by (simp_all add: self_trade_def)

lemma stp_taker:
  assumes st: "self_trade B x inc X b0 G0 b G s p l m q C STPCancelTaker"
  shows "stp_done B x inc X b0 G0 G s p l m q C (applySTP B inc m l STPCancelTaker (ms_cancels s) b)"
proof -
  note h = self_tradeD [OF st]
  let ?s = "s\<lparr>ms_taker := zero_remain (ms_taker s), ms_killed := True\<rparr>"
  have "mstep (b_config b0) s ?s"
    using mstep.intros(3) [OF h(3,4) refl self_trade_steps(1) [OF st] h(5) self_trade_steps(2) [OF st]] h(6) by simp
  moreover have "simulates B x inc X b0 G0 (set_b_node inc zero_remain b) (G(x := (p, l, m # q) # C)) ?s"
    using simulates_kill [OF h(1)] h(2) by (simp add: simulates_def fun_upd_idem)
  ultimately have "stp_done B x inc X b0 G0 G s p l m q C (Some (None, False, ms_cancels ?s, set_b_node inc zero_remain b))"
    by (intro stp_done_stop [of _ _ _ _ _ _ _ _ _ _ "m # q"]) auto
  then show ?thesis by (simp add: applySTP_def)
qed

lemma stp_maker:
  assumes st: "self_trade B x inc X b0 G0 b G s p l m q C STPCancelMaker"
  shows "stp_done B x inc X b0 G0 G s p l m q C (applySTP B inc m l STPCancelMaker (ms_cancels s) b)"
proof -
  note h = self_tradeD [OF st]
  let ?s = "s\<lparr>ms_levels := (p, map (core \<circ> b_node b) q) # view_of b C,
      ms_cancels := ms_cancels s @ [stp_canceled (b_node b m) p]\<rparr>"
  obtain b' where b': "cancelMakerNode m l b = Some (stp_canceled (b_node b m) p, b')"
    "simulates B x inc X b0 G0 b' (G(x := (p, l, q) # C)) (s\<lparr>ms_levels := (p, map (core \<circ> b_node b) q) # view_of b C\<rparr>)"
    using cancelMakerNode_ok [OF h(1,2) refl h(3)] by blast
  have "mstep (b_config b0) s ?s"
    using mstep.intros(2) [OF h(3,4) refl self_trade_steps(1) [OF st] h(5) self_trade_steps(2) [OF st]] h(6) by simp
  moreover have "simulates B x inc X b0 G0 b' (G(x := (p, l, q) # C)) ?s" using b'(2) by (simp add: simulates_def)
  ultimately have "stp_done B x inc X b0 G0 G s p l m q C (Some (first q None, True, ms_cancels ?s, b'))"
    using h(4,5) by (intro stp_done_next) auto
  then show ?thesis using b'(1) h(9) by (simp add: applySTP_def)
qed

lemma stp_both:
  assumes B: "price_index B" and st: "self_trade B x inc X b0 G0 b G s p l m q C STPCancelBoth"
  shows "stp_done B x inc X b0 G0 G s p l m q C (applySTP B inc m l STPCancelBoth (ms_cancels s) b)"
proof -
  note h = self_tradeD [OF st]
  let ?m = "b_node b m"
  let ?s1 = "s\<lparr>ms_levels := (p, map (core \<circ> b_node b) q) # view_of b C, ms_taker := zero_remain (ms_taker s),
      ms_cancels := ms_cancels s @ [stp_canceled ?m p], ms_killed := True\<rparr>"
  have step: "mstep (b_config b0) s ?s1"
    using mstep.intros(4) [OF h(3,4) refl self_trade_steps(1) [OF st] h(5) self_trade_steps(2) [OF st]] h(6) by simp
  obtain b1 where b1: "cancelMakerNode m l b = Some (stp_canceled ?m p, b1)" "n_Side (b_node b1 m) = n_Side ?m"
    "simulates B x inc X b0 G0 b1 (G(x := (p, l, q) # C)) (s\<lparr>ms_levels := (p, map (core \<circ> b_node b) q) # view_of b C\<rparr>)"
    using cancelMakerNode_ok [OF h(1,2) refl h(3)] by blast
  have side: "(n_Side (b_node b1 m) = Bid) = x"
    using book_rep_level_facts(2) [OF simulatesD(1) [OF h(1)], of x "[]" p l "m # q" C m] h(2) b1(2)
    by (simp add: resting_order_def)
  show ?thesis
  proof (cases "q = []")
    case True
    obtain b2 where b2: "dropLevelIfEmpty B x l b1 = Some b2"
      "simulates B x inc X b0 G0 b2 (G(x := C)) (s\<lparr>ms_levels := view_of b1 C\<rparr>)"
      using simulates_drop [OF B b1(3), unfolded fun_upd_upd, of p l C] True by auto
    have v: "view_of b1 C = view_of b C" using simulatesD(7) [OF b1(3)] by simp
    let ?s = "?s1\<lparr>ms_levels := view_of b C\<rparr>"
    have "mstep (b_config b0) ?s1 ?s" using mstep.next_level [of ?s1 p "view_of b C" "b_config b0"] True by simp
    then have "msteps (b_config b0) s ?s" using step by (meson rtranclp.rtrancl_into_rtrancl r_into_rtranclp)
    moreover have "simulates B x inc X b0 G0 (set_b_node inc zero_remain b2) (G(x := C)) ?s"
      using simulates_kill [OF b2(2)] v by (simp add: simulates_def)
    ultimately have "stp_done B x inc X b0 G0 G s p l m q C (Some (None, False, ms_cancels ?s, set_b_node inc zero_remain b2))"
      by (intro stp_done_stop [of _ _ _ _ _ _ _ _ _ _ "[]"]) auto
    then show ?thesis using b1(1) b2(1) side by (simp add: applySTP_def cleanupLevelIfEmpty_def)
  next
    case False
    have G1: "(G(x := (p, l, q) # C)) x = (p, l, q) # C" by simp
    have "dropLevelIfEmpty B x l b1 = Some b1" using dropLevel_nonempty [OF simulatesD(1) [OF b1(3)] G1 False] .
    moreover have "simulates B x inc X b0 G0 (set_b_node inc zero_remain b1) (G(x := (p, l, q) # C)) ?s1"
      using simulates_kill [OF b1(3)] by (simp add: simulates_def)
    then have "stp_done B x inc X b0 G0 G s p l m q C (Some (None, False, ms_cancels ?s1, set_b_node inc zero_remain b1))"
      using step False by (intro stp_done_stop [of _ _ _ _ _ _ _ _ _ _ q]) auto
    ultimately show ?thesis using b1(1) side by (simp add: applySTP_def cleanupLevelIfEmpty_def)
  qed
qed

lemma stp_precs:
  assumes "self_trade B x inc X b0 G0 b G s p l m q C mode"
  shows "d_precision (n_RemainQty (b_node b inc)) = mc_QtyPrecision (b_config b0)"
    "d_precision (n_FilledQty (b_node b inc)) = mc_QtyPrecision (b_config b0)"
    "d_precision (n_RemainQty (b_node b m)) = mc_QtyPrecision (b_config b0)"
  using self_tradeD [OF assms] simulatesD(8) [OF self_tradeD(1) [OF assms]]
  by (auto simp: good_state_def node_prec_def good_maker_def sound_order_def)

text \<open>Decrementing a larger maker ends the taker; a maker that is not larger is used up.\<close>

lemma stp_decrement_part:
  assumes st: "self_trade B x inc X b0 G0 b G s p l m q C STPDecrementCancel"
    and gt: "remaining (b_node b inc) < remaining (b_node b m)"
  shows "stp_done B x inc X b0 G0 G s p l m q C (applySTP B inc m l STPDecrementCancel (ms_cancels s) b)"
proof -
  note h = self_tradeD [OF st] and precs = stp_precs [OF st] and d = simulatesD [OF self_tradeD(1) [OF st]]
  let ?t = "b_node b inc" and ?m = "b_node b m"
  obtain hp where hp: "DecrementQty l m (n_RemainQty ?t) (b_heap b) = Some hp"
    "simulates B x inc X b0 G0 (b\<lparr>b_heap := hp\<rparr>) G
      (s\<lparr>ms_levels := (p, core (taken (n_RemainQty ?t) ?m) # map (core \<circ> b_node b) q) # view_of b C\<rparr>)"
    using maker_after [OF h(1,2), of "n_RemainQty ?t"] precs d(3) by auto
  let ?s = "s\<lparr>ms_levels := (p, core (taken (n_RemainQty ?t) ?m) # map (core \<circ> b_node b) q) # view_of b C,
      ms_taker := zero_remain (ms_taker s), ms_killed := True\<rparr>"
  have "mstep (b_config b0) s ?s"
    using mstep.intros(5) [OF h(3,4) refl self_trade_steps(1) [OF st] h(5) self_trade_steps(2) [OF st]] h(6) gt d(8) by simp
  moreover have "simulates B x inc X b0 G0 (set_b_node inc zero_remain (b\<lparr>b_heap := hp\<rparr>)) (G(x := (p, l, m # q) # C)) ?s"
    using simulates_kill [OF hp(2)] h(2) by (simp add: simulates_def fun_upd_idem)
  ultimately have "stp_done B x inc X b0 G0 G s p l m q C
      (Some (None, False, ms_cancels ?s, set_b_node inc zero_remain (b\<lparr>b_heap := hp\<rparr>)))"
    by (intro stp_done_stop [of _ _ _ _ _ _ _ _ _ _ "m # q"]) auto
  then show ?thesis using precs gt hp(1) by (simp add: applySTP_def compare_same)
qed

lemma stp_decrement_all:
  assumes st: "self_trade B x inc X b0 G0 b G s p l m q C STPDecrementCancel"
    and le: "\<not> remaining (b_node b inc) < remaining (b_node b m)"
  shows "stp_done B x inc X b0 G0 G s p l m q C (applySTP B inc m l STPDecrementCancel (ms_cancels s) b)"
proof -
  note h = self_tradeD [OF st] and precs = stp_precs [OF st] and d = simulatesD [OF self_tradeD(1) [OF st]]
  note a = book_rep_apart [OF d(1) h(2) d(2)]
  let ?t = "b_node b inc" and ?m = "b_node b m" and ?k = "n_RemainQty (b_node b m)"
  define b1 where "b1 = set_b_node inc (hit ?k) b"
  have b1: "set_b_node inc (\<lambda>n. n\<lparr>n_FilledQty := dadd (n_FilledQty ?t) ?k\<rparr>)
      (set_b_node inc (\<lambda>n. n\<lparr>n_RemainQty := dsub (n_RemainQty ?t) ?k\<rparr>) b) = b1"
    unfolding b1_def set_b_node_twice [OF a(9)] by (rule set_b_node_cong) (simp add: hit_def)
  have sim1: "simulates B x inc X b0 G0 b1 G (s\<lparr>ms_taker := hit ?k (ms_taker s)\<rparr>)"
    unfolding b1_def by (rule simulates_taker [OF h(1)]) (simp add: d(8))
  have m1: "b_node b1 m = ?m" using a(4) by (simp add: b1_def set_b_node_simps [OF a(9)])
  obtain b' where b': "cancelMakerNode m l b1 = Some (stp_canceled ?m p, b')"
    "simulates B x inc X b0 G0 b' (G(x := (p, l, q) # C)) (s\<lparr>ms_taker := hit ?k (ms_taker s),
       ms_levels := (p, map (core \<circ> b_node b) q) # view_of b C\<rparr>)"
    using cancelMakerNode_ok [OF sim1 h(2) m1] h(3) by auto
  let ?s = "s\<lparr>ms_levels := (p, map (core \<circ> b_node b) q) # view_of b C, ms_taker := hit ?k (ms_taker s),
      ms_cancels := ms_cancels s @ [stp_canceled ?m p]\<rparr>"
  have "mstep (b_config b0) s ?s"
    using mstep.intros(6) [OF h(3,4) refl self_trade_steps(1) [OF st] h(5) self_trade_steps(2) [OF st]] h(6) le d(8) by simp
  moreover have "simulates B x inc X b0 G0 b' (G(x := (p, l, q) # C)) ?s" using b'(2) by (simp add: simulates_def)
  moreover have "remaining (hit ?k (ms_taker s)) \<le> remaining (ms_taker s)"
    using h(8) le d(8) remaining_taken(2) [of ?k ?t] by (simp add: good_maker_def)
  moreover have "price_ok (hit ?k (ms_taker s)) p" using h(5) by (auto simp: price_ok_def hit_def split: if_splits)
  ultimately have "stp_done B x inc X b0 G0 G s p l m q C (Some (first q None, True, ms_cancels ?s, b'))"
    using h(4) by (intro stp_done_next) auto
  moreover have "Sub (n_RemainQty ?t) ?k = Some (dsub (n_RemainQty ?t) ?k)"
    "Add (n_FilledQty ?t) ?k = Some (dadd (n_FilledQty ?t) ?k)"
    using precs by (simp_all add: go_prec)
  moreover have "n_FilledQty (b_node (set_b_node inc (\<lambda>n. n\<lparr>n_RemainQty := r\<rparr>) b) inc) = n_FilledQty ?t"
    "b_node (set_b_node inc f b) m = ?m" for r f
    using a(4) by (simp_all add: set_b_node_simps [OF a(9)])
  ultimately show ?thesis using precs le b1 b'(1) m1 h(9) by (simp add: applySTP_def compare_same)
qed

lemma applySTP_ok:
  assumes B: "price_index B" and st: "self_trade B x inc X b0 G0 b G s p l m q C mode"
    and mode: "\<forall>u. mode \<noteq> STPByte u"
  shows "stp_done B x inc X b0 G0 G s p l m q C (applySTP B inc m l mode (ms_cancels s) b)"
proof -
  have on: "mode \<noteq> STPDisabled" using self_tradeD(6) [OF st] self_trade_steps(2) [OF st] by (simp add: stpEnabled_def)
  show ?thesis
  proof (cases mode)
    case STPDecrementCancel
    then show ?thesis using st stp_decrement_part stp_decrement_all
      by (cases "remaining (b_node b inc) < remaining (b_node b m)") simp_all
  qed (use st mode on stp_taker stp_maker stp_both [OF B] in simp_all)
qed

subsection \<open>The loops end, and run the machine\<close>

definition valid_stp :: "MarketConfig \<Rightarrow> OrderNode \<Rightarrow> bool" where
  "valid_stp cfg t \<longleftrightarrow> (\<forall>u. mc_STPMode cfg \<noteq> STPByte u) \<and> (\<forall>u. n_STPMode t \<noteq> STPByte u)"

lemma effective_valid:
  assumes "valid_stp cfg t" and "sound_order qp m"
  shows "effectiveSTPMode cfg t m \<noteq> STPByte u"
  using assms by (auto simp: effectiveSTPMode_def valid_stp_def sound_order_def)

text \<open>How the inner loop ends: with the level empty or the taker spent, or with the taker killed.\<close>

definition level_done :: "'t btree_fns \<Rightarrow> bool \<Rightarrow> nat \<Rightarrow> nat set \<Rightarrow> 't OrderBook \<Rightarrow> ghost \<Rightarrow> ghost \<Rightarrow> mstate \<Rightarrow>
    Decimal \<Rightarrow> nat \<Rightarrow> glevel list \<Rightarrow> (bool \<times> Fill list \<times> STPCanceled list \<times> 't OrderBook) option \<Rightarrow> bool" where
  "level_done B x inc X b0 G0 G s p l C r \<longleftrightarrow>
     (\<exists>fin b' g s'. r = Some (fin, ms_fills s', ms_cancels s', b') \<and>
       msteps (b_config b0) s s' \<and> simulates B x inc X b0 G0 b' (G(x := g)) s' \<and> ms_killed s' = (\<not> fin) \<and>
       (if fin then \<exists>q'. g = (p, l, q') # C \<and> (q' = [] \<or> remaining (ms_taker s') = 0)
        else remaining (ms_taker s') = 0 \<and> (\<exists>q'. g = (if q' = [] then C else (p, l, q') # C))))"

lemma level_done_end:
  assumes "msteps (b_config b0) s s'" and "simulates B x inc X b0 G0 b' (G(x := (p, l, q') # C)) s'"
    and "\<not> ms_killed s'" and "q' = [] \<or> remaining (ms_taker s') = 0"
  shows "level_done B x inc X b0 G0 G s p l C (Some (True, ms_fills s', ms_cancels s', b'))"
  unfolding level_done_def using assms
  by (intro exI [of _ True] exI [of _ b'] exI [of _ "(p, l, q') # C"] exI [of _ s']) auto

lemma level_done_steps:
  assumes "msteps (b_config b0) s s1"
    and "level_done B x inc X b0 G0 (G(x := g1)) s1 p l C r"
  shows "level_done B x inc X b0 G0 G s p l C r"
proof -
  obtain fin b' g s' where r: "r = Some (fin, ms_fills s', ms_cancels s', b')" "msteps (b_config b0) s1 s'"
    "simulates B x inc X b0 G0 b' (G(x := g)) s'" "ms_killed s' = (\<not> fin)"
    "if fin then \<exists>q'. g = (p, l, q') # C \<and> (q' = [] \<or> remaining (ms_taker s') = 0)
     else remaining (ms_taker s') = 0 \<and> (\<exists>q'. g = (if q' = [] then C else (p, l, q') # C))"
    using assms(2) unfolding level_done_def fun_upd_upd by blast
  have "msteps (b_config b0) s s'" using assms(1) r(2) by (rule rtranclp_trans)
  then show ?thesis unfolding level_done_def using r
    by (intro exI [of _ fin] exI [of _ b'] exI [of _ g] exI [of _ s']) simp
qed

text \<open>One pass of the inner loop, in front of passes that are known to end: first for an order of
  the taker's own user, then for any other.\<close>

lemma level_stp:
  assumes B: "price_index B"
    and st: "self_trade B x inc X b0 G0 b G s p l m q C (effectiveSTPMode (b_config b0) (b_node b inc) (b_node b m))"
    and valid: "valid_stp (b_config b0) (ms_taker s)"
    and rest: "\<And>b1 s1 q'. simulates B x inc X b0 G0 b1 (G(x := (p, l, q') # C)) s1 \<Longrightarrow> good_state (b_config b0) s1 \<Longrightarrow>
      \<not> ms_killed s1 \<Longrightarrow> price_ok (ms_taker s1) p \<Longrightarrow> valid_stp (b_config b0) (ms_taker s1) \<Longrightarrow>
      nat (remaining (ms_taker s1)) + length q' < nat (remaining (ms_taker s)) + length (m # q) \<Longrightarrow>
      level_done B x inc X b0 G0 (G(x := (p, l, q') # C)) s1 p l C
        (match_level B inc l (first q' None) (ms_fills s1) (ms_cancels s1) b1)"
  shows "level_done B x inc X b0 G0 G s p l C (match_level B inc l (Some m) (ms_fills s) (ms_cancels s) b)"
proof -
  note h = self_tradeD [OF st] and d = simulatesD [OF self_tradeD(1) [OF st]]
  let ?cfg = "b_config b0" and ?mode = "effectiveSTPMode (b_config b0) (b_node b inc) (b_node b m)"
  have mode: "\<forall>u. ?mode \<noteq> STPByte u"
    using effective_valid [OF valid] h(8) d(8) by (metis good_maker_def core_views(2))
  obtain nd cont b1 g q' s1 where step:
    "applySTP B inc m l ?mode (ms_cancels s) b = Some (nd, cont, ms_cancels s1, b1)"
    "msteps ?cfg s s1" "simulates B x inc X b0 G0 b1 (G(x := g)) s1" "ms_fills s1 = ms_fills s"
    "if cont then \<not> ms_killed s1 \<and> nd = first q' None \<and> g = (p, l, q') # C \<and> price_ok (ms_taker s1) p \<and>
        nat (remaining (ms_taker s1)) + length q' < nat (remaining (ms_taker s)) + length (m # q)
     else ms_killed s1 \<and> remaining (ms_taker s1) = 0 \<and> g = (if q' = [] then C else (p, l, q') # C)"
    using applySTP_ok [OF B st mode] unfolding stp_done_def by blast
  have unfold: "match_level B inc l (Some m) (ms_fills s) (ms_cancels s) b =
      (if \<not> cont then Some (False, ms_fills s1, ms_cancels s1, b1)
       else match_level B inc l nd (ms_fills s1) (ms_cancels s1) b1)"
    using self_trade_steps [OF st] step(1,4) d(3,8) by (simp add: match_level.simps [of _ _ _ "Some m"] IsPositive_def)
  show ?thesis
  proof (cases cont)
    case True
    have "valid_stp ?cfg (ms_taker s1)"
      using valid strip_eqD(6) [OF msteps_strip [OF step(2)]] by (simp add: valid_stp_def)
    then show ?thesis using True step(3,5) unfold msteps_good [OF step(2) h(7)]
      by (intro level_done_steps [OF step(2), where G = G and ?g1.0 = g]) (auto intro!: rest)
  next
    case False
    then show ?thesis unfolding level_done_def using step unfold
      by (intro exI [of _ False] exI [of _ b1] exI [of _ g] exI [of _ s1]) auto
  qed
qed

lemma level_fill:
  assumes sim: "simulates B x inc X b0 G0 b G s" and G: "G x = (p, l, m # q) # C"
    and good: "good_state (b_config b0) s" and alive: "\<not> ms_killed s"
    and pos: "0 < remaining (ms_taker s)" and cross: "price_ok (ms_taker s) p"
    and stp: "\<not> stpEnabled (b_config b0) (b_node b inc) (b_node b m)"
    and valid: "valid_stp (b_config b0) (ms_taker s)"
    and rest: "\<And>b1 s1 q'. simulates B x inc X b0 G0 b1 (G(x := (p, l, q') # C)) s1 \<Longrightarrow> good_state (b_config b0) s1 \<Longrightarrow>
      \<not> ms_killed s1 \<Longrightarrow> price_ok (ms_taker s1) p \<Longrightarrow> valid_stp (b_config b0) (ms_taker s1) \<Longrightarrow>
      nat (remaining (ms_taker s1)) + length q' < nat (remaining (ms_taker s)) + length (m # q) \<Longrightarrow>
      level_done B x inc X b0 G0 (G(x := (p, l, q') # C)) s1 p l C
        (match_level B inc l (first q' None) (ms_fills s1) (ms_cancels s1) b1)"
  shows "level_done B x inc X b0 G0 G s p l C (match_level B inc l (Some m) (ms_fills s) (ms_cancels s) b)"
proof -
  note d = simulatesD [OF sim]
  obtain nd go f b1 q' s1 where step: "fillMaker inc m l b = Some (nd, go, f, b1)" "mstep (b_config b0) s s1"
    "simulates B x inc X b0 G0 b1 (G(x := (p, l, q') # C)) s1" "ms_fills s1 = ms_fills s @ [f]"
    "ms_cancels s1 = ms_cancels s" "\<not> ms_killed s1" "price_ok (ms_taker s1) p"
    "if go then nd = first q' None else remaining (ms_taker s1) = 0"
    "nat (remaining (ms_taker s1)) + length q' < nat (remaining (ms_taker s)) + length (m # q)"
    using fillMaker_ok [OF sim G good alive pos cross stp] by auto
  have unfold: "match_level B inc l (Some m) (ms_fills s) (ms_cancels s) b =
      (if go then match_level B inc l nd (ms_fills s1) (ms_cancels s1) b1
       else Some (True, ms_fills s1, ms_cancels s1, b1))"
    using stp step(1,4,5) pos d(3,8) by (simp add: match_level.simps [of _ _ _ "Some m"] IsPositive_def)
  have one: "msteps (b_config b0) s s1" using step(2) by blast
  show ?thesis
  proof (cases go)
    case True
    have "valid_stp (b_config b0) (ms_taker s1)"
      using valid strip_eqD(6) [OF mstep_strip [OF step(2)]] by (simp add: valid_stp_def)
    from level_done_steps [OF one rest [OF step(3) mstep_good [OF step(2) good] step(6,7) this step(9)]]
    show ?thesis using True step(8) unfold by simp
  next
    case False
    then show ?thesis using level_done_end [where ?b0.0 = b0, OF one step(3,6)] step(8) unfold by simp
  qed
qed

lemma match_level_ok:
  assumes B: "price_index B"
  shows "simulates B x inc X b0 G0 b G s \<Longrightarrow> G x = (p, l, q) # C \<Longrightarrow> good_state (b_config b0) s \<Longrightarrow>
     \<not> ms_killed s \<Longrightarrow> price_ok (ms_taker s) p \<Longrightarrow> valid_stp (b_config b0) (ms_taker s) \<Longrightarrow>
     level_done B x inc X b0 G0 G s p l C (match_level B inc l (first q None) (ms_fills s) (ms_cancels s) b)"
proof (induction "nat (remaining (ms_taker s)) + length q" arbitrary: b G s q rule: less_induct)
  case less
  note sim = less.prems(1) and G = less.prems(2)
  note d = simulatesD [OF sim]
  have same: "G(x := (p, l, q) # C) = G" using G by (simp add: fun_upd_idem)
  consider (fin) "q = [] \<or> remaining (ms_taker s) \<le> 0" | (pass) m r where "q = m # r" "0 < remaining (ms_taker s)"
    by (cases q; cases "remaining (ms_taker s) \<le> 0") auto
  then show ?case
  proof cases
    case fin
    then have "q = [] \<or> remaining (ms_taker s) = 0" using less.prems(3) by (auto simp: good_state_def)
    moreover have "match_level B inc l (first q None) (ms_fills s) (ms_cancels s) b
        = Some (True, ms_fills s, ms_cancels s, b)"
      using fin d(8) by (cases q) (auto simp: match_level.simps [of _ _ _ None] match_level.simps [of _ _ _ "Some _"] IsPositive_def)
    ultimately show ?thesis using sim less.prems(4) level_done_end [of b0 s s B x inc X G0 b G p l q C] by (simp add: same)
  next
    case (pass m r)
    have Gm: "G x = (p, l, m # r) # C" using G pass(1) by simp
    have rest: "level_done B x inc X b0 G0 (G(x := (p, l, q') # C)) s1 p l C
        (match_level B inc l (first q' None) (ms_fills s1) (ms_cancels s1) b1)"
      if "simulates B x inc X b0 G0 b1 (G(x := (p, l, q') # C)) s1" "good_state (b_config b0) s1" "\<not> ms_killed s1"
        "price_ok (ms_taker s1) p" "valid_stp (b_config b0) (ms_taker s1)"
        "nat (remaining (ms_taker s1)) + length q' < nat (remaining (ms_taker s)) + length (m # r)" for b1 s1 q'
      by (rule less.hyps [OF that(6) [folded pass(1)] that(1) fun_upd_same that(2-5)])
    show ?thesis
    proof (cases "stpEnabled (b_config b0) (b_node b inc) (b_node b m)")
      case True
      then have "self_trade B x inc X b0 G0 b G s p l m r C (effectiveSTPMode (b_config b0) (b_node b inc) (b_node b m))"
        using sim Gm less.prems(3-5) pass(2) d(8) by (simp add: self_trade_def)
      from level_stp [OF B this less.prems(6) rest] show ?thesis by (simp add: pass(1))
    next
      case False
      from level_fill [OF sim Gm less.prems(3,4) pass(2) less.prems(5) False less.prems(6) rest]
      show ?thesis by (simp add: pass(1))
    qed
  qed
qed

text \<open>The price of an order that may be compared: a market order has none.\<close>

definition priced :: "u8 \<Rightarrow> OrderNode \<Rightarrow> bool" where
  "priced pp t \<longleftrightarrow> n_Type t = Market \<or> d_precision (n_Price t) = pp"

lemma crosses_ok:
  assumes "book_rep B b G X" and "G x = (p, l, q) # C" and "price_index B"
    and "priced (price_prec b) t"
  shows "crosses t (b_level b l) = Some (price_ok t p)"
proof -
  have "d_precision p = price_prec b" using price_prec_of [OF assms(3,1), of p l q x] assms(2) by simp
  then show ?thesis
    using assms(4) level_shows(6) [OF assms(1,2)]
    by (auto simp: crosses_def price_ok_def priced_def compare_same)
qed

lemma Best_head:
  assumes "price_index B" and "book_rep B b G X"
  shows "Best B (side_tree x b) = (case G x of [] \<Rightarrow> None | (p, l, q) # C \<Rightarrow> Some l)"
  using price_index.Best_ok [OF assms(1) book_repD(1) [OF assms(2), of x]]
  by (cases "G x") auto

text \<open>How the outer loop ends.\<close>

definition loop_done :: "'t btree_fns \<Rightarrow> bool \<Rightarrow> nat \<Rightarrow> nat set \<Rightarrow> 't OrderBook \<Rightarrow> ghost \<Rightarrow> ghost \<Rightarrow> mstate \<Rightarrow>
    (bool \<times> Fill list \<times> STPCanceled list \<times> 't OrderBook) option \<Rightarrow> bool" where
  "loop_done B x inc X b0 G0 G s r \<longleftrightarrow>
     (\<exists>b' g s'. r = Some (ms_killed s', ms_fills s', ms_cancels s', b') \<and>
       msteps (b_config b0) s s' \<and> simulates B x inc X b0 G0 b' (G(x := g)) s' \<and> final_state s' \<and>
       (\<forall>(p, l, q)\<in>set g. q \<noteq> []) \<and> (ms_killed s' \<longrightarrow> remaining (ms_taker s') = 0))"

lemma loop_done_end:
  assumes "msteps (b_config b0) s s'" and "simulates B x inc X b0 G0 b' (G(x := g)) s'" and "final_state s'"
    and "\<forall>(p, l, q)\<in>set g. q \<noteq> []" and "ms_killed s' \<longrightarrow> remaining (ms_taker s') = 0"
  shows "loop_done B x inc X b0 G0 G s (Some (ms_killed s', ms_fills s', ms_cancels s', b'))"
  unfolding loop_done_def using assms by (intro exI [of _ b'] exI [of _ g] exI [of _ s']) simp

lemma loop_done_steps:
  assumes "msteps (b_config b0) s s1" and "loop_done B x inc X b0 G0 (G(x := g1)) s1 r"
  shows "loop_done B x inc X b0 G0 G s r"
proof -
  obtain b' g s' where r: "r = Some (ms_killed s', ms_fills s', ms_cancels s', b')" "msteps (b_config b0) s1 s'"
    "simulates B x inc X b0 G0 b' (G(x := g)) s'" "final_state s'" "\<forall>(p, l, q)\<in>set g. q \<noteq> []"
    "ms_killed s' \<longrightarrow> remaining (ms_taker s') = 0"
    using assms(2) unfolding loop_done_def fun_upd_upd by blast
  have "msteps (b_config b0) s s'" using assms(1) r(2) by (rule rtranclp_trans)
  then show ?thesis unfolding r(1) using r(3-6) by (rule loop_done_end)
qed

text \<open>After the inner loop: the taker is killed, or spent with orders left in the level, or the
  level is empty and is dropped.\<close>

lemma loop_after_level:
  assumes B: "price_index B" and lev: "level_done B x inc X b0 G0 G s p l C (Some (fin, fills, cancels, b1))"
    and C: "\<forall>(p, l, q)\<in>set C. q \<noteq> []"
    and rest: "\<And>b2 s2. msteps (b_config b0) s s2 \<Longrightarrow> simulates B x inc X b0 G0 b2 (G(x := C)) s2 \<Longrightarrow> \<not> ms_killed s2 \<Longrightarrow>
      loop_done B x inc X b0 G0 (G(x := C)) s2 (match_loop B inc x (ms_fills s2) (ms_cancels s2) b2)"
  shows "loop_done B x inc X b0 G0 G s
     (if \<not> fin then Some (IsZero (n_RemainQty (b_node b1 inc)), fills, cancels, b1)
      else Option.bind (dropLevelIfEmpty B x l b1) (\<lambda>b2. match_loop B inc x fills cancels b2))"
proof -
  obtain g s1 where in1: "fills = ms_fills s1" "cancels = ms_cancels s1"
    "msteps (b_config b0) s s1" "simulates B x inc X b0 G0 b1 (G(x := g)) s1" "ms_killed s1 = (\<not> fin)"
    "if fin then \<exists>q'. g = (p, l, q') # C \<and> (q' = [] \<or> remaining (ms_taker s1) = 0)
     else remaining (ms_taker s1) = 0 \<and> (\<exists>q'. g = (if q' = [] then C else (p, l, q') # C))"
    using lev unfolding level_done_def by blast
  note d1 = simulatesD [OF in1(4)]
  consider (killed) "\<not> fin" "remaining (ms_taker s1) = 0" "\<forall>(p, l, q)\<in>set g. q \<noteq> []"
    | (spent) q' where "fin" "g = (p, l, q') # C" "q' \<noteq> []" "remaining (ms_taker s1) = 0"
    | (empty) "fin" "g = (p, l, []) # C"
    using in1(6) C by (cases fin) (auto split: if_splits)
  then show ?thesis
  proof cases
    case killed
    then have "IsZero (n_RemainQty (b_node b1 inc))" using d1(8) by (simp add: IsZero_def sint_0_iff [symmetric])
    then show ?thesis using killed loop_done_end [OF in1(3,4) _ killed(3)] in1(1,2,5) by (simp add: final_state_def)
  next
    case (spent q')
    then have gx: "(G(x := g)) x = (p, l, q') # C" and full: "\<forall>(p, l, q)\<in>set g. q \<noteq> []" using C by auto
    have "dropLevelIfEmpty B x l b1 = Some b1" using dropLevel_nonempty [OF d1(1) gx spent(3)] .
    moreover have "match_loop B inc x fills cancels b1 = Some (False, fills, cancels, b1)"
      using spent(4) d1(8) by (simp add: match_loop.simps IsPositive_def)
    ultimately show ?thesis using spent loop_done_end [OF in1(3,4) _ full] in1(1,2,5) by (simp add: final_state_def)
  next
    case empty
    then have gx: "(G(x := g)) x = (p, l, []) # C" by simp
    obtain b2 where b2: "dropLevelIfEmpty B x l b1 = Some b2"
      "simulates B x inc X b0 G0 b2 (G(x := C)) (s1\<lparr>ms_levels := view_of b1 C\<rparr>)"
      using simulates_drop [OF B in1(4) gx, unfolded fun_upd_upd] by blast
    have lv: "ms_levels s1 = (p, []) # view_of b1 C" using d1(7) gx by simp
    have steps: "msteps (b_config b0) s (s1\<lparr>ms_levels := view_of b1 C\<rparr>)"
      using in1(3) mstep.next_level [OF lv] by (rule rtranclp.rtrancl_into_rtrancl)
    from loop_done_steps [OF steps rest [OF steps b2(2)]] show ?thesis using in1(1,2,5) empty(1) b2(1) by simp
  qed
qed

lemma match_loop_ok:
  assumes B: "price_index B"
  shows "simulates B x inc X b0 G0 b G s \<Longrightarrow> \<forall>(p, l, q)\<in>set (G x). q \<noteq> [] \<Longrightarrow>
     good_state (b_config b0) s \<Longrightarrow> \<not> ms_killed s \<Longrightarrow> valid_stp (b_config b0) (ms_taker s) \<Longrightarrow>
     priced (price_prec b0) (ms_taker s) \<Longrightarrow>
     loop_done B x inc X b0 G0 G s (match_loop B inc x (ms_fills s) (ms_cancels s) b)"
proof (induction "length (G x)" arbitrary: b G s rule: less_induct)
  case less
  note sim = less.prems(1)
  note d = simulatesD [OF sim]
  have rem: "remaining (b_node b inc) = remaining (ms_taker s)" by (simp add: d(8))
  have stop: ?case
    if "match_loop B inc x (ms_fills s) (ms_cancels s) b = Some (False, ms_fills s, ms_cancels s, b)"
      "final_state s"
    using that loop_done_end [where ?b0.0 = b0 and g = "G x" and G = G, OF rtranclp.rtrancl_refl _ that(2) less.prems(2)] sim less.prems(4) by simp
  have crossing: "crosses (b_node b inc) (b_level b l) = Some (price_ok (ms_taker s) p)" if "G x = (p, l, q) # C" for p l q C
    using crosses_ok [OF d(1) that B, of "b_node b inc"] less.prems(6) d(3,8) by (simp add: priced_def)
  consider (spent) "remaining (ms_taker s) \<le> 0" | (empty) "0 < remaining (ms_taker s)" "G x = []"
    | (far) p l q C where "0 < remaining (ms_taker s)" "G x = (p, l, q) # C" "\<not> price_ok (ms_taker s) p"
    | (cross) p l q C where "0 < remaining (ms_taker s)" "G x = (p, l, q) # C" "price_ok (ms_taker s) p"
    by (cases "G x") fastforce+
  then show ?case
  proof cases
    case spent
    then show ?thesis
      by (intro stop) (simp_all add: match_loop.simps rem IsPositive_def final_state_def)
  next
    case empty
    then show ?thesis using Best_head [OF B d(1), of x]
      by (intro stop) (simp_all add: match_loop.simps rem IsPositive_def final_state_def d(7))
  next
    case (far p l q C)
    then show ?thesis using Best_head [OF B d(1), of x] crossing [OF far(2)]
      by (intro stop) (simp_all add: match_loop.simps rem IsPositive_def final_state_def d(7))
  next
    case (cross p l q C)
    have lev: "level_done B x inc X b0 G0 G s p l C (match_level B inc l (first q None) (ms_fills s) (ms_cancels s) b)"
      by (rule match_level_ok [OF B sim cross(2) less.prems(3,4) cross(3) less.prems(5)])
    then obtain fin fills cancels b1 where
      ml: "match_level B inc l (first q None) (ms_fills s) (ms_cancels s) b = Some (fin, fills, cancels, b1)"
      unfolding level_done_def by blast
    have rest: "loop_done B x inc X b0 G0 (G(x := C)) s2 (match_loop B inc x (ms_fills s2) (ms_cancels s2) b2)"
      if "msteps (b_config b0) s s2" "simulates B x inc X b0 G0 b2 (G(x := C)) s2" "\<not> ms_killed s2" for b2 s2
    proof (rule less.hyps [OF _ that(2) _ msteps_good [OF that(1) less.prems(3)] that(3)])
      show "length ((G(x := C)) x) < length (G x)" "\<forall>(p, l, q)\<in>set ((G(x := C)) x). q \<noteq> []"
        using cross(2) less.prems(2) by auto
      show "valid_stp (b_config b0) (ms_taker s2)" "priced (price_prec b0) (ms_taker s2)"
        using less.prems(5,6) strip_eqD [OF msteps_strip [OF that(1)]] by (simp_all add: valid_stp_def priced_def)
    qed
    have "\<forall>(p, l, q)\<in>set C. q \<noteq> []" using less.prems(2) cross(2) by auto
    from loop_after_level [OF B lev [unfolded ml] this rest] show ?thesis
      using cross(1,2) rem crossing [OF cross(2)] cross(3) Best_head [OF B d(1), of x] level_shows(5) [OF d(1) cross(2)] ml
      by (subst match_loop.simps) (simp add: IsPositive_def)
  qed
qed

end
