(* ===== verification/Match_Result.thy ===== *)
theory Match_Result
  imports Match_Proof
begin

section \<open>What placing an order does\<close>

text \<open>
  The result of \<open>match\<close> for a book that satisfies its invariant: it always returns, the book
  it leaves satisfies the invariant again, the fills, the cancels and the opposite side are
  those of the price-time machine, and the rest of the order is dropped or put at the end of
  its own level, by its type and time in force.
\<close>

text \<open>The order a caller may place: a slot it acquired, with the market's precisions, a declared
  self-trade mode, an id that does not rest yet and a quantity that is not negative.\<close>

definition placeable :: "'t OrderBook \<Rightarrow> nat set \<Rightarrow> nat \<Rightarrow> bool" where
  "placeable b X inc \<longleftrightarrow> inc \<in> X \<and> (let n = b_node b inc in
     sound_order (qty_prec b) n \<and> 0 \<le> remaining n \<and> n_PoolIndex n = inc \<and>
     priced (price_prec b) n \<and> valid_stp (b_config b) n \<and> b_index b (n_OrderID n) = None)"

text \<open>The side after the order is put at the end of the level of its price.\<close>

definition rest_in :: "bool \<Rightarrow> OrderNode \<Rightarrow> (Decimal \<times> queue) list \<Rightarrow> (Decimal \<times> queue) list" where
  "rest_in x n L =
     (if n_Price n \<in> fst ` set L
      then map (\<lambda>(p, q). (p, if p = n_Price n then q @ [n] else q)) L
      else entries_set (tree_less (side_of x)) (n_Price n) [n] L)"

lemma view_of_split:
  assumes "distinct (map fst g)" and "g = A @ (p, l, q) # C"
  shows "view_of b (A @ (p, l, q @ [i]) # C) =
     map (\<lambda>(p', r). (p', if p' = p then r @ [core (b_node b i)] else r)) (view_of b g)"
proof -
  have "map (\<lambda>(p', r). (p', if p' = p then r @ [n] else r)) (view_of b h) = view_of b h"
    if "p \<notin> fst ` set h" for h n
    using that by (induction h) (auto simp: view_of_def)
  moreover have "p \<notin> fst ` set A" "p \<notin> fst ` set C" using assms by force+
  ultimately show ?thesis by (simp add: assms(2))
qed

lemma view_of_fst: "map fst (view_of b g) = map fst g" "fst ` set (view_of b g) = fst ` set g"
proof -
  show *: "map fst (view_of b g) = map fst g" by (induction g) auto
  show "fst ` set (view_of b g) = fst ` set g" using arg_cong [OF *, of set] by simp
qed

lemma view_of_entries_set:
  "view_of b (entries_set lt p (l, q) g) = entries_set lt p (map (core \<circ> b_node b) q) (view_of b g)"
  by (simp add: entries_set_def view_of_def filter_map comp_def case_prod_beta)

lemma entries_fst: "map fst (entries g) = map fst g"
  by (induction g) auto

lemma rest_view:
  assumes dist: "distinct (map fst g)" and split: "with_level x (n_Price n) l g = A @ (n_Price n, l, q) # C"
    and new: "distinct (map fst (with_level x (n_Price n) l g))"
    and n: "n = core (b_node b i)"
  shows "view_of b (A @ (n_Price n, l, q @ [i]) # C) = rest_in x n (view_of b g)"
proof (cases "n_Price n \<in> fst ` set g")
  case True
  then have "g = A @ (n_Price n, l, q) # C" using split by (simp add: with_level_def)
  then show ?thesis
    using view_of_split [OF dist, of A "n_Price n" l q C b i] True n
    by (simp add: rest_in_def view_of_fst)
next
  case False
  let ?lt = "tree_less (side_of x)" and ?p = "n_Price n"
  have wl: "entries_set ?lt ?p (l, []) g = A @ (?p, l, q) # C" using split False by (simp add: with_level_def)
  then have d: "distinct (map fst (A @ (?p, l, q) # C))" using new False by (simp add: with_level_def)
  define A' where "A' = filter (\<lambda>e. ?lt (fst e) ?p = Some True) g"
  define C' where "C' = filter (\<lambda>e. ?lt ?p (fst e) = Some True) g"
  have "A' @ (?p, l, []) # C' = A @ (?p, l, q) # C" using wl by (simp add: entries_set_def A'_def C'_def)
  moreover have "?p \<notin> fst ` set A'" "?p \<notin> fst ` set A" using False d by (auto simp: A'_def)
  ultimately have eq: "A = A'" "C = C'" "q = []"
    by (auto simp: append_eq_append_conv2 Cons_eq_append_conv append_eq_Cons_conv)
  have "A @ (?p, l, q @ [i]) # C = entries_set ?lt ?p (l, [i]) g"
    by (simp add: eq entries_set_def A'_def C'_def)
  then show ?thesis using False n by (simp add: rest_in_def view_of_fst view_of_entries_set)
qed

subsection \<open>Placing an order runs the machine\<close>

definition wants_rest :: "mstate \<Rightarrow> bool" where
  "wants_rest s \<longleftrightarrow> \<not> ms_killed s \<and> remaining (ms_taker s) \<noteq> 0 \<and> n_TIF (ms_taker s) \<noteq> IOC \<and>
     n_Type (ms_taker s) \<noteq> Market"

definition disposition :: "mstate \<Rightarrow> bool \<Rightarrow> Disposition" where
  "disposition s rested =
     (if ms_killed s then STPCanceled_Taker
      else if remaining (ms_taker s) = 0 then FullyFilled
      else if n_TIF (ms_taker s) = IOC then (if ms_fills s \<noteq> [] then PartialFill_Canceled else Canceled)
      else if n_Type (ms_taker s) = Market then Canceled
      else if rested then (if ms_fills s \<noteq> [] then PartialFill_Rested else Rested)
      else (if ms_fills s \<noteq> [] then PartialFill_Canceled else Canceled))"

text \<open>What the matching phase leaves: the machine's final state and the untouched own side.\<close>

definition matched :: "'t btree_fns \<Rightarrow> 't OrderBook \<Rightarrow> nat \<Rightarrow> mstate \<Rightarrow> bool \<Rightarrow> 't OrderBook \<Rightarrow> bool" where
  "matched B b inc s rested b' \<longleftrightarrow>
     (let x = (n_Side (b_node b inc) \<noteq> Bid) in
      msteps (b_config b) (start_state (side_view B x b) (core (b_node b inc)) (b_orderSeq b)) s \<and>
      final_state s \<and> (ms_killed s \<longrightarrow> remaining (ms_taker s) = 0) \<and>
      side_view B x b' = ms_levels s \<and> b_orderSeq b' = ms_seq s \<and> b_config b' = b_config b \<and>
      side_view B (\<not> x) b' = (if rested then rest_in (\<not> x) (ms_taker s) (side_view B (\<not> x) b)
                              else side_view B (\<not> x) b) \<and>
      (rested \<longrightarrow> wants_rest s) \<and>
      (wants_rest s \<and> \<not> rested \<longrightarrow>
         n_Price (ms_taker s) \<notin> fst ` set (side_view B (\<not> x) b)))"

lemma tidyD:
  assumes "tidy b G" and "(p, l, q) \<in> set (G x)"
  shows "q \<noteq> []" "i \<in> set q \<Longrightarrow> 0 < remaining (b_node b i)"
  using assms unfolding tidy_def by fast+

lemma tidyI:
  assumes "\<And>p l q. (p, l, q) \<in> set (G x) \<or> (p, l, q) \<in> set (G (\<not> x)) \<Longrightarrow> q \<noteq> []"
    and "\<And>p l q i. (p, l, q) \<in> set (G x) \<or> (p, l, q) \<in> set (G (\<not> x)) \<Longrightarrow> i \<in> set q \<Longrightarrow>
      0 < remaining (b_node b i)"
  shows "tidy b G"
  unfolding tidy_def
proof (intro allI ballI)
  fix y e assume e: "e \<in> set (G y)"
  obtain p l q where plq: "e = (p, l, q)" by (cases e) auto
  have "y = x \<or> y = (\<not> x)" by auto
  then have "(p, l, q) \<in> set (G x) \<or> (p, l, q) \<in> set (G (\<not> x))" using e plq by auto
  then show "case e of (p, l, q) \<Rightarrow> q \<noteq> [] \<and> (\<forall>i\<in>set q. 0 < remaining (b_node b i))"
    using assms plq by simp
qed

lemma start_good:
  assumes rep: "book_rep B b G X" and tidy: "tidy b G" and p: "placeable b X inc"
  shows "good_state (b_config b) (start_state (view_of b (G x)) (core (b_node b inc)) c)"
proof -
  have "good_maker (qty_prec b) (core (b_node b i))" if "(p, l, q) \<in> set (G x)" "i \<in> set q" for p l q i
  proof -
    have "resting_order (qty_prec b) x p i (b_node b i)"
      using levels_repD(2) [OF book_repD(2) [OF rep] that] .
    moreover have "0 < remaining (b_node b i)" using tidyD(2) [OF tidy that] .
    ultimately show ?thesis by (simp add: good_maker_def resting_order_def sound_order_def node_prec_def)
  qed
  then show ?thesis
    using p by (auto simp: good_state_def start_state_def view_of_def placeable_def Let_def
        sound_order_def node_prec_def)
qed

lemma matching_phase:
  assumes B: "price_index B" and rep: "book_rep B b G X" and tidy: "tidy b G" and p: "placeable b X inc"
    and x: "x = (n_Side (b_node b inc) \<noteq> Bid)"
  shows "\<exists>b1 g s. match_loop B inc x [] [] b = Some (ms_killed s, ms_fills s, ms_cancels s, b1) \<and>
     msteps (b_config b) (start_state (side_view B x b) (core (b_node b inc)) (b_orderSeq b)) s \<and>
     simulates B x inc X b G b1 (G(x := g)) s \<and> final_state s \<and> good_state (b_config b) s \<and>
     (ms_killed s \<longrightarrow> remaining (ms_taker s) = 0) \<and> tidy b1 (G(x := g))"
proof -
  let ?s0 = "start_state (view_of b (G x)) (core (b_node b inc)) (b_orderSeq b)"
  have inc: "inc \<in> X" using p by (simp add: placeable_def)
  have sim: "simulates B x inc X b G b G ?s0"
    using rep inc by (simp add: simulates_def start_state_def)
  have full: "\<forall>(p, l, q)\<in>set (G x). q \<noteq> []" using tidyD(1) [OF tidy] by auto
  have good: "good_state (b_config b) ?s0" by (rule start_good [OF rep tidy p])
  have stp: "valid_stp (b_config b) (ms_taker ?s0)" "priced (price_prec b) (ms_taker ?s0)"
    using p by (simp_all add: placeable_def Let_def start_state_def valid_stp_def priced_def)
  have alive: "\<not> ms_killed ?s0" by (simp add: start_state_def)
  obtain b1 g s where r: "match_loop B inc x (ms_fills ?s0) (ms_cancels ?s0) b =
         Some (ms_killed s, ms_fills s, ms_cancels s, b1)"
    "msteps (b_config b) ?s0 s" "simulates B x inc X b G b1 (G(x := g)) s" "final_state s"
    "\<forall>(p, l, q)\<in>set g. q \<noteq> []" "ms_killed s \<longrightarrow> remaining (ms_taker s) = 0"
    using match_loop_ok [OF B sim full good alive stp] unfolding loop_done_def by blast
  note good' = msteps_good [OF r(2) good]
  have "0 < remaining (b_node b1 i)" if "(p, l, q) \<in> set g" "i \<in> set q" for p l q i
  proof -
    have "(p, map (core \<circ> b_node b1) q) \<in> set (ms_levels s)"
      using simulatesD(7) [OF r(3)] that(1) by (force simp: view_of_def)
    then have "good_maker (qty_prec b) (core (b_node b1 i))" using good' that(2) by (auto simp: good_state_def)
    then show ?thesis by (simp add: good_maker_def)
  qed
  moreover have "remaining (b_node b1 i) = remaining (b_node b i)"
    if "(p, l, q) \<in> set (G (\<not> x))" "i \<in> set q" for p l q i
  proof -
    have "i \<in> set (level_nodes (G (\<not> x)))" using that by (auto simp: level_nodes_def)
    then show ?thesis using core_eqD(8) [OF simulatesD(5) [OF r(3)]] by simp
  qed
  ultimately have "tidy b1 (G(x := g))"
    using r(5) tidyD [OF tidy, of _ _ _ "\<not> x"] by (intro tidyI [of _ x]) (auto, metis)
  then show ?thesis
    using r good' side_view_ok [OF rep, of x] by (auto simp: start_state_def)
qed

text \<open>Giving the taker's slot back keeps the invariant and both views.\<close>

lemma release_ok:
  assumes rep: "book_rep B b G X" and tidy: "tidy b G" and i: "i \<in> X"
  shows "\<exists>b'. releaseNode i b = Some b' \<and> book_ok B b' (X - {i}) \<and> b_node b' = b_node b \<and>
     b_config b' = b_config b \<and> b_orderSeq b' = b_orderSeq b \<and> b_index b' = b_index b \<and>
     (\<forall>y. side_view B y b' = side_view B y b)"
proof -
  obtain h' where h': "releaseNode i b = Some (b\<lparr>b_heap := h'\<rparr>)" "node h' = b_node b"
    "book_rep B (b\<lparr>b_heap := h'\<rparr>) G (X - {i})"
    using book_rep_release [OF rep i] by blast
  have "tidy (b\<lparr>b_heap := h'\<rparr>) G" using tidy h'(2) by (simp add: tidy_def)
  moreover have "side_view B y (b\<lparr>b_heap := h'\<rparr>) = side_view B y b" for y
    using side_view_ok [OF rep] side_view_ok [OF h'(3)] h'(2) by (simp add: view_of_def)
  ultimately show ?thesis using h' by (auto simp: book_ok_def)
qed

lemma rest_ok:
  assumes B: "price_index B" and rep: "book_rep B b G X" and tidy: "tidy b G" and i: "i \<in> X"
    and n: "n = core (b_node b i)" and sound: "sound_order (qty_prec b) n" "0 < remaining n"
    and y: "y = (n_Side n = Bid)" and idx: "n_PoolIndex n = i"
    and pp: "d_precision (n_Price n) = price_prec b" and fresh: "b_index b (n_OrderID n) = None"
  shows "(\<exists>err. restNode B i b = Some (Inl err) \<and> n_Price n \<notin> fst ` set (side_view B y b)) \<or>
    (\<exists>b'. restNode B i b = Some (Inr b') \<and> book_ok B b' (X - {i}) \<and>
       b_config b' = b_config b \<and> b_orderSeq b' = b_orderSeq b \<and>
       side_view B (\<not> y) b' = side_view B (\<not> y) b \<and>
       side_view B y b' = rest_in y n (side_view B y b))"
proof -
  have ord: "resting_order (qty_prec b) y (n_Price (b_node b i)) i (b_node b i)"
    using sound(1) y idx n by (simp add: resting_order_def sound_order_def node_prec_def)
  have pp': "d_precision (n_Price (b_node b i)) = price_prec b"
    and fresh': "b_index b (n_OrderID (b_node b i)) = None" using pp fresh n by simp_all
  have price: "n_Price (b_node b i) = n_Price n" by (simp add: n)
  note view = side_view_ok [OF rep]
  from restNode_cases [OF B rep i refl ord pp' fresh'] show ?thesis
  proof (elim disjE exE conjE)
    fix err assume "restNode B i b = Some (Inl err)" "n_Price (b_node b i) \<notin> fst ` set (G y)"
    then show ?thesis by (intro disjI1 exI [of _ err]) (simp add: view view_of_fst price)
  next
    fix b' l A q C
    let ?G = "G(y := A @ (n_Price (b_node b i), l, q @ [i]) # C)"
    assume run: "restNode B i b = Some (Inr b')"
      and wl: "with_level y (n_Price (b_node b i)) l (G y) = A @ (n_Price (b_node b i), l, q) # C"
      and cores: "\<forall>j. core (b_node b' j) = core (b_node b j)"
      and cfg: "b_config b' = b_config b" "b_orderSeq b' = b_orderSeq b"
      and rep': "book_rep B b' ?G (X - {i})"
    have rem: "remaining (b_node b' j) = remaining (b_node b j)" for j
      using core_eqD(8) [of "b_node b' j" "b_node b j"] cores by simp
    have vw: "view_of b' g = view_of b g" for g by (rule view_of_cong) (simp add: cores)
    have keys: "distinct (map fst (G z))" for z
      using price_index.tree_keys(2) [OF B book_repD(1) [OF rep, of z]] by (simp add: entries_fst)
    have "distinct (map fst (?G y))"
      using price_index.tree_keys(2) [OF B book_repD(1) [OF rep', of y]] by (simp add: entries_fst)
    then have new: "distinct (map fst (with_level y (n_Price n) l (G y)))" using wl price by simp
    have "side_view B y b' = view_of b (?G y)" by (simp only: side_view_ok [OF rep'] vw)
    then have "side_view B y b' = rest_in y n (side_view B y b)"
      using rest_view [OF keys wl [unfolded price] new n] view by (simp add: price)
    moreover have "side_view B (\<not> y) b' = side_view B (\<not> y) b"
      using side_view_ok [OF rep', of "\<not> y"] view by (simp add: vw)
    moreover have mem: "(p, k, r) \<in> set (G y) \<or> r = []" if "(p, k, r) \<in> set (with_level y (n_Price n) l (G y))"
      for p k r using that by (auto simp: with_level_def entries_set_def split: if_splits)
    have "tidy b' ?G"
    proof (rule tidyI [of _ y])
      fix p k r assume e: "(p, k, r) \<in> set (?G y) \<or> (p, k, r) \<in> set (?G (\<not> y))"
      then consider (old) z where "(p, k, r) \<in> set (G z)" | (here) "(p, k, r) = (n_Price n, l, q @ [i])"
        | (nil) "(p, k, r) \<in> set A \<union> set C" "r = []"
        using mem [unfolded wl [unfolded price]] price by auto
      note cases = this
      have q: "0 < remaining (b_node b j)" if "j \<in> set q" for j
        using mem [of "n_Price n" l q] wl price that tidyD(2) [OF tidy, of "n_Price n" l q y j] by auto
      show "r \<noteq> []"
        using cases
      proof cases
        case nil
        have "(p, k, []) \<in> set (with_level y (n_Price n) l (G y))" using nil wl price by auto
        moreover have "p \<noteq> n_Price n" using new nil wl price by force
        ultimately have "(p, k, []) \<in> set (G y)"
          by (auto simp: with_level_def entries_set_def split: if_splits)
        then show ?thesis using tidyD(1) [OF tidy] by blast
      qed (use tidyD(1) [OF tidy] in auto)
      fix j assume j: "j \<in> set r"
      from cases have "0 < remaining (b_node b j)"
      proof cases
        case (old z)
        then show ?thesis using tidyD(2) [OF tidy _ j] by blast
      next
        case here
        then show ?thesis using q j sound(2) n by auto
      qed (use j in simp)
      then show "0 < remaining (b_node b' j)" by (simp add: rem)
    qed
    ultimately show ?thesis using run cfg rep' by (intro disjI2 exI [of _ b']) (auto simp: book_ok_def)
  qed
qed

text \<open>The whole call, when the fill-or-kill dry run did not reject it.\<close>

lemma match_runs:
  assumes B: "price_index B" and ok: "book_ok B b X" and p: "placeable b X inc"
    and fok: "n_TIF (b_node b inc) = FOK \<Longrightarrow> canFillFull B inc b = Some True"
  shows "\<exists>s rested b'. match B inc b = Some (ms_fills s, ms_cancels s, disposition s rested, b') \<and>
     book_ok B b' (X - {inc}) \<and> matched B b inc s rested b'"
proof -
  obtain G where rep: "book_rep B b G X" and tidy: "tidy b G" using ok by (auto simp: book_ok_def)
  define x where "x = (n_Side (b_node b inc) \<noteq> Bid)"
  obtain b1 g s where m: "match_loop B inc x [] [] b = Some (ms_killed s, ms_fills s, ms_cancels s, b1)"
    "msteps (b_config b) (start_state (side_view B x b) (core (b_node b inc)) (b_orderSeq b)) s"
    "simulates B x inc X b G b1 (G(x := g)) s" "final_state s" "good_state (b_config b) s"
    "ms_killed s \<longrightarrow> remaining (ms_taker s) = 0" "tidy b1 (G(x := g))"
    using matching_phase [OF B rep tidy p x_def] by blast
  note d = simulatesD [OF m(3)]
  let ?t = "ms_taker s"
  note strip = strip_eqD [OF msteps_strip [OF m(2)], unfolded start_state_def, simplified]
  have inc: "n_PoolIndex (b_node b inc) = inc" "n_PoolIndex ?t = inc"
    using p strip(11) by (simp_all add: placeable_def Let_def)
  have nodes: "n_RemainQty (b_node b1 inc) = n_RemainQty ?t" "n_TIF (b_node b1 inc) = n_TIF ?t"
    "n_Type (b_node b1 inc) = n_Type ?t" by (simp_all add: d(8))
  have own: "side_view B (\<not> x) b1 = side_view B (\<not> x) b"
    using side_view_ok [OF d(1), of "\<not> x"] side_view_ok [OF rep, of "\<not> x"] view_of_cong [OF d(5)] by simp
  have opp: "side_view B x b1 = ms_levels s" using side_view_ok [OF d(1)] d(7) by simp
  have zero: "IsZero (n_RemainQty ?t) = (remaining ?t = 0)" by (simp add: IsZero_def sint_0_iff)
  have seq: "b_orderSeq b1 = ms_seq s" using d(9) by simp
  obtain b2 where rel: "releaseNode inc b1 = Some b2" "book_ok B b2 (X - {inc})"
    "b_config b2 = b_config b1" "b_orderSeq b2 = b_orderSeq b1" "\<And>y. side_view B y b2 = side_view B y b1"
    using release_ok [OF d(1) m(7) d(2)] by blast
  have poss: "(if n_TIF (b_node b inc) = FOK then canFillFull B inc b else Some True) = Some True"
    using fok by simp
  have run: "match B inc b =
     (if ms_killed s then Some (ms_fills s, ms_cancels s, STPCanceled_Taker, b2)
      else if remaining ?t = 0 then Some (ms_fills s, ms_cancels s, FullyFilled, b2)
      else if n_TIF ?t = IOC then Some (ms_fills s, ms_cancels s,
        if ms_fills s \<noteq> [] then PartialFill_Canceled else Canceled, b2)
      else if n_Type ?t = Market then Some (ms_fills s, ms_cancels s, Canceled, b2)
      else Option.bind (restNode B inc b1) (\<lambda>r. case r of
          Inl err \<Rightarrow> Some (ms_fills s, ms_cancels s,
            if ms_fills s \<noteq> [] then PartialFill_Canceled else Canceled, b2)
        | Inr b \<Rightarrow> Some (ms_fills s, ms_cancels s, if ms_fills s \<noteq> [] then PartialFill_Rested else Rested, b)))"
    using poss m(1) by (simp add: match_def x_def [symmetric] inc nodes zero rel(1) split: sum.split
        cong: option.case_cong)
  have dropped: ?thesis
    if "match B inc b = Some (ms_fills s, ms_cancels s, disposition s False, b2)"
      "wants_rest s \<Longrightarrow> n_Price ?t \<notin> fst ` set (side_view B (\<not> x) b)"
  proof -
    have "matched B b inc s False b2"
      unfolding matched_def x_def [symmetric] using m(2,4,6) rel(3-5) own opp seq d(3) that(2) by simp
    then show ?thesis using that(1) rel(2) by blast
  qed
  show ?thesis
  proof (cases "wants_rest s")
    case False
    then show ?thesis by (intro dropped) (auto simp: run disposition_def wants_rest_def)
  next
    case True
    then have w: "\<not> ms_killed s" "remaining ?t \<noteq> 0" "n_TIF ?t \<noteq> IOC" "n_Type ?t \<noteq> Market"
      by (simp_all add: wants_rest_def)
    have sound: "sound_order (qty_prec b1) ?t" "0 < remaining ?t"
      using m(5) w(2) p strip d(3)
      by (auto simp: good_state_def placeable_def Let_def sound_order_def)
    have pp: "d_precision (n_Price ?t) = price_prec b1"
      using p w(4) strip(4,7) d(3) by (simp add: placeable_def Let_def priced_def)
    have fresh: "b_index b1 (n_OrderID ?t) = None"
      using p strip(1) d(6) by (simp add: placeable_def Let_def)
    have side: "(\<not> x) = (n_Side ?t = Bid)" using strip(3) by (simp add: x_def)
    from rest_ok [OF B d(1) m(7) d(2) d(8) sound side inc(2) pp fresh] show ?thesis
    proof (elim disjE exE conjE)
      fix err assume "restNode B inc b1 = Some (Inl err)" "n_Price ?t \<notin> fst ` set (side_view B (\<not> x) b1)"
      then show ?thesis using w own by (intro dropped) (simp_all add: run disposition_def)
    next
      fix b3 assume r: "restNode B inc b1 = Some (Inr b3)" "book_ok B b3 (X - {inc})"
        "b_config b3 = b_config b1" "b_orderSeq b3 = b_orderSeq b1"
        "side_view B (\<not> \<not> x) b3 = side_view B (\<not> \<not> x) b1"
        "side_view B (\<not> x) b3 = rest_in (\<not> x) ?t (side_view B (\<not> x) b1)"
      have "match B inc b = Some (ms_fills s, ms_cancels s, disposition s True, b3)"
        using w r(1) by (simp add: run disposition_def)
      moreover have "matched B b inc s True b3"
        unfolding matched_def x_def [symmetric] using m(2,4,6) r(3-6) own opp seq d(3) True by simp
      ultimately show ?thesis using r(2) by blast
    qed
  qed
qed

end
