(* ===== verification/Match_Laws.thy ===== *)
theory Match_Laws
  imports Match_Spec
begin

section \<open>The laws of price-time priority\<close>

text \<open>
  What every run of the matching machine satisfies, each by induction over its steps: fills
  respect the taker's price and come best price first; nobody trades with himself unless
  every self-trade mode is off; quantities are conserved; makers are filled in the order
  of their queues; and enough crossing quantity fills the taker.
\<close>

text \<open>\<open>better t p p'\<close>: a taker like \<open>t\<close> trades at \<open>p\<close> no later than at \<open>p'\<close>.\<close>

definition better :: "OrderNode \<Rightarrow> Decimal \<Rightarrow> Decimal \<Rightarrow> bool" where
  "better t p p' \<longleftrightarrow> (if n_Side t = Bid then ival p \<le> ival p' else ival p' \<le> ival p)"

lemma better_refl [simp]: "better t p p"
  by (simp add: better_def)

lemma better_strip: "strip t' = strip t \<Longrightarrow> better t' = better t"
  using strip_eqD(3) [of t' t] by (simp add: better_def fun_eq_iff)

lemma fill_after_sel [simp]:
  "f_Price (fill_after qp m t p k q) = p" "f_Qty (fill_after qp m t p k q) = k"
  "f_MakerUserID (fill_after qp m t p k q) = n_UserID m"
  "f_TakerUserID (fill_after qp m t p k q) = n_UserID t"
  "f_MakerOrderID (fill_after qp m t p k q) = n_OrderID m"
  "f_MakerRemainQty (fill_after qp m t p k q) = n_RemainQty m"
  "f_TakerOrderID (fill_after qp m t p k q) = n_OrderID t"
  by (simp_all add: fill_after_def new_fill_def)

lemma taken_sel [simp]:
  "n_UserID (taken k m) = n_UserID m" "n_OrderID (taken k m) = n_OrderID m"
  "n_STPMode (taken k m) = n_STPMode m" "n_HiddenQty (taken k m) = n_HiddenQty m"
  "n_UserID (hit k m) = n_UserID m" "n_OrderID (hit k m) = n_OrderID m"
  "n_HiddenQty (replenished c m) = dsub (n_HiddenQty m) (dmin (n_HiddenQty m) (n_OrigDisplayQty m))"
  "n_RemainQty (replenished c m) = dmin (n_HiddenQty m) (n_OrigDisplayQty m)"
  "n_OrderID (replenished c m) = n_OrderID m" "n_UserID (replenished c m) = n_UserID m"
  "n_STPMode (replenished c m) = n_STPMode m" "n_OrigDisplayQty (taken k m) = n_OrigDisplayQty m"
  by (simp_all add: taken_def hit_def replenished_def)

subsection \<open>Prices\<close>

definition price_order :: "mstate \<Rightarrow> bool" where
  "price_order s \<longleftrightarrow>
     sorted_wrt (better (ms_taker s)) (map f_Price (ms_fills s) @ map fst (ms_levels s)) \<and>
     (\<forall>f\<in>set (ms_fills s). price_ok (ms_taker s) (f_Price f))"

lemma mstep_price_order: "mstep cfg s s' \<Longrightarrow> price_order s \<Longrightarrow> price_order s'"
proof (induction rule: mstep.induct)
  case (trade s p m q L t k q')
  have "better (hit k t) = better t" by (rule better_strip) simp
  moreover have "price_ok (hit k t) r = price_ok t r" for r by (rule strip_eqD(12)) simp
  ultimately show ?case using trade by (auto simp: price_order_def sorted_wrt_append)
next
  case (stp_decrement_maker s p m q L t)
  have "better (hit (n_RemainQty m) t) = better t" by (rule better_strip) simp
  moreover have "price_ok (hit (n_RemainQty m) t) r = price_ok t r" for r by (rule strip_eqD(12)) simp
  ultimately show ?case using stp_decrement_maker by (auto simp: price_order_def)
next
  case (stp_taker s p m q L t)
  have "better (zero_remain t) = better t" by (rule better_strip) simp
  moreover have "price_ok (zero_remain t) r = price_ok t r" for r by (rule strip_eqD(12)) simp
  ultimately show ?case using stp_taker by (auto simp: price_order_def)
next
  case (stp_both s p m q L t)
  have "better (zero_remain t) = better t" by (rule better_strip) simp
  moreover have "price_ok (zero_remain t) r = price_ok t r" for r by (rule strip_eqD(12)) simp
  ultimately show ?case using stp_both by (auto simp: price_order_def)
next
  case (stp_decrement_taker s p m q L t)
  have "better (zero_remain t) = better t" by (rule better_strip) simp
  moreover have "price_ok (zero_remain t) r = price_ok t r" for r by (rule strip_eqD(12)) simp
  ultimately show ?case using stp_decrement_taker by (auto simp: price_order_def)
qed (auto simp: price_order_def sorted_wrt_append)

lemma msteps_price_order: "msteps cfg s s' \<Longrightarrow> price_order s \<Longrightarrow> price_order s'"
  by (induction rule: rtranclp_induct) (auto intro: mstep_price_order)

subsection \<open>Self-trades\<close>

definition no_self_trade :: "MarketConfig \<Rightarrow> mstate \<Rightarrow> bool" where
  "no_self_trade cfg s \<longleftrightarrow> (\<forall>f\<in>set (ms_fills s). f_TakerUserID f = n_UserID (ms_taker s) \<and>
     (f_MakerUserID f = f_TakerUserID f \<longrightarrow>
        n_STPMode (ms_taker s) = STPDisabled \<and> mc_STPMode cfg = STPDisabled))"

lemma not_stpEnabled:
  "\<not> stpEnabled cfg t m \<Longrightarrow> n_UserID m = n_UserID t \<Longrightarrow>
     n_STPMode t = STPDisabled \<and> mc_STPMode cfg = STPDisabled"
  by (auto simp: stpEnabled_def effectiveSTPMode_def split: if_splits)

lemma mstep_no_self_trade:
  assumes "mstep cfg s s'" and "no_self_trade cfg s"
  shows "no_self_trade cfg s'"
proof -
  note st = strip_eqD(2,6) [OF mstep_strip [OF assms(1)]]
  from assms show ?thesis
  proof (induction rule: mstep.induct)
    case (trade s p m q L t k q')
    have "n_STPMode (hit k t) = n_STPMode t" by (rule strip_eqD(6)) simp
    then show ?case using trade not_stpEnabled [of cfg t m] by (auto simp: no_self_trade_def)
  next
    case (stp_decrement_maker s p m q L t)
    have "n_STPMode (hit (n_RemainQty m) t) = n_STPMode t" by (rule strip_eqD(6)) simp
    then show ?case using stp_decrement_maker by (auto simp: no_self_trade_def)
  qed (auto simp: no_self_trade_def zero_remain_def)
qed

lemma msteps_no_self_trade: "msteps cfg s s' \<Longrightarrow> no_self_trade cfg s \<Longrightarrow> no_self_trade cfg s'"
  by (induction rule: rtranclp_induct) (auto intro: mstep_no_self_trade)

subsection \<open>Quantities\<close>

definition traded :: "Fill list \<Rightarrow> int" where
  "traded fs = (\<Sum>f\<leftarrow>fs. ival (f_Qty f))"

text \<open>What an order still stands for: what is left of it and its hidden reserve.\<close>

definition reserve :: "OrderNode \<Rightarrow> int" where
  "reserve n = remaining n + max 0 (ival (n_HiddenQty n))"

definition side_total :: "(Decimal \<times> queue) list \<Rightarrow> int" where
  "side_total L = (\<Sum>(p, q)\<leftarrow>L. \<Sum>n\<leftarrow>q. reserve n)"

lemma traded_append: "traded (fs @ [f]) = traded fs + ival (f_Qty f)"
  by (simp add: traded_def)

text \<open>Nobody is filled beyond his quantity.\<close>

lemma mstep_not_overfilled:
  "mstep cfg s s' \<Longrightarrow> good_state cfg s \<Longrightarrow>
     traded (ms_fills s') + remaining (ms_taker s') \<le> traded (ms_fills s) + remaining (ms_taker s) \<and>
     ((\<forall>f\<in>set (ms_fills s). 0 < ival (f_Qty f)) \<longrightarrow> (\<forall>f\<in>set (ms_fills s'). 0 < ival (f_Qty f)))"
proof (induction rule: mstep.induct)
  case (trade s p m q L t k q')
  have m: "good_maker (mc_QtyPrecision cfg) m" using trade by (simp add: good_state_def)
  note k = trade_qty [OF m trade.hyps(4,7)]
  show ?case using trade.hyps(3) k(1,5) by (auto simp: traded_append)
next
  case (stp_decrement_maker s p m q L t)
  have m: "good_maker (mc_QtyPrecision cfg) m" using stp_decrement_maker by (simp add: good_state_def)
  then have "remaining (hit (n_RemainQty m) t) = remaining t - remaining m" "0 < remaining m"
    using stp_decrement_maker by (auto intro!: remaining_taken simp: good_maker_def)
  then show ?case using stp_decrement_maker.hyps(3) by simp
qed auto

lemma msteps_not_overfilled:
  "msteps cfg s s' \<Longrightarrow> good_state cfg s \<Longrightarrow>
     traded (ms_fills s') + remaining (ms_taker s') \<le> traded (ms_fills s) + remaining (ms_taker s) \<and>
     ((\<forall>f\<in>set (ms_fills s). 0 < ival (f_Qty f)) \<longrightarrow> (\<forall>f\<in>set (ms_fills s'). 0 < ival (f_Qty f)))"
proof (induction rule: rtranclp_induct)
  case (step s1 s2)
  have "good_state cfg s1" using msteps_good [OF step.hyps(1) step.prems] .
  note one = mstep_not_overfilled [OF step.hyps(2) this] and ih = step.IH [OF step.prems]
  show ?case
  proof (intro conjI)
    show "traded (ms_fills s2) + remaining (ms_taker s2) \<le> traded (ms_fills s) + remaining (ms_taker s)"
      using one ih by linarith
  qed (use one ih in blast)
qed simp

text \<open>No order of the taker's owner rests on the other side, or self-trade prevention is off.\<close>

definition no_own_orders :: "MarketConfig \<Rightarrow> mstate \<Rightarrow> bool" where
  "no_own_orders cfg s \<longleftrightarrow> (\<forall>(p, q)\<in>set (ms_levels s). \<forall>m\<in>set q. \<not> stpEnabled cfg (ms_taker s) m)"

lemma stpEnabled_cong:
  "n_UserID t' = n_UserID t \<Longrightarrow> n_STPMode t' = n_STPMode t \<Longrightarrow> n_UserID m' = n_UserID m \<Longrightarrow>
   n_STPMode m' = n_STPMode m \<Longrightarrow> stpEnabled cfg t' m' = stpEnabled cfg t m"
  by (simp add: stpEnabled_def effectiveSTPMode_def)

lemma queue_after_total:
  assumes "sound_order qp m" and "0 \<le> remaining m"
  shows "(\<Sum>n\<leftarrow>queue_after c m q. reserve n) = reserve m + (\<Sum>n\<leftarrow>q. reserve n)"
proof -
  consider (r) "replenishes m" | (e) "exhausted m" "\<not> replenishes m" | (n) "\<not> exhausted m" by blast
  then show ?thesis
  proof cases
    case r
    then have z: "remaining m = 0" "0 < ival (n_HiddenQty m)" by (simp_all add: replenishes_def exhausted_iff)
    let ?k = "dmin (n_HiddenQty m) (n_OrigDisplayQty m)"
    have "0 < ival (n_OrigDisplayQty m)" using assms(1) z(2) by (simp add: sound_order_def)
    then have k: "0 < ival ?k" "ival ?k \<le> ival (n_HiddenQty m)" using z(2) dmin_pos dmin_le by auto
    have "ival (dsub (n_HiddenQty m) ?k) = ival (n_HiddenQty m) - ival ?k"
      using k by (simp add: sint_sub_nonneg)
    then have "reserve (replenished (snd (Next c)) m) = reserve m"
      using k z by (simp add: reserve_def)
    then show ?thesis using r by (simp add: queue_after_def)
  next
    case e
    then have "reserve m = 0" by (simp add: reserve_def replenishes_def exhausted_iff)
    then show ?thesis using e by (simp add: queue_after_def)
  qed (simp add: queue_after_def replenishes_def)
qed

lemma mstep_conserves:
  "mstep cfg s s' \<Longrightarrow> good_state cfg s \<Longrightarrow> no_own_orders cfg s \<Longrightarrow>
     no_own_orders cfg s' \<and> ms_killed s' = ms_killed s \<and> ms_cancels s' = ms_cancels s \<and>
     traded (ms_fills s') + remaining (ms_taker s') = traded (ms_fills s) + remaining (ms_taker s) \<and>
     traded (ms_fills s') + side_total (ms_levels s') = traded (ms_fills s) + side_total (ms_levels s)"
proof (induction rule: mstep.induct)
  case (trade s p m q L t k q')
  have m: "good_maker (mc_QtyPrecision cfg) m" using trade by (simp add: good_state_def)
  note k = trade_qty [OF m trade.hyps(4,7)]
  have set: "\<forall>n\<in>set q'. n_UserID n = n_UserID m \<and> n_STPMode n = n_STPMode m \<or> n \<in> set q"
    by (auto simp: trade.hyps(8) queue_after_def split: if_splits)
  have stp: "n_STPMode (hit k t) = n_STPMode t" by (rule strip_eqD(6)) simp
  have "\<not> stpEnabled cfg (hit k t) n" if "n \<in> set q'" for n
    using that set trade.hyps(6) trade.prems(2) stpEnabled_cong [of "hit k t" t n m cfg] stp
      stpEnabled_cong [of "hit k t" t n n cfg] trade.hyps(1,3)
    by (auto simp: no_own_orders_def)
  moreover have "\<not> stpEnabled cfg (hit k t) n" if "(r, q0) \<in> set L" "n \<in> set q0" for r q0 n
    using that trade.prems(2) trade.hyps(1,3) stp stpEnabled_cong [of "hit k t" t n n cfg]
    by (fastforce simp: no_own_orders_def)
  moreover have "(\<Sum>n\<leftarrow>q'. reserve n) = reserve (taken k m) + (\<Sum>n\<leftarrow>q. reserve n)"
    unfolding trade.hyps(8) by (rule queue_after_total [OF k(6)]) (use k(2,4) in simp)
  moreover have "reserve (taken k m) = reserve m - ival k" using k(4) by (simp add: reserve_def)
  ultimately show ?case using trade.hyps(1,3) k(5)
    by (auto simp: no_own_orders_def traded_append side_total_def)
qed (auto simp: no_own_orders_def side_total_def)

lemma msteps_conserves:
  "msteps cfg s s' \<Longrightarrow> good_state cfg s \<Longrightarrow> no_own_orders cfg s \<Longrightarrow>
     no_own_orders cfg s' \<and> ms_killed s' = ms_killed s \<and> ms_cancels s' = ms_cancels s \<and>
     traded (ms_fills s') + remaining (ms_taker s') = traded (ms_fills s) + remaining (ms_taker s) \<and>
     traded (ms_fills s') + side_total (ms_levels s') = traded (ms_fills s) + side_total (ms_levels s)"
proof (induction rule: rtranclp_induct)
  case (step s1 s2)
  note ih = step.IH [OF step.prems]
  have "good_state cfg s1" using msteps_good [OF step.hyps(1) step.prems(1)] .
  note one = mstep_conserves [OF step.hyps(2) this ih [THEN conjunct1]]
  show ?case
  proof (intro conjI)
    show "ms_killed s2 = ms_killed s" "ms_cancels s2 = ms_cancels s"
      "traded (ms_fills s2) + remaining (ms_taker s2) = traded (ms_fills s) + remaining (ms_taker s)"
      "traded (ms_fills s2) + side_total (ms_levels s2) = traded (ms_fills s) + side_total (ms_levels s)"
      using one ih by simp_all
  qed (use one in blast)
qed simp

subsection \<open>Time priority\<close>

definition queue_ids :: "(Decimal \<times> queue) list \<Rightarrow> OrderID list" where
  "queue_ids L = concat (map (\<lambda>(p, q). map n_OrderID q) L)"

lemma queue_ids_simps [simp]:
  "queue_ids [] = []" "queue_ids ((p, q) # L) = map n_OrderID q @ queue_ids L"
  by (simp_all add: queue_ids_def)

definition complete :: "Fill \<Rightarrow> bool" where
  "complete f \<longleftrightarrow> d_value (f_MakerRemainQty f) = 0"

text \<open>No maker has a hidden reserve, so none goes back to the end of its queue.\<close>

definition plain :: "(Decimal \<times> queue) list \<Rightarrow> bool" where
  "plain L \<longleftrightarrow> (\<forall>(p, q)\<in>set L. \<forall>m\<in>set q. ival (n_HiddenQty m) \<le> 0)"

definition in_turn :: "OrderID list \<Rightarrow> mstate \<Rightarrow> bool" where
  "in_turn ids s \<longleftrightarrow>
     plain (ms_levels s) \<and>
     map f_MakerOrderID (filter complete (ms_fills s)) @ queue_ids (ms_levels s) = ids \<and>
     (\<forall>f\<in>set (butlast (ms_fills s)). complete f) \<and>
     (ms_fills s \<noteq> [] \<and> \<not> complete (last (ms_fills s)) \<longrightarrow>
        remaining (ms_taker s) = 0 \<and>
        (\<exists>rest. queue_ids (ms_levels s) = f_MakerOrderID (last (ms_fills s)) # rest))"

lemma in_turnD:
  assumes "in_turn ids s"
  shows "plain (ms_levels s)" "\<forall>f\<in>set (butlast (ms_fills s)). complete f"
    "map f_MakerOrderID (filter complete (ms_fills s)) @ queue_ids (ms_levels s) = ids"
    "ms_fills s \<noteq> [] \<Longrightarrow> \<not> complete (last (ms_fills s)) \<Longrightarrow> remaining (ms_taker s) = 0"
  using assms unfolding in_turn_def by blast+

lemma last_butlast_all: "fs \<noteq> [] \<Longrightarrow> (\<forall>f\<in>set (butlast fs). P f) \<Longrightarrow> P (last fs) \<Longrightarrow> \<forall>f\<in>set fs. P f"
  by (induction fs) (auto split: if_splits)

lemma mstep_in_turn:
  "mstep cfg s s' \<Longrightarrow> good_state cfg s \<Longrightarrow> no_own_orders cfg s \<Longrightarrow> in_turn ids s \<Longrightarrow> in_turn ids s'"
proof (induction rule: mstep.induct)
  case (trade s p m q L t k q')
  have m: "good_maker (mc_QtyPrecision cfg) m" using trade by (simp add: good_state_def)
  note k = trade_qty [OF m trade.hyps(4,7)]
  have hid: "ival (n_HiddenQty m) \<le> 0" using trade.prems(3) trade.hyps(1) by (simp add: in_turn_def plain_def)
  then have nr: "\<not> replenishes (taken k m)" by (simp add: replenishes_def)
  note turn = in_turnD [OF trade.prems(3)]
  have all: "\<forall>f\<in>set (ms_fills s). complete f"
  proof (cases "ms_fills s = []")
    case False
    have "complete (last (ms_fills s))"
    proof (rule ccontr)
      assume "\<not> complete (last (ms_fills s))"
      then have "remaining (ms_taker s) = 0" using turn(4) False by blast
      then show False using trade.hyps(3,4) by simp
    qed
    then show ?thesis by (rule last_butlast_all [OF False turn(2)])
  qed simp
  let ?f = "fill_after (mc_QtyPrecision cfg) (taken k m) (hit k t) p k q'"
  have c: "complete ?f = exhausted (taken k m)" by (simp add: complete_def exhausted_def)
  have pl: "plain ((p, q') # L)"
    using turn(1) trade.hyps(1,8) nr by (auto simp: plain_def queue_after_def)
  have ids: "map f_MakerOrderID (ms_fills s) @ n_OrderID m # map n_OrderID q @ queue_ids L = ids"
    using turn(3) trade.hyps(1) all by (simp add: filter_id_conv)
  have bl: "filter complete (ms_fills s) = ms_fills s" using all by (simp add: filter_id_conv)
  show ?case
  proof (cases "exhausted (taken k m)")
    case True
    then have "q' = q" using nr trade.hyps(8) by (simp add: queue_after_def)
    then show ?thesis
      using all pl c True ids bl by (simp add: in_turn_def)
  next
    case False
    then have "q' = taken k m # q" using nr trade.hyps(8) by (simp add: queue_after_def)
    moreover have "remaining (hit k t) = 0"
      using False k(1-5) trade.hyps(7) by (auto simp: exhausted_iff dmin_def split: if_splits)
    ultimately show ?thesis
      using all pl c False ids bl by (simp add: in_turn_def)
  qed
next
  case (next_level s p L)
  then show ?case by (auto simp: in_turn_def plain_def)
qed (auto simp: no_own_orders_def)

lemma msteps_in_turn:
  "msteps cfg s s' \<Longrightarrow> good_state cfg s \<Longrightarrow> no_own_orders cfg s \<Longrightarrow> in_turn ids s \<Longrightarrow> in_turn ids s'"
proof (induction rule: rtranclp_induct)
  case (step s1 s2)
  have "good_state cfg s1" using msteps_good [OF step.hyps(1) step.prems(1)] .
  moreover have "no_own_orders cfg s1" using msteps_conserves [OF step.hyps(1) step.prems(1,2)] by blast
  ultimately show ?case using mstep_in_turn [OF step.hyps(2)] step.IH [OF step.prems] by blast
qed

lemma in_turn_prefix:
  assumes "in_turn ids s"
  shows "map f_MakerOrderID (ms_fills s) = take (length (ms_fills s)) ids"
    "\<forall>f\<in>set (butlast (ms_fills s)). complete f"
proof -
  show all: "\<forall>f\<in>set (butlast (ms_fills s)). complete f" using in_turnD(2) [OF assms] .
  show "map f_MakerOrderID (ms_fills s) = take (length (ms_fills s)) ids"
  proof (cases "ms_fills s" rule: rev_cases)
    case (snoc fs f)
    then have fs: "filter complete fs = fs" using all by (simp add: filter_id_conv)
    show ?thesis
    proof (cases "complete f")
      case True
      then have "ids = map f_MakerOrderID (fs @ [f]) @ queue_ids (ms_levels s)"
        using in_turnD(3) [OF assms] snoc fs by simp
      then show ?thesis using snoc by simp
    next
      case False
      then obtain rest where "queue_ids (ms_levels s) = f_MakerOrderID f # rest"
        using assms snoc by (auto simp: in_turn_def)
      then have "ids = map f_MakerOrderID (fs @ [f]) @ rest"
        using in_turnD(3) [OF assms] snoc fs False by simp
      then show ?thesis using snoc by simp
    qed
  qed simp
qed

subsection \<open>Enough on the other side\<close>

text \<open>What is offered at prices the taker accepts.\<close>

definition offered :: "OrderNode \<Rightarrow> (Decimal \<times> queue) list \<Rightarrow> int" where
  "offered t L = (\<Sum>(p, q)\<leftarrow>takeWhile (\<lambda>(p, q). price_ok t p) L. \<Sum>n\<leftarrow>q. remaining n)"

lemma offered_strip: "strip t' = strip t \<Longrightarrow> offered t' L = offered t L"
  using strip_eqD(12) [of t' t] by (simp add: offered_def)

lemma offered_Cons:
  "offered t ((p, q) # L) = (if price_ok t p then (\<Sum>n\<leftarrow>q. remaining n) + offered t L else 0)"
  by (simp add: offered_def)

lemma queue_sum_nonneg: "\<forall>n\<in>set q. good_maker qp n \<Longrightarrow> 0 \<le> (\<Sum>n\<leftarrow>q. remaining n)"
  by (induction q) (auto simp: good_maker_def)

lemma offered_nonneg:
  "\<forall>(p, q)\<in>set L. \<forall>n\<in>set q. good_maker qp n \<Longrightarrow> 0 \<le> offered t L"
proof (induction L)
  case (Cons e L)
  obtain p q where e: "e = (p, q)" by (cases e)
  have "0 \<le> (\<Sum>n\<leftarrow>q. remaining n)" using Cons.prems e by (intro queue_sum_nonneg [of q qp]) auto
  then show ?case using Cons e by (auto simp: offered_Cons)
qed (simp add: offered_def)

lemma mstep_offered:
  "mstep cfg s s' \<Longrightarrow> good_state cfg s \<Longrightarrow> no_own_orders cfg s \<Longrightarrow>
     offered (ms_taker s) (ms_levels s) - remaining (ms_taker s) \<le>
     offered (ms_taker s') (ms_levels s') - remaining (ms_taker s')"
proof (induction rule: mstep.induct)
  case (trade s p m q L t k q')
  have m: "good_maker (mc_QtyPrecision cfg) m" using trade by (simp add: good_state_def)
  note k = trade_qty [OF m trade.hyps(4,7)]
  have "(\<Sum>n\<leftarrow>q. remaining n) + remaining (taken k m) \<le> (\<Sum>n\<leftarrow>q'. remaining n)"
  proof (cases "replenishes (taken k m)")
    case True
    then have "remaining (taken k m) = 0" "0 < ival (n_HiddenQty m)" by (simp_all add: replenishes_def exhausted_iff)
    moreover have "0 < ival (n_OrigDisplayQty m)"
      using m calculation(2) by (simp add: good_maker_def sound_order_def)
    ultimately have "0 < ival (dmin (n_HiddenQty m) (n_OrigDisplayQty m))" by (simp add: dmin_pos)
    then show ?thesis using True \<open>remaining (taken k m) = 0\<close> by (simp add: trade.hyps(8) queue_after_def)
  next
    case False
    then show ?thesis by (simp add: trade.hyps(8) queue_after_def exhausted_iff)
  qed
  moreover have "offered (hit k t) L' = offered t L'" "price_ok (hit k t) p" for L'
    using trade.hyps(5) strip_eqD(12) [of "hit k t" t] by (auto intro: offered_strip)
  ultimately show ?case using trade.hyps(1,3,5) k(4,5) by (simp add: offered_Cons)
next
  case (next_level s p L)
  have "0 \<le> offered (ms_taker s) L"
    using next_level by (intro offered_nonneg [of L "mc_QtyPrecision cfg"]) (auto simp: good_state_def)
  then show ?case using next_level by (simp add: offered_Cons)
qed (auto simp: no_own_orders_def)

lemma msteps_offered:
  "msteps cfg s s' \<Longrightarrow> good_state cfg s \<Longrightarrow> no_own_orders cfg s \<Longrightarrow>
     offered (ms_taker s) (ms_levels s) - remaining (ms_taker s) \<le>
     offered (ms_taker s') (ms_levels s') - remaining (ms_taker s')"
proof (induction rule: rtranclp_induct)
  case (step s1 s2)
  have "good_state cfg s1" using msteps_good [OF step.hyps(1) step.prems(1)] .
  moreover have "no_own_orders cfg s1" using msteps_conserves [OF step.hyps(1) step.prems] by blast
  ultimately show ?case using mstep_offered [OF step.hyps(2)] step.IH [OF step.prems] by linarith
qed simp

text \<open>A run that ends with something left has taken all that was offered.\<close>

lemma final_filled:
  assumes "msteps cfg s s'" and "good_state cfg s" and "no_own_orders cfg s" and "\<not> ms_killed s"
    and "final_state s'" and "remaining (ms_taker s) \<le> offered (ms_taker s) (ms_levels s)"
  shows "remaining (ms_taker s') = 0"
proof (rule ccontr)
  assume nz: "remaining (ms_taker s') \<noteq> 0"
  have "\<not> ms_killed s'" using msteps_conserves [OF assms(1-3)] assms(4) by simp
  moreover have pos: "0 < remaining (ms_taker s')"
    using nz msteps_good [OF assms(1,2)] by (simp add: good_state_def)
  ultimately have "offered (ms_taker s') (ms_levels s') = 0"
    using assms(5) by (cases "ms_levels s'") (auto simp: final_state_def offered_def)
  then show False using msteps_offered [OF assms(1-3)] assms(6) pos by linarith
qed

end
