(* ===== verification/Match_Fok.thy ===== *)
theory Match_Fok
  imports Match_Result Match_Laws
begin

section \<open>The fill-or-kill dry run, and the outcomes of a placement\<close>

text \<open>
  \<open>canFillFull\<close> adds up level totals that wrap around at 64 bits.  It always returns, and as
  long as the quantity that rests on the other side fits in 63 bits it decides exactly
  whether the quantity offered at acceptable prices covers the order.
\<close>

definition side_sum :: "(Decimal \<times> queue) list \<Rightarrow> int" where
  "side_sum L = (\<Sum>(p, q)\<leftarrow>L. \<Sum>n\<leftarrow>q. remaining n)"

lemma side_sum_Cons: "side_sum ((p, q) # L) = (\<Sum>n\<leftarrow>q. remaining n) + side_sum L"
  by (simp add: side_sum_def)

lemma ival_qsum:
  assumes "\<forall>n\<in>set q. 0 \<le> remaining n" and "(\<Sum>n\<leftarrow>q. remaining n) < 2 ^ 63"
  shows "ival (qsum qp n_RemainQty q) = (\<Sum>n\<leftarrow>q. remaining n)"
  using assms
proof (induction q)
  case (Cons n q)
  have nn: "0 \<le> (\<Sum>n\<leftarrow>q. remaining n)" using Cons.prems by (intro sum_list_nonneg) auto
  then have "(\<Sum>n\<leftarrow>q. remaining n) < 2 ^ 63" using Cons.prems by auto
  then have ih: "sint (\<Sum>n\<leftarrow>q. d_value (n_RemainQty n)) = (\<Sum>n\<leftarrow>q. remaining n)" using Cons by simp
  have "in_i64 (remaining n + sint (\<Sum>n\<leftarrow>q. d_value (n_RemainQty n)))"
    using nn ih Cons.prems by (simp add: in_i64_def)
  then show ?case using ih by (simp add: sint_add)
qed simp

lemma dry_run:
  assumes levels: "\<forall>(p, l, q)\<in>set g. crosses t (b_level b l) = Some (price_ok t p) \<and>
      l_TotalQty (b_level b l) = qsum qp n_RemainQty (map (core \<circ> b_node b) q) \<and>
      (\<forall>i\<in>set q. 0 \<le> remaining (b_node b i))"
    and t: "d_precision (n_RemainQty t) = qp"
  shows "d_precision acc = qp \<Longrightarrow> \<exists>a. Iterate (\<lambda>(p, l) available. do {
         c \<leftarrow> crosses t (b_level b l);
         if \<not> c then Some (available, False)
         else do {
           available \<leftarrow> Add available (l_TotalQty (b_level b l));
           go_on \<leftarrow> LessThan available (n_RemainQty t);
           Some (available, go_on) } }) (entries g) acc = Some a \<and> d_precision a = qp \<and>
     (0 \<le> ival acc \<longrightarrow> ival acc + side_sum (view_of b g) < 2 ^ 63 \<longrightarrow>
        (remaining t \<le> ival a \<longleftrightarrow> remaining t \<le> ival acc + offered t (view_of b g)))"
  using levels
proof (induction g arbitrary: acc)
  case Nil
  then show ?case by (simp add: offered_def)
next
  case (Cons e g)
  obtain p l q where e: "e = (p, l, q)" by (cases e) auto
  let ?q = "map (core \<circ> b_node b) q"
  have "(p, l, q) \<in> set (e # g)" by (simp add: e)
  from bspec [OF Cons.prems(2) this] have lev: "crosses t (b_level b l) = Some (price_ok t p)"
    "l_TotalQty (b_level b l) = qsum qp n_RemainQty ?q" and "\<forall>i\<in>set q. 0 \<le> remaining (b_node b i)"
    unfolding prod.case by blast+
  then have nn: "\<forall>n\<in>set ?q. 0 \<le> remaining n" by simp
  from Cons.prems(2) have rest: "\<forall>(p, l, q)\<in>set g. crosses t (b_level b l) = Some (price_ok t p) \<and>
      l_TotalQty (b_level b l) = qsum qp n_RemainQty (map (core \<circ> b_node b) q) \<and>
      (\<forall>i\<in>set q. 0 \<le> remaining (b_node b i))" by (meson list.set_intros(2))
  have qn: "0 \<le> (\<Sum>n\<leftarrow>?q. remaining n)" using nn by (intro sum_list_nonneg) auto
  have view: "0 \<le> offered t (view_of b g)" "0 \<le> side_sum (view_of b g)"
  proof -
    have "\<forall>(p, r)\<in>set (view_of b g). 0 \<le> (\<Sum>n\<leftarrow>r. remaining n)"
      using rest by (fastforce simp: view_of_def intro!: sum_list_nonneg)
    then show "0 \<le> offered t (view_of b g)" "0 \<le> side_sum (view_of b g)"
      unfolding offered_def side_sum_def
      by (intro sum_list_nonneg; fastforce dest: set_takeWhileD)+
  qed
  show ?case
  proof (cases "price_ok t p")
    case False
    then show ?thesis using lev Cons.prems(1) by (simp add: e offered_Cons)
  next
    case True
    let ?acc = "dadd acc (qsum qp n_RemainQty ?q)"
    have acc: "d_precision ?acc = qp" using Cons.prems(1) by simp
    have val: "ival ?acc = ival acc + (\<Sum>n\<leftarrow>?q. remaining n)"
      if "0 \<le> ival acc" "ival acc + side_sum (view_of b (e # g)) < 2 ^ 63"
    proof -
      have b: "ival acc + (\<Sum>n\<leftarrow>?q. remaining n) < 2 ^ 63"
        using that view(2) by (simp add: e side_sum_Cons)
      then have "ival (qsum qp n_RemainQty ?q) = (\<Sum>n\<leftarrow>?q. remaining n)"
        using that(1) by (intro ival_qsum nn) simp
      then show ?thesis using b that(1) qn by (simp add: sint_add in_i64_def)
    qed
    obtain a where a: "Iterate (\<lambda>(p, l) available. do {
         c \<leftarrow> crosses t (b_level b l);
         if \<not> c then Some (available, False)
         else do {
           available \<leftarrow> Add available (l_TotalQty (b_level b l));
           go_on \<leftarrow> LessThan available (n_RemainQty t);
           Some (available, go_on) } }) (entries g) ?acc = Some a" "d_precision a = qp"
      "0 \<le> ival ?acc \<longrightarrow> ival ?acc + side_sum (view_of b g) < 2 ^ 63 \<longrightarrow>
        (remaining t \<le> ival a \<longleftrightarrow> remaining t \<le> ival ?acc + offered t (view_of b g))"
      using Cons.IH [OF acc rest] by blast
    have add: "Add acc (l_TotalQty (b_level b l)) = Some ?acc" using lev Cons.prems(1) by (simp add: Add_same)
    have lt: "LessThan ?acc (n_RemainQty t) = Some (ival ?acc < remaining t)"
      using acc t by (simp add: compare_same)
    show ?thesis
    proof (cases "ival ?acc < remaining t")
      case True
      then show ?thesis using a lev \<open>price_ok t p\<close> add lt val qn
        by (intro exI [of _ a]) (simp add: e offered_Cons side_sum_Cons add.assoc)
    next
      case False
      then show ?thesis using lev \<open>price_ok t p\<close> add lt val acc view(1)
        by (intro exI [of _ ?acc]) (auto simp: e offered_Cons side_sum_Cons)
    qed
  qed
qed

lemma canFillFull_ok:
  assumes B: "price_index B" and ok: "book_ok B b X" and p: "placeable b X inc"
  shows "\<exists>c. canFillFull B inc b = Some c \<and>
     (side_sum (side_view B (n_Side (b_node b inc) \<noteq> Bid) b) < 2 ^ 63 \<longrightarrow>
        c = (remaining (b_node b inc) \<le>
             offered (b_node b inc) (side_view B (n_Side (b_node b inc) \<noteq> Bid) b)))"
proof -
  obtain G where rep: "book_rep B b G X" and tidy: "tidy b G" using ok by (auto simp: book_ok_def)
  let ?t = "b_node b inc"
  define x where "x = (n_Side ?t \<noteq> Bid)"
  have t: "d_precision (n_RemainQty ?t) = qty_prec b" "priced (price_prec b) ?t"
    using p by (simp_all add: placeable_def Let_def sound_order_def node_prec_def)
  have levels: "crosses ?t (b_level b l) = Some (price_ok ?t p) \<and>
      l_TotalQty (b_level b l) = qsum (qty_prec b) n_RemainQty (map (core \<circ> b_node b) q) \<and>
      (\<forall>i\<in>set q. 0 \<le> remaining (b_node b i))"
    if m: "(p, l, q) \<in> set (G x)" for p l q
  proof -
    have lr: "level_rep (qty_prec b) (b_heap b) p l q" using levels_repD(1) [OF book_repD(2) [OF rep] m] .
    have "d_precision p = price_prec b" using price_prec_of [OF B rep m] .
    then have "crosses ?t (b_level b l) = Some (price_ok ?t p)"
      using t(2) level_repD(4) [OF lr]
      by (auto simp: crosses_def price_ok_def priced_def compare_same)
    moreover have "l_TotalQty (b_level b l) = qsum (qty_prec b) n_RemainQty (map (core \<circ> b_node b) q)"
      using level_repD(9) [OF lr] qsum_core [of n_RemainQty "qty_prec b" "map (b_node b) q"] by simp
    moreover have "\<forall>i\<in>set q. 0 \<le> remaining (b_node b i)" using tidyD(2) [OF tidy m] by fastforce
    ultimately show ?thesis by blast
  qed
  have scan: "bt_scan B (t_tree (side_tree x b)) = entries (G x)"
    using book_repD(1) [OF rep, of x] by (simp add: tree_rep_def)
  have "\<forall>(p, l, q)\<in>set (G x). crosses ?t (b_level b l) = Some (price_ok ?t p) \<and>
      l_TotalQty (b_level b l) = qsum (qty_prec b) n_RemainQty (map (core \<circ> b_node b) q) \<and>
      (\<forall>i\<in>set q. 0 \<le> remaining (b_node b i))" using levels by blast
  from dry_run [OF this t(1), of "Zero (qty_prec b)"] obtain a where a: "Iterate (\<lambda>(p, l) available. do {
         c \<leftarrow> crosses ?t (b_level b l);
         if \<not> c then Some (available, False)
         else do {
           available \<leftarrow> Add available (l_TotalQty (b_level b l));
           go_on \<leftarrow> LessThan available (n_RemainQty ?t);
           Some (available, go_on) } }) (entries (G x)) (Zero (qty_prec b)) = Some a"
    "d_precision a = qty_prec b"
    "side_sum (view_of b (G x)) < 2 ^ 63 \<longrightarrow>
       (remaining ?t \<le> ival a \<longleftrightarrow> remaining ?t \<le> offered ?t (view_of b (G x)))"
    by auto
  have "canFillFull B inc b = Some (remaining ?t \<le> ival a)"
    using a(1,2) t(1) scan by (simp add: canFillFull_def x_def [symmetric] compare_same)
  then show ?thesis using a(3) side_view_ok [OF rep] by (simp add: x_def)
qed

subsection \<open>The outcomes of a placement\<close>

definition rejected :: "'t btree_fns \<Rightarrow> 't OrderBook \<Rightarrow> nat \<Rightarrow> 't OrderBook \<Rightarrow> bool" where
  "rejected B b inc b' \<longleftrightarrow> n_TIF (b_node b inc) = FOK \<and> canFillFull B inc b = Some False \<and>
     b_config b' = b_config b \<and> b_orderSeq b' = b_orderSeq b \<and> b_index b' = b_index b \<and>
     (\<forall>y. side_view B y b' = side_view B y b)"

lemma place_total:
  assumes B: "price_index B" and ok: "book_ok B b X" and p: "placeable b X inc"
  shows "\<exists>fills cancels disp b'. match B inc b = Some (fills, cancels, disp, b') \<and>
     book_ok B b' (X - {inc}) \<and>
     (disp = Rejected \<and> fills = [] \<and> cancels = [] \<and> rejected B b inc b' \<or>
      (\<exists>s rested. fills = ms_fills s \<and> cancels = ms_cancels s \<and> disp = disposition s rested \<and>
         (n_TIF (b_node b inc) = FOK \<longrightarrow> canFillFull B inc b = Some True) \<and>
         matched B b inc s rested b'))"
proof (cases "n_TIF (b_node b inc) = FOK \<and> canFillFull B inc b = Some False")
  case True
  obtain G where rep: "book_rep B b G X" and tidy: "tidy b G" using ok by (auto simp: book_ok_def)
  have inc: "inc \<in> X" "n_PoolIndex (b_node b inc) = inc" using p by (simp_all add: placeable_def Let_def)
  obtain b' where "releaseNode inc b = Some b'" "book_ok B b' (X - {inc})"
    "b_config b' = b_config b" "b_orderSeq b' = b_orderSeq b" "b_index b' = b_index b"
    "\<forall>y. side_view B y b' = side_view B y b"
    using release_ok [OF rep tidy inc(1)] by blast
  then show ?thesis using True inc(2)
    by (intro exI [of _ "[]"] exI [of _ "[]"] exI [of _ Rejected] exI [of _ b'])
      (simp add: match_def rejected_def)
next
  case False
  then have fok: "n_TIF (b_node b inc) = FOK \<Longrightarrow> canFillFull B inc b = Some True"
    using canFillFull_ok [OF assms] by auto
  from match_runs [OF B ok p this] obtain s rested b' where
    "match B inc b = Some (ms_fills s, ms_cancels s, disposition s rested, b')"
    "book_ok B b' (X - {inc})" "matched B b inc s rested b'" by blast
  then show ?thesis using fok by blast
qed

lemma disposition_not_Rejected: "disposition s rested \<noteq> Rejected"
  by (simp add: disposition_def)

lemma place_cases:
  assumes B: "price_index B" and ok: "book_ok B b X" and p: "placeable b X inc"
    and run: "match B inc b = Some (fills, cancels, disp, b')"
  obtains (reject) "disp = Rejected" "fills = []" "cancels = []" "rejected B b inc b'"
  | (ran) s rested where "fills = ms_fills s" "cancels = ms_cancels s" "disp = disposition s rested"
    "n_TIF (b_node b inc) = FOK \<longrightarrow> canFillFull B inc b = Some True" "matched B b inc s rested b'"
proof -
  have "disp = Rejected \<and> fills = [] \<and> cancels = [] \<and> rejected B b inc b' \<or>
      (\<exists>s rested. fills = ms_fills s \<and> cancels = ms_cancels s \<and> disp = disposition s rested \<and>
         (n_TIF (b_node b inc) = FOK \<longrightarrow> canFillFull B inc b = Some True) \<and>
         matched B b inc s rested b')"
    using place_total [OF B ok p] run by auto
  then show thesis
  proof (elim disjE exE conjE)
    assume "disp = Rejected" "fills = []" "cancels = []" "rejected B b inc b'"
    then show thesis by (rule reject)
  next
    fix s rested assume "fills = ms_fills s" "cancels = ms_cancels s" "disp = disposition s rested"
      "n_TIF (b_node b inc) = FOK \<longrightarrow> canFillFull B inc b = Some True" "matched B b inc s rested b'"
    then show thesis by (rule ran)
  qed
qed

lemma matchedD:
  assumes "matched B b inc s rested b'" and "x = (n_Side (b_node b inc) \<noteq> Bid)"
  shows "msteps (b_config b) (start_state (side_view B x b) (core (b_node b inc)) (b_orderSeq b)) s"
    "final_state s" "ms_killed s \<Longrightarrow> remaining (ms_taker s) = 0"
    "side_view B x b' = ms_levels s" "b_orderSeq b' = ms_seq s" "b_config b' = b_config b"
    "side_view B (\<not> x) b' = (if rested then rest_in (\<not> x) (ms_taker s) (side_view B (\<not> x) b)
                              else side_view B (\<not> x) b)"
    "rested \<Longrightarrow> wants_rest s" "strip (ms_taker s) = strip (core (b_node b inc))"
proof -
  show "msteps (b_config b) (start_state (side_view B x b) (core (b_node b inc)) (b_orderSeq b)) s"
    using assms by (simp add: matched_def Let_def)
  from msteps_strip [OF this] show "strip (ms_taker s) = strip (core (b_node b inc))"
    by (simp add: start_state_def)
qed (use assms in \<open>simp_all add: matched_def Let_def\<close>)

lemma start_of:
  assumes "book_ok B b X" and "placeable b X inc" and "price_index B"
    and "st = start_state (side_view B x b) (core (b_node b inc)) c"
  shows "good_state (b_config b) st"
    "sorted_wrt (\<lambda>p p'. tree_less (side_of x) p p' = Some True) (map fst (side_view B x b))"
    "fst ` set (side_view B x b) \<subseteq> prices (price_prec b)"
proof -
  obtain G where rep: "book_rep B b G X" and tidy: "tidy b G" using assms(1) by (auto simp: book_ok_def)
  note view = side_view_ok [OF rep]
  show "good_state (b_config b) st" using start_good [OF rep tidy assms(2)] view assms(4) by simp
  show "sorted_wrt (\<lambda>p p'. tree_less (side_of x) p p' = Some True) (map fst (side_view B x b))"
    "fst ` set (side_view B x b) \<subseteq> prices (price_prec b)"
    using price_index.tree_keys(1,3) [OF assms(3) book_repD(1) [OF rep, of x]]
    by (simp_all add: view view_of_fst entries_fst) (metis (no_types, lifting) entries_fst list.set_map)
qed

end
