(* ===== verification/Book_Setup.thy ===== *)
theory Book_Setup
  imports Match_Fok
begin

section \<open>Starting from the empty book\<close>

text \<open>
  A new book satisfies the invariant, and so does a book whose caller acquires a slot for an
  order; with \<open>place_total\<close> and \<open>Cancel_ok\<close> every book a caller can reach does.  The end of the
  theory is a small concrete book, on which the properties are evaluated.
\<close>

definition empty_heap :: "nat \<Rightarrow> nat \<Rightarrow> heap" where
  "empty_heap n m = \<lparr>h_nodes = New zeroNode n, h_levels = New zeroLevel m\<rparr>"

lemma NewOrderBook_ok:
  assumes B: "price_index B" and h: "pools_rep h X {}"
  shows "book_ok B (NewOrderBook B cfg h c) X" "\<And>y. side_view B y (NewOrderBook B cfg h c) = []"
proof -
  let ?b = "NewOrderBook B cfg h c" and ?G = "\<lambda>x :: bool. [] :: glevel list"
  have "side_tree x ?b = NewPriceLevelTree B (side_of x)" for x
    by (simp add: side_tree_def NewOrderBook_def side_of_def)
  then have "tree_rep B (side_of x) pp (side_tree x ?b) []" for x pp
    using price_index.tree_new [OF B] by simp
  then have rep: "book_rep B ?b ?G X"
    using h by (intro book_repI)
      (simp_all add: levels_rep_def disjoint_ghost_def all_nodes_def all_slots_def index_on_def
        NewOrderBook_def)
  moreover have "tidy ?b ?G" by (simp add: tidy_def)
  ultimately show "book_ok B ?b X" by (auto simp: book_ok_def)
  show "side_view B y ?b = []" for y using side_view_ok [OF rep, of y] by (simp add: view_of_def)
qed

lemma empty_heap_ok: "pools_rep (empty_heap n m) {} {}"
  by (simp add: pools_rep_def empty_heap_def pool_ok_New used_slots_New)

text \<open>Acquiring a slot and filling it in.\<close>

lemma book_rep_acquire:
  assumes rep: "book_rep B b G X" and acq: "Acquire zeroNode (h_nodes (b_heap b)) = Inr (p, i)"
  defines "h \<equiv> (b_heap b)\<lparr>h_nodes := p\<rparr>"
  shows "book_rep B (b\<lparr>b_heap := h\<rparr>) G (insert i X)" "i \<notin> X" "i \<notin> all_nodes G"
    "node h = (b_node b)(i := zeroNode)"
proof -
  note r = book_repD [OF rep]
  have ok: "pool_ok (h_nodes (b_heap b))" and used: "used_slots (h_nodes (b_heap b)) = all_nodes G \<union> X"
    using r(6) by (simp_all add: pools_rep_def)
  note a = Acquire_ok [OF ok acq]
  show fresh: "i \<notin> X" "i \<notin> all_nodes G" using a(2) used by auto
  show n: "node h = (b_node b)(i := zeroNode)"
    using a(4,5) by (auto simp: h_def node_def fun_eq_iff)
  have l: "level h = b_level b" by (simp add: h_def level_def fun_eq_iff)
  have sz: "nodes_n h = nodes_n (b_heap b)" "levels_n h = levels_n (b_heap b)"
    using a(4) by (simp_all add: h_def)
  have same: "node h j = b_node b j" if "j \<in> all_nodes G" for j using that fresh n by auto
  show "book_rep B (b\<lparr>b_heap := h\<rparr>) G (insert i X)"
  proof (rule book_repI)
    show "levels_rep (b\<lparr>b_heap := h\<rparr>) x (G x)" for x
      unfolding levels_rep_def
    proof (clarify, intro conjI ballI)
      fix pr k q assume lq: "(pr, k, q) \<in> set (G x)"
      then have eq: "\<And>j. j \<in> set q \<Longrightarrow> node h j = b_node b j"
        using same all_nodes_in [of pr k q G x] by blast
      show "level_rep (qty_prec (b\<lparr>b_heap := h\<rparr>)) (b_heap (b\<lparr>b_heap := h\<rparr>)) pr k q"
        "j \<in> set q \<Longrightarrow> resting_order (qty_prec (b\<lparr>b_heap := h\<rparr>)) x pr j (b_node (b\<lparr>b_heap := h\<rparr>) j)" for j
        using level_rep_frame [OF levels_repD(1) [OF r(2) lq], of h] levels_repD(2) [OF r(2) lq] eq
        by (simp_all add: l sz)
    qed
    show "index_rep (b_index (b\<lparr>b_heap := h\<rparr>)) (b_node (b\<lparr>b_heap := h\<rparr>)) (all_nodes G)"
      using r(5) same by (auto simp: index_on_def)
    show "pools_rep (b_heap (b\<lparr>b_heap := h\<rparr>)) (all_nodes G \<union> insert i X) (all_slots G)"
      using r(6) a(1,3) by (simp add: pools_rep_def h_def)
  qed (use r fresh in auto)
qed

lemma acquire_ok:
  assumes ok: "book_ok B b X" and acq: "Acquire zeroNode (h_nodes (b_heap b)) = Inr (p, i)"
    and b': "b' = set_b_node i f (b\<lparr>b_heap := (b_heap b)\<lparr>h_nodes := p\<rparr>\<rparr>)"
  shows "book_ok B b' (insert i X) \<and> i \<notin> X \<and> b_node b' i = f zeroNode \<and> b_index b' = b_index b \<and>
     b_config b' = b_config b \<and> b_orderSeq b' = b_orderSeq b \<and>
     (\<forall>y. side_view B y b' = side_view B y b)"
proof -
  obtain G where rep: "book_rep B b G X" and tidy: "tidy b G" using ok by (auto simp: book_ok_def)
  let ?b = "b\<lparr>b_heap := (b_heap b)\<lparr>h_nodes := p\<rparr>\<rparr>"
  note a = book_rep_acquire [OF rep acq]
  have rep': "book_rep B b' G (insert i X)"
    unfolding b' set_b_node_def using a(1) by (intro book_rep_set_node) auto
  have il: "i < nodes_n (b_heap ?b)" using pools_repD(1) [OF book_repD(6) [OF a(1)]] by simp
  have n: "b_node b' = (b_node b)(i := f zeroNode)"
    unfolding b' set_b_node_simps(1) [OF il] by (simp add: a(4))
  have same: "b_node b' j = b_node b j" if "j \<in> all_nodes G" for j using that a(3) n by auto
  have "tidy b' G"
    using tidyD [OF tidy] same all_nodes_in [of _ _ _ G]
    by (intro tidyI [of G True]) (metis (full_types))+
  moreover have "view_of b' (G y) = view_of b (G y)" for y
    by (rule view_of_cong) (use same in \<open>auto simp: all_nodes_side [of _ y]\<close>)
  then have "side_view B y b' = side_view B y b" for y
    using side_view_ok [OF rep] side_view_ok [OF rep'] by simp
  ultimately show ?thesis using rep' a(2) n b' by (auto simp: book_ok_def)
qed

end
