(* ===== verification/Book_Ops.thy ===== *)
theory Book_Ops
  imports Book_Setup
begin

section \<open>Cancelling, expiring and querying\<close>

text \<open>
  The operations of the order book besides matching, described on the two visible sides:
  removing an order takes exactly that order out of the side it rests on, and the queries
  read the best levels.
\<close>

subsection \<open>Removing an order\<close>

text \<open>A side without the orders that satisfy \<open>P\<close>; levels that become empty disappear.\<close>

definition without :: "('a \<Rightarrow> bool) \<Rightarrow> (Decimal \<times> 'a list) list \<Rightarrow> (Decimal \<times> 'a list) list" where
  "without P L = filter (\<lambda>(p, q). q \<noteq> []) (map (\<lambda>(p, q). (p, filter (\<lambda>n. \<not> P n) q)) L)"

lemma without_append [simp]: "without P (L @ L') = without P L @ without P L'"
  by (simp add: without_def)

lemma without_simps [simp]:
  "without P [] = []"
  "without P ((p, q) # L) =
     (let r = filter (\<lambda>n. \<not> P n) q in if r = [] then without P L else (p, r) # without P L)"
  by (simp_all add: without_def Let_def)

lemma without_none:
  "(\<And>p q. (p, q) \<in> set L \<Longrightarrow> q \<noteq> [] \<and> (\<forall>n\<in>set q. \<not> P n)) \<Longrightarrow> without P L = L"
proof (induction L)
  case (Cons e L)
  obtain p q where e: "e = (p, q)" by (cases e)
  have "q \<noteq> []" "filter (\<lambda>n. \<not> P n) q = q" using Cons.prems [of p q] e by (auto simp: filter_id_conv)
  moreover have "without P L = L" using Cons.prems by (intro Cons.IH) auto
  ultimately show ?case using e by (simp add: Let_def)
qed simp

lemma without_without: "without P (without Q L) = without (\<lambda>n. Q n \<or> P n) L"
proof (induction L)
  case (Cons e L)
  have "filter (\<lambda>n. \<not> P n) (filter (\<lambda>n. \<not> Q n) q) = filter (\<lambda>n. \<not> (Q n \<or> P n)) q" for q by simp
  moreover have "filter (\<lambda>n. \<not> (Q n \<or> P n)) q = []" if "filter (\<lambda>n. \<not> Q n) q = []" for q
    using that by (auto simp: filter_empty_conv)
  ultimately show ?case using Cons by (cases e) (auto simp: Let_def simp del: filter_filter)
qed simp

lemma without_cong: "(\<And>p q n. (p, q) \<in> set L \<Longrightarrow> n \<in> set q \<Longrightarrow> P n = Q n) \<Longrightarrow> without P L = without Q L"
proof (induction L)
  case (Cons e L)
  obtain p q where e: "e = (p, q)" by (cases e)
  have "filter (\<lambda>n. \<not> P n) q = filter (\<lambda>n. \<not> Q n) q"
    using Cons.prems [of p q] e by (intro filter_cong) auto
  moreover have "without P L = without Q L" using Cons.prems by (intro Cons.IH) auto
  ultimately show ?case using e by (simp add: Let_def)
qed simp

lemma find_node:
  assumes "i \<in> all_nodes G"
  obtains x A p l q1 q2 C where "G x = A @ (p, l, q1 @ i # q2) # C"
proof -
  obtain x where "i \<in> set (level_nodes (G x))" using assms by (auto simp: all_nodes_def)
  then obtain p l q where plq: "(p, l, q) \<in> set (G x)" "i \<in> set q" by (auto simp: level_nodes_def)
  then obtain A C where AC: "G x = A @ (p, l, q) # C" by (meson split_list)
  obtain q1 q2 where "q = q1 @ i # q2" using plq(2) by (meson split_list)
  then show thesis using AC by (intro that [of x A p l q1 q2 C]) simp
qed

lemma without_view:
  assumes idx: "index_rep m (b_node b) (all_nodes G)" and full: "\<And>p l q. (p, l, q) \<in> set g \<Longrightarrow> q \<noteq> []"
    and sub: "set (level_nodes g) \<subseteq> all_nodes G" and i: "i \<in> all_nodes G" "i \<notin> set (level_nodes g)"
  shows "without (\<lambda>n. n_OrderID n = n_OrderID (b_node b i)) (view_of b g) = view_of b g"
proof (rule without_none)
  fix p q assume "(p, q) \<in> set (view_of b g)"
  then obtain l r where r: "(p, l, r) \<in> set g" "q = map (core \<circ> b_node b) r" by (auto simp: view_of_def)
  have "n_OrderID (b_node b j) \<noteq> n_OrderID (b_node b i)" if "j \<in> set r" for j
  proof -
    have "j \<in> set (level_nodes g)" using that r(1) by (auto simp: level_nodes_def)
    then show ?thesis using index_rep_inj [OF idx, of j i] sub i by auto
  qed
  then show "q \<noteq> [] \<and> (\<forall>n\<in>set q. n_OrderID n \<noteq> n_OrderID (b_node b i))"
    using r full by auto
qed

text \<open>Taking one order out of its level, and the level out if nothing is left in it, is \<open>without\<close>.\<close>

lemma without_removed:
  assumes rep: "book_rep B b G X" and tidy: "tidy b G" and G: "G x = A @ (p, l, q1 @ i # q2) # C"
  defines "oid \<equiv> n_OrderID (b_node b i)"
  defines "G2 \<equiv> (if q1 @ q2 = [] then G(x := A @ C) else G(x := A @ (p, l, q1 @ q2) # C))"
  shows "view_of b (G2 y) = without (\<lambda>n. n_OrderID n = oid) (view_of b (G y))"
proof -
  note r = book_repD [OF rep]
  have i: "i \<in> all_nodes G" by (simp add: all_nodes_side [of _ x] G)
  have dist: "distinct (level_nodes (G x) @ level_nodes (G (\<not> x)))"
    using r(3) by (simp add: disjoint_ghost_side [of _ x])
  have sub: "set (level_nodes (G y)) \<subseteq> all_nodes G" for y by (auto simp: all_nodes_side [of G y])
  have nv: "without (\<lambda>n. n_OrderID n = oid) (view_of b g) = view_of b g"
    if "set g \<subseteq> set (G z)" "i \<notin> set (level_nodes g)" for g z
    unfolding oid_def
  proof (rule without_view [OF r(5) _ _ i that(2)])
    have "set (level_nodes g) \<subseteq> set (level_nodes (G z))" using that(1) by (auto simp: level_nodes_def)
    then show "set (level_nodes g) \<subseteq> all_nodes G" using sub [of z] by blast
  qed (use that(1) tidyD(1) [OF tidy] in blast)
  have "n_OrderID (b_node b j) \<noteq> oid" if "j \<in> set (q1 @ q2)" for j
    using index_rep_inj [OF r(5), of j i] that dist sub [of x] i by (auto simp: G oid_def)
  then have q: "filter (\<lambda>n. n_OrderID n \<noteq> oid) (map (core \<circ> b_node b) (q1 @ i # q2)) = map (core \<circ> b_node b) (q1 @ q2)"
    by (auto simp: oid_def filter_id_conv filter_map comp_def)
  show ?thesis
  proof (cases "y = x")
    case True
    have "without (\<lambda>n. n_OrderID n = oid) (view_of b A) = view_of b A"
      "without (\<lambda>n. n_OrderID n = oid) (view_of b C) = view_of b C"
      using dist by (auto intro!: nv [of _ x] simp: G)
    then show ?thesis using q by (simp add: True G G2_def without_def)
  next
    case False
    then have "y = (\<not> x)" by auto
    then have "i \<notin> set (level_nodes (G y))" using dist by (auto simp: G)
    then show ?thesis using nv [of "G y" y] False by (simp add: G2_def)
  qed
qed

lemma remove_ok:
  assumes B: "price_index B" and rep: "book_rep B b G X" and tidy: "tidy b G" and i: "i \<in> all_nodes G"
  defines "oid \<equiv> n_OrderID (b_node b i)"
  shows "\<exists>l h' b' G'. n_level (b_node b i) = Some l \<and> Unlink l i (b_heap b) = Some h' \<and>
     cleanupLevelIfEmpty B l (n_Side (node h' i)) (b\<lparr>b_heap := h', b_index := (b_index b)(oid := None)\<rparr>) = Some b' \<and>
     book_rep B b' G' (insert i X) \<and> tidy b' G' \<and> (\<forall>j. core (b_node b' j) = core (b_node b j)) \<and>
     b_index b' = (b_index b)(oid := None) \<and> b_config b' = b_config b \<and> b_orderSeq b' = b_orderSeq b \<and>
     (\<forall>y. side_view B y b' = without (\<lambda>n. n_OrderID n = oid) (side_view B y b))"
proof -
  obtain x A p l q1 q2 C where G: "G x = A @ (p, l, q1 @ i # q2) # C" using find_node [OF i] .
  note r = book_repD [OF rep] and f = book_rep_level_facts [OF rep G]
  let ?G1 = "G(x := A @ (p, l, q1 @ q2) # C)"
  obtain h' where h': "Unlink l i (b_heap b) = Some h'" "\<forall>j. core (node h' j) = core (b_node b j)"
    "book_rep B (b\<lparr>b_heap := h', b_index := (b_index b)(oid := None)\<rparr>) ?G1 (insert i X)"
    using book_rep_unlink [OF rep G] by (auto simp: oid_def)
  let ?b1 = "b\<lparr>b_heap := h', b_index := (b_index b)(oid := None)\<rparr>"
  have lvl: "n_level (b_node b i) = Some l" using level_repD(12) [OF f(1)] by simp
  have side: "(n_Side (node h' i) = Bid) = x"
    using f(2) [of i] core_eqD(3) [of "node h' i" "b_node b i"] h'(2) by (simp add: resting_order_def)
  have "level_rep (qty_prec ?b1) (b_heap ?b1) p l (q1 @ q2)"
    using book_rep_level_facts(1) [OF h'(3), of x A p l "q1 @ q2" C] by simp
  then have empty: "IsEmpty_level (b_level ?b1 l) = (q1 @ q2 = [])" by (simp add: IsEmpty_level_def level_repD)
  have full: "q \<noteq> []" if "(p, l, q) \<in> set (G y)" for p l q y using tidyD(1) [OF tidy that] .
  define G2 where "G2 = (if q1 @ q2 = [] then G(x := A @ C) else ?G1)"
  have ge: "set (G2 y) \<subseteq> set (G y) \<union> {(p, l, q1 @ q2)}" "q1 @ q2 = [] \<Longrightarrow> set (G2 y) \<subseteq> set (G y)" for y
    by (auto simp: G2_def G)
  obtain b' where b': "cleanupLevelIfEmpty B l (n_Side (node h' i)) ?b1 = Some b'" "b_node b' = node h'"
    "b_index b' = (b_index b)(oid := None)" "b_config b' = b_config b" "b_orderSeq b' = b_orderSeq b"
    "book_rep B b' G2 (insert i X)"
  proof (cases "q1 @ q2 = []")
    case True
    then have "?G1 x = A @ (p, l, []) # C" by simp
    from book_rep_drop [OF B h'(3) this] obtain b' where "dropLevelIfEmpty B x l ?b1 = Some b'"
      "b_node b' = b_node ?b1" "b_index b' = b_index ?b1" "b_config b' = b_config ?b1"
      "b_orderSeq b' = b_orderSeq ?b1" "book_rep B b' (?G1(x := A @ C)) (insert i X)" by blast
    then show thesis using True side by (intro that [of b']) (simp_all add: cleanupLevelIfEmpty_def G2_def)
  next
    case False
    have "dropLevelIfEmpty B x l ?b1 = Some ?b1" using empty False by (simp add: dropLevelIfEmpty_def)
    then show thesis using False side h'(3) by (intro that [of ?b1]) (auto simp: cleanupLevelIfEmpty_def G2_def)
  qed
  have cores: "core (b_node b' j) = core (b_node b j)" for j using h'(2) b'(2) by simp
  have rem: "remaining (b_node b' j) = remaining (b_node b j)" for j using core_eqD(8) [OF cores] by simp
  have mem: "(p', l', q') \<in> set (G y) \<or> (p', l', q') = (p, l, q1 @ q2) \<and> q1 @ q2 \<noteq> []"
    if "(p', l', q') \<in> set (G2 y)" for p' l' q' y
    using ge [of y] that full by (cases "q1 @ q2 = []") auto
  have pl: "(p, l, q1 @ i # q2) \<in> set (G x)" by (simp add: G)
  have "tidy b' G2"
  proof (rule tidyI [of _ x])
    fix p' l' q' assume e: "(p', l', q') \<in> set (G2 x) \<or> (p', l', q') \<in> set (G2 (\<not> x))"
    then show "q' \<noteq> []" using mem full by (metis old.prod.inject)
    fix j assume "j \<in> set q'"
    then have "0 < remaining (b_node b j)"
      using e mem tidyD(2) [OF tidy] tidyD(2) [OF tidy pl, of j] by (auto dest!: mem)
    then show "0 < remaining (b_node b' j)" by (simp add: rem)
  qed
  moreover have "side_view B y b' = without (\<lambda>n. n_OrderID n = oid) (side_view B y b)" for y
    using without_removed [OF rep tidy G, of y] side_view_ok [OF rep] side_view_ok [OF b'(6)]
      view_of_cong [of "G2 y" b' b, OF cores]
    by (simp add: G2_def oid_def)
  ultimately show ?thesis using lvl h'(1) b' cores by blast
qed

lemma Cancel_ok:
  assumes B: "price_index B" and ok: "book_ok B b X" and idx: "b_index b oid = Some i"
    and owner: "n_UserID (b_node b i) = uid"
  shows "\<exists>b'. Cancel B oid uid b = Some (Inr (i, b')) \<and> book_ok B b' (insert i X) \<and> i \<notin> X \<and>
     core (b_node b' i) = core (b_node b i) \<and> n_OrderID (b_node b i) = oid \<and>
     b_index b' = (b_index b)(oid := None) \<and> b_config b' = b_config b \<and> b_orderSeq b' = b_orderSeq b \<and>
     (\<forall>y. side_view B y b' = without (\<lambda>n. n_OrderID n = oid) (side_view B y b))"
proof -
  obtain G where rep: "book_rep B b G X" and tidy: "tidy b G" using ok by (auto simp: book_ok_def)
  have i: "i \<in> all_nodes G" "n_OrderID (b_node b i) = oid"
    using book_repD(5) [OF rep] idx by (auto simp: index_on_def)
  have "i \<notin> X" using book_repD(4) [OF rep] i(1) by auto
  with remove_ok [OF B rep tidy i(1)] show ?thesis
    using idx owner i(2) by (auto simp: Cancel_def book_ok_def)
qed

subsection \<open>Expiry\<close>

definition due :: "i64 \<Rightarrow> OrderNode \<Rightarrow> bool" where
  "due now n \<longleftrightarrow> 0 < sint (n_ExpireAt n) \<and> sint (n_ExpireAt n) \<le> sint now"

definition due_id :: "i64 \<Rightarrow> 't OrderBook \<Rightarrow> OrderID \<Rightarrow> bool" where
  "due_id now b oid \<longleftrightarrow> (case b_index b oid of None \<Rightarrow> False | Some i \<Rightarrow> due now (b_node b i))"

lemma due_core: "core n' = core n \<Longrightarrow> due now n' = due now n"
  using core_eqD(14) [of n' n] by (simp add: due_def)

text \<open>The orders a side shows are those of the index.\<close>

lemma view_node:
  assumes rep: "book_rep B b G X" and "(p, q) \<in> set (side_view B y b)" and "n \<in> set q"
  shows "\<exists>j. b_index b (n_OrderID n) = Some j \<and> n = core (b_node b j)"
proof -
  obtain l r j where r: "(p, l, r) \<in> set (G y)" "j \<in> set r" "n = core (b_node b j)"
    using assms side_view_ok [OF rep, of y] by (auto simp: view_of_def)
  then have "j \<in> all_nodes G" using all_nodes_in by blast
  then show ?thesis using r(3) book_repD(5) [OF rep] by (auto simp: index_on_def)
qed

lemma ExpireGTD_ok:
  assumes B: "price_index B"
  shows "book_ok B b X \<Longrightarrow> distinct ids \<Longrightarrow>
   \<exists>b'. ExpireGTD B ids now b = Some (map (the \<circ> b_index b) (filter (due_id now b) ids), b') \<and>
     book_ok B b' (X \<union> set (map (the \<circ> b_index b) (filter (due_id now b) ids))) \<and>
     (\<forall>j. core (b_node b' j) = core (b_node b j)) \<and>
     b_index b' = (\<lambda>oid. if oid \<in> set ids \<and> due_id now b oid then None else b_index b oid) \<and>
     b_config b' = b_config b \<and> b_orderSeq b' = b_orderSeq b \<and>
     (\<forall>y. side_view B y b' = without (\<lambda>n. due now n \<and> n_OrderID n \<in> set ids) (side_view B y b))"
proof (induction ids arbitrary: b X)
  case Nil
  obtain G where rep: "book_rep B b G X" and tidy: "tidy b G" using Nil.prems by (auto simp: book_ok_def)
  have "without (\<lambda>n. False) (side_view B y b) = side_view B y b" for y
    using side_view_ok [OF rep] by (intro without_none) (auto simp: view_of_def dest!: tidyD(1) [OF tidy])
  then show ?case using Nil by simp
next
  case (Cons oid ids)
  obtain G where rep: "book_rep B b G X" and tidy: "tidy b G" using Cons.prems by (auto simp: book_ok_def)
  have oid: "oid \<notin> set ids" "distinct ids" using Cons.prems by simp_all
  show ?case
  proof (cases "due_id now b oid")
    case False
    have "without (\<lambda>n. due now n \<and> n_OrderID n \<in> set (oid # ids)) (side_view B y b) =
        without (\<lambda>n. due now n \<and> n_OrderID n \<in> set ids) (side_view B y b)" for y
    proof (rule without_cong)
      fix p q n assume "(p, q) \<in> set (side_view B y b)" "n \<in> set q"
      from view_node [OF rep this] obtain j where "b_index b (n_OrderID n) = Some j" "n = core (b_node b j)"
        by blast
      then show "(due now n \<and> n_OrderID n \<in> set (oid # ids)) = (due now n \<and> n_OrderID n \<in> set ids)"
        using False due_core [of n "b_node b j"] by (auto simp: due_id_def)
    qed
    moreover have "ExpireGTD B (oid # ids) now b = ExpireGTD B ids now b"
      using False by (auto simp: due_id_def due_def Let_def split: option.splits)
    moreover have "(\<lambda>o'. if o' \<in> set (oid # ids) \<and> due_id now b o' then None else b_index b o') =
        (\<lambda>o'. if o' \<in> set ids \<and> due_id now b o' then None else b_index b o')" using False by auto
    ultimately show ?thesis using Cons.IH [OF Cons.prems(1) oid(2)] False by simp
  next
    case True
    then obtain i where i: "b_index b oid = Some i" "due now (b_node b i)"
      by (auto simp: due_id_def split: option.splits)
    then have ig: "i \<in> all_nodes G" "n_OrderID (b_node b i) = oid"
      using book_repD(5) [OF rep] by (auto simp: index_on_def)
    obtain l h' b1 where b1: "n_level (b_node b i) = Some l" "Unlink l i (b_heap b) = Some h'"
      "cleanupLevelIfEmpty B l (n_Side (node h' i)) (b\<lparr>b_heap := h', b_index := (b_index b)(oid := None)\<rparr>) = Some b1"
      "book_ok B b1 (insert i X)" "\<And>j. core (b_node b1 j) = core (b_node b j)"
      "b_index b1 = (b_index b)(oid := None)" "b_config b1 = b_config b" "b_orderSeq b1 = b_orderSeq b"
      "\<And>y. side_view B y b1 = without (\<lambda>n. n_OrderID n = oid) (side_view B y b)"
      using remove_ok [OF B rep tidy ig(1)] unfolding ig(2) book_ok_def by blast
    have same: "due_id now b1 o' = due_id now b o'" if "o' \<noteq> oid" for o'
      using that due_core [OF b1(5)] by (simp add: due_id_def b1(6) split: option.split)
    have fil: "filter (due_id now b1) ids = filter (due_id now b) ids"
      using oid(1) by (intro filter_cong refl same) auto
    have mp: "map (the \<circ> b_index b1) (filter (due_id now b) ids) = map (the \<circ> b_index b) (filter (due_id now b) ids)"
      using oid(1) b1(6) by auto
    from Cons.IH [OF b1(4) oid(2), unfolded fil mp] obtain b' where b':
      "ExpireGTD B ids now b1 = Some (map (the \<circ> b_index b) (filter (due_id now b) ids), b')"
      "book_ok B b' (insert i X \<union> set (map (the \<circ> b_index b) (filter (due_id now b) ids)))"
      "\<forall>j. core (b_node b' j) = core (b_node b1 j)"
      "b_index b' = (\<lambda>o'. if o' \<in> set ids \<and> due_id now b1 o' then None else b_index b1 o')"
      "b_config b' = b_config b1" "b_orderSeq b' = b_orderSeq b1"
      "\<forall>y. side_view B y b' = without (\<lambda>n. due now n \<and> n_OrderID n \<in> set ids) (side_view B y b1)"
      by (elim exE conjE) (rule that)
    have "ExpireGTD B (oid # ids) now b = Some (map (the \<circ> b_index b) (filter (due_id now b) (oid # ids)), b')"
      using i(2) by (simp add: i(1) ig(2) b1(1-3) b'(1) due_def Let_def True)
    moreover have "b_index b' = (\<lambda>o'. if o' \<in> set (oid # ids) \<and> due_id now b o' then None else b_index b o')"
      by (rule ext) (simp add: b'(4) b1(6) True same cong: conj_cong)
    moreover have "side_view B y b' = without (\<lambda>n. due now n \<and> n_OrderID n \<in> set (oid # ids)) (side_view B y b)" for y
      unfolding spec [OF b'(7)] b1(9) without_without
    proof (rule without_cong)
      fix p q n assume "(p, q) \<in> set (side_view B y b)" "n \<in> set q"
      from view_node [OF rep this] obtain j where "b_index b (n_OrderID n) = Some j" "n = core (b_node b j)"
        by blast
      then show "(n_OrderID n = oid \<or> due now n \<and> n_OrderID n \<in> set ids) = (due now n \<and> n_OrderID n \<in> set (oid # ids))"
        using i(1,2) due_core [of n "b_node b j" now] by (cases "n_OrderID n = oid") simp_all
    qed
    moreover have "insert i X \<union> set (map (the \<circ> b_index b) (filter (due_id now b) ids)) =
        X \<union> set (map (the \<circ> b_index b) (filter (due_id now b) (oid # ids)))" using True i(1) by simp
    then have "book_ok B b' (X \<union> set (map (the \<circ> b_index b) (filter (due_id now b) (oid # ids))))"
      using b'(2) by simp
    moreover have "core (b_node b' j) = core (b_node b j)" for j using b'(3) b1(5) by simp
    ultimately show ?thesis using b'(5,6) b1(7,8) by (intro exI [of _ b'] conjI allI) simp_all
  qed
qed

subsection \<open>Resting an order\<close>

text \<open>The order a caller may rest without matching it: like \<open>placeable\<close>, with something left.\<close>

definition restable :: "'t OrderBook \<Rightarrow> nat set \<Rightarrow> nat \<Rightarrow> bool" where
  "restable b X i \<longleftrightarrow> i \<in> X \<and> (let n = b_node b i in
     sound_order (qty_prec b) n \<and> 0 < remaining n \<and> n_PoolIndex n = i \<and>
     d_precision (n_Price n) = price_prec b \<and> b_index b (n_OrderID n) = None)"

text \<open>It fails only when it needs a new level and the level pool is exhausted.\<close>

lemma PlaceResting_ok:
  assumes B: "price_index B" and ok: "book_ok B b X" and r: "restable b X i"
    and y: "y = (n_Side (b_node b i) = Bid)" and n: "n = core (b_node b i)"
  shows "(PlaceResting B i b = Some (Inl ErrPoolExhausted) \<and> LevelPoolFull b \<and>
       n_Price n \<notin> fst ` set (side_view B y b)) \<or>
    (\<exists>b'. PlaceResting B i b = Some (Inr b') \<and> book_ok B b' (X - {i}) \<and>
       (\<forall>j. core (b_node b' j) = core (b_node b j)) \<and>
       b_index b' = (b_index b)(n_OrderID n \<mapsto> i) \<and>
       b_config b' = b_config b \<and> b_orderSeq b' = b_orderSeq b \<and>
       side_view B (\<not> y) b' = side_view B (\<not> y) b \<and>
       side_view B y b' = rest_in y n (side_view B y b))"
proof -
  obtain G where rep: "book_rep B b G X" and tidy: "tidy b G" using ok by (auto simp: book_ok_def)
  have R: "i \<in> X" "sound_order (qty_prec b) (b_node b i)" "0 < remaining (b_node b i)"
    "n_PoolIndex (b_node b i) = i" "d_precision (n_Price (b_node b i)) = price_prec b"
    "b_index b (n_OrderID (b_node b i)) = None"
    using r by (simp_all add: restable_def Let_def)
  have so: "sound_order (qty_prec b) n" "0 < remaining n" "y = (n_Side n = Bid)" "n_PoolIndex n = i"
    "d_precision (n_Price n) = price_prec b" "b_index b (n_OrderID n) = None"
    using R y by (simp_all add: n sound_order_def node_prec_def)
  have ord: "resting_order (qty_prec b) y (n_Price (b_node b i)) i (b_node b i)"
    using R y by (simp add: resting_order_def)
  from restNode_cases [OF B rep R(1) refl ord R(5,6)] show ?thesis
  proof (elim disjE exE conjE)
    fix err assume "restNode B i b = Some (Inl err)" "n_Price (b_node b i) \<notin> fst ` set (G y)" "LevelPoolFull b"
    then show ?thesis by (cases err) (simp add: PlaceResting_def n side_view_ok [OF rep] view_of_fst)
  next
    fix b' l A q C
    assume run: "restNode B i b = Some (Inr b')" and cores: "\<forall>j. core (b_node b' j) = core (b_node b j)"
      and rep': "book_rep B b' (G(y := A @ (n_Price (b_node b i), l, q @ [i]) # C)) (X - {i})"
    have idx: "b_index b' = (b_index b)(n_OrderID n \<mapsto> i)"
    proof -
      obtain r0 where r0: "GetOrCreate B (n_Price (b_node b i)) (b_heap b)
          (side_tree (n_Side (b_node b i) = Bid) b) = Some r0"
        using run by (auto simp: restNode_def bind_Some_iff Let_def)
      then obtain l c h t where "r0 = Inr (l, c, h, t)" using run by (cases r0) (auto simp: restNode_def Let_def)
      then show ?thesis using run r0 by (auto simp: restNode_def Let_def n bind_Some_iff)
    qed
    from rest_ok [OF B rep tidy R(1) n so] run obtain b'' where "Some (Inr b') = Some (Inr b'')"
      "book_ok B b'' (X - {i})" "b_config b'' = b_config b" "b_orderSeq b'' = b_orderSeq b"
      "side_view B (\<not> y) b'' = side_view B (\<not> y) b" "side_view B y b'' = rest_in y n (side_view B y b)"
      by auto
    then show ?thesis using run cores idx by (simp add: PlaceResting_def)
  qed
qed

subsection \<open>The queries\<close>

lemma best_view:
  assumes B: "price_index B" and ok: "book_ok B b X"
  shows "map_option (\<lambda>l. l_Price (b_level b l)) (Best B (side_tree x b)) =
     (case side_view B x b of [] \<Rightarrow> None | (p, q) # _ \<Rightarrow> Some p)"
proof -
  obtain G where rep: "book_rep B b G X" using ok by (auto simp: book_ok_def)
  note r = book_repD [OF rep]
  have lp: "l_Price (b_level b l) = p" if "(p, l, q) \<in> set (G x)" for p l q
    using level_repD(4) [OF levels_repD(1) [OF r(2) that]] .
  have best: "Best B (side_tree x b) = map_option snd (case entries (G x) of [] \<Rightarrow> None | e # _ \<Rightarrow> Some e)"
    by (rule price_index.Best_ok [OF B r(1)])
  then show ?thesis
  proof (cases "G x")
    case (Cons e g)
    obtain p l q where "e = (p, l, q)" by (cases e) auto
    then show ?thesis using Cons lp [of p l q] side_view_ok [OF rep, of x] best by simp
  qed (use side_view_ok [OF rep, of x] in simp)
qed

lemma view_prec:
  assumes B: "price_index B" and ok: "book_ok B b X" and "(p, q) \<in> set (side_view B x b)"
  shows "d_precision p = price_prec b"
proof -
  obtain G where rep: "book_rep B b G X" using ok by (auto simp: book_ok_def)
  then obtain l r where "(p, l, r) \<in> set (G x)" using assms(3) side_view_ok [OF rep, of x] by (auto simp: view_of_def)
  then show ?thesis using price_prec_of [OF B rep] by blast
qed

text \<open>A price crosses a side when a taker at that price would trade with its best level.\<close>

definition crosses_view :: "Side \<Rightarrow> Decimal \<Rightarrow> (Decimal \<times> queue) list \<Rightarrow> bool" where
  "crosses_view s price L \<longleftrightarrow>
     (\<exists>(p, q)\<in>set L. if s = Bid then ival p \<le> ival price else ival price \<le> ival p)"

lemma view_sorted:
  assumes B: "price_index B" and ok: "book_ok B b X"
  shows "sorted_wrt (\<lambda>(p, q) (p', q'). if x then ival p' < ival p else ival p < ival p') (side_view B x b)"
proof -
  obtain G where rep: "book_rep B b G X" using ok by (auto simp: book_ok_def)
  note k = price_index.tree_keys [OF B book_repD(1) [OF rep, of x]]
  have "sorted_wrt (\<lambda>p p'. tree_less (side_of x) p p' = Some True) (map fst (side_view B x b))"
    using k(3) by (simp add: side_view_ok [OF rep] view_of_fst entries_fst)
  moreover have "d_precision (fst e) = price_prec b" if "e \<in> set (side_view B x b)" for e
    using view_prec [OF B ok, of "fst e" "snd e" x] that by simp
  ultimately have "sorted_wrt (\<lambda>e e'. tree_less (side_of x) (fst e) (fst e') = Some True \<and>
      d_precision (fst e) = price_prec b \<and> d_precision (fst e') = price_prec b) (side_view B x b)"
    by (auto simp: sorted_wrt_map intro: sorted_wrt_mono_rel [rotated])
  then show ?thesis
    by (rule sorted_wrt_mono_rel [rotated]) (auto simp: tree_less_same side_of_def split: if_splits)
qed

lemma WouldCross_ok:
  assumes B: "price_index B" and ok: "book_ok B b X" and p: "d_precision price = price_prec b"
  shows "WouldCross B price s b = Some (crosses_view s price (side_view B (s \<noteq> Bid) b))"
proof -
  let ?x = "s \<noteq> Bid"
  have run: "WouldCross B price s b = (case map_option (\<lambda>l. l_Price (b_level b l)) (Best B (side_tree ?x b)) of
      None \<Rightarrow> Some False
    | Some r \<Rightarrow> if s = Bid then GreaterThanOrEqual price r else LessThanOrEqual price r)"
    by (simp add: WouldCross_def side_tree_def split: option.split)
  show ?thesis
  proof (cases "side_view B ?x b")
    case Nil
    then show ?thesis by (simp add: run best_view [OF B ok] crosses_view_def)
  next
    case (Cons e L)
    obtain r q where e: "e = (r, q)" by (cases e)
    have r: "d_precision r = price_prec b" using view_prec [OF B ok, of r q ?x] Cons e by simp
    have "\<forall>(p', q')\<in>set L. if s = Bid then ival r < ival p' else ival p' < ival r"
      using view_sorted [OF B ok, of ?x] Cons e by auto
    then have "crosses_view s price ((r, q) # L) = (if s = Bid then ival r \<le> ival price else ival price \<le> ival r)"
      by (auto simp: crosses_view_def split: if_splits)
    then show ?thesis using p r by (simp add: run best_view [OF B ok] Cons e compare_same)
  qed
qed

text \<open>What the depth snapshot shows of a level.\<close>

definition depth_of :: "u8 \<Rightarrow> Decimal \<times> queue \<Rightarrow> DepthLevel" where
  "depth_of qp = (\<lambda>(p, q). \<lparr>dl_Price = p, dl_TotalQty = qsum qp n_RemainQty q,
     dl_DisplayQty = qsum qp n_DisplayQty q, dl_OrderCount = int (length q)\<rparr>)"

lemma depth_view:
  assumes B: "price_index B" and ok: "book_ok B b X"
  shows "Depth B n (b_heap b) (side_tree x b) = Some (map (depth_of (qty_prec b)) (take (nat n) (side_view B x b)))"
proof -
  obtain G where rep: "book_rep B b G X" using ok by (auto simp: book_ok_def)
  note r = book_repD [OF rep]
  have "map (\<lambda>(p, l). depthLevel (b_level b l)) (entries g) = map (depth_of (qty_prec b)) (view_of b g)"
    if "set g \<subseteq> set (G x)" for g
    using that
  proof (induction g)
    case (Cons e g)
    obtain p l q where e: "e = (p, l, q)" by (cases e) auto
    have "level_rep (qty_prec b) (b_heap b) p l q" using levels_repD(1) [OF r(2)] Cons.prems e by auto
    from level_repD [OF this] show ?case
      using Cons qsum_core [of n_RemainQty "qty_prec b" "map (b_node b) q"]
        qsum_core [of n_DisplayQty "qty_prec b" "map (b_node b) q"]
      by (simp add: e depthLevel_def depth_of_def)
  qed simp
  from this [of "take (nat n) (G x)"] show ?thesis
    using price_index.Depth_ok [OF B r(1), of n "b_heap b" x] side_view_ok [OF rep, of x]
    by (simp add: take_map view_of_def set_take_subset)
qed

lemma side_count:
  assumes "book_ok B b X"
  shows "Len_tree (side_tree x b) = int (length (side_view B x b))"
proof -
  obtain G where rep: "book_rep B b G X" using assms by (auto simp: book_ok_def)
  then show ?thesis using book_repD(1) [OF rep, of x] side_view_ok [OF rep, of x]
    by (simp add: tree_rep_def Len_tree_def view_of_def)
qed

lemma get_view:
  assumes B: "price_index B" and ok: "book_ok B b X" and p: "d_precision p = price_prec b"
  shows "\<exists>r. Get B p (side_tree x b) = Some r \<and> (r = None \<longleftrightarrow> p \<notin> fst ` set (side_view B x b))"
proof -
  obtain G where rep: "book_rep B b G X" using ok by (auto simp: book_ok_def)
  have "fst ` set (entries (G x)) = fst ` set (G x)" by force
  then show ?thesis
    using price_index.Get_ok [OF B book_repD(1) [OF rep] p, of x] side_view_ok [OF rep, of x]
    by (simp add: view_of_fst map_of_eq_None_iff)
qed

lemma WouldExceedMaxDepth_ok:
  fixes s :: Side
  assumes B: "price_index B" and ok: "book_ok B b X" and p: "d_precision price = price_prec b"
    and nn: "0 \<le> mc_MaxDepth (b_config b)"
  defines "m \<equiv> nat (mc_MaxDepth (b_config b))" and "L \<equiv> side_view B (s = Bid) b"
  shows "WouldExceedMaxDepth B price s b =
     Some (0 < m \<and> m \<le> length L \<and> price \<notin> fst ` set L \<and>
       (if s = Bid then ival price < ival (fst (L ! (m - 1))) else ival (fst (L ! (m - 1))) < ival price))"
proof -
  let ?x = "s = Bid" and ?D = "mc_MaxDepth (b_config b)"
  have len: "Len_tree (side_tree ?x b) = int (length L)" using side_count [OF ok] by (simp add: L_def)
  obtain r where get: "Get B price (side_tree ?x b) = Some r" "r = None \<longleftrightarrow> price \<notin> fst ` set L"
    using get_view [OF B ok p, of ?x] by (auto simp: L_def)
  have dep: "Depth B ?D (b_heap b) (side_tree ?x b) = Some (map (depth_of (qty_prec b)) (take m L))"
    using depth_view [OF B ok] by (simp add: L_def m_def)
  show ?thesis
  proof (cases "?D = 0 \<or> int (length L) < ?D \<or> r \<noteq> None")
    case True
    then show ?thesis
    proof (elim disjE)
      assume "r \<noteq> None"
      then show ?thesis using len get dep by (simp add: WouldExceedMaxDepth_def Let_def)
    qed (use len nn in \<open>simp_all add: WouldExceedMaxDepth_def Let_def m_def\<close>)
  next
    case False
    then have m: "0 < m" "m \<le> length L" "int m = ?D" using nn by (auto simp: m_def)
    let ?e = "L ! (m - 1)"
    have "?e \<in> set L" using m by simp
    then have pe: "d_precision (fst ?e) = price_prec b"
      using view_prec [OF B ok, of "fst ?e" "snd ?e" ?x] by (simp add: L_def)
    have idx: "nat (?D - 1) = m - 1" using m by simp
    have worst: "dl_Price (map (depth_of (qty_prec b)) (take m L) ! nat (?D - 1)) = fst ?e"
      unfolding idx using m by (simp add: depth_of_def split: prod.split)
    have "WouldExceedMaxDepth B price s b =
        (if s = Bid then LessThan price (fst ?e) else GreaterThan price (fst ?e))"
      using False m(1,2) len get(1) dep worst unfolding WouldExceedMaxDepth_def Let_def m(3) [symmetric]
      by simp
    then show ?thesis using False m(1,2) get(2) pe p by (simp add: compare_same)
  qed
qed

end
