(* ===== verification/Book_Demo.thy ===== *)
theory Book_Demo
  imports Book_Ops
begin

section \<open>A small book\<close>

text \<open>
  A concrete market on which the properties of the order book are evaluated: two sellers
  rest, the first until time 50, and a buyer holds a slot for an order that crosses both.  The tree library is the
  list instance; the book is made with the code's own operations.
\<close>

text \<open>Acquire a slot and fill in an order, as the processor does, and rest it.\<close>

definition new_order :: "(OrderNode \<Rightarrow> OrderNode) \<Rightarrow> 't OrderBook \<Rightarrow> (nat \<times> 't OrderBook) option" where
  "new_order f b =
     (case Acquire zeroNode (h_nodes (b_heap b)) of
        Inl _ \<Rightarrow> None
      | Inr (p, i) \<Rightarrow> Some (i, set_b_node i (\<lambda>n. (f n)\<lparr>n_PoolIndex := i\<rparr>) (b\<lparr>b_heap := (b_heap b)\<lparr>h_nodes := p\<rparr>\<rparr>)))"

definition add_order :: "'t btree_fns \<Rightarrow> (OrderNode \<Rightarrow> OrderNode) \<Rightarrow> 't OrderBook \<Rightarrow> 't OrderBook option" where
  "add_order B f b = do {
     (i, b) \<leftarrow> new_order f b;
     r \<leftarrow> PlaceResting B i b;
     case r of Inl _ \<Rightarrow> None | Inr b \<Rightarrow> Some b }"

lemma new_order_ok:
  assumes "book_ok B b X" and "new_order f b = Some (i, b')"
  shows "book_ok B b' (insert i X)" "i \<notin> X" "b_node b' i = (f zeroNode)\<lparr>n_PoolIndex := i\<rparr>"
    "b_index b' = b_index b" "b_config b' = b_config b" "b_orderSeq b' = b_orderSeq b"
    "side_view B y b' = side_view B y b"
proof -
  obtain p where acq: "Acquire zeroNode (h_nodes (b_heap b)) = Inr (p, i)"
    and b': "b' = set_b_node i (\<lambda>n. (f n)\<lparr>n_PoolIndex := i\<rparr>) (b\<lparr>b_heap := (b_heap b)\<lparr>h_nodes := p\<rparr>\<rparr>)"
    using assms(2) by (auto simp: new_order_def split: sum.splits)
  note a = acquire_ok [OF assms(1) acq b']
  show "book_ok B b' (insert i X)" "i \<notin> X" "b_node b' i = (f zeroNode)\<lparr>n_PoolIndex := i\<rparr>"
    "b_index b' = b_index b" "b_config b' = b_config b" "b_orderSeq b' = b_orderSeq b"
    "side_view B y b' = side_view B y b" using a by simp_all
qed

lemma add_order_ok:
  assumes B: "price_index B" and ok: "book_ok B b X" and run: "add_order B f b = Some b'"
    and n: "n = f zeroNode" and sound: "sound_order (qty_prec b) n" "0 < remaining n"
    and pp: "d_precision (n_Price n) = price_prec b" and fresh: "b_index b (n_OrderID n) = None"
  shows "book_ok B b' X" "b_config b' = b_config b"
    "\<exists>i. b_index b' = (b_index b)(n_OrderID n \<mapsto> i)"
    "\<exists>i. side_view B (n_Side n = Bid) b' =
       rest_in (n_Side n = Bid) (core (n\<lparr>n_PoolIndex := i\<rparr>)) (side_view B (n_Side n = Bid) b)"
    "side_view B (n_Side n \<noteq> Bid) b' = side_view B (n_Side n \<noteq> Bid) b"
proof -
  obtain i b1 where b1: "new_order f b = Some (i, b1)" "PlaceResting B i b1 = Some (Inr b')"
  proof -
    obtain i b1 r where "new_order f b = Some (i, b1)" "PlaceResting B i b1 = Some r"
      using run by (auto simp: add_order_def bind_Some_iff)
    then show thesis using run that by (cases r) (auto simp: add_order_def)
  qed
  note a = new_order_ok [OF ok b1(1)]
  have r: "restable b1 (insert i X) i"
    using a(3-5) sound pp fresh by (simp add: restable_def n sound_order_def node_prec_def)
  from PlaceResting_ok [OF B a(1) r refl refl] b1(2)
  have p: "book_ok B b' (insert i X - {i})" "b_index b' = (b_index b1)(n_OrderID n \<mapsto> i)" "b_config b' = b_config b1"
    "side_view B (n_Side n \<noteq> Bid) b' = side_view B (n_Side n \<noteq> Bid) b1"
    "side_view B (n_Side n = Bid) b' = rest_in (n_Side n = Bid) (core (n\<lparr>n_PoolIndex := i\<rparr>)) (side_view B (n_Side n = Bid) b1)"
    by (auto simp: a(3) n)
  show "book_ok B b' X" using p(1) a(2) by (simp add: insert_Diff_if)
  show "b_config b' = b_config b" using p(3) a(5) by simp
  show "\<exists>i. b_index b' = (b_index b)(n_OrderID n \<mapsto> i)" using p(2) a(4) by auto
  show "\<exists>i. side_view B (n_Side n = Bid) b' =
       rest_in (n_Side n = Bid) (core (n\<lparr>n_PoolIndex := i\<rparr>)) (side_view B (n_Side n = Bid) b)"
    using p(5) a(7) by (intro exI [of _ i]) simp
  show "side_view B (n_Side n \<noteq> Bid) b' = side_view B (n_Side n \<noteq> Bid) b" using p(4) a(7) by simp
qed

subsection \<open>The orders\<close>

definition demo_order :: "OrderID \<Rightarrow> UserID \<Rightarrow> Side \<Rightarrow> TIF \<Rightarrow> i64 \<Rightarrow> i64 \<Rightarrow> OrderNode \<Rightarrow> OrderNode" where
  "demo_order oid user side tif price qty n = n\<lparr>n_OrderID := oid, n_UserID := user, n_Side := side,
     n_Type := Limit, n_TIF := tif, n_Price := NewDecimal price 2, n_OrigQty := NewDecimal qty 0,
     n_RemainQty := NewDecimal qty 0, n_FilledQty := Zero 0, n_DisplayQty := NewDecimal qty 0,
     n_HiddenQty := Zero 0\<rparr>"

type_synonym demo_tree = "(Decimal, nat) list_tree"

definition demo_book :: "demo_tree OrderBook" where
  "demo_book = the (do {
     b \<leftarrow> add_order list_btree (\<lambda>n. (demo_order ''m1'' ''alice'' Ask GTD 10000 5 n)\<lparr>n_ExpireAt := 50\<rparr>)
            (NewOrderBook list_btree demo_config (empty_heap 4 3) (NewCounter 1));
     add_order list_btree (demo_order ''m2'' ''carol'' Ask GTC 10100 5) b })"

text \<open>A buyer with a limit of 101.00 for \<open>qty\<close>; his order holds slot 2.\<close>

definition demo_taker :: "TIF \<Rightarrow> i64 \<Rightarrow> demo_tree OrderBook" where
  "demo_taker tif qty = snd (the (new_order (demo_order ''t1'' ''bob'' Bid tif 10100 qty) demo_book))"

subsection \<open>The facts the evaluations use\<close>

lemma list_index: "price_index list_btree"
  by unfold_locales

lemma demo_order_sel [simp]:
  "n_OrderID (demo_order oid u s t p q n) = oid" "n_UserID (demo_order oid u s t p q n) = u"
  "n_Side (demo_order oid u s t p q n) = s" "n_Type (demo_order oid u s t p q n) = Limit"
  "n_TIF (demo_order oid u s t p q n) = t" "n_Price (demo_order oid u s t p q n) = NewDecimal p 2"
  "n_RemainQty (demo_order oid u s t p q n) = NewDecimal q 0" "n_FilledQty (demo_order oid u s t p q n) = Zero 0"
  "n_DisplayQty (demo_order oid u s t p q n) = NewDecimal q 0" "n_HiddenQty (demo_order oid u s t p q n) = Zero 0"
  "n_STPMode (demo_order oid u s t p q n) = n_STPMode n"
  by (simp_all add: demo_order_def)

lemma zeroNode_STPMode [simp]: "n_STPMode zeroNode = STPDisabled"
  by (simp add: zeroNode_def)

lemma demo_config_sel [simp]: "mc_QtyPrecision demo_config = 0" "mc_PricePrecision demo_config = 2"
  "mc_STPMode demo_config = STPDisabled"
  by (simp_all add: demo_config_def)

lemma demo_book_ok: "book_ok list_btree demo_book {}" "b_config demo_book = demo_config"
  and demo_index: "b_index demo_book = [''m1'' \<mapsto> 0, ''m2'' \<mapsto> 1]"
proof -
  let ?b0 = "NewOrderBook list_btree demo_config (empty_heap 4 3) (NewCounter 1)"
  have ok0: "book_ok list_btree ?b0 {}" by (rule NewOrderBook_ok(1) [OF list_index empty_heap_ok])
  have c0: "b_config ?b0 = demo_config" "b_index ?b0 = Map.empty" by (simp_all add: NewOrderBook_def)
  have "add_order list_btree (\<lambda>n. (demo_order ''m1'' ''alice'' Ask GTD 10000 5 n)\<lparr>n_ExpireAt := 50\<rparr>) ?b0 \<noteq> None" by code_simp
  then obtain b1 where b1: "add_order list_btree (\<lambda>n. (demo_order ''m1'' ''alice'' Ask GTD 10000 5 n)\<lparr>n_ExpireAt := 50\<rparr>) ?b0 = Some b1"
    by blast
  note a = add_order_ok [OF list_index ok0 b1 refl]
  have ok1: "book_ok list_btree b1 {}" "b_config b1 = demo_config" "\<exists>i. b_index b1 = [''m1'' \<mapsto> i]"
    using a(1-3) by (simp_all add: c0 sound_order_def node_prec_def)
  have "add_order list_btree (\<lambda>n. (demo_order ''m1'' ''alice'' Ask GTD 10000 5 n)\<lparr>n_ExpireAt := 50\<rparr>) ?b0 \<bind>
      add_order list_btree (demo_order ''m2'' ''carol'' Ask GTC 10100 5) \<noteq> None" by code_simp
  then obtain b2 where b2: "add_order list_btree (demo_order ''m2'' ''carol'' Ask GTC 10100 5) b1 = Some b2"
    using b1 by auto
  note a2 = add_order_ok [OF list_index ok1(1) b2 refl]
  have "demo_book = b2" using b1 b2 by (simp add: demo_book_def)
  then show "book_ok list_btree demo_book {}" "b_config demo_book = demo_config"
    using a2(1,2) ok1(2,3) by (auto simp: sound_order_def node_prec_def)
  obtain i j where "b_index demo_book = [''m1'' \<mapsto> i, ''m2'' \<mapsto> j]"
    using \<open>demo_book = b2\<close> a2(3) ok1(2,3) by (auto simp: sound_order_def node_prec_def)
  moreover have "b_index demo_book ''m1'' = Some 0" "b_index demo_book ''m2'' = Some 1" by code_simp+
  ultimately show "b_index demo_book = [''m1'' \<mapsto> 0, ''m2'' \<mapsto> 1]" by simp
qed

lemma demo_taker_ok:
  assumes "0 \<le> sint qty"
  shows "book_ok list_btree (demo_taker tif qty) {2}" "placeable (demo_taker tif qty) {2} 2"
    "b_node (demo_taker tif qty) 2 = (demo_order ''t1'' ''bob'' Bid tif 10100 qty zeroNode)\<lparr>n_PoolIndex := 2\<rparr>"
    "b_config (demo_taker tif qty) = demo_config"
    "side_view list_btree y (demo_taker tif qty) = side_view list_btree y demo_book"
proof -
  let ?f = "demo_order ''t1'' ''bob'' Bid tif 10100 qty"
  have "case Acquire zeroNode (h_nodes (b_heap demo_book)) of Inl _ \<Rightarrow> False | Inr (p, i) \<Rightarrow> i = 2" by code_simp
  then obtain p where "Acquire zeroNode (h_nodes (b_heap demo_book)) = Inr (p, 2)"
    by (auto split: sum.splits)
  then have "\<exists>b. new_order ?f demo_book = Some (2, b)" by (simp add: new_order_def)
  then have run: "new_order ?f demo_book = Some (2, demo_taker tif qty)" by (auto simp: demo_taker_def)
  note a = new_order_ok [OF demo_book_ok(1) run]
  show "book_ok list_btree (demo_taker tif qty) {2}" using a(1) by simp
  show n: "b_node (demo_taker tif qty) 2 = (?f zeroNode)\<lparr>n_PoolIndex := 2\<rparr>" using a(3) .
  show c: "b_config (demo_taker tif qty) = demo_config" using a(5) demo_book_ok(2) by simp
  show "side_view list_btree y (demo_taker tif qty) = side_view list_btree y demo_book" using a(7) .
  have "b_index demo_book ''t1'' = None" by code_simp
  then show "placeable (demo_taker tif qty) {2} 2"
    using a(4) assms by (simp add: placeable_def n c sound_order_def node_prec_def priced_def valid_stp_def)
qed

end
