(* ===== verification/Book_Claims.thy ===== *)
theory Book_Claims
  imports Book_Demo
begin

section \<open>The properties of the order book\<close>

text \<open>
  The contract of the order book, over any tree library with the documented behaviour
  (\<open>price_index B\<close>) and any book that satisfies the invariant.  Each property follows from
  \<open>place_total\<close>, \<open>place_cases\<close> and the laws of the matching machine, or from the lemmas of
  \<open>Book_Ops\<close>, and is evaluated on the book of \<open>Book_Demo\<close>.
\<close>

lemma core_laws [simp]: "better (core n) = better n" "price_ok (core n) = price_ok n"
  "stpEnabled cfg (core n) m = stpEnabled cfg n m"
  by (simp_all add: better_def price_ok_def stpEnabled_def effectiveSTPMode_def fun_eq_iff)

lemma offered_core [simp]: "offered (core n) = offered n"
  by (simp add: offered_def fun_eq_iff)

lemma start_laws:
  assumes B: "price_index B" and ok: "book_ok B b X" and p: "placeable b X inc"
    and m: "matched B b inc s rested b'" and x: "x = (n_Side (b_node b inc) \<noteq> Bid)"
  shows "good_state (b_config b) (start_state (side_view B x b) (core (b_node b inc)) (b_orderSeq b))"
    "good_state (b_config b) s"
proof -
  show g: "good_state (b_config b) (start_state (side_view B x b) (core (b_node b inc)) (b_orderSeq b))"
    by (rule start_of(1) [OF ok p B refl])
  show "good_state (b_config b) s" using msteps_good [OF matchedD(1) [OF m x] g] .
qed



text \<open>Claim C5: fills are at prices the incoming order accepts, best price first.\<close>

theorem fills_best_price_first:
  assumes "price_index B" and "book_ok B b X" and "placeable b X inc"
    and "PlaceLimit B inc b = Some (fills, cancels, disp, b')"
  shows "sorted_wrt (better (b_node b inc)) (map f_Price fills) \<and>
     (\<forall>f\<in>set fills. price_ok (b_node b inc) (f_Price f))"
proof (cases rule: place_cases [OF assms(1-3) assms(4) [unfolded PlaceLimit_def], case_names reject ran])
  case (ran s rested)
  let ?x = "n_Side (b_node b inc) \<noteq> Bid" and ?t = "b_node b inc"
  note d = matchedD [OF ran(5) refl]
  have "sorted_wrt (better ?t) (map fst (side_view B ?x b))"
  proof -
    have "sorted_wrt (\<lambda>e e'. better ?t (fst e) (fst e')) (side_view B ?x b)"
      by (rule sorted_wrt_mono_rel [OF _ view_sorted [OF assms(1,2), of ?x]])
        (auto simp: better_def split: if_splits)
    then show ?thesis by (simp add: sorted_wrt_map)
  qed
  then have "price_order (start_state (side_view B ?x b) (core ?t) (b_orderSeq b))"
    by (simp add: price_order_def start_state_def)
  from msteps_price_order [OF d(1) this] have "price_order s" .
  moreover have "better (ms_taker s) = better ?t" "price_ok (ms_taker s) = price_ok ?t"
    using better_strip [OF d(9)] strip_eqD(12) [OF d(9)] by (simp_all add: fun_eq_iff)
  ultimately show ?thesis using ran(1) by (simp add: price_order_def sorted_wrt_append)
qed simp

theorem fills_best_price_first_witness:
  "\<exists>fills cancels disp b'. PlaceLimit list_btree 2 (demo_taker GTC 8) = Some (fills, cancels, disp, b') \<and>
     map f_Price fills = [NewDecimal 10000 2, NewDecimal 10100 2] \<and>
     (\<forall>f\<in>set fills. price_ok (b_node (demo_taker GTC 8) 2) (f_Price f))"
proof -
  have "map_option (\<lambda>(fills, _). map f_Price fills) (PlaceLimit list_btree 2 (demo_taker GTC 8)) =
      Some [NewDecimal 10000 2, NewDecimal 10100 2]" by code_simp
  then obtain fills cancels disp b' where run: "PlaceLimit list_btree 2 (demo_taker GTC 8) = Some (fills, cancels, disp, b')"
    "map f_Price fills = [NewDecimal 10000 2, NewDecimal 10100 2]" by auto
  then show ?thesis using fills_best_price_first [OF list_index demo_taker_ok(1,2) run(1)] by auto
qed











text \<open>The book is uncrossed when every bid is below every ask.\<close>

definition uncrossed :: "'t btree_fns \<Rightarrow> 't OrderBook \<Rightarrow> bool" where
  "uncrossed B b \<longleftrightarrow>
     (\<forall>p\<in>fst ` set (side_view B True b). \<forall>p'\<in>fst ` set (side_view B False b). ival p < ival p')"

lemma uncrossed_side:
  "uncrossed B b \<longleftrightarrow> (\<forall>p\<in>fst ` set (side_view B (\<not> x) b). \<forall>p'\<in>fst ` set (side_view B x b).
     if x then ival p' < ival p else ival p < ival p')"
  by (cases x) (simp_all add: uncrossed_def, blast)

lemma mstep_prices: "mstep cfg s s' \<Longrightarrow> fst ` set (ms_levels s') \<subseteq> fst ` set (ms_levels s)"
  by (induction rule: mstep.induct) auto

lemma msteps_prices: "msteps cfg s s' \<Longrightarrow> fst ` set (ms_levels s') \<subseteq> fst ` set (ms_levels s)"
  by (induction rule: rtranclp_induct) (simp, meson mstep_prices subset_trans)

lemma rest_in_prices: "fst ` set (rest_in y n L) \<subseteq> insert (n_Price n) (fst ` set L)"
proof (cases "n_Price n \<in> fst ` set L")
  case True
  then show ?thesis by (auto simp: rest_in_def image_image split_beta)
qed (auto simp: rest_in_def entries_set_def)

text \<open>Claim C2: matching keeps the book uncrossed: if every bid is below every ask, so it is
  after any order is placed, also when its rest joins the book.\<close>

theorem PlaceLimit_uncrossed:
  assumes "price_index B" and "book_ok B b X" and "placeable b X inc"
    and "PlaceLimit B inc b = Some (fills, cancels, disp, b')"
    and "uncrossed B b"
  shows "uncrossed B b'"
proof (cases rule: place_cases [OF assms(1-3) assms(4) [unfolded PlaceLimit_def], case_names reject ran])
  case reject
  then show ?thesis using assms(5) by (simp add: rejected_def uncrossed_def)
next
  case (ran s rested)
  define x where "x = (n_Side (b_node b inc) \<noteq> Bid)"
  note d = matchedD [OF ran(5) x_def] and g = start_laws [OF assms(1-3) ran(5) x_def]
  let ?t = "ms_taker s"
  have ok': "book_ok B b' (X - {inc})" using place_total [OF assms(1-3)] assms(4) by (auto simp: PlaceLimit_def)
  have opp: "fst ` set (side_view B x b') \<subseteq> fst ` set (side_view B x b)"
    using msteps_prices [OF d(1)] d(4) by (simp add: start_state_def)
  have below: "if x then ival p' < ival (n_Price ?t) else ival (n_Price ?t) < ival p'"
    if "rested" and p': "p' \<in> fst ` set (side_view B x b')" for p'
  proof -
    have w: "\<not> ms_killed s" "0 < remaining ?t" "n_Type ?t \<noteq> Market"
      using d(8) [OF that(1)] g(2) by (auto simp: wants_rest_def good_state_def)
    obtain r q L where L: "ms_levels s = (r, q) # L" using p' d(4) by (cases "ms_levels s") auto
    have "\<not> price_ok ?t r" using d(2) w L by (simp add: final_state_def)
    then have r: "if x then ival r < ival (n_Price ?t) else ival (n_Price ?t) < ival r"
      using w(3) strip_eqD(3) [OF d(9)] by (auto simp: price_ok_def x_def split: if_splits)
    have "p' = r \<or> (if x then ival p' < ival r else ival r < ival p')"
      using view_sorted [OF assms(1) ok', of x] p' by (auto simp: d(4) L)
    then show ?thesis using r by (auto split: if_splits)
  qed
  have own: "fst ` set (side_view B (\<not> x) b') \<subseteq>
      (if rested then insert (n_Price ?t) (fst ` set (side_view B (\<not> x) b)) else fst ` set (side_view B (\<not> x) b))"
    using rest_in_prices by (simp add: d(7))
  show ?thesis
    unfolding uncrossed_side [of B b' x]
  proof (intro ballI)
    fix p p' assume p: "p \<in> fst ` set (side_view B (\<not> x) b')" and p': "p' \<in> fst ` set (side_view B x b')"
    have "p \<in> fst ` set (side_view B (\<not> x) b) \<or> rested \<and> p = n_Price ?t"
      using own p by (auto split: if_splits)
    then show "if x then ival p' < ival p else ival p < ival p'"
      using below [OF _ p'] assms(5) opp p' unfolding uncrossed_side [of B b x] by blast
  qed
qed

theorem PlaceLimit_uncrossed_witness:
  "\<exists>fills cancels disp b'. PlaceLimit list_btree 2 (demo_taker GTC 12) = Some (fills, cancels, disp, b') \<and>
     disp = PartialFill_Rested \<and> uncrossed list_btree b'"
proof -
  have "map_option (\<lambda>(fills, cancels, disp, b'). disp) (PlaceLimit list_btree 2 (demo_taker GTC 12)) = Some PartialFill_Rested"
    by code_simp
  then obtain fills cancels b' where run: "PlaceLimit list_btree 2 (demo_taker GTC 12) = Some (fills, cancels, PartialFill_Rested, b')"
    by auto
  note t = demo_taker_ok [where tif = GTC and qty = 12, simplified]
  have "side_view list_btree True demo_book = []" by code_simp
  then have "uncrossed list_btree (demo_taker GTC 12)" by (simp add: uncrossed_def t(5))
  from PlaceLimit_uncrossed [OF list_index t(1,2) run this] run show ?thesis by blast
qed

end
