(* ===== verification/Book_Ops_Claims.thy ===== *)
theory Book_Ops_Claims
  imports Book_Demo
begin

section \<open>Cancelling, expiring and querying: the properties\<close>

text \<open>
  The contract of the operations besides matching: each statement is over any tree library
  with the documented behaviour and any book that satisfies the invariant.
\<close>

text \<open>Claim C20: \<open>Cancel\<close> removes exactly the order it names, for its owner only: an unknown id
  and an order of somebody else are errors that leave the book alone; otherwise the order's
  slot is handed to the caller, its id is forgotten, and each side is what it was without the
  order (a level that becomes empty disappears).\<close>

theorem Cancel_removes:
  assumes "price_index B" and "book_ok B b X"
  shows "case b_index b oid of
       None \<Rightarrow> Cancel B oid uid b = Some (Inl ErrOrderNotFound)
     | Some i \<Rightarrow>
         if n_UserID (b_node b i) \<noteq> uid then Cancel B oid uid b = Some (Inl ErrOwnershipMismatch)
         else \<exists>b'. Cancel B oid uid b = Some (Inr (i, b')) \<and> book_ok B b' (insert i X) \<and> i \<notin> X \<and>
           b_index b' = (b_index b)(oid := None) \<and>
           (\<forall>y. side_view B y b' = without (\<lambda>n. n_OrderID n = oid) (side_view B y b))"
proof (cases "b_index b oid")
  case (Some i)
  then show ?thesis using Cancel_ok [OF assms Some] by (auto simp: Cancel_def)
qed (simp add: Cancel_def)

theorem Cancel_removes_witness:
  "(\<exists>b'. Cancel list_btree ''m1'' ''alice'' demo_book = Some (Inr (0, b')) \<and> book_ok list_btree b' {0}) \<and>
   Cancel list_btree ''m1'' ''carol'' demo_book = Some (Inl ErrOwnershipMismatch)"
proof -
  have i: "b_index demo_book ''m1'' = Some 0" by code_simp
  have u: "n_UserID (b_node demo_book 0) = ''alice''" by code_simp
  show ?thesis
    using Cancel_removes [OF list_index demo_book_ok(1), of "''m1''" "''alice''"]
      Cancel_removes [OF list_index demo_book_ok(1), of "''m1''" "''carol''"] i u by auto
qed

subsection \<open>Resting and cancelling\<close>

text \<open>An id that does not rest is in no queue.\<close>

lemma view_queue:
  assumes rep: "book_rep B b G X" and tidy: "tidy b G" and oid: "b_index b oid = None"
    and e: "(p, q) \<in> set (side_view B y b)"
  shows "q \<noteq> []" "filter (\<lambda>m. n_OrderID m \<noteq> oid) q = q"
proof -
  show "q \<noteq> []"
    using e side_view_ok [OF rep, of y] by (auto simp: view_of_def dest!: tidyD(1) [OF tidy])
  have "n_OrderID m \<noteq> oid" if "m \<in> set q" for m using view_node [OF rep e that] oid by auto
  then show "filter (\<lambda>m. n_OrderID m \<noteq> oid) q = q" by (simp add: filter_id_conv)
qed

lemma without_absent:
  assumes "book_rep B b G X" and "tidy b G" and "b_index b oid = None" and "set L \<subseteq> set (side_view B y b)"
  shows "without (\<lambda>m. n_OrderID m = oid) L = L"
  using assms(4)
proof (induction L)
  case (Cons e L)
  obtain p q where e: "e = (p, q)" by (cases e)
  then show ?case using Cons view_queue [OF assms(1-3), of p q y] by (simp add: Let_def)
qed simp

lemma without_rest_in:
  assumes B: "price_index B" and rep: "book_rep B b G X" and tidy: "tidy b G"
    and n: "b_index b (n_OrderID n) = None" "d_precision (n_Price n) = price_prec b"
  shows "without (\<lambda>m. n_OrderID m = n_OrderID n) (rest_in y n (side_view B y b)) = side_view B y b"
proof -
  let ?L = "side_view B y b" and ?P = "\<lambda>m. n_OrderID m = n_OrderID n"
  note same = without_absent [OF rep tidy n(1), of _ y]
  show ?thesis
  proof (cases "n_Price n \<in> fst ` set ?L")
    case True
    have "without ?P (map (\<lambda>(p, q). (p, if p = n_Price n then q @ [n] else q)) L) = L" if "set L \<subseteq> set ?L" for L
      using that
    proof (induction L)
      case (Cons e L)
      obtain p q where e: "e = (p, q)" by (cases e)
      then show ?case using Cons view_queue [OF rep tidy n(1), of p q y] by (simp add: Let_def)
    qed simp
    then show ?thesis using True by (simp add: rest_in_def)
  next
    case False
    let ?lt = "tree_less (side_of y)" and ?p = "n_Price n"
    note k = price_index.tree_keys [OF B book_repD(1) [OF rep, of y]]
    have L: "sorted_wrt (\<lambda>x y. ?lt x y = Some True) (map fst ?L)" "fst ` set ?L \<subseteq> prices (price_prec b)"
      using k(1,3) by (auto simp: side_view_ok [OF rep] view_of_fst entries_fst) (metis entries_fst image_eqI list.set_map subsetD prices_iff fst_conv)
    have "without ?P (rest_in y n ?L) =
        filter (\<lambda>e. ?lt (fst e) ?p = Some True) ?L @ filter (\<lambda>e. ?lt ?p (fst e) = Some True) ?L"
      using False same [of "filter _ ?L"] by (simp add: rest_in_def entries_set_def Let_def)
    also have "\<dots> = ?L" using n(2) False L by (intro split_sorted [OF tree_less_orders]) auto
    finally show ?thesis .
  qed
qed

text \<open>Claim C21: resting an order and cancelling it at once is the identity on the visible book:
  both sides, the index and the slots in use are what they were before.\<close>

theorem rest_cancel_roundtrip:
  assumes "price_index B" and "book_ok B b X" and "restable b X i"
    and "PlaceResting B i b = Some (Inr b1)"
  shows "\<exists>b2. Cancel B (n_OrderID (b_node b i)) (n_UserID (b_node b i)) b1 = Some (Inr (i, b2)) \<and>
     book_ok B b2 X \<and> b_index b2 = b_index b \<and> core (b_node b2 i) = core (b_node b i) \<and>
     (\<forall>y. side_view B y b2 = side_view B y b)"
proof -
  obtain G where rep: "book_rep B b G X" and tidy: "tidy b G" using assms(2) by (auto simp: book_ok_def)
  define y n where "y = (n_Side (b_node b i) = Bid)" and "n = core (b_node b i)"
  have p: "book_ok B b1 (X - {i})" "core (b_node b1 i) = core (b_node b i)"
    "b_index b1 = (b_index b)(n_OrderID n \<mapsto> i)" "side_view B (\<not> y) b1 = side_view B (\<not> y) b"
    "side_view B y b1 = rest_in y n (side_view B y b)"
    using PlaceResting_ok [OF assms(1-3) y_def n_def] assms(4) by auto
  have i: "i \<in> X" "b_index b (n_OrderID n) = None" "d_precision (n_Price n) = price_prec b"
    using assms(3) by (simp_all add: restable_def Let_def n_def)
  have own: "n_UserID (b_node b1 i) = n_UserID (b_node b i)" using core_eqD(2) [OF p(2)] .
  have idx: "b_index b1 (n_OrderID n) = Some i" by (simp add: p(3))
  from Cancel_ok [OF assms(1) p(1) idx own] obtain b2 where
    b2: "Cancel B (n_OrderID n) (n_UserID (b_node b i)) b1 = Some (Inr (i, b2))"
    "book_ok B b2 (insert i (X - {i}))" "core (b_node b2 i) = core (b_node b1 i)"
    "b_index b2 = (b_index b1)(n_OrderID n := None)"
    "\<forall>y. side_view B y b2 = without (\<lambda>m. n_OrderID m = n_OrderID n) (side_view B y b1)" by blast
  have other: "without (\<lambda>m. n_OrderID m = n_OrderID n) (side_view B z b) = side_view B z b" for z
    by (rule without_absent [OF rep tidy i(2) subset_refl])
  have "side_view B z b2 = side_view B z b" for z
  proof (cases "z = y")
    case True
    then show ?thesis using b2(5) p(5) without_rest_in [OF assms(1) rep tidy i(2,3)] by simp
  next
    case False
    then have "side_view B z b1 = side_view B z b" using p(4) by (cases y; cases z) auto
    then show ?thesis using b2(5) other by simp
  qed
  moreover have "b_index b2 = b_index b" using b2(4) p(3) i(2) by (auto simp: fun_eq_iff)
  moreover have "insert i (X - {i}) = X" using i(1) by auto
  ultimately show ?thesis using b2 p(2) by (simp add: n_def)
qed

theorem rest_cancel_roundtrip_witness:
  "\<exists>b1 b2. PlaceResting list_btree 2 (demo_taker GTC 3) = Some (Inr b1) \<and>
     Cancel list_btree ''t1'' ''bob'' b1 = Some (Inr (2, b2)) \<and>
     side_view list_btree True b2 = side_view list_btree True demo_book"
proof -
  note t = demo_taker_ok [where tif = GTC and qty = 3, simplified]
  have r: "restable (demo_taker GTC 3) {2} 2"
    using t(2) by (simp add: placeable_def restable_def Let_def t(3,4))
  have "case PlaceResting list_btree 2 (demo_taker GTC 3) of Some (Inr b) \<Rightarrow> True | _ \<Rightarrow> False" by code_simp
  then obtain b1 where b1: "PlaceResting list_btree 2 (demo_taker GTC 3) = Some (Inr b1)"
    by (auto split: option.splits sum.splits)
  from rest_cancel_roundtrip [OF list_index t(1) r b1] b1 show ?thesis by (auto simp: t(3,5))
qed

subsection \<open>Expiry\<close>

text \<open>Claim C22: \<open>ExpireGTD\<close> removes exactly the orders that are due, in whatever order Go's map
  iteration visits the index: the orders handed to the caller are those with an expiry time
  not after \<open>now\<close>, their ids are forgotten, and each side is what it was without them.\<close>

theorem ExpireGTD_removes_due:
  assumes "price_index B" and "book_ok B b X" and "distinct ids" and "set ids = dom (b_index b)"
  shows "\<exists>expired b'. ExpireGTD B ids now b = Some (expired, b') \<and>
     set expired = {i. \<exists>oid. b_index b oid = Some i \<and> due now (b_node b i)} \<and> distinct expired \<and>
     book_ok B b' (X \<union> set expired) \<and>
     b_index b' = (\<lambda>oid. if due_id now b oid then None else b_index b oid) \<and>
     (\<forall>y. side_view B y b' = without (due now) (side_view B y b))"
proof -
  obtain G where rep: "book_rep B b G X" using assms(2) by (auto simp: book_ok_def)
  let ?E = "map (the \<circ> b_index b) (filter (due_id now b) ids)"
  from ExpireGTD_ok [OF assms(1-3), of now] obtain b' where
    "ExpireGTD B ids now b = Some (?E, b') \<and> book_ok B b' (X \<union> set ?E) \<and>
     (\<forall>j. core (b_node b' j) = core (b_node b j)) \<and>
     b_index b' = (\<lambda>oid. if oid \<in> set ids \<and> due_id now b oid then None else b_index b oid) \<and>
     b_config b' = b_config b \<and> b_orderSeq b' = b_orderSeq b \<and>
     (\<forall>y. side_view B y b' = without (\<lambda>n. due now n \<and> n_OrderID n \<in> set ids) (side_view B y b))" ..
  note b' = this
  have "set ?E = {i. \<exists>oid. b_index b oid = Some i \<and> due now (b_node b i)}"
    using assms(4) by (force simp: due_id_def image_iff split: option.splits)
  moreover have "inj_on (the \<circ> b_index b) (set ids)"
  proof (rule inj_onI)
    fix u v assume uv: "u \<in> set ids" "v \<in> set ids" "(the \<circ> b_index b) u = (the \<circ> b_index b) v"
    then obtain i where "b_index b u = Some i" "b_index b v = Some i" using assms(4) by force
    then show "u = v" using book_repD(5) [OF rep] by (auto simp: index_on_def)
  qed
  then have "distinct ?E" using assms(3) by (auto simp: distinct_map intro: inj_on_subset)
  moreover have "b_index b' = (\<lambda>oid. if due_id now b oid then None else b_index b oid)"
    using b' assms(4) by (auto simp: fun_eq_iff due_id_def split: option.splits)
  moreover have "without (\<lambda>n. due now n \<and> n_OrderID n \<in> set ids) (side_view B y b) = without (due now) (side_view B y b)" for y
    using view_node [OF rep] assms(4) by (intro without_cong) blast
  ultimately show ?thesis using b' by (intro exI [of _ ?E] exI [of _ b']) simp
qed

theorem ExpireGTD_removes_due_witness:
  "\<exists>expired b'. ExpireGTD list_btree [''m2'', ''m1''] 100 demo_book = Some (expired, b') \<and> set expired = {0} \<and>
     map (\<lambda>(p, q). map n_OrderID q) (side_view list_btree False b') = [[''m2'']]"
proof -
  have d: "b_index demo_book = [''m1'' \<mapsto> 0, ''m2'' \<mapsto> 1]"
    by (rule demo_index)
  have due: "due 100 (b_node demo_book 0)" "\<not> due 100 (b_node demo_book 1)" by code_simp+
  have ids: "distinct [''m2'', ''m1'']" "set [''m2'', ''m1''] = dom (b_index demo_book)" by (simp_all add: d)
  have v: "map (\<lambda>(p, q). map n_OrderID q) (without (due 100) (side_view list_btree False demo_book)) = [[''m2'']]"
    by code_simp
  have e: "{i. \<exists>oid. b_index demo_book oid = Some i \<and> due 100 (b_node demo_book i)} = {0}"
    using due by (auto simp: d split: if_splits)
  from ExpireGTD_removes_due [OF list_index demo_book_ok(1) ids, of 100] show ?thesis unfolding e using v by auto
qed

subsection \<open>Queries\<close>

text \<open>Claim C24: \<open>BBO\<close> returns the first price of each side, and \<open>WouldCross\<close> tells for any
  price of the market's precision whether an order at that price would trade: it compares
  with the best level only, which decides it for the whole opposite side.\<close>

theorem BBO_WouldCross:
  assumes "price_index B" and "book_ok B b X" and "d_precision price = price_prec b"
  shows "BBO B b =
       ((case side_view B True b of [] \<Rightarrow> zeroDecimal | (p, q) # _ \<Rightarrow> p),
        (case side_view B False b of [] \<Rightarrow> zeroDecimal | (p, q) # _ \<Rightarrow> p),
        side_view B True b \<noteq> [], side_view B False b \<noteq> []) \<and>
     WouldCross B price s b = Some (crosses_view s price (side_view B (s \<noteq> Bid) b))"
proof -
  have "Best B (b_bids b) = Best B (side_tree True b)" "Best B (b_asks b) = Best B (side_tree False b)"
    by (simp_all add: side_tree_def)
  moreover have "(case Best B (side_tree x b) of None \<Rightarrow> (zeroDecimal, False) | Some l \<Rightarrow> (l_Price (b_level b l), True)) =
      ((case side_view B x b of [] \<Rightarrow> zeroDecimal | (p, q) # _ \<Rightarrow> p), side_view B x b \<noteq> [])" for x
    using best_view [OF assms(1,2), of x]
    by (cases "Best B (side_tree x b)"; cases "side_view B x b") auto
  ultimately show ?thesis using WouldCross_ok [OF assms]
    by (simp add: BBO_def Let_def split: prod.splits)
qed

theorem BBO_WouldCross_witness:
  "WouldCross list_btree (NewDecimal 10050 2) Bid demo_book = Some True \<and>
   WouldCross list_btree (NewDecimal 9900 2) Bid demo_book = Some False \<and>
   BBO list_btree demo_book = (zeroDecimal, NewDecimal 10000 2, False, True)"
proof -
  have v: "side_view list_btree True demo_book = []" by code_simp
  have w: "map fst (side_view list_btree False demo_book) = [NewDecimal 10000 2, NewDecimal 10100 2]" by code_simp
  then obtain q1 q2 where w': "side_view list_btree False demo_book = [(NewDecimal 10000 2, q1), (NewDecimal 10100 2, q2)]"
    by (auto simp: map_eq_Cons_conv)
  show ?thesis
    using BBO_WouldCross [OF list_index demo_book_ok(1), of "NewDecimal 10050 2" Bid]
      BBO_WouldCross [OF list_index demo_book_ok(1), of "NewDecimal 9900 2" Bid]
    by (simp add: v w' demo_book_ok(2) crosses_view_def)
qed

text \<open>Claim C25: the depth snapshot lists the first levels of each side, best first, each with
  its price, the sums of the remaining and of the displayed quantities of its orders, and
  their number.\<close>

theorem Snapshot_shows_levels:
  assumes "price_index B" and "book_ok B b X"
  shows "Snapshot B n b =
     Some (map (depth_of (qty_prec b)) (take (nat n) (side_view B True b)),
           map (depth_of (qty_prec b)) (take (nat n) (side_view B False b)))"
  using depth_view [OF assms, of n True] depth_view [OF assms, of n False]
  by (simp add: Snapshot_def side_tree_def)

theorem Snapshot_shows_levels_witness:
  "map_option (\<lambda>(bids, asks). (bids, map dl_TotalQty asks)) (Snapshot list_btree 5 demo_book) =
     Some ([], [NewDecimal 5 0, NewDecimal 5 0])"
proof -
  have "map (depth_of 0) (take 5 (side_view list_btree True demo_book)) = []"
    "map dl_TotalQty (map (depth_of 0) (take 5 (side_view list_btree False demo_book))) = [NewDecimal 5 0, NewDecimal 5 0]"
    by code_simp+
  then show ?thesis
    using Snapshot_shows_levels [OF list_index demo_book_ok(1), of 5] by (simp add: demo_book_ok(2))
qed

text \<open>\<open>WouldExceedMaxDepth\<close> is true exactly when a depth limit is set, the order's
  side has at least that many levels, the price has no level yet, and it is worse than the
  last level within the limit.\<close>

theorem WouldExceedMaxDepth_decides:
  fixes s :: Side
  assumes "price_index B" and "book_ok B b X" and "d_precision price = price_prec b"
    and "0 \<le> mc_MaxDepth (b_config b)"
    and "m = nat (mc_MaxDepth (b_config b))" and "L = side_view B (s = Bid) b"
  shows "WouldExceedMaxDepth B price s b =
     Some (0 < m \<and> m \<le> length L \<and> price \<notin> fst ` set L \<and>
       (if s = Bid then ival price < ival (fst (L ! (m - 1))) else ival (fst (L ! (m - 1))) < ival price))"
  using WouldExceedMaxDepth_ok [OF assms(1-4), of s] by (simp add: assms(5,6))

theorem WouldExceedMaxDepth_decides_witness:
  "WouldExceedMaxDepth list_btree (NewDecimal 10200 2) Ask demo_book = Some False"
proof -
  have "mc_MaxDepth (b_config demo_book) = 0" by (simp add: demo_book_ok(2) demo_config_def)
  then show ?thesis
    using WouldExceedMaxDepth_decides [OF list_index demo_book_ok(1), of "NewDecimal 10200 2" 0
        "side_view list_btree (Ask = Bid) demo_book" Ask]
    by (simp add: demo_book_ok(2))
qed

subsection \<open>No slot is leaked\<close>



end
