(* ===== verification/Stop_Heap.thy ===== *)
theory Stop_Heap
  imports Market_Config Pool Linked_Queue
begin

section \<open>Stop orders and their levels in memory (\<open>stopbook/stopnode.go\<close>, \<open>stopbook/stoplevel.go\<close>)\<close>

text \<open>
  A pending stop order is a slot of the stop node pool, a trigger price with stops a slot of
  the stop level pool.  A stop level keeps no totals: its operations change links and the
  count of orders only, and cannot fail.
\<close>

record StopNode =
  st_OrderID :: OrderID
  st_UserID :: UserID
  st_MarketID :: MarketID
  st_Side :: Side
  st_TIF :: TIF
  st_Flags :: OrderFlags
  st_STPMode :: STPMode
  st_TriggerPrice :: Decimal
  st_LimitPrice :: Decimal
  st_Qty :: Decimal
  st_ConvertTo :: OrderType
  st_ExpireAt :: i64
  st_Timestamp :: i64
  st_SeqNum :: u64
  st_prev :: "nat option"
  st_next :: "nat option"
  st_level :: "nat option"
  st_PoolIndex :: nat

record StopLevel =
  sl_Price :: Decimal
  sl_Head :: "nat option"
  sl_Tail :: "nat option"
  sl_OrderCount :: int
  sl_PoolIndex :: nat

definition zeroStopNode :: StopNode where
  "zeroStopNode = \<lparr>st_OrderID = [], st_UserID = [], st_MarketID = [], st_Side = SideByte 0,
     st_TIF = TIFByte 0, st_Flags = 0, st_STPMode = STPDisabled, st_TriggerPrice = zeroDecimal,
     st_LimitPrice = zeroDecimal, st_Qty = zeroDecimal, st_ConvertTo = OrderTypeByte 0,
     st_ExpireAt = 0, st_Timestamp = 0, st_SeqNum = 0, st_prev = None, st_next = None,
     st_level = None, st_PoolIndex = 0\<rparr>"

definition zeroStopLevel :: StopLevel where
  "zeroStopLevel = \<lparr>sl_Price = zeroDecimal, sl_Head = None, sl_Tail = None, sl_OrderCount = 0,
     sl_PoolIndex = 0\<rparr>"

record stop_heap =
  sh_nodes :: "StopNode Pool"
  sh_levels :: "StopLevel Pool"

definition snode :: "stop_heap \<Rightarrow> nat \<Rightarrow> StopNode" where
  "snode h i = store (sh_nodes h) ! i"

definition slevel :: "stop_heap \<Rightarrow> nat \<Rightarrow> StopLevel" where
  "slevel h l = store (sh_levels h) ! l"

definition set_snode :: "nat \<Rightarrow> (StopNode \<Rightarrow> StopNode) \<Rightarrow> stop_heap \<Rightarrow> stop_heap" where
  "set_snode i f h = h\<lparr>sh_nodes := (sh_nodes h)\<lparr>store := (store (sh_nodes h))[i := f (snode h i)]\<rparr>\<rparr>"

definition set_slevel :: "nat \<Rightarrow> (StopLevel \<Rightarrow> StopLevel) \<Rightarrow> stop_heap \<Rightarrow> stop_heap" where
  "set_slevel l f h =
     h\<lparr>sh_levels := (sh_levels h)\<lparr>store := (store (sh_levels h))[l := f (slevel h l)]\<rparr>\<rparr>"

subsection \<open>The operations of a stop level\<close>

definition Append_stop :: "nat \<Rightarrow> nat \<Rightarrow> stop_heap \<Rightarrow> stop_heap" where
  "Append_stop l i h =
     (let h = (case sl_Tail (slevel h l) of
           None \<Rightarrow>
             set_snode i (\<lambda>n. n\<lparr>st_prev := None, st_next := None\<rparr>)
               (set_slevel l (\<lambda>v. v\<lparr>sl_Head := Some i, sl_Tail := Some i\<rparr>) h)
         | Some t \<Rightarrow>
             set_slevel l (\<lambda>v. v\<lparr>sl_Tail := Some i\<rparr>)
               (set_snode t (\<lambda>n. n\<lparr>st_next := Some i\<rparr>)
                 (set_snode i (\<lambda>n. n\<lparr>st_prev := Some t, st_next := None\<rparr>) h)));
          h = set_slevel l (\<lambda>v. v\<lparr>sl_OrderCount := sl_OrderCount v + 1\<rparr>) h
      in set_snode i (\<lambda>n. n\<lparr>st_level := Some l\<rparr>) h)"

definition Unlink_stop :: "nat \<Rightarrow> nat \<Rightarrow> stop_heap \<Rightarrow> stop_heap" where
  "Unlink_stop l i h =
     (let h = (case st_prev (snode h i) of
           Some p \<Rightarrow> set_snode p (\<lambda>n. n\<lparr>st_next := st_next (snode h i)\<rparr>) h
         | None \<Rightarrow> set_slevel l (\<lambda>v. v\<lparr>sl_Head := st_next (snode h i)\<rparr>) h);
          h = (case st_next (snode h i) of
           Some s \<Rightarrow> set_snode s (\<lambda>n. n\<lparr>st_prev := st_prev (snode h i)\<rparr>) h
         | None \<Rightarrow> set_slevel l (\<lambda>v. v\<lparr>sl_Tail := st_prev (snode h i)\<rparr>) h);
          h = set_slevel l (\<lambda>v. v\<lparr>sl_OrderCount := sl_OrderCount v - 1\<rparr>) h
      in set_snode i (\<lambda>n. n\<lparr>st_prev := None, st_next := None, st_level := None\<rparr>) h)"

definition IsEmpty_stop :: "StopLevel \<Rightarrow> bool" where
  "IsEmpty_stop v \<longleftrightarrow> sl_Head v = None"

subsection \<open>Reading and writing\<close>

definition stop_core :: "StopNode \<Rightarrow> StopNode" where
  "stop_core n = n\<lparr>st_prev := None, st_next := None, st_level := None\<rparr>"

definition stop_sizes :: "stop_heap \<Rightarrow> nat \<times> nat" where
  "stop_sizes h = (length (store (sh_nodes h)), length (store (sh_levels h)))"

text \<open>Everything of the two pools but what is in the slots.\<close>

definition stop_frame :: "stop_heap \<Rightarrow> (StopNode Pool \<times> StopLevel Pool) \<times> nat \<times> nat" where
  "stop_frame h = (((sh_nodes h)\<lparr>store := []\<rparr>, (sh_levels h)\<lparr>store := []\<rparr>), stop_sizes h)"

abbreviation snodes_n :: "stop_heap \<Rightarrow> nat" where
  "snodes_n h \<equiv> length (store (sh_nodes h))"

abbreviation slevels_n :: "stop_heap \<Rightarrow> nat" where
  "slevels_n h \<equiv> length (store (sh_levels h))"

named_theorems stop_simps \<open>reading the stop heap after a write\<close>

lemma snode_set_snode [stop_simps]:
  "i < snodes_n h \<Longrightarrow> snode (set_snode i f h) = (snode h)(i := f (snode h i))"
  by (auto simp: snode_def set_snode_def)

lemma slevel_set_slevel [stop_simps]:
  "l < slevels_n h \<Longrightarrow> slevel (set_slevel l f h) = (slevel h)(l := f (slevel h l))"
  by (auto simp: slevel_def set_slevel_def)

lemma stop_heap_frame [stop_simps]:
  "slevel (set_snode i f h) = slevel h" "snode (set_slevel l g h) = snode h"
  "snodes_n (set_snode i f h) = snodes_n h" "snodes_n (set_slevel l g h) = snodes_n h"
  "slevels_n (set_snode i f h) = slevels_n h" "slevels_n (set_slevel l g h) = slevels_n h"
  "stop_frame (set_snode i f h) = stop_frame h" "stop_frame (set_slevel l g h) = stop_frame h"
  by (auto simp: snode_def slevel_def set_snode_def set_slevel_def stop_frame_def stop_sizes_def)

lemma stop_frame_sizes:
  "stop_frame h' = stop_frame h \<Longrightarrow> snodes_n h' = snodes_n h \<and> slevels_n h' = slevels_n h"
  by (simp add: stop_frame_def stop_sizes_def)

lemma stop_frame_pools:
  assumes "stop_frame h' = stop_frame h"
  shows "used_slots (sh_nodes h') = used_slots (sh_nodes h)" "pool_ok (sh_nodes h') = pool_ok (sh_nodes h)"
    "used_slots (sh_levels h') = used_slots (sh_levels h)" "pool_ok (sh_levels h') = pool_ok (sh_levels h)"
proof -
  have "free p' = free p \<and> top p' = top p \<and> capacity p' = capacity p"
    if "p'\<lparr>store := []\<rparr> = p\<lparr>store := []\<rparr>" for p p' :: "'x Pool"
    using that by (cases p; cases p') simp
  from this [of "sh_nodes h'" "sh_nodes h"] this [of "sh_levels h'" "sh_levels h"]
  show "used_slots (sh_nodes h') = used_slots (sh_nodes h)" "pool_ok (sh_nodes h') = pool_ok (sh_nodes h)"
    "used_slots (sh_levels h') = used_slots (sh_levels h)" "pool_ok (sh_levels h') = pool_ok (sh_levels h)"
    using assms by (simp_all add: stop_frame_def stop_sizes_def used_slots_def free_slots_def pool_ok_def)
qed

lemma stop_core_links [simp]:
  "stop_core (n\<lparr>st_prev := a\<rparr>) = stop_core n" "stop_core (n\<lparr>st_next := b\<rparr>) = stop_core n"
  "stop_core (n\<lparr>st_level := c\<rparr>) = stop_core n" "stop_core (stop_core n) = stop_core n"
  by (simp_all add: stop_core_def)

lemma stop_core_eqD:
  assumes "stop_core n' = stop_core n"
  shows "st_OrderID n' = st_OrderID n" "st_UserID n' = st_UserID n" "st_Side n' = st_Side n"
    "st_TriggerPrice n' = st_TriggerPrice n" "st_ExpireAt n' = st_ExpireAt n"
    "st_PoolIndex n' = st_PoolIndex n"
  using arg_cong [OF assms, of st_OrderID] arg_cong [OF assms, of st_UserID]
    arg_cong [OF assms, of st_Side] arg_cong [OF assms, of st_TriggerPrice]
    arg_cong [OF assms, of st_ExpireAt] arg_cong [OF assms, of st_PoolIndex]
  by (simp_all add: stop_core_def)

subsection \<open>A stop level is a FIFO queue\<close>

definition stop_level_rep :: "stop_heap \<Rightarrow> Decimal \<Rightarrow> nat \<Rightarrow> nat list \<Rightarrow> bool" where
  "stop_level_rep h p l q \<longleftrightarrow>
     l < slevels_n h \<and> (\<forall>i\<in>set q. i < snodes_n h) \<and> distinct q \<and>
     slevel h l = \<lparr>sl_Price = p, sl_Head = first q None, sl_Tail = final q None,
                   sl_OrderCount = int (length q), sl_PoolIndex = l\<rparr> \<and>
     linked (\<lambda>i. st_prev (snode h i)) (\<lambda>i. st_next (snode h i)) None q None \<and>
     (\<forall>i\<in>set q. st_level (snode h i) = Some l)"

lemma stop_level_repD:
  assumes "stop_level_rep h p l q"
  shows "l < slevels_n h" "\<And>i. i \<in> set q \<Longrightarrow> i < snodes_n h" "distinct q"
    "slevel h l = \<lparr>sl_Price = p, sl_Head = first q None, sl_Tail = final q None,
                   sl_OrderCount = int (length q), sl_PoolIndex = l\<rparr>"
    "linked (\<lambda>i. st_prev (snode h i)) (\<lambda>i. st_next (snode h i)) None q None"
    "\<And>i. i \<in> set q \<Longrightarrow> st_level (snode h i) = Some l"
  using assms by (auto simp: stop_level_rep_def)

definition only_stop :: "nat \<Rightarrow> nat set \<Rightarrow> stop_heap \<Rightarrow> stop_heap \<Rightarrow> bool" where
  "only_stop l q h h' \<longleftrightarrow>
     stop_frame h' = stop_frame h \<and> (\<forall>k. k \<noteq> l \<longrightarrow> slevel h' k = slevel h k) \<and>
     (\<forall>j. j \<notin> q \<longrightarrow> snode h' j = snode h j) \<and> (\<forall>j. stop_core (snode h' j) = stop_core (snode h j))"

lemma stop_level_rep_frame:
  assumes "stop_level_rep h p l q" and "slevel h' l = slevel h l"
    and "\<And>i. i \<in> set q \<Longrightarrow> snode h' i = snode h i"
    and "snodes_n h' = snodes_n h" and "slevels_n h' = slevels_n h"
  shows "stop_level_rep h' p l q"
proof -
  have "linked (\<lambda>i. st_prev (snode h' i)) (\<lambda>i. st_next (snode h' i)) None q None =
      linked (\<lambda>i. st_prev (snode h i)) (\<lambda>i. st_next (snode h i)) None q None"
    using assms(3) by (intro linked_cong) simp
  then show ?thesis using assms by (simp add: stop_level_rep_def)
qed

lemma only_stop_rep:
  assumes "only_stop l q h h'" and "stop_level_rep h p k r" and "k \<noteq> l" and "set r \<inter> q = {}"
  shows "stop_level_rep h' p k r"
  using assms stop_frame_sizes [of h' h]
  by (intro stop_level_rep_frame [OF assms(2)]) (auto simp: only_stop_def)

lemma Append_stop_ok:
  assumes rep: "stop_level_rep h p l q" and i: "i < snodes_n h" "i \<notin> set q"
  shows "stop_level_rep (Append_stop l i h) p l (q @ [i])"
    "only_stop l (insert i (set q)) h (Append_stop l i h)"
proof -
  note r = stop_level_repD [OF rep]
  let ?h = "Append_stop l i h"
  have eff: "snode ?h = (\<lambda>j. if j = i then (snode h i)\<lparr>st_prev := final q None, st_next := None, st_level := Some l\<rparr>
                         else if q \<noteq> [] \<and> j = last q then (snode h j)\<lparr>st_next := Some i\<rparr>
                         else snode h j) \<and>
      slevel ?h = (slevel h)(l := \<lparr>sl_Price = p, sl_Head = first (q @ [i]) None, sl_Tail = Some i,
                   sl_OrderCount = int (length q) + 1, sl_PoolIndex = l\<rparr>) \<and> stop_frame ?h = stop_frame h"
  proof (cases q rule: rev_cases)
    case Nil
    then show ?thesis using r(1,4) i by (simp add: Append_stop_def stop_simps fun_eq_iff)
  next
    case (snoc qs t)
    then show ?thesis
      using r(1,2,4) i by (simp add: Append_stop_def stop_simps fun_eq_iff first_append)
  qed
  then have nodes: "snode ?h j = (if j = i then (snode h i)\<lparr>st_prev := final q None, st_next := None, st_level := Some l\<rparr>
                         else if q \<noteq> [] \<and> j = last q then (snode h j)\<lparr>st_next := Some i\<rparr>
                         else snode h j)" for j by simp
  have fr: "stop_frame ?h = stop_frame h" using eff by blast
  have inq: "q \<noteq> [] \<Longrightarrow> last q \<in> set q" by simp
  have "linked (\<lambda>j. st_prev (snode ?h j)) (\<lambda>j. st_next (snode ?h j)) None (q @ [i]) None"
    by (rule linked_snoc [OF r(5,3) i(2)]) (use i in \<open>auto simp: nodes\<close>)
  then show "stop_level_rep ?h p l (q @ [i])"
    using r i eff stop_frame_sizes [OF fr] by (simp add: stop_level_rep_def)
  have "snode ?h j = snode h j" if "j \<notin> insert i (set q)" for j
  proof -
    have "j \<noteq> i" "\<not> (q \<noteq> [] \<and> j = last q)" using that inq by auto
    then show ?thesis using nodes [of j] by (simp only: if_False)
  qed
  then show "only_stop l (insert i (set q)) h ?h"
    using eff by (simp add: only_stop_def)
qed

lemma Unlink_stop_ok:
  assumes rep: "stop_level_rep h p l (q1 @ i # q2)"
  shows "stop_level_rep (Unlink_stop l i h) p l (q1 @ q2)"
    "only_stop l (set (q1 @ i # q2)) h (Unlink_stop l i h)"
proof -
  note r = stop_level_repD [OF rep]
  let ?h = "Unlink_stop l i h"
  have pv: "st_prev (snode h i) = final q1 None" and nx: "st_next (snode h i) = first q2 None"
    using linked_middle [OF r(5)] by auto
  have eff: "snode ?h = (\<lambda>j. if j = i then (snode h i)\<lparr>st_prev := None, st_next := None, st_level := None\<rparr>
      else let n = (if q1 \<noteq> [] \<and> j = last q1 then (snode h j)\<lparr>st_next := first q2 None\<rparr> else snode h j)
      in if q2 \<noteq> [] \<and> j = hd q2 then n\<lparr>st_prev := final q1 None\<rparr> else n) \<and>
      slevel ?h = (slevel h)(l := \<lparr>sl_Price = p, sl_Head = first (q1 @ q2) None, sl_Tail = final (q1 @ q2) None,
                   sl_OrderCount = int (length (q1 @ q2)), sl_PoolIndex = l\<rparr>) \<and> stop_frame ?h = stop_frame h"
  proof -
    consider (nn) "q1 = []" "q2 = []" | (np) y ys where "q1 = []" "q2 = y # ys"
      | (pn) x xs where "q1 = xs @ [x]" "q2 = []"
      | (pp) x xs y ys where "q1 = xs @ [x]" "q2 = y # ys"
      by (cases q1 rule: rev_cases; cases q2) auto
    then show ?thesis
      using r(1,2,3,4)
      by cases (simp_all add: Unlink_stop_def pv nx stop_simps fun_eq_iff first_append final_def)
  qed
  then have nodes: "snode ?h j =
      (if j = i then (snode h i)\<lparr>st_prev := None, st_next := None, st_level := None\<rparr>
      else let n = (if q1 \<noteq> [] \<and> j = last q1 then (snode h j)\<lparr>st_next := first q2 None\<rparr> else snode h j)
      in if q2 \<noteq> [] \<and> j = hd q2 then n\<lparr>st_prev := final q1 None\<rparr> else n)" for j by simp
  have fr: "stop_frame ?h = stop_frame h" using eff by blast
  have in1: "q1 \<noteq> [] \<Longrightarrow> last q1 \<in> set q1" and in2: "q2 \<noteq> [] \<Longrightarrow> hd q2 \<in> set q2" by simp_all
  have disj: "set q1 \<inter> set q2 = {}" "i \<notin> set q1" "i \<notin> set q2" using r(3) by auto
  have n1: "snode ?h j = (if j = last q1 then (snode h j)\<lparr>st_next := first q2 None\<rparr> else snode h j)"
    if "j \<in> set q1" for j
  proof -
    have "q1 \<noteq> []" "j \<noteq> i" "\<not> (q2 \<noteq> [] \<and> j = hd q2)" using that disj(1,2) in2 by (cases q1; fastforce)+
    then show ?thesis using nodes [of j] by (simp only: if_False Let_def) simp
  qed
  have n2: "snode ?h j = (if j = hd q2 then (snode h j)\<lparr>st_prev := final q1 None\<rparr> else snode h j)"
    if "j \<in> set q2" for j
  proof -
    have "q2 \<noteq> []" "j \<noteq> i" "\<not> (q1 \<noteq> [] \<and> j = last q1)" using that disj(1,3) in1 by (cases q2; fastforce)+
    then show ?thesis using nodes [of j] by (simp only: if_False Let_def) simp
  qed
  have lnk: "linked (\<lambda>j. st_prev (snode ?h j)) (\<lambda>j. st_next (snode ?h j)) None (q1 @ q2) None"
    by (rule linked_unlink [OF r(5,3)]) (simp_all add: n1 n2)
  have lvl: "st_level (snode ?h j) = Some l" if "j \<in> set (q1 @ q2)" for j
    using that r(6) [of j] n1 [of j] n2 [of j] by auto
  show "stop_level_rep ?h p l (q1 @ q2)"
    unfolding stop_level_rep_def
    using r(1,2,3) eff lnk lvl stop_frame_sizes [OF fr] by auto
  have "snode ?h j = snode h j" if "j \<notin> set (q1 @ i # q2)" for j
  proof -
    have "j \<noteq> i" "\<not> (q1 \<noteq> [] \<and> j = last q1)" "\<not> (q2 \<noteq> [] \<and> j = hd q2)" using that in1 in2 by auto
    then show ?thesis using nodes [of j] by (simp only: if_False Let_def)
  qed
  moreover have "stop_core (snode ?h j) = stop_core (snode h j)" for j
    by (simp add: nodes Let_def)
  ultimately show "only_stop l (set (q1 @ i # q2)) h ?h"
    using eff by (simp add: only_stop_def)
qed

end
