(* ===== verification/Stop_Book.thy ===== *)
theory Stop_Book
  imports Stop_Heap Price_Tree
begin

section \<open>The stop book (\<open>stopbook/stopbook.go\<close>)\<close>

text \<open>
  \<open>StopBook\<close> keeps the pending stop orders: the stop sells in a tree from the highest trigger
  price down, the stop buys from the lowest up, both as queues per trigger price, with an
  index by order id.  The component selects a tree with \<open>node.Side == types.Ask\<close>: the
  stop sells for \<open>True\<close>.
\<close>

record TriggeredOrder =
  to_OrderID :: OrderID
  to_UserID :: UserID
  to_MarketID :: MarketID
  to_Side :: Side
  to_ConvertTo :: OrderType
  to_LimitPrice :: Decimal
  to_Qty :: Decimal
  to_TIF :: TIF
  to_Flags :: OrderFlags
  to_STPMode :: STPMode

datatype stop_error = ErrCascadeLimit | ErrStopOrderNotFound | ErrStopOwnershipMismatch

record 't StopBook =
  sb_stopSells :: 't
  sb_stopBuys :: 't
  sb_index :: "OrderID \<rightharpoonup> nat"
  sb_heap :: stop_heap
  sb_maxDepth :: int

text \<open>The comparators: \<open>sellLess\<close> and \<open>buyLess\<close>.\<close>

definition stop_less :: "bool \<Rightarrow> Decimal \<Rightarrow> Decimal \<Rightarrow> bool option" where
  "stop_less x = (if x then GreaterThan else LessThan)"

definition NewStopBook :: "'t btree_fns \<Rightarrow> stop_heap \<Rightarrow> int \<Rightarrow> 't StopBook" where
  "NewStopBook B h maxCascadeDepth =
     \<lparr>sb_stopSells = bt_new B (stop_less True), sb_stopBuys = bt_new B (stop_less False),
      sb_index = Map.empty, sb_heap = h, sb_maxDepth = maxCascadeDepth\<rparr>"

abbreviation sb_node :: "'t StopBook \<Rightarrow> nat \<Rightarrow> StopNode" where
  "sb_node s \<equiv> snode (sb_heap s)"

abbreviation sb_level :: "'t StopBook \<Rightarrow> nat \<Rightarrow> StopLevel" where
  "sb_level s \<equiv> slevel (sb_heap s)"

definition stop_tree :: "bool \<Rightarrow> 't StopBook \<Rightarrow> 't" where
  "stop_tree x s = (if x then sb_stopSells s else sb_stopBuys s)"

definition set_stop_tree :: "bool \<Rightarrow> 't \<Rightarrow> 't StopBook \<Rightarrow> 't StopBook" where
  "set_stop_tree x t s = (if x then s\<lparr>sb_stopSells := t\<rparr> else s\<lparr>sb_stopBuys := t\<rparr>)"

definition AcquireNode :: "'t StopBook \<Rightarrow> pool_error + ('t StopBook \<times> nat)" where
  "AcquireNode s =
     (case Acquire zeroStopNode (sh_nodes (sb_heap s)) of
        Inl err \<Rightarrow> Inl err
      | Inr (p, idx) \<Rightarrow> Inr (s\<lparr>sb_heap := (sb_heap s)\<lparr>sh_nodes := p\<rparr>\<rparr>, idx))"

definition ReleaseNode :: "nat \<Rightarrow> 't StopBook \<Rightarrow> 't StopBook option" where
  "ReleaseNode idx s = do {
     p \<leftarrow> Release idx (sh_nodes (sb_heap s));
     Some (s\<lparr>sb_heap := (sb_heap s)\<lparr>sh_nodes := p\<rparr>\<rparr>) }"

definition dropStopLevel :: "'t btree_fns \<Rightarrow> bool \<Rightarrow> nat \<Rightarrow> 't StopBook \<Rightarrow> 't StopBook option" where
  "dropStopLevel B x l s = do {
     t \<leftarrow> bt_delete B (sl_Price (sb_level s l)) (stop_tree x s);
     let s = set_stop_tree x t s;
     p \<leftarrow> Release (sl_PoolIndex (sb_level s l)) (sh_levels (sb_heap s));
     Some (s\<lparr>sb_heap := (sb_heap s)\<lparr>sh_levels := p\<rparr>\<rparr>) }"

text \<open>Adding a stop panics when a new level is needed and the level pool is exhausted.\<close>

definition AddStop :: "'t btree_fns \<Rightarrow> nat \<Rightarrow> 't StopBook \<Rightarrow> 't StopBook option" where
  "AddStop B i s = do {
     let n = sb_node s i;
     let s = s\<lparr>sb_index := (sb_index s)(st_OrderID n \<mapsto> i)\<rparr>;
     let x = (st_Side n = Ask);
     existing \<leftarrow> bt_get B (st_TriggerPrice n) (stop_tree x s);
     (l, s) \<leftarrow> (case existing of
         Some l \<Rightarrow> Some (l, s)
       | None \<Rightarrow>
           (case Acquire zeroStopLevel (sh_levels (sb_heap s)) of
              Inl err \<Rightarrow> None
            | Inr (p, idx) \<Rightarrow> do {
                let h = (sb_heap s)\<lparr>sh_levels := p\<rparr>;
                let h = set_slevel idx (\<lambda>v. v\<lparr>sl_PoolIndex := idx\<rparr>) h;
                let h = set_slevel idx (\<lambda>v. v\<lparr>sl_Price := st_TriggerPrice n\<rparr>) h;
                t \<leftarrow> bt_set B (sl_Price (slevel h idx)) idx (stop_tree x s);
                Some (idx, set_stop_tree x t (s\<lparr>sb_heap := h\<rparr>)) }));
     Some (s\<lparr>sb_heap := Append_stop l i (sb_heap s)\<rparr>) }"

text \<open>Take a stop out of its level, and the level out of its tree when it becomes empty.\<close>

definition removeStop :: "'t btree_fns \<Rightarrow> nat \<Rightarrow> 't StopBook \<Rightarrow> 't StopBook option" where
  "removeStop B i s = do {
     l \<leftarrow> st_level (sb_node s i);
     let s = s\<lparr>sb_heap := Unlink_stop l i (sb_heap s)\<rparr>;
     if IsEmpty_stop (sb_level s l) then dropStopLevel B (st_Side (sb_node s i) = Ask) l s else Some s }"

definition CancelStop :: "'t btree_fns \<Rightarrow> OrderID \<Rightarrow> UserID \<Rightarrow> 't StopBook \<Rightarrow>
    (stop_error + nat \<times> 't StopBook) option" where
  "CancelStop B orderID userID s =
     (case sb_index s orderID of
        None \<Rightarrow> Some (Inl ErrStopOrderNotFound)
      | Some i \<Rightarrow>
          if st_UserID (sb_node s i) \<noteq> userID then Some (Inl ErrStopOwnershipMismatch)
          else do {
            let s = s\<lparr>sb_index := (sb_index s)(orderID := None)\<rparr>;
            s \<leftarrow> removeStop B i s;
            Some (Inr (i, s)) })"

definition Has_stop :: "OrderID \<Rightarrow> 't StopBook \<Rightarrow> bool" where
  "Has_stop orderID s \<longleftrightarrow> sb_index s orderID \<noteq> None"

definition Len_stop :: "'t StopBook \<Rightarrow> int" where
  "Len_stop s = int (card (dom (sb_index s)))"

subsection \<open>Triggers\<close>

definition convertToTriggered :: "StopNode \<Rightarrow> TriggeredOrder" where
  "convertToTriggered n =
     \<lparr>to_OrderID = st_OrderID n, to_UserID = st_UserID n, to_MarketID = st_MarketID n,
      to_Side = st_Side n, to_ConvertTo = st_ConvertTo n, to_LimitPrice = st_LimitPrice n,
      to_Qty = st_Qty n, to_TIF = st_TIF n, to_Flags = st_Flags n, to_STPMode = st_STPMode n\<rparr>"

text \<open>A stop sell fires at or below its trigger price, a stop buy at or above.\<close>

definition reached :: "bool \<Rightarrow> Decimal \<Rightarrow> Decimal \<Rightarrow> bool option" where
  "reached x lastTradePrice trigger =
     (if x then LessThanOrEqual lastTradePrice trigger else GreaterThanOrEqual lastTradePrice trigger)"

text \<open>The inner loop follows the \<open>next\<close> pointers of one level.\<close>

partial_function (option) drain_level :: "nat option \<Rightarrow> TriggeredOrder list \<Rightarrow> 't StopBook \<Rightarrow>
    (TriggeredOrder list \<times> 't StopBook) option" where
  "drain_level nd triggered s =
     (case nd of
        None \<Rightarrow> Some (triggered, s)
      | Some i \<Rightarrow>
          let n = sb_node s i
          in Option.bind (ReleaseNode (st_PoolIndex n)
                 (s\<lparr>sb_index := (sb_index s)(st_OrderID n := None)\<rparr>))
               (\<lambda>s'. drain_level (st_next n) (triggered @ [convertToTriggered n]) s'))"

text \<open>The outer loop takes the best level as long as its trigger price is reached.\<close>

partial_function (option) fire_side :: "'t btree_fns \<Rightarrow> bool \<Rightarrow> Decimal \<Rightarrow> TriggeredOrder list \<Rightarrow>
    't StopBook \<Rightarrow> (TriggeredOrder list \<times> 't StopBook) option" where
  "fire_side B x lastTradePrice triggered s =
     (case bt_min B (stop_tree x s) of
        None \<Rightarrow> Some (triggered, s)
      | Some (p, l) \<Rightarrow>
          Option.bind (reached x lastTradePrice (sl_Price (sb_level s l))) (\<lambda>c.
            if \<not> c then Some (triggered, s)
            else Option.bind (drain_level (sl_Head (sb_level s l)) triggered s) (\<lambda>(triggered', s').
              Option.bind (dropStopLevel B x l s') (\<lambda>s''.
                fire_side B x lastTradePrice triggered' s''))))"

declare drain_level.simps [code]
declare fire_side.simps [code]

definition CheckTriggers :: "'t btree_fns \<Rightarrow> Decimal \<Rightarrow> int \<Rightarrow> 't StopBook \<Rightarrow>
    (stop_error + TriggeredOrder list \<times> 't StopBook) option" where
  "CheckTriggers B lastTradePrice depth s =
     (if sb_maxDepth s \<le> depth then Some (Inl ErrCascadeLimit)
      else do {
        (triggered, s) \<leftarrow> fire_side B True lastTradePrice [] s;
        (triggered, s) \<leftarrow> fire_side B False lastTradePrice triggered s;
        Some (Inr (triggered, s)) })"

subsection \<open>Expiry\<close>

text \<open>The code collects the due stops first (in the order \<open>ids\<close> in which the run visits the
  map) and removes them in a second loop.\<close>

definition due_stop :: "i64 \<Rightarrow> StopNode \<Rightarrow> bool" where
  "due_stop now n \<longleftrightarrow> \<not> (sint (st_ExpireAt n) \<le> 0 \<or> sint now < sint (st_ExpireAt n))"

definition expired_stops :: "OrderID list \<Rightarrow> i64 \<Rightarrow> 't StopBook \<Rightarrow> nat list" where
  "expired_stops ids now s = filter (\<lambda>i. due_stop now (sb_node s i)) (List.map_filter (sb_index s) ids)"

fun remove_expired :: "'t btree_fns \<Rightarrow> nat list \<Rightarrow> 't StopBook \<Rightarrow> 't StopBook option" where
  "remove_expired B [] s = Some s"
| "remove_expired B (i # is) s = do {
     let s = s\<lparr>sb_index := (sb_index s)(st_OrderID (sb_node s i) := None)\<rparr>;
     s \<leftarrow> removeStop B i s;
     remove_expired B is s }"

definition ExpireGTD_stop :: "'t btree_fns \<Rightarrow> OrderID list \<Rightarrow> i64 \<Rightarrow> 't StopBook \<Rightarrow> (nat list \<times> 't StopBook) option" where
  "ExpireGTD_stop B ids now s = do {
     let expired = expired_stops ids now s;
     s \<leftarrow> remove_expired B expired s;
     Some (expired, s) }"

end
