(* ===== verification/Stop_Inv.thy ===== *)
theory Stop_Inv
  imports Stop_Book Book_Inv
begin

section \<open>The invariant of the stop book\<close>

text \<open>
  As for the order book: \<open>stop_rep B pp s G X\<close> says that \<open>s\<close> represents, per side, the list
  \<open>G x\<close> of trigger levels with their queues, while the slots \<open>X\<close> are acquired but hold no
  pending stop.  Each primitive step of the operations is described by what it does to \<open>G\<close>.
\<close>

definition stop_order :: "bool \<Rightarrow> Decimal \<Rightarrow> nat \<Rightarrow> StopNode \<Rightarrow> bool" where
  "stop_order x p i n \<longleftrightarrow> st_TriggerPrice n = p \<and> (st_Side n = Ask) = x \<and> st_PoolIndex n = i"

definition stop_levels_rep :: "stop_heap \<Rightarrow> bool \<Rightarrow> glevel list \<Rightarrow> bool" where
  "stop_levels_rep h x g \<longleftrightarrow>
     (\<forall>(p, l, q)\<in>set g. stop_level_rep h p l q \<and> (\<forall>i\<in>set q. stop_order x p i (snode h i)))"

definition stop_tree_rep :: "'t btree_fns \<Rightarrow> bool \<Rightarrow> u8 \<Rightarrow> 't \<Rightarrow> (Decimal \<times> nat) list \<Rightarrow> bool" where
  "stop_tree_rep B x pp t es \<longleftrightarrow> built B (stop_less x) (prices pp) t \<and> bt_scan B t = es"

abbreviation stop_ids :: "stop_heap \<Rightarrow> nat \<Rightarrow> OrderID" where
  "stop_ids h \<equiv> \<lambda>i. st_OrderID (snode h i)"

definition stop_pools :: "stop_heap \<Rightarrow> nat set \<Rightarrow> nat set \<Rightarrow> bool" where
  "stop_pools h ns ls \<longleftrightarrow> pool_ok (sh_nodes h) \<and> pool_ok (sh_levels h) \<and>
     used_slots (sh_nodes h) = ns \<and> used_slots (sh_levels h) = ls"

definition stop_rep :: "'t btree_fns \<Rightarrow> u8 \<Rightarrow> 't StopBook \<Rightarrow> ghost \<Rightarrow> nat set \<Rightarrow> bool" where
  "stop_rep B pp s G X \<longleftrightarrow>
     (\<forall>x. stop_tree_rep B x pp (stop_tree x s) (entries (G x)) \<and> stop_levels_rep (sb_heap s) x (G x)) \<and>
     disjoint_ghost G \<and> X \<inter> all_nodes G = {} \<and>
     index_on (sb_index s) (stop_ids (sb_heap s)) (all_nodes G) \<and>
     stop_pools (sb_heap s) (all_nodes G \<union> X) (all_slots G)"

definition full_levels :: "ghost \<Rightarrow> bool" where
  "full_levels G \<longleftrightarrow> (\<forall>x. \<forall>(p, l, q)\<in>set (G x). q \<noteq> [])"

text \<open>The invariant: prices of precision \<open>pp\<close>, the slots \<open>X\<close> held by the caller.\<close>

definition stop_ok :: "'t btree_fns \<Rightarrow> u8 \<Rightarrow> 't StopBook \<Rightarrow> nat set \<Rightarrow> bool" where
  "stop_ok B pp s X \<longleftrightarrow> (\<exists>G. stop_rep B pp s G X \<and> full_levels G)"

lemma stop_repD:
  assumes "stop_rep B pp s G X"
  shows "stop_tree_rep B x pp (stop_tree x s) (entries (G x))" "stop_levels_rep (sb_heap s) x (G x)"
    "disjoint_ghost G" "X \<inter> all_nodes G = {}"
    "index_on (sb_index s) (stop_ids (sb_heap s)) (all_nodes G)"
    "stop_pools (sb_heap s) (all_nodes G \<union> X) (all_slots G)"
  using assms by (auto simp: stop_rep_def)

lemma stop_repI:
  assumes "\<And>x. stop_tree_rep B x pp (stop_tree x s) (entries (G x))"
    "\<And>x. stop_levels_rep (sb_heap s) x (G x)"
    "disjoint_ghost G" "X \<inter> all_nodes G = {}"
    "index_on (sb_index s) (stop_ids (sb_heap s)) (all_nodes G)"
    "stop_pools (sb_heap s) (all_nodes G \<union> X) (all_slots G)"
  shows "stop_rep B pp s G X"
  using assms by (auto simp: stop_rep_def)

lemma stop_tree_simps [simp]:
  "stop_tree x (s\<lparr>sb_heap := h\<rparr>) = stop_tree x s" "stop_tree x (s\<lparr>sb_index := m\<rparr>) = stop_tree x s"
  "stop_tree y (set_stop_tree x t s) = (if x = y then t else stop_tree y s)"
  "sb_heap (set_stop_tree x t s) = sb_heap s" "sb_index (set_stop_tree x t s) = sb_index s"
  "sb_maxDepth (set_stop_tree x t s) = sb_maxDepth s"
  by (auto simp: stop_tree_def set_stop_tree_def)

text \<open>The stop sells are ordered as bids are, the stop buys as asks are.\<close>

lemma stop_less_tree_less: "stop_less x = tree_less (side_of x)"
  by (simp add: stop_less_def tree_less_def side_of_def)

lemma stop_levels_repD:
  assumes "stop_levels_rep h x g" and "(p, l, q) \<in> set g"
  shows "stop_level_rep h p l q" "i \<in> set q \<Longrightarrow> stop_order x p i (snode h i)"
  using assms by (auto simp: stop_levels_rep_def)

lemma stop_order_core: "stop_core n' = stop_core n \<Longrightarrow> stop_order x p i n \<Longrightarrow> stop_order x p i n'"
  using stop_core_eqD [of n' n] by (simp add: stop_order_def)

lemma stop_poolsD:
  assumes "stop_pools h ns ls"
  shows "i \<in> ns \<Longrightarrow> i < snodes_n h" "l \<in> ls \<Longrightarrow> l < slevels_n h"
  using assms used_slots_bound by (fastforce simp: stop_pools_def pool_ok_def)+

subsection \<open>The library on a stop tree\<close>

text \<open>A stop tree is the tree of a side of the book without its counter.\<close>

definition as_side :: "bool \<Rightarrow> (Decimal \<times> nat) list \<Rightarrow> 't \<Rightarrow> 't PriceLevelTree" where
  "as_side x es t = \<lparr>t_tree = t, t_side = side_of x, t_count = int (length es)\<rparr>"

lemma as_side_rep: "tree_rep B (side_of x) pp (as_side x es t) es \<longleftrightarrow> stop_tree_rep B x pp t es"
  by (auto simp: tree_rep_def as_side_def stop_tree_rep_def stop_less_tree_less)

lemma stop_tree_get:
  assumes "price_index B" and "stop_tree_rep B x pp t es" and "d_precision p = pp"
  shows "bt_get B p t = Some (map_of es p)"
  using price_index.Get_ok [OF assms(1) _ assms(3), of "side_of x" "as_side x es t" es] assms(2)
  unfolding as_side_rep by (simp add: Get_def as_side_def)

lemma stop_tree_min:
  assumes "price_index B" and "stop_tree_rep B x pp t es"
  shows "bt_min B t = (case es of [] \<Rightarrow> None | e # _ \<Rightarrow> Some e)"
  using assms btree.min_entries [OF price_index.axioms [OF assms(1)] tree_less_orders, of "side_of x" pp t]
  by (simp add: stop_tree_rep_def stop_less_tree_less)

lemma stop_tree_delete:
  assumes "price_index B" and "stop_tree_rep B x pp t (es @ (p, l) # fs)"
  shows "\<exists>t'. bt_delete B p t = Some t' \<and> stop_tree_rep B x pp t' (es @ fs)"
proof -
  let ?T = "as_side x (es @ (p, l) # fs) t"
  obtain T' where T': "Delete B p ?T = Some T'" "tree_rep B (side_of x) pp T' (es @ fs)"
    using price_index.Delete_ok [OF assms(1), of "side_of x" pp ?T es p l fs] assms(2)
    unfolding as_side_rep by blast
  then obtain t' where "bt_delete B p t = Some t'" "t_tree T' = t'"
    by (auto simp: Delete_def as_side_def bind_Some_iff)
  then show ?thesis using T'(2) by (auto simp: tree_rep_def stop_tree_rep_def stop_less_tree_less)
qed

lemma stop_tree_set:
  assumes "price_index B" and "stop_tree_rep B x pp t es" and "d_precision p = pp" and "p \<notin> fst ` set es"
  shows "\<exists>t'. bt_set B p l t = Some t' \<and> stop_tree_rep B x pp t' (entries_set (tree_less (side_of x)) p l es)"
proof -
  let ?T = "as_side x es t"
  obtain T' where T': "Insert B p l ?T = Some T'" "tree_rep B (side_of x) pp T' (entries_set (tree_less (side_of x)) p l es)"
    using price_index.Insert_ok [OF assms(1) _ assms(3,4), of "side_of x" ?T l] assms(2)
    unfolding as_side_rep by blast
  then obtain t' where "bt_set B p l t = Some t'" "t_tree T' = t'"
    by (auto simp: Insert_def as_side_def bind_Some_iff)
  then show ?thesis using T'(2) by (auto simp: tree_rep_def stop_tree_rep_def stop_less_tree_less)
qed

lemma stop_tree_keys:
  assumes "price_index B" and "stop_tree_rep B x pp t es"
  shows "fst ` set es \<subseteq> prices pp" "distinct (map fst es)"
    "sorted_wrt (\<lambda>a b. stop_less x a b = Some True) (map fst es)"
  using price_index.tree_keys [OF assms(1), of "side_of x" pp "as_side x es t" es] assms(2)
  unfolding as_side_rep stop_less_tree_less by blast+

subsection \<open>One level changes\<close>

lemma stop_levels_frame:
  assumes "stop_levels_rep h x g" and "slevel h' = slevel h" and "snode h' = snode h"
    and "snodes_n h' = snodes_n h" and "slevels_n h' = slevels_n h"
  shows "stop_levels_rep h' x g"
  using assms by (simp add: stop_levels_rep_def stop_level_rep_def)

lemma stop_levels_only:
  assumes "stop_levels_rep h x g" and "only_stop l Q h h'"
    and "l \<notin> set (level_slots g)" and "set (level_nodes g) \<inter> Q = {}"
  shows "stop_levels_rep h' x g"
  unfolding stop_levels_rep_def
proof (clarify, intro conjI ballI)
  fix p k r assume kr: "(p, k, r) \<in> set g"
  then have k: "k \<noteq> l" "set r \<inter> Q = {}"
    using assms(3,4) by (force simp: level_slots_def level_nodes_def)+
  then show "stop_level_rep h' p k r"
    using only_stop_rep [OF assms(2) stop_levels_repD(1) [OF assms(1) kr]] by simp
  show "stop_order x p i (snode h' i)" if "i \<in> set r" for i
    using stop_levels_repD(2) [OF assms(1) kr that] assms(2) k that by (auto simp: only_stop_def)
qed

lemma stop_rep_level_facts:
  assumes rep: "stop_rep B pp s G X" and G: "G x = A @ (p, l, q) # C"
  shows "stop_level_rep (sb_heap s) p l q"
    "\<And>i. i \<in> set q \<Longrightarrow> stop_order x p i (sb_node s i)"
    "\<And>i. i \<in> set q \<Longrightarrow> sb_index s (st_OrderID (sb_node s i)) = Some i"
    "set q \<subseteq> all_nodes G" "set q \<inter> X = {}" "l \<in> all_slots G"
proof -
  note r = stop_repD [OF rep]
  have m: "(p, l, q) \<in> set (G x)" by (simp add: G)
  show "stop_level_rep (sb_heap s) p l q"
    "\<And>i. i \<in> set q \<Longrightarrow> stop_order x p i (sb_node s i)"
    using stop_levels_repD [OF r(2) m] by auto
  show a: "set q \<subseteq> all_nodes G" using all_nodes_in [of p l q G x] m by auto
  then show "\<And>i. i \<in> set q \<Longrightarrow> sb_index s (st_OrderID (sb_node s i)) = Some i"
    using r(5) by (auto simp: index_on_def)
  show "set q \<inter> X = {}" using a r(4) by auto
  show "l \<in> all_slots G" using all_slots_in m by blast
qed

lemma stop_rep_level:
  assumes rep: "stop_rep B pp s G X" and G: "G x = A @ (p, l, q) # C"
    and only: "only_stop l (set q \<union> Y) (sb_heap s) h'" and Y: "Y \<subseteq> X"
    and lev: "stop_level_rep h' p l q'"
    and ord: "\<And>i. i \<in> set q' \<Longrightarrow> stop_order x p i (snode h' i)"
    and q': "set q' \<union> X' = set q \<union> X" "set q' \<inter> X' = {}"
    and X': "X' \<inter> (all_nodes G - set q) = {}"
    and idx: "index_on m (stop_ids h') (all_nodes (G(x := A @ (p, l, q') # C)))"
  shows "stop_rep B pp (s\<lparr>sb_heap := h', sb_index := m\<rparr>) (G(x := A @ (p, l, q') # C)) X'"
proof -
  let ?G = "G(x := A @ (p, l, q') # C)" and ?s = "s\<lparr>sb_heap := h', sb_index := m\<rparr>"
  note r = stop_repD [OF rep]
  have dist: "distinct (level_nodes (G x) @ level_nodes (G (\<not> x)))"
    "distinct (level_slots (G x) @ level_slots (G (\<not> x)))"
    using r(3) by (simp_all add: disjoint_ghost_side [of _ x])
  have disjX: "set (level_nodes (G y)) \<inter> X = {}" for y
    using r(4) by (cases "y = x") (auto simp: all_nodes_side [of _ x])
  have sub: "set q' \<subseteq> set q \<union> X" using q'(1) by auto
  have dq': "distinct q'" using stop_level_repD(3) [OF lev] .
  have ents: "entries (?G y) = entries (G y)" for y by (cases "y = x") (simp_all add: G)
  have slots: "level_slots (?G y) = level_slots (G y)" for y by (cases "y = x") (simp_all add: G)
  have nodes: "all_nodes ?G = (all_nodes G - set q) \<union> set q'"
    using dist sub disjX by (auto simp: all_nodes_side [of _ x] G)
  have other: "set (level_nodes g) \<inter> (set q \<union> Y) = {}" "l \<notin> set (level_slots g)"
    if "g = A \<or> g = C \<or> g = G (\<not> x)" for g
    using that dist disjX [of x] disjX [of "\<not> x"] Y by (auto simp: G)
  have frame: "stop_levels_rep h' y g"
    if "stop_levels_rep (sb_heap s) y g" "g = A \<or> g = C \<or> g = G (\<not> x)" for y g
    using stop_levels_only [OF that(1) only] other [OF that(2)] by simp
  show ?thesis
  proof (rule stop_repI)
    fix y
    show "stop_tree_rep B y pp (stop_tree y ?s) (entries (?G y))"
      unfolding ents using r(1) [of y] by simp
    show "stop_levels_rep (sb_heap ?s) y (?G y)"
    proof (cases "y = x")
      case True
      have "stop_levels_rep (sb_heap s) x A" "stop_levels_rep (sb_heap s) x C"
        using r(2) [of x] by (auto simp: stop_levels_rep_def G)
      then have "stop_levels_rep h' x A" "stop_levels_rep h' x C" using frame by auto
      then show ?thesis using True lev ord by (auto simp: stop_levels_rep_def)
    next
      case False
      then have "y = (\<not> x)" by auto
      then show ?thesis using frame [OF r(2) [of "\<not> x"]] by simp
    qed
  next
    have "distinct (level_nodes (?G x) @ level_nodes (?G (\<not> x)))"
      using dist(1) dq' sub disjX [of x] disjX [of "\<not> x"] by (auto simp: G)
    then show "disjoint_ghost ?G"
      using dist(2) slots by (simp only: disjoint_ghost_side [of _ x])
    show "X' \<inter> all_nodes ?G = {}" using q'(2) X' by (auto simp: nodes)
    show "index_on (sb_index ?s) (stop_ids (sb_heap ?s)) (all_nodes ?G)" using idx by simp
    have "all_slots ?G = all_slots G" by (simp only: all_slots_def slots)
    moreover have "set q \<subseteq> all_nodes G" by (auto simp: all_nodes_side [of G x] G)
    then have "all_nodes ?G \<union> X' = all_nodes G \<union> X" using q'(1) by (auto simp: nodes)
    moreover have "stop_pools h' (all_nodes G \<union> X) (all_slots G)"
      using r(6) only stop_frame_pools [of h' "sb_heap s"] by (simp add: only_stop_def stop_pools_def)
    ultimately show "stop_pools (sb_heap ?s) (all_nodes ?G \<union> X') (all_slots ?G)" by simp
  qed
qed

lemma stop_rep_unlink:
  assumes rep: "stop_rep B pp s G X" and G: "G x = A @ (p, l, q1 @ i # q2) # C"
  defines "h' \<equiv> Unlink_stop l i (sb_heap s)"
  shows "\<And>j. stop_core (snode h' j) = stop_core (sb_node s j)"
    "stop_rep B pp (s\<lparr>sb_heap := h', sb_index := (sb_index s)(st_OrderID (sb_node s i) := None)\<rparr>)
       (G(x := A @ (p, l, q1 @ q2) # C)) (insert i X)"
proof -
  note r = stop_repD [OF rep] and f = stop_rep_level_facts [OF rep G]
  note u = Unlink_stop_ok [OF f(1), folded h'_def]
  show core: "\<And>j. stop_core (snode h' j) = stop_core (sb_node s j)"
    using u(2) by (simp add: only_stop_def)
  let ?G = "G(x := A @ (p, l, q1 @ q2) # C)"
  have dist: "distinct (level_nodes (G x) @ level_nodes (G (\<not> x)))"
    using r(3) by (simp add: disjoint_ghost_side [of _ x])
  have nodes: "all_nodes ?G = all_nodes G - {i}"
    using dist by (auto simp: all_nodes_side [of _ x] G)
  have idx: "index_on ((sb_index s)(st_OrderID (sb_node s i) := None)) (stop_ids h') (all_nodes ?G)"
    unfolding nodes using f(4) by (intro index_rep_delete [OF r(5)] stop_core_eqD(1) core) auto
  have i: "i \<notin> set (q1 @ q2)" using stop_level_repD(3) [OF f(1)] by auto
  show "stop_rep B pp (s\<lparr>sb_heap := h', sb_index := (sb_index s)(st_OrderID (sb_node s i) := None)\<rparr>)
       ?G (insert i X)"
  proof (rule stop_rep_level [OF rep G _ empty_subsetI u(1)])
    show "only_stop l (set (q1 @ i # q2) \<union> {}) (sb_heap s) h'" using u(2) by simp
    show "stop_order x p j (snode h' j)" if "j \<in> set (q1 @ q2)" for j
      using stop_order_core [OF core f(2)] that by auto
    show "set (q1 @ q2) \<inter> insert i X = {}" using i f(5) by auto
    show "insert i X \<inter> (all_nodes G - set (q1 @ i # q2)) = {}" using r(4) by auto
  qed (use idx in auto)
qed

lemma stop_rep_append:
  assumes rep: "stop_rep B pp s G X" and G: "G x = A @ (p, l, q) # C" and i: "i \<in> X"
    and ord: "stop_order x p i (sb_node s i)"
    and fresh: "sb_index s (st_OrderID (sb_node s i)) = None"
  defines "h' \<equiv> Append_stop l i (sb_heap s)"
  shows "\<And>j. stop_core (snode h' j) = stop_core (sb_node s j)"
    "stop_rep B pp (s\<lparr>sb_heap := h', sb_index := (sb_index s)(st_OrderID (sb_node s i) \<mapsto> i)\<rparr>)
       (G(x := A @ (p, l, q @ [i]) # C)) (X - {i})"
proof -
  note r = stop_repD [OF rep] and f = stop_rep_level_facts [OF rep G]
  have iq: "i \<notin> set q" using f(5) i by auto
  have il: "i < snodes_n (sb_heap s)" using stop_poolsD(1) [OF r(6)] i by blast
  note a = Append_stop_ok [OF f(1) il iq, folded h'_def]
  show core: "\<And>j. stop_core (snode h' j) = stop_core (sb_node s j)"
    using a(2) by (simp add: only_stop_def)
  let ?G = "G(x := A @ (p, l, q @ [i]) # C)"
  have nodes: "all_nodes ?G = insert i (all_nodes G)" by (auto simp: all_nodes_side [of _ x] G)
  have idx: "index_on ((sb_index s)(st_OrderID (sb_node s i) \<mapsto> i)) (stop_ids h') (all_nodes ?G)"
    unfolding nodes by (intro index_rep_insert [OF r(5)] fresh stop_core_eqD(1) core)
  show "stop_rep B pp (s\<lparr>sb_heap := h', sb_index := (sb_index s)(st_OrderID (sb_node s i) \<mapsto> i)\<rparr>)
       ?G (X - {i})"
  proof (rule stop_rep_level [OF rep G _ _ a(1)])
    show "only_stop l (set q \<union> {i}) (sb_heap s) h'" using a(2) by simp
    show "stop_order x p j (snode h' j)" if "j \<in> set (q @ [i])" for j
      using stop_order_core [OF core] f(2) ord that by auto
    show "(X - {i}) \<inter> (all_nodes G - set q) = {}" using r(4) by auto
  qed (use idx i f(5) in auto)
qed

subsection \<open>A level goes and comes\<close>

lemma stop_rep_drop:
  assumes B: "price_index B" and rep: "stop_rep B pp s G X" and G: "G x = A @ (p, l, q) # C"
    and s1: "s1 = s\<lparr>sb_heap := h, sb_index := m\<rparr>" "snode h = sb_node s" "slevel h = sb_level s"
      "snodes_n h = snodes_n (sb_heap s)" "slevels_n h = slevels_n (sb_heap s)"
    and idx: "index_on m (stop_ids (sb_heap s)) (all_nodes G - set q)"
    and pools: "stop_pools h ((all_nodes G - set q) \<union> X') (all_slots G)"
    and X': "X' \<inter> (all_nodes G - set q) = {}"
  shows "\<exists>s2. dropStopLevel B x l s1 = Some s2 \<and> sb_node s2 = sb_node s \<and>
     sb_maxDepth s2 = sb_maxDepth s \<and> stop_rep B pp s2 (G(x := A @ C)) X'"
proof -
  note r = stop_repD [OF rep] and f = stop_rep_level_facts [OF rep G]
  note v = stop_level_repD [OF f(1)]
  obtain t where t: "bt_delete B p (stop_tree x s) = Some t" "stop_tree_rep B x pp t (entries (A @ C))"
    using stop_tree_delete [OF B, of x pp "stop_tree x s" "entries A" p l "entries C"] r(1) [of x]
    by (auto simp: G)
  have "pool_ok (sh_levels h)" "l \<in> used_slots (sh_levels h)"
    using pools f(6) by (auto simp: stop_pools_def)
  from Release_ok [OF this] obtain p' where p': "Release l (sh_levels h) = Some p'"
    "pool_ok p'" "used_slots p' = used_slots (sh_levels h) - {l}" "store p' = store (sh_levels h)" by blast
  let ?h = "h\<lparr>sh_levels := p'\<rparr>" and ?G = "G(x := A @ C)"
  let ?s = "(set_stop_tree x t s1)\<lparr>sb_heap := ?h\<rparr>"
  have n: "snode ?h = sb_node s" and lv: "slevel ?h = sb_level s"
    using s1(2,3) by (simp_all add: fun_eq_iff snode_def slevel_def p'(4))
  have run: "dropStopLevel B x l s1 = Some ?s"
    using t(1) p'(1) v(4) by (simp add: dropStopLevel_def s1)
  have dist: "distinct (level_nodes (G x) @ level_nodes (G (\<not> x)))"
    "distinct (level_slots (G x) @ level_slots (G (\<not> x)))"
    using r(3) by (simp_all add: disjoint_ghost_side [of _ x])
  have nodes: "all_nodes ?G = all_nodes G - set q" and slots: "all_slots ?G = all_slots G - {l}"
    using dist by (auto simp: all_nodes_side [of _ x] all_slots_side [of _ x] G)
  have "stop_rep B pp ?s ?G X'"
  proof (rule stop_repI)
    fix y
    have tr: "stop_tree z s1 = stop_tree z s" for z by (simp add: s1)
    show "stop_tree_rep B y pp (stop_tree y ?s) (entries (?G y))"
      using r(1) [of y] t(2) by (cases "y = x") (auto simp: tr)
    have "set (?G y) \<subseteq> set (G y)" by (cases "y = x") (auto simp: G)
    then have "stop_levels_rep (sb_heap s) y (?G y)"
      using r(2) [of y] unfolding stop_levels_rep_def by blast
    then show "stop_levels_rep (sb_heap ?s) y (?G y)"
      by (rule stop_levels_frame) (simp_all add: n lv s1(4,5) p'(4))
  next
    show "disjoint_ghost ?G" using r(3) by (auto simp: disjoint_ghost_side [of _ x] G)
    show "X' \<inter> all_nodes ?G = {}" using X' nodes by simp
    show "index_on (sb_index ?s) (stop_ids (sb_heap ?s)) (all_nodes ?G)"
      using idx by (simp add: n nodes) (simp add: s1)
    show "stop_pools (sb_heap ?s) (all_nodes ?G \<union> X') (all_slots ?G)"
      using pools p' by (simp add: stop_pools_def nodes slots)
  qed
  then show ?thesis using run n by (auto simp: s1)
qed

lemma stop_rep_create:
  assumes B: "price_index B" and rep: "stop_rep B pp s G X"
    and p: "d_precision p = pp" "p \<notin> fst ` set (G x)"
    and acq: "Acquire zeroStopLevel (sh_levels (sb_heap s)) = Inr (pool, idx)"
  defines "h1 \<equiv> set_slevel idx (\<lambda>v. v\<lparr>sl_Price := p\<rparr>)
      (set_slevel idx (\<lambda>v. v\<lparr>sl_PoolIndex := idx\<rparr>) ((sb_heap s)\<lparr>sh_levels := pool\<rparr>))"
  shows "sl_Price (slevel h1 idx) = p" "snode h1 = sb_node s"
    "\<exists>t. bt_set B p idx (stop_tree x s) = Some t \<and>
     stop_rep B pp (set_stop_tree x t (s\<lparr>sb_heap := h1\<rparr>)) (G(x := with_level x p idx (G x))) X"
proof -
  note r = stop_repD [OF rep]
  have fst_entries: "fst ` set (entries g) = fst ` set g" for g :: "glevel list" by force
  have ok: "pool_ok (sh_levels (sb_heap s))" using r(6) by (simp add: stop_pools_def)
  note acq' = Acquire_ok [OF ok acq]
  define h0 where "h0 = (sb_heap s)\<lparr>sh_levels := pool\<rparr>"
  have il: "idx < slevels_n h0" using acq'(4,5) by (simp add: h0_def)
  have base: "slevel h0 = (sb_level s)(idx := zeroStopLevel)" "snode h0 = sb_node s"
    using acq'(4,5) by (auto simp: slevel_def snode_def h0_def fun_eq_iff)
  let ?new = "\<lparr>sl_Price = p, sl_Head = None, sl_Tail = None, sl_OrderCount = 0, sl_PoolIndex = idx\<rparr>"
  have lev: "slevel h1 = (sb_level s)(idx := ?new)"
    using il by (simp add: h1_def h0_def [symmetric] stop_simps base zeroStopLevel_def)
  then show "sl_Price (slevel h1 idx) = p" by simp
  show n: "snode h1 = sb_node s" by (simp add: h1_def h0_def [symmetric] stop_simps base)
  have fr: "stop_frame h1 = stop_frame h0" by (simp add: h1_def h0_def [symmetric] stop_simps)
  have lsz: "slevels_n h1 = slevels_n (sb_heap s)" "snodes_n h1 = snodes_n (sb_heap s)"
    using stop_frame_sizes [OF fr] acq'(4) by (simp_all add: h0_def)
  obtain t where t: "bt_set B p idx (stop_tree x s) = Some t"
    "stop_tree_rep B x pp t (entries_set (tree_less (side_of x)) p idx (entries (G x)))"
    using stop_tree_set [OF B r(1) p(1)] p(2) unfolding fst_entries by blast
  let ?G = "G(x := with_level x p idx (G x))" and ?s = "set_stop_tree x t (s\<lparr>sb_heap := h1\<rparr>)"
  have wl: "with_level x p idx (G x) = entries_set (tree_less (side_of x)) p (idx, []) (G x)"
    using p(2) by (simp add: with_level_def)
  have ents: "entries (with_level x p idx (G x)) = entries_set (tree_less (side_of x)) p idx (entries (G x))"
    unfolding wl using entries_set_map [of "tree_less (side_of x)" p fst "(idx, [])" "G x"] by simp
  have keys: "fst ` set (G x) \<subseteq> prices pp"
    using stop_tree_keys(1) [OF B r(1), of x] unfolding fst_entries .
  note ms = with_level_mset [OF keys p, of x idx]
  have mem: "set (with_level x p idx (G x)) = insert (p, idx, []) (set (G x))"
    using arg_cong [OF ms, of set_mset] by simp
  have mn: "mset (level_nodes (with_level x p idx (G x))) = mset (level_nodes (G x))"
    "mset (level_slots (with_level x p idx (G x))) = add_mset idx (mset (level_slots (G x)))"
    by (simp_all add: mset_level_nodes mset_level_slots ms)
  have mns: "set (level_nodes (with_level x p idx (G x))) = set (level_nodes (G x))"
    "set (level_slots (with_level x p idx (G x))) = insert idx (set (level_slots (G x)))"
    using arg_cong [OF mn(1), of set_mset] arg_cong [OF mn(2), of set_mset] by simp_all
  have idx: "idx \<notin> all_slots G" using acq'(2) r(6) by (simp add: stop_pools_def)
  have node_sets: "all_nodes ?G = all_nodes G" "all_slots ?G = insert idx (all_slots G)"
    by (simp_all add: all_nodes_side [of _ x] all_slots_side [of _ x] mns)
  have "stop_rep B pp ?s ?G X"
  proof (rule stop_repI)
    fix y
    show "stop_tree_rep B y pp (stop_tree y ?s) (entries (?G y))"
      using r(1) [of y] t(2) by (cases "y = x") (auto simp: ents)
    have old: "stop_level_rep h1 p' k q \<and> (\<forall>i\<in>set q. stop_order y p' i (snode h1 i))"
      if "(p', k, q) \<in> set (G y)" for p' k q
    proof -
      have "k \<noteq> idx" using idx all_slots_in [of p' k q G y] that by auto
      then show ?thesis
        using stop_level_rep_frame [OF stop_levels_repD(1) [OF r(2) that], of h1]
          stop_levels_repD(2) [OF r(2) that] by (simp add: lev n lsz)
    qed
    have "idx < slevels_n h1" using acq'(5) lsz by simp
    then have new: "stop_level_rep h1 p idx []" by (simp add: stop_level_rep_def lev)
    have "stop_levels_rep h1 y (?G y)"
      using old new mem by (cases "y = x") (auto simp: stop_levels_rep_def)
    then show "stop_levels_rep (sb_heap ?s) y (?G y)" by simp
  next
    show "disjoint_ghost ?G"
      using r(3) idx mset_eq_imp_distinct_iff [OF mn(1)]
        mset_eq_imp_distinct_iff [of _ "idx # level_slots (G x)"] mn(2)
      by (simp add: disjoint_ghost_side [of _ x] mns all_slots_side [of _ x])
    show "X \<inter> all_nodes ?G = {}" using r(4) node_sets by simp
    show "index_on (sb_index ?s) (stop_ids (sb_heap ?s)) (all_nodes ?G)"
      using r(5) by (simp add: n node_sets)
    have "stop_pools h0 (all_nodes G \<union> X) (insert idx (all_slots G))"
      using r(6) acq'(1,3) by (simp add: stop_pools_def h0_def)
    then show "stop_pools (sb_heap ?s) (all_nodes ?G \<union> X) (all_slots ?G)"
      using stop_frame_pools [OF fr] by (simp add: stop_pools_def node_sets)
  qed
  then show "\<exists>t. bt_set B p idx (stop_tree x s) = Some t \<and>
     stop_rep B pp (set_stop_tree x t (s\<lparr>sb_heap := h1\<rparr>)) (G(x := with_level x p idx (G x))) X"
    using t(1) by blast
qed

end
