(* ===== verification/Stop_Ops.thy ===== *)
theory Stop_Ops
  imports Stop_Inv Book_Ops
begin

section \<open>The operations of the stop book on its visible content\<close>

text \<open>
  What the stop book shows is, per side, the list of its trigger prices in firing order, each
  with its pending stops (without their links) in time order.  The operations add to it,
  remove from it, and take the reached levels off its front.
\<close>

type_synonym stop_queue = "StopNode list"

definition stop_chain :: "stop_heap \<Rightarrow> nat \<Rightarrow> nat list" where
  "stop_chain h l = chain (\<lambda>i. st_next (snode h i)) (snodes_n h) (sl_Head (slevel h l))"

definition stop_view :: "'t btree_fns \<Rightarrow> bool \<Rightarrow> 't StopBook \<Rightarrow> (Decimal \<times> stop_queue) list" where
  "stop_view B x s = map (\<lambda>(p, l). (p, map (stop_core \<circ> sb_node s) (stop_chain (sb_heap s) l)))
     (bt_scan B (stop_tree x s))"

definition stop_shows :: "'t StopBook \<Rightarrow> glevel list \<Rightarrow> (Decimal \<times> stop_queue) list" where
  "stop_shows s g = map (\<lambda>(p, l, q). (p, map (stop_core \<circ> sb_node s) q)) g"

lemma stop_shows_simps [simp]:
  "stop_shows s [] = []"
  "stop_shows s ((p, l, q) # g) = (p, map (stop_core \<circ> sb_node s) q) # stop_shows s g"
  "stop_shows s (g @ g') = stop_shows s g @ stop_shows s g'"
  by (simp_all add: stop_shows_def)

lemma stop_shows_cong:
  assumes "\<And>i. stop_core (sb_node s' i) = stop_core (sb_node s i)"
  shows "stop_shows s' g = stop_shows s g"
  using assms by (auto simp: stop_shows_def)

lemma stop_chain_ok:
  assumes "stop_level_rep h p l q"
  shows "stop_chain h l = q"
proof -
  note r = stop_level_repD [OF assms]
  have "length q = card (set q)" using r(3) by (simp add: distinct_card)
  also have "\<dots> \<le> card {..<snodes_n h}" using r(2) by (intro card_mono) auto
  finally have "length q \<le> snodes_n h" by simp
  then show ?thesis using chain_linked [OF r(5)] r(4) by (simp add: stop_chain_def)
qed

lemma stop_view_ok:
  assumes "stop_rep B pp s G X"
  shows "stop_view B x s = stop_shows s (G x)"
proof -
  have "bt_scan B (stop_tree x s) = entries (G x)"
    using stop_repD(1) [OF assms, of x] by (simp add: stop_tree_rep_def)
  moreover have "stop_chain (sb_heap s) l = q" if "(p, l, q) \<in> set (G x)" for p l q
    using stop_levels_repD(1) [OF stop_repD(2) [OF assms] that] by (rule stop_chain_ok)
  ultimately show ?thesis by (auto simp: stop_view_def stop_shows_def)
qed

lemma full_levelsD: "full_levels G \<Longrightarrow> (p, l, q) \<in> set (G x) \<Longrightarrow> q \<noteq> []"
  by (auto simp: full_levels_def)

subsection \<open>Removing a stop\<close>

lemma stop_without_view:
  assumes idx: "index_on m (stop_ids (sb_heap s)) (all_nodes G)"
    and full: "\<And>p l q. (p, l, q) \<in> set g \<Longrightarrow> q \<noteq> []"
    and sub: "set (level_nodes g) \<subseteq> all_nodes G" and i: "i \<in> all_nodes G" "i \<notin> set (level_nodes g)"
  shows "without (\<lambda>n. st_OrderID n = st_OrderID (sb_node s i)) (stop_shows s g) = stop_shows s g"
proof (rule without_none)
  fix p q assume "(p, q) \<in> set (stop_shows s g)"
  then obtain l r where r: "(p, l, r) \<in> set g" "q = map (stop_core \<circ> sb_node s) r" by (auto simp: stop_shows_def)
  have "st_OrderID (sb_node s j) \<noteq> st_OrderID (sb_node s i)" if "j \<in> set r" for j
  proof -
    have "j \<in> set (level_nodes g)" using that r(1) by (auto simp: level_nodes_def)
    then show ?thesis using index_rep_inj [OF idx, of j i] sub i by auto
  qed
  then show "q \<noteq> [] \<and> (\<forall>n\<in>set q. st_OrderID n \<noteq> st_OrderID (sb_node s i))"
    using r full by (auto simp: stop_core_def)
qed

lemma dropStopLevel_index: "dropStopLevel B x l s = Some s' \<Longrightarrow> sb_index s' = sb_index s"
  by (auto simp: dropStopLevel_def bind_Some_iff)

lemma stop_rep_drop_empty:
  assumes B: "price_index B" and rep: "stop_rep B pp s G X" and G: "G x = A @ (p, l, []) # C"
  shows "\<exists>s2. dropStopLevel B x l s = Some s2 \<and> sb_node s2 = sb_node s \<and>
     sb_index s2 = sb_index s \<and> sb_maxDepth s2 = sb_maxDepth s \<and> stop_rep B pp s2 (G(x := A @ C)) X"
proof -
  note r = stop_repD [OF rep]
  have same: "s = s\<lparr>sb_heap := sb_heap s, sb_index := sb_index s\<rparr>" by simp
  have "\<exists>s2. dropStopLevel B x l s = Some s2 \<and> sb_node s2 = sb_node s \<and>
     sb_maxDepth s2 = sb_maxDepth s \<and> stop_rep B pp s2 (G(x := A @ C)) X"
    by (rule stop_rep_drop [OF B rep G same]) (use r(4,5,6) in simp_all)
  then show ?thesis using dropStopLevel_index by blast
qed

lemma stop_without_removed:
  assumes rep: "stop_rep B pp s G X" and full: "full_levels G" and G: "G x = A @ (p, l, q1 @ i # q2) # C"
  defines "oid \<equiv> st_OrderID (sb_node s i)"
  defines "G2 \<equiv> (if q1 @ q2 = [] then G(x := A @ C) else G(x := A @ (p, l, q1 @ q2) # C))"
  shows "stop_shows s (G2 y) = without (\<lambda>n. st_OrderID n = oid) (stop_shows s (G y))"
proof -
  note r = stop_repD [OF rep]
  have i: "i \<in> all_nodes G" by (simp add: all_nodes_side [of _ x] G)
  have dist: "distinct (level_nodes (G x) @ level_nodes (G (\<not> x)))"
    using r(3) by (simp add: disjoint_ghost_side [of _ x])
  have sub: "set (level_nodes (G y)) \<subseteq> all_nodes G" for y by (auto simp: all_nodes_side [of G y])
  have nv: "without (\<lambda>n. st_OrderID n = oid) (stop_shows s g) = stop_shows s g"
    if "set g \<subseteq> set (G z)" "i \<notin> set (level_nodes g)" for g z
    unfolding oid_def
  proof (rule stop_without_view [OF r(5) _ _ i that(2)])
    have "set (level_nodes g) \<subseteq> set (level_nodes (G z))" using that(1) by (auto simp: level_nodes_def)
    then show "set (level_nodes g) \<subseteq> all_nodes G" using sub [of z] by blast
  qed (use that(1) full_levelsD [OF full] in blast)
  have "st_OrderID (sb_node s j) \<noteq> oid" if "j \<in> set (q1 @ q2)" for j
    using index_rep_inj [OF r(5), of j i] that dist sub [of x] i by (auto simp: G oid_def)
  then have q: "filter (\<lambda>n. st_OrderID n \<noteq> oid) (map (stop_core \<circ> sb_node s) (q1 @ i # q2)) =
      map (stop_core \<circ> sb_node s) (q1 @ q2)"
    by (auto simp: oid_def filter_id_conv filter_map comp_def stop_core_def)
  show ?thesis
  proof (cases "y = x")
    case True
    have "without (\<lambda>n. st_OrderID n = oid) (stop_shows s A) = stop_shows s A"
      "without (\<lambda>n. st_OrderID n = oid) (stop_shows s C) = stop_shows s C"
      using dist by (auto intro!: nv [of _ x] simp: G)
    then show ?thesis using q by (simp add: True G G2_def without_def)
  next
    case False
    then have "y = (\<not> x)" by auto
    then have "i \<notin> set (level_nodes (G y))" using dist by (auto simp: G)
    then show ?thesis using nv [of "G y" y] False by (simp add: G2_def)
  qed
qed

lemma removeStop_ok:
  assumes B: "price_index B" and rep: "stop_rep B pp s G X" and full: "full_levels G" and i: "i \<in> all_nodes G"
  defines "oid \<equiv> st_OrderID (sb_node s i)"
  shows "\<exists>s' G'. removeStop B i (s\<lparr>sb_index := (sb_index s)(oid := None)\<rparr>) = Some s' \<and>
     stop_rep B pp s' G' (insert i X) \<and> full_levels G' \<and>
     (\<forall>j. stop_core (sb_node s' j) = stop_core (sb_node s j)) \<and>
     sb_index s' = (sb_index s)(oid := None) \<and> sb_maxDepth s' = sb_maxDepth s \<and>
     (\<forall>y. stop_view B y s' = without (\<lambda>n. st_OrderID n = oid) (stop_view B y s))"
proof -
  obtain x A p l q1 q2 C where G: "G x = A @ (p, l, q1 @ i # q2) # C" using find_node [OF i] .
  note r = stop_repD [OF rep] and f = stop_rep_level_facts [OF rep G]
  define h' where "h' = Unlink_stop l i (sb_heap s)"
  note u = stop_rep_unlink [OF rep G, folded h'_def oid_def]
  let ?G1 = "G(x := A @ (p, l, q1 @ q2) # C)"
  define s1 where "s1 = s\<lparr>sb_heap := h', sb_index := (sb_index s)(oid := None)\<rparr>"
  have rep1: "stop_rep B pp s1 ?G1 (insert i X)" using u(2) by (simp add: s1_def)
  have lvl: "st_level (sb_node s i) = Some l" using stop_level_repD(6) [OF f(1)] by simp
  have side: "(st_Side (snode h' i) = Ask) = x"
    using f(2) [of i] stop_core_eqD(3) [OF u(1), of i] by (simp add: stop_order_def)
  have empty: "IsEmpty_stop (sb_level s1 l) = (q1 @ q2 = [])"
    using stop_level_repD(4) [OF stop_rep_level_facts(1) [OF rep1, of x A p l "q1 @ q2" C]]
    by (simp add: IsEmpty_stop_def)
  have fl: "q \<noteq> []" if "(p, l, q) \<in> set (G y)" for p l q y using full_levelsD [OF full that] .
  define G2 where "G2 = (if q1 @ q2 = [] then G(x := A @ C) else ?G1)"
  have run0: "removeStop B i (s\<lparr>sb_index := (sb_index s)(oid := None)\<rparr>) =
      (if q1 @ q2 = [] then dropStopLevel B x l s1 else Some s1)"
  proof -
    have "s\<lparr>sb_index := (sb_index s)(oid := None), sb_heap := h'\<rparr> = s1" by (simp add: s1_def)
    then show ?thesis
      using lvl side empty by (simp add: removeStop_def h'_def [symmetric] Let_def) (auto simp: s1_def)
  qed
  obtain s' where s': "removeStop B i (s\<lparr>sb_index := (sb_index s)(oid := None)\<rparr>) = Some s'"
    "sb_node s' = snode h'" "sb_index s' = (sb_index s)(oid := None)" "sb_maxDepth s' = sb_maxDepth s"
    "stop_rep B pp s' G2 (insert i X)"
  proof (cases "q1 @ q2 = []")
    case True
    have "?G1 x = A @ (p, l, []) # C" using True by simp
    from stop_rep_drop_empty [OF B rep1 this] obtain s2 where
      s2: "dropStopLevel B x l s1 = Some s2" "sb_node s2 = sb_node s1" "sb_index s2 = sb_index s1"
        "sb_maxDepth s2 = sb_maxDepth s1" "stop_rep B pp s2 (?G1(x := A @ C)) (insert i X)" by blast
    then show thesis using True s2 run0 by (intro that [of s2]) (simp_all add: G2_def s1_def)
  next
    case False
    then show thesis using run0 rep1 by (intro that [of s1]) (auto simp: G2_def s1_def)
  qed
  have cores: "stop_core (sb_node s' j) = stop_core (sb_node s j)" for j using u(1) s'(2) by simp
  have "q \<noteq> []" if "(p', l', q) \<in> set (G2 y)" for y p' l' q
    using that fl [of p' l' q y] by (auto simp: G2_def G split: if_splits)
  then have "full_levels G2" by (auto simp: full_levels_def)
  moreover have "stop_view B y s' = without (\<lambda>n. st_OrderID n = oid) (stop_view B y s)" for y
    using stop_without_removed [OF rep full G, of y] stop_view_ok [OF rep] stop_view_ok [OF s'(5)]
      stop_shows_cong [of s' s "G2 y", OF cores]
    by (simp add: G2_def oid_def)
  ultimately show ?thesis using s' cores by blast
qed

lemma CancelStop_ok:
  assumes B: "price_index B" and ok: "stop_ok B pp s X" and idx: "sb_index s oid = Some i"
    and owner: "st_UserID (sb_node s i) = uid"
  shows "\<exists>s'. CancelStop B oid uid s = Some (Inr (i, s')) \<and> stop_ok B pp s' (insert i X) \<and> i \<notin> X \<and>
     stop_core (sb_node s' i) = stop_core (sb_node s i) \<and>
     sb_index s' = (sb_index s)(oid := None) \<and> sb_maxDepth s' = sb_maxDepth s \<and>
     (\<forall>y. stop_view B y s' = without (\<lambda>n. st_OrderID n = oid) (stop_view B y s))"
proof -
  obtain G where rep: "stop_rep B pp s G X" and full: "full_levels G" using ok by (auto simp: stop_ok_def)
  have i: "i \<in> all_nodes G" "st_OrderID (sb_node s i) = oid"
    using stop_repD(5) [OF rep] idx by (auto simp: index_on_def)
  have "i \<notin> X" using stop_repD(4) [OF rep] i(1) by auto
  with removeStop_ok [OF B rep full i(1)] show ?thesis
    using idx owner i(2) by (auto simp: CancelStop_def stop_ok_def)
qed

subsection \<open>Adding a stop\<close>

text \<open>A side with one more stop: last in the queue of its trigger price, which is a new level at
  its place in the firing order when there is none.\<close>

definition stop_in :: "bool \<Rightarrow> StopNode \<Rightarrow> (Decimal \<times> stop_queue) list \<Rightarrow> (Decimal \<times> stop_queue) list" where
  "stop_in x n L =
     (if st_TriggerPrice n \<in> fst ` set L
      then map (\<lambda>(p, q). (p, if p = st_TriggerPrice n then q @ [n] else q)) L
      else entries_set (stop_less x) (st_TriggerPrice n) [n] L)"

text \<open>What the processor makes sure of before it adds the stop in slot \<open>i\<close>.\<close>

definition addable :: "u8 \<Rightarrow> 't StopBook \<Rightarrow> nat set \<Rightarrow> nat \<Rightarrow> bool" where
  "addable pp s X i \<longleftrightarrow> i \<in> X \<and> (let n = sb_node s i in
     st_PoolIndex n = i \<and> d_precision (st_TriggerPrice n) = pp \<and> sb_index s (st_OrderID n) = None)"

lemma stop_shows_fst: "fst ` set (stop_shows s g) = fst ` set g"
  by (force simp: stop_shows_def)

lemma fst_entries_glevel: "fst ` set (entries g) = fst ` set g" for g :: "glevel list"
  by force

lemma stop_shows_add:
  assumes "distinct (map fst (A @ (p, l, q) # C))" and n: "n = stop_core (sb_node s i)" "st_TriggerPrice n = p"
  shows "stop_shows s (A @ (p, l, q @ [i]) # C) = stop_in x n (stop_shows s (A @ (p, l, q) # C))"
proof -
  have other: "map (\<lambda>(p', r). (p', if p' = p then r @ [n] else r)) (stop_shows s g) = stop_shows s g"
    if "p \<notin> fst ` set g" for g
    using that by (force simp: stop_shows_def)
  have "p \<notin> fst ` set A" "p \<notin> fst ` set C" using assms(1) by auto
  then show ?thesis using other [of A] other [of C] n(2) by (simp add: stop_in_def n(1) [symmetric])
qed

lemma stop_shows_new:
  assumes "p \<notin> fst ` set g" and n: "n = stop_core (sb_node s i)" "st_TriggerPrice n = p"
  shows "stop_shows s (entries_set (stop_less x) p (l, [i]) g) = stop_in x n (stop_shows s g)"
proof -
  let ?f = "\<lambda>(l :: nat, q). map (stop_core \<circ> sb_node s) q"
  have showsm: "stop_shows s g = map (apsnd ?f) g" for g by (auto simp: stop_shows_def)
  have "?f (l, [i]) = [n]" using n by simp
  then show ?thesis
    using entries_set_map [of "stop_less x" p ?f "(l, [i])" g] assms(1) n(2) stop_shows_fst [of s g]
    unfolding stop_in_def by (simp only: showsm if_False)
qed

lemma distinct_levels:
  assumes "price_index B" and "stop_rep B pp s G X"
  shows "distinct (map fst (G x))"
  using stop_tree_keys(2) [OF assms(1) stop_repD(1) [OF assms(2), of x]] by (simp add: comp_def)

text \<open>What \<open>AddStop\<close> leaves behind, and its last step, on a state that has the level.\<close>

definition stop_added :: "'t btree_fns \<Rightarrow> u8 \<Rightarrow> bool \<Rightarrow> StopNode \<Rightarrow> nat set \<Rightarrow> nat \<Rightarrow> 't StopBook \<Rightarrow> 't StopBook \<Rightarrow> bool" where
  "stop_added B pp x n X i s s' \<longleftrightarrow> stop_ok B pp s' (X - {i}) \<and>
     (\<forall>j. stop_core (sb_node s' j) = stop_core (sb_node s j)) \<and>
     sb_index s' = (sb_index s)(st_OrderID n \<mapsto> i) \<and> sb_maxDepth s' = sb_maxDepth s \<and>
     stop_view B (\<not> x) s' = stop_view B (\<not> x) s \<and> stop_view B x s' = stop_in x n (stop_view B x s)"

lemma AddStop_last:
  assumes rep: "stop_rep B pp s G X" and full: "full_levels G" and add: "addable pp s X i"
    and n: "n = stop_core (sb_node s i)" and x: "x = (st_Side n = Ask)"
    and rep0: "stop_rep B pp s0 (G(x := A @ (st_TriggerPrice n, l, q) # C)) X"
    and same: "sb_node s0 = sb_node s" "sb_index s0 = sb_index s" "sb_maxDepth s0 = sb_maxDepth s"
    and sh: "stop_shows s (A @ (st_TriggerPrice n, l, q @ [i]) # C) = stop_in x n (stop_shows s (G x))"
    and fl: "\<forall>e\<in>set A \<union> set C. snd (snd e) \<noteq> []"
  shows "stop_added B pp x n X i s (s0\<lparr>sb_index := (sb_index s)(st_OrderID n \<mapsto> i), sb_heap := Append_stop l i (sb_heap s0)\<rparr>)"
proof -
  let ?p = "st_TriggerPrice n" and ?oid = "st_OrderID n"
  let ?G = "G(x := A @ (?p, l, q @ [i]) # C)"
  let ?s = "s0\<lparr>sb_heap := Append_stop l i (sb_heap s0), sb_index := (sb_index s)(?oid \<mapsto> i)\<rparr>"
  have sel: "?p = st_TriggerPrice (sb_node s i)" "?oid = st_OrderID (sb_node s i)" "st_Side n = st_Side (sb_node s i)"
    by (simp_all add: n stop_core_def)
  have i: "i \<in> X" "st_PoolIndex (sb_node s i) = i" "sb_index s ?oid = None"
    using add sel by (simp_all add: addable_def Let_def)
  have Gx: "(G(x := A @ (?p, l, q) # C)) x = A @ (?p, l, q) # C" by simp
  have upd: "(G(x := A @ (?p, l, q) # C))(x := A @ (?p, l, q @ [i]) # C) = ?G" by simp
  have o0: "stop_order x ?p i (sb_node s0 i)" and f0: "sb_index s0 (st_OrderID (sb_node s0 i)) = None"
    using i x sel same by (simp_all add: stop_order_def)
  note ap = stop_rep_append [OF rep0 Gx i(1) o0 f0, unfolded same upd, folded sel(2)]
  have cores: "stop_core (sb_node ?s j) = stop_core (sb_node s j)" for j using ap(1) by simp
  have fl': "q \<noteq> []" if "(p, l, q) \<in> set A \<union> set C" for p l q using bspec [OF fl that] by simp
  have "q \<noteq> []" if "(p, l, q) \<in> set (?G y)" for p l q y
    using that fl' full_levelsD [OF full, of p l q y] by (cases "y = x") auto
  then have "full_levels ?G" unfolding full_levels_def by blast
  then have "stop_ok B pp ?s (X - {i})" using ap(2) unfolding stop_ok_def by blast
  moreover have "stop_view B y ?s = stop_shows s (?G y)" for y
    using stop_view_ok [OF ap(2)] stop_shows_cong [of ?s s, OF cores] by simp
  moreover have swap: "s0\<lparr>sb_index := (sb_index s)(?oid \<mapsto> i), sb_heap := Append_stop l i (sb_heap s0)\<rparr> = ?s" by simp
  ultimately show ?thesis
    unfolding swap using cores sh stop_view_ok [OF rep] same(3) by (simp add: stop_added_def)
qed

text \<open>The two ways to the level: it is there, or the pool has a slot for it.\<close>

lemma AddStop_existing:
  assumes B: "price_index B" and rep: "stop_rep B pp s G X" and full: "full_levels G" and add: "addable pp s X i"
    and n: "n = stop_core (sb_node s i)" and x: "x = (st_Side n = Ask)"
    and get: "map_of (entries (G x)) (st_TriggerPrice n) = Some l"
  shows "\<exists>s'. AddStop B i s = Some s' \<and> stop_added B pp x n X i s s'"
proof -
  let ?p = "st_TriggerPrice n"
  have sel: "?p = st_TriggerPrice (sb_node s i)" "st_OrderID n = st_OrderID (sb_node s i)" "st_Side n = st_Side (sb_node s i)"
    by (simp_all add: n stop_core_def)
  have i: "st_PoolIndex (sb_node s i) = i" "d_precision ?p = pp" using add sel by (simp_all add: addable_def Let_def)
  obtain q where "(?p, l, q) \<in> set (G x)" using get by (auto dest!: map_of_SomeD)
  then obtain A C where AC: "G x = A @ (?p, l, q) # C" by (metis split_list)
  have G: "G(x := A @ (?p, l, q) # C) = G" using AC by (simp add: fun_upd_idem)
  have "distinct (map fst (A @ (?p, l, q) # C))" using distinct_levels [OF B rep, of x] AC by simp
  then have sh: "stop_shows s (A @ (?p, l, q @ [i]) # C) = stop_in x n (stop_shows s (G x))"
    using stop_shows_add [OF _ n refl] AC by simp
  have fl: "\<forall>e\<in>set A \<union> set C. snd (snd e) \<noteq> []"
    using full_levelsD [OF full, of _ _ _ x] unfolding AC by fastforce
  have "AddStop B i s = Some (s\<lparr>sb_index := (sb_index s)(st_OrderID n \<mapsto> i), sb_heap := Append_stop l i (sb_heap s)\<rparr>)"
    using stop_tree_get [OF B stop_repD(1) [OF rep, of x] i(2)] get i(1) x sel by (simp add: AddStop_def Let_def)
  moreover have "stop_rep B pp s (G(x := A @ (?p, l, q) # C)) X" using rep G by simp
  ultimately show ?thesis using AddStop_last [OF rep full add n x _ refl refl refl sh fl] by blast
qed

lemma AddStop_created:
  assumes B: "price_index B" and rep: "stop_rep B pp s G X" and full: "full_levels G" and add: "addable pp s X i"
    and n: "n = stop_core (sb_node s i)" and x: "x = (st_Side n = Ask)"
    and get: "map_of (entries (G x)) (st_TriggerPrice n) = None" and abs: "st_TriggerPrice n \<notin> fst ` set (G x)"
    and acq: "Acquire zeroStopLevel (sh_levels (sb_heap s)) = Inr (pool, idx)"
  shows "\<exists>s'. AddStop B i s = Some s' \<and> stop_added B pp x n X i s s'"
proof -
  let ?p = "st_TriggerPrice n"
  have sel: "?p = st_TriggerPrice (sb_node s i)" "st_OrderID n = st_OrderID (sb_node s i)" "st_Side n = st_Side (sb_node s i)"
    by (simp_all add: n stop_core_def)
  have i: "st_PoolIndex (sb_node s i) = i" "d_precision ?p = pp" using add sel by (simp_all add: addable_def Let_def)
  define h1 where "h1 = set_slevel idx (\<lambda>v. v\<lparr>sl_Price := ?p\<rparr>)
      (set_slevel idx (\<lambda>v. v\<lparr>sl_PoolIndex := idx\<rparr>) ((sb_heap s)\<lparr>sh_levels := pool\<rparr>))"
  note cr = stop_rep_create [OF B rep i(2) abs acq, folded h1_def]
  obtain t where t: "bt_set B ?p idx (stop_tree x s) = Some t"
    "stop_rep B pp (set_stop_tree x t (s\<lparr>sb_heap := h1\<rparr>)) (G(x := with_level x ?p idx (G x))) X"
    using cr(3) by blast
  let ?s0 = "set_stop_tree x t (s\<lparr>sb_heap := h1\<rparr>)"
  define A where "A = filter (\<lambda>e. tree_less (side_of x) (fst e) ?p = Some True) (G x)"
  define C where "C = filter (\<lambda>e. tree_less (side_of x) ?p (fst e) = Some True) (G x)"
  have wl: "with_level x ?p idx (G x) = A @ (?p, idx, []) # C"
    using abs by (simp add: with_level_def entries_set_def A_def C_def)
  have "A @ (?p, idx, [] @ [i]) # C = entries_set (stop_less x) ?p (idx, [i]) (G x)"
    by (simp add: entries_set_def A_def C_def stop_less_tree_less)
  then have sh: "stop_shows s (A @ (?p, idx, [] @ [i]) # C) = stop_in x n (stop_shows s (G x))"
    using stop_shows_new [OF abs n refl] by simp
  have fl: "\<forall>e\<in>set A \<union> set C. snd (snd e) \<noteq> []"
    using full_levelsD [OF full, of _ _ _ x] by (auto simp: A_def C_def)
  have "AddStop B i s = Some (?s0\<lparr>sb_index := (sb_index s)(st_OrderID n \<mapsto> i), sb_heap := Append_stop idx i (sb_heap ?s0)\<rparr>)"
    using stop_tree_get [OF B stop_repD(1) [OF rep, of x] i(2)] get acq t(1) cr(1) i(1)
    by (simp add: AddStop_def Let_def sel [symmetric] x [symmetric] h1_def [symmetric]) (simp add: set_stop_tree_def)
  moreover have "stop_added B pp x n X i s
      (?s0\<lparr>sb_index := (sb_index s)(st_OrderID n \<mapsto> i), sb_heap := Append_stop idx i (sb_heap ?s0)\<rparr>)"
    using t(2) wl cr(2) by (intro AddStop_last [OF rep full add n x _ _ _ _ sh fl]) simp_all
  ultimately show ?thesis by blast
qed

lemma AddStop_ok:
  assumes B: "price_index B" and ok: "stop_ok B pp s X" and add: "addable pp s X i"
    and n: "n = stop_core (sb_node s i)" and x: "x = (st_Side n = Ask)"
  shows "if st_TriggerPrice n \<notin> fst ` set (stop_view B x s) \<and> Len (sh_levels (sb_heap s)) = Capacity (sh_levels (sb_heap s))
     then AddStop B i s = None
     else \<exists>s'. AddStop B i s = Some s' \<and> stop_added B pp x n X i s s'"
proof -
  obtain G where rep: "stop_rep B pp s G X" and full: "full_levels G" using ok by (auto simp: stop_ok_def)
  let ?p = "st_TriggerPrice n"
  have okl: "pool_ok (sh_levels (sb_heap s))" using stop_repD(6) [OF rep] by (simp add: stop_pools_def)
  have shown: "?p \<in> fst ` set (stop_view B x s) \<longleftrightarrow> map_of (entries (G x)) ?p \<noteq> None"
    unfolding map_of_eq_None_iff fst_entries_glevel stop_view_ok [OF rep] stop_shows_fst by simp
  show ?thesis
  proof (cases "map_of (entries (G x)) ?p")
    case (Some l)
    then show ?thesis using AddStop_existing [OF B rep full add n x Some] shown by simp
  next
    case None
    then have abs: "?p \<notin> fst ` set (G x)" unfolding map_of_eq_None_iff fst_entries_glevel .
    show ?thesis
    proof (cases "Acquire zeroStopLevel (sh_levels (sb_heap s))")
      case (Inl err)
      then have "Len (sh_levels (sb_heap s)) = Capacity (sh_levels (sb_heap s))"
        using Acquire_exhausted [OF okl, of zeroStopLevel] by (cases err) simp
      moreover have "d_precision ?p = pp" "st_TriggerPrice n = st_TriggerPrice (sb_node s i)" "st_Side n = st_Side (sb_node s i)"
        using add by (simp_all add: addable_def Let_def n stop_core_def)
      then have "AddStop B i s = None"
        using stop_tree_get [OF B stop_repD(1) [OF rep, of x], of ?p] None Inl x by (simp add: AddStop_def Let_def)
      ultimately show ?thesis using None shown by simp
    next
      case (Inr r0)
      then obtain pool idx where acq: "Acquire zeroStopLevel (sh_levels (sb_heap s)) = Inr (pool, idx)" by (cases r0) simp
      then have "Len (sh_levels (sb_heap s)) \<noteq> Capacity (sh_levels (sb_heap s))"
        using Acquire_exhausted [OF okl, of zeroStopLevel] by auto
      then show ?thesis using AddStop_created [OF B rep full add n x None abs acq] by simp
    qed
  qed
qed

end
