(* ===== verification/Stop_Trigger.thy ===== *)
theory Stop_Trigger
  imports Stop_Ops
begin

section \<open>Firing and expiring stops\<close>

text \<open>
  \<open>CheckTriggers\<close> takes the reached levels off the front of both sides and releases their nodes;
  \<open>ExpireGTD_stop\<close> takes out the due stops.  Both are described on the two visible sides.
\<close>

subsection \<open>Draining a level\<close>

text \<open>What releasing the nodes of a level changes of the heap: the free list only.\<close>

definition released :: "stop_heap \<Rightarrow> nat set \<Rightarrow> stop_heap \<Rightarrow> bool" where
  "released h Q h' \<longleftrightarrow> snode h' = snode h \<and> sh_levels h' = sh_levels h \<and> snodes_n h' = snodes_n h \<and>
     pool_ok (sh_nodes h') \<and> used_slots (sh_nodes h') = used_slots (sh_nodes h) - Q"

lemma drain_level_ok:
  assumes "linked (\<lambda>i. st_prev (sb_node s i)) (\<lambda>i. st_next (sb_node s i)) p q None"
    and "distinct q" and "pool_ok (sh_nodes (sb_heap s))" and "set q \<subseteq> used_slots (sh_nodes (sb_heap s))"
    and "\<And>i. i \<in> set q \<Longrightarrow> st_PoolIndex (sb_node s i) = i"
  shows "\<exists>h'. drain_level (first q None) triggered s =
       Some (triggered @ map (convertToTriggered \<circ> sb_node s) q,
             s\<lparr>sb_heap := h', sb_index := (\<lambda>oid. if oid \<in> stop_ids (sb_heap s) ` set q then None else sb_index s oid)\<rparr>) \<and>
     released (sb_heap s) (set q) h'"
  using assms
proof (induction q arbitrary: p triggered s)
  case Nil
  then show ?case by (intro exI [of _ "sb_heap s"]) (simp add: drain_level.simps released_def)
next
  case (Cons i q)
  let ?n = "sb_node s i"
  have i: "st_PoolIndex ?n = i" "i \<in> used_slots (sh_nodes (sb_heap s))" "st_next ?n = first q None" "i \<notin> set q"
    using Cons.prems by simp_all
  obtain pl where pl: "Release i (sh_nodes (sb_heap s)) = Some pl" "pool_ok pl"
    "used_slots pl = used_slots (sh_nodes (sb_heap s)) - {i}" "store pl = store (sh_nodes (sb_heap s))"
    using Release_ok [OF Cons.prems(3) i(2)] by blast
  define s1 where "s1 = s\<lparr>sb_index := (sb_index s)(st_OrderID ?n := None),
      sb_heap := (sb_heap s)\<lparr>sh_nodes := pl\<rparr>\<rparr>"
  have same: "sb_node s1 = sb_node s" by (simp add: s1_def snode_def pl(4) fun_eq_iff)
  have run: "drain_level (first (i # q) None) triggered s =
      drain_level (first q None) (triggered @ [convertToTriggered ?n]) s1"
    using i pl(1) by (subst drain_level.simps) (simp add: ReleaseNode_def Let_def s1_def)
  have "linked (\<lambda>i. st_prev (sb_node s1 i)) (\<lambda>i. st_next (sb_node s1 i)) (Some i) q None"
    "distinct q" "pool_ok (sh_nodes (sb_heap s1))" "set q \<subseteq> used_slots (sh_nodes (sb_heap s1))"
    "\<And>j. j \<in> set q \<Longrightarrow> st_PoolIndex (sb_node s1 j) = j"
    using Cons.prems i(4) pl(2,3) by (auto simp: same) (auto simp: s1_def)
  from Cons.IH [OF this, of "triggered @ [convertToTriggered ?n]"] obtain h' where
    h': "drain_level (first q None) (triggered @ [convertToTriggered ?n]) s1 =
       Some ((triggered @ [convertToTriggered ?n]) @ map (convertToTriggered \<circ> sb_node s1) q,
             s1\<lparr>sb_heap := h', sb_index := (\<lambda>oid. if oid \<in> stop_ids (sb_heap s1) ` set q then None else sb_index s1 oid)\<rparr>)"
      "released (sb_heap s1) (set q) h'" by blast
  have "s1\<lparr>sb_heap := h', sb_index := (\<lambda>oid. if oid \<in> stop_ids (sb_heap s1) ` set q then None else sb_index s1 oid)\<rparr> =
     s\<lparr>sb_heap := h', sb_index := (\<lambda>oid. if oid \<in> stop_ids (sb_heap s) ` set (i # q) then None else sb_index s oid)\<rparr>"
    by (simp only: same) (simp add: s1_def fun_eq_iff)
  moreover have "released (sb_heap s) (set (i # q)) h'"
    using h'(2) same pl by (auto simp: released_def s1_def)
  ultimately show ?case using h'(1) run same by (intro exI [of _ h']) simp
qed

subsection \<open>Firing a side\<close>

text \<open>Whether a trigger price is reached, on prices of one precision.\<close>

definition hit :: "bool \<Rightarrow> Decimal \<Rightarrow> Decimal \<Rightarrow> bool" where
  "hit x last_price trigger \<longleftrightarrow>
     (if x then ival last_price \<le> ival trigger else ival trigger \<le> ival last_price)"

lemma reached_same: "d_precision a = d_precision b \<Longrightarrow> reached x a b = Some (hit x a b)"
  by (simp add: reached_def hit_def compare_same)

lemma fire_level_ok:
  assumes B: "price_index B" and rep: "stop_rep B pp s G X" and G: "G x = (p, l, q) # C"
  shows "\<exists>s1 s2. drain_level (sl_Head (sb_level s l)) triggered s =
       Some (triggered @ map (convertToTriggered \<circ> sb_node s) q, s1) \<and>
     dropStopLevel B x l s1 = Some s2 \<and> sb_node s2 = sb_node s \<and> sb_maxDepth s2 = sb_maxDepth s \<and>
     stop_rep B pp s2 (G(x := C)) X"
proof -
  have G': "G x = [] @ (p, l, q) # C" by (simp add: G)
  note r = stop_repD [OF rep] and f = stop_rep_level_facts [OF rep G']
  note v = stop_level_repD [OF f(1)]
  have ok: "pool_ok (sh_nodes (sb_heap s))" "used_slots (sh_nodes (sb_heap s)) = all_nodes G \<union> X"
    using r(6) by (simp_all add: stop_pools_def)
  let ?m = "\<lambda>oid. if oid \<in> stop_ids (sb_heap s) ` set q then None else sb_index s oid"
  have used: "set q \<subseteq> used_slots (sh_nodes (sb_heap s))" using f(4) ok(2) by blast
  have pi: "st_PoolIndex (sb_node s i) = i" if "i \<in> set q" for i using f(2) [OF that] by (simp add: stop_order_def)
  obtain h' where h': "drain_level (first q None) triggered s =
       Some (triggered @ map (convertToTriggered \<circ> sb_node s) q, s\<lparr>sb_heap := h', sb_index := ?m\<rparr>)"
    "released (sb_heap s) (set q) h'"
    using drain_level_ok [OF v(5,3) ok(1) used pi] by blast
  define s1 where "s1 = s\<lparr>sb_heap := h', sb_index := ?m\<rparr>"
  have h: "snode h' = sb_node s" "slevel h' = sb_level s" "snodes_n h' = snodes_n (sb_heap s)"
    "slevels_n h' = slevels_n (sb_heap s)"
    using h'(2) by (simp_all add: released_def slevel_def fun_eq_iff)
  have idx: "index_on ?m (stop_ids (sb_heap s)) (all_nodes G - set q)"
    unfolding index_on_def
  proof (intro allI)
    fix oid j
    have a: "sb_index s oid = Some j \<longleftrightarrow> j \<in> all_nodes G \<and> st_OrderID (sb_node s j) = oid"
      using r(5) by (simp add: index_on_def)
    have inj: "j \<in> set q" if "oid \<in> stop_ids (sb_heap s) ` set q" "j \<in> all_nodes G" "st_OrderID (sb_node s j) = oid"
    proof -
      from that(1) obtain k where k: "k \<in> set q" "st_OrderID (sb_node s k) = oid" by auto
      then show ?thesis using index_rep_inj [OF r(5), of j k] that f(4) by auto
    qed
    show "(?m oid = Some j) = (j \<in> all_nodes G - set q \<and> st_OrderID (sb_node s j) = oid)"
      using a inj by auto
  qed
  have "X \<inter> (all_nodes G - set q) = {}" using r(4) by auto
  moreover have "all_nodes G \<union> X - set q = (all_nodes G - set q) \<union> X" using f(5) by auto
  then have "stop_pools h' ((all_nodes G - set q) \<union> X) (all_slots G)"
    using r(6) h'(2) by (simp add: stop_pools_def released_def)
  ultimately obtain s2 where "dropStopLevel B x l s1 = Some s2 \<and> sb_node s2 = sb_node s \<and>
     sb_maxDepth s2 = sb_maxDepth s \<and> stop_rep B pp s2 (G(x := [] @ C)) X"
    using stop_rep_drop [OF B rep G' s1_def h idx] by blast
  then show ?thesis using h'(1) v(4) by (intro exI [of _ s1] exI [of _ s2]) (simp add: s1_def)
qed

abbreviation level_hit :: "bool \<Rightarrow> Decimal \<Rightarrow> glevel \<Rightarrow> bool" where
  "level_hit x lp \<equiv> \<lambda>(p, l, q). hit x lp p"

lemma fire_side_ok:
  assumes B: "price_index B" and lp: "d_precision lp = pp"
  shows "stop_rep B pp s G X \<Longrightarrow> \<exists>s'. fire_side B x lp triggered s =
       Some (triggered @ concat (map (\<lambda>(p, l, q). map (convertToTriggered \<circ> sb_node s) q)
               (takeWhile (level_hit x lp) (G x))), s') \<and>
     sb_node s' = sb_node s \<and> sb_maxDepth s' = sb_maxDepth s \<and>
     stop_rep B pp s' (G(x := dropWhile (level_hit x lp) (G x))) X"
proof (induction "G x" arbitrary: G s triggered)
  case Nil
  note r = stop_repD [OF Nil.prems]
  have "fire_side B x lp triggered s = Some (triggered, s)"
    using stop_tree_min [OF B r(1) [of x]] Nil(1) [symmetric] by (subst fire_side.simps) simp
  moreover have "G(x := dropWhile (level_hit x lp) (G x)) = G" using Nil(1) [symmetric] by auto
  ultimately show ?case using Nil by auto
next
  case (Cons e C)
  obtain p l q where e: "e = (p, l, q)" by (cases e) auto
  have G: "G x = (p, l, q) # C" using Cons(2) e by simp
  note r = stop_repD [OF Cons.prems]
  have min: "bt_min B (stop_tree x s) = Some (p, l)"
    using stop_tree_min [OF B r(1) [of x]] by (simp add: G)
  have "stop_level_rep (sb_heap s) p l q" using stop_levels_repD(1) [OF r(2) [of x], of p l q] by (simp add: G)
  then have lv: "sl_Price (sb_level s l) = p" by (simp add: stop_level_repD)
  have "d_precision p = pp" using stop_tree_keys(1) [OF B r(1) [of x]] by (simp add: G)
  then have re: "reached x lp (sl_Price (sb_level s l)) = Some (hit x lp p)" using lp by (simp add: lv reached_same)
  show ?case
  proof (cases "hit x lp p")
    case False
    have "fire_side B x lp triggered s = Some (triggered, s)"
      using min re False by (subst fire_side.simps) simp
    moreover have "G(x := dropWhile (level_hit x lp) (G x)) = G" using False by (simp add: G fun_eq_iff)
    ultimately show ?thesis using Cons.prems False by (intro exI [of _ s]) (simp add: G)
  next
    case True
    obtain s1 s2 where s12: "drain_level (sl_Head (sb_level s l)) triggered s =
         Some (triggered @ map (convertToTriggered \<circ> sb_node s) q, s1)"
       "dropStopLevel B x l s1 = Some s2" "sb_node s2 = sb_node s" "sb_maxDepth s2 = sb_maxDepth s"
       "stop_rep B pp s2 (G(x := C)) X"
      using fire_level_ok [OF B Cons.prems G] by blast
    have run: "fire_side B x lp triggered s = fire_side B x lp (triggered @ map (convertToTriggered \<circ> sb_node s) q) s2"
      using min re True s12(1,2) by (subst fire_side.simps) simp
    have "C = (G(x := C)) x" by simp
    from Cons.hyps(1) [OF this s12(5), of "triggered @ map (convertToTriggered \<circ> sb_node s) q"] obtain s' where
      "fire_side B x lp (triggered @ map (convertToTriggered \<circ> sb_node s) q) s2 =
         Some ((triggered @ map (convertToTriggered \<circ> sb_node s) q) @
               concat (map (\<lambda>(p, l, q). map (convertToTriggered \<circ> sb_node s2) q)
               (takeWhile (level_hit x lp) C)), s')"
      "sb_node s' = sb_node s2" "sb_maxDepth s' = sb_maxDepth s2"
      "stop_rep B pp s' (G(x := dropWhile (level_hit x lp) C)) X" by auto
    then show ?thesis using run True s12(3,4) by (intro exI [of _ s']) (simp add: G)
  qed
qed

text \<open>The reached levels are the first ones, because the levels are sorted by price.\<close>

lemma sorted_filter_takeWhile:
  assumes "sorted_wrt (\<lambda>a b. Q b \<longrightarrow> Q a) xs"
  shows "takeWhile Q xs = filter Q xs" "dropWhile Q xs = filter (\<lambda>a. \<not> Q a) xs"
  using assms by (induction xs) (auto simp: filter_id_conv filter_empty_conv)

lemma hit_front:
  assumes B: "price_index B" and rep: "stop_rep B pp s G X"
  shows "takeWhile (level_hit x lp) (G x) = filter (level_hit x lp) (G x)"
    "dropWhile (level_hit x lp) (G x) = filter (\<lambda>e. \<not> level_hit x lp e) (G x)"
proof -
  note k = stop_tree_keys [OF B stop_repD(1) [OF rep, of x]]
  have "sorted_wrt (\<lambda>a b. stop_less x (fst a) (fst b) = Some True) (G x)"
    using k(3) by (simp add: sorted_wrt_map)
  then have "sorted_wrt (\<lambda>a b. level_hit x lp b \<longrightarrow> level_hit x lp a) (G x)"
  proof (rule sorted_wrt_mono_rel [rotated])
    fix a b assume ab: "a \<in> set (G x)" "b \<in> set (G x)" "stop_less x (fst a) (fst b) = Some True"
    have "d_precision (fst a) = pp" "d_precision (fst b) = pp" using k(1) ab(1,2) by force+
    then show "level_hit x lp b \<longrightarrow> level_hit x lp a"
      using ab(3) by (cases a; cases b; cases x) (auto simp: stop_less_def hit_def compare_same)
  qed
  from sorted_filter_takeWhile [OF this]
  show "takeWhile (level_hit x lp) (G x) = filter (level_hit x lp) (G x)"
    "dropWhile (level_hit x lp) (G x) = filter (\<lambda>e. \<not> level_hit x lp e) (G x)" .
qed

subsection \<open>Expiry\<close>

lemma due_stop_core: "stop_core n' = stop_core n \<Longrightarrow> due_stop now n' = due_stop now n"
  using stop_core_eqD(5) [of n' n] by (simp add: due_stop_def)

text \<open>The stops a side shows are those of the index.\<close>

lemma stop_view_node:
  assumes rep: "stop_rep B pp s G X" and "(p, q) \<in> set (stop_view B y s)" and "n \<in> set q"
  shows "\<exists>j. sb_index s (st_OrderID n) = Some j \<and> n = stop_core (sb_node s j)"
proof -
  obtain l r j where r: "(p, l, r) \<in> set (G y)" "j \<in> set r" "n = stop_core (sb_node s j)"
    using assms stop_view_ok [OF rep, of y] by (auto simp: stop_shows_def)
  then have "j \<in> all_nodes G" using all_nodes_in by blast
  then show ?thesis using r(3) stop_repD(5) [OF rep] by (auto simp: index_on_def stop_core_def)
qed

lemma stop_shows_ids: "stop_core (sb_node s' j) = stop_core (sb_node s j) \<Longrightarrow> stop_ids (sb_heap s') j = stop_ids (sb_heap s) j"
  by (rule stop_core_eqD(1))

lemma remove_expired_ok:
  assumes B: "price_index B"
  shows "stop_ok B pp s X \<Longrightarrow> distinct is \<Longrightarrow>
   (\<And>i. i \<in> set is \<Longrightarrow> sb_index s (stop_ids (sb_heap s) i) = Some i) \<Longrightarrow>
   \<exists>s'. remove_expired B is s = Some s' \<and> stop_ok B pp s' (X \<union> set is) \<and>
     (\<forall>j. stop_core (sb_node s' j) = stop_core (sb_node s j)) \<and>
     sb_index s' = (\<lambda>oid. if oid \<in> stop_ids (sb_heap s) ` set is then None else sb_index s oid) \<and>
     sb_maxDepth s' = sb_maxDepth s \<and>
     (\<forall>y. stop_view B y s' = without (\<lambda>n. st_OrderID n \<in> stop_ids (sb_heap s) ` set is) (stop_view B y s))"
proof (induction "is" arbitrary: s X)
  case Nil
  obtain G where rep: "stop_rep B pp s G X" and full: "full_levels G" using Nil.prems by (auto simp: stop_ok_def)
  have "without (\<lambda>n. False) (stop_view B y s) = stop_view B y s" for y
    using stop_view_ok [OF rep] by (intro without_none) (auto simp: stop_shows_def dest!: full_levelsD [OF full])
  then show ?case using Nil.prems by simp
next
  case (Cons i "is")
  obtain G where rep: "stop_rep B pp s G X" and full: "full_levels G" using Cons.prems(1) by (auto simp: stop_ok_def)
  let ?id = "stop_ids (sb_heap s) i"
  have ii: "sb_index s ?id = Some i" using Cons.prems(3) by simp
  then have i: "i \<in> all_nodes G" using stop_repD(5) [OF rep] by (simp add: index_on_def)
  obtain s1 G1 where s1: "removeStop B i (s\<lparr>sb_index := (sb_index s)(?id := None)\<rparr>) = Some s1"
    "stop_rep B pp s1 G1 (insert i X)" "full_levels G1" "\<And>j. stop_core (sb_node s1 j) = stop_core (sb_node s j)"
    "sb_index s1 = (sb_index s)(?id := None)" "sb_maxDepth s1 = sb_maxDepth s"
    "\<And>y. stop_view B y s1 = without (\<lambda>n. st_OrderID n = ?id) (stop_view B y s)"
    using removeStop_ok [OF B rep full i] by blast
  have ids: "stop_ids (sb_heap s1) j = stop_ids (sb_heap s) j" for j using stop_shows_ids [OF s1(4)] .
  have ok1: "stop_ok B pp s1 (insert i X)" using s1(2,3) by (auto simp: stop_ok_def)
  have "sb_index s1 (stop_ids (sb_heap s1) j) = Some j" if "j \<in> set is" for j
  proof -
    have "sb_index s (stop_ids (sb_heap s) j) = Some j" "j \<noteq> i" using that Cons.prems by auto
    then show ?thesis using ii by (auto simp: s1(5) ids)
  qed
  from Cons.IH [OF ok1 _ this] Cons.prems(2) obtain s' where
    s': "remove_expired B is s1 = Some s'" "stop_ok B pp s' (insert i X \<union> set is)"
    "\<forall>j. stop_core (sb_node s' j) = stop_core (sb_node s1 j)"
    "sb_index s' = (\<lambda>oid. if oid \<in> stop_ids (sb_heap s1) ` set is then None else sb_index s1 oid)"
    "sb_maxDepth s' = sb_maxDepth s1"
    "\<forall>y. stop_view B y s' = without (\<lambda>n. st_OrderID n \<in> stop_ids (sb_heap s1) ` set is) (stop_view B y s1)"
    by auto
  have im: "stop_ids (sb_heap s1) ` set is = stop_ids (sb_heap s) ` set is" by (simp add: ids)
  have "stop_view B y s' = without (\<lambda>n. st_OrderID n \<in> stop_ids (sb_heap s) ` set (i # is)) (stop_view B y s)" for y
    unfolding spec [OF s'(6)] s1(7) without_without im by (rule without_cong) auto
  moreover have "sb_index s' = (\<lambda>oid. if oid \<in> stop_ids (sb_heap s) ` set (i # is) then None else sb_index s oid)"
    by (rule ext) (simp add: s'(4) s1(5) im)
  moreover have "remove_expired B (i # is) s = Some s'" using s1(1) s'(1) by (simp add: Let_def)
  moreover have "insert i X \<union> set is = X \<union> set (i # is)" by auto
  ultimately show ?case using s'(2,3,5) s1(4,6) by (intro exI [of _ s'] conjI allI) simp_all
qed

lemma expired_stops_ok:
  assumes rep: "stop_rep B pp s G X" and ids: "distinct ids"
  shows "distinct (expired_stops ids now s)"
    "\<And>i. i \<in> set (expired_stops ids now s) \<longleftrightarrow>
       (\<exists>oid\<in>set ids. sb_index s oid = Some i) \<and> due_stop now (sb_node s i)"
    "\<And>i. i \<in> set (expired_stops ids now s) \<Longrightarrow> sb_index s (stop_ids (sb_heap s) i) = Some i"
proof -
  have idx: "sb_index s oid = Some i \<Longrightarrow> stop_ids (sb_heap s) i = oid" for oid i
    using stop_repD(5) [OF rep] by (simp add: index_on_def)
  have mf: "set (List.map_filter (sb_index s) ids) = {i. \<exists>oid\<in>set ids. sb_index s oid = Some i}"
    by (force simp: List.map_filter_def)
  have "distinct (List.map_filter (sb_index s) ids)"
    using ids
  proof (induction ids)
    case (Cons oid ids)
    then show ?case
    proof (cases "sb_index s oid")
      case (Some i)
      have "i \<noteq> j" if "oid' \<in> set ids" "sb_index s oid' = Some j" for oid' j
        using that idx [OF Some] idx [OF that(2)] Cons.prems by auto
      then have "i \<notin> set (List.map_filter (sb_index s) ids)" by (force simp: List.map_filter_def)
      then show ?thesis using Cons Some by (simp add: List.map_filter_simps)
    qed (simp add: List.map_filter_simps)
  qed (simp add: List.map_filter_simps)
  then show "distinct (expired_stops ids now s)" by (simp add: expired_stops_def)
  show "\<And>i. i \<in> set (expired_stops ids now s) \<longleftrightarrow>
       (\<exists>oid\<in>set ids. sb_index s oid = Some i) \<and> due_stop now (sb_node s i)"
    using mf by (auto simp: expired_stops_def)
  then show "\<And>i. i \<in> set (expired_stops ids now s) \<Longrightarrow> sb_index s (stop_ids (sb_heap s) i) = Some i"
    using idx by blast
qed

text \<open>However the run visits the index, the due stops are handed to the caller and no others.\<close>

lemma ExpireGTD_stop_ok:
  assumes B: "price_index B" and ok: "stop_ok B pp s X" and ids: "distinct ids" "set ids = dom (sb_index s)"
  shows "\<exists>s'. ExpireGTD_stop B ids now s = Some (expired_stops ids now s, s') \<and>
     stop_ok B pp s' (X \<union> set (expired_stops ids now s)) \<and>
     (\<forall>j. stop_core (sb_node s' j) = stop_core (sb_node s j)) \<and> sb_maxDepth s' = sb_maxDepth s \<and>
     (\<forall>y. stop_view B y s' = without (due_stop now) (stop_view B y s))"
proof -
  obtain G where rep: "stop_rep B pp s G X" using ok by (auto simp: stop_ok_def)
  let ?is = "expired_stops ids now s"
  note e = expired_stops_ok [OF rep ids(1), where now = now]
  from remove_expired_ok [OF B ok e(1) e(3)] obtain s' where
    s': "remove_expired B ?is s = Some s'" "stop_ok B pp s' (X \<union> set ?is)"
    "\<forall>j. stop_core (sb_node s' j) = stop_core (sb_node s j)" "sb_maxDepth s' = sb_maxDepth s"
    "\<forall>y. stop_view B y s' = without (\<lambda>n. st_OrderID n \<in> stop_ids (sb_heap s) ` set ?is) (stop_view B y s)"
    by blast
  have "without (\<lambda>n. st_OrderID n \<in> stop_ids (sb_heap s) ` set ?is) (stop_view B y s) =
      without (due_stop now) (stop_view B y s)" for y
  proof (rule without_cong)
    fix p q n assume "(p, q) \<in> set (stop_view B y s)" "n \<in> set q"
    from stop_view_node [OF rep this] obtain j where
      j: "sb_index s (st_OrderID n) = Some j" "n = stop_core (sb_node s j)" by blast
    have "st_OrderID n \<in> stop_ids (sb_heap s) ` set ?is \<longleftrightarrow> j \<in> set ?is"
    proof
      assume "st_OrderID n \<in> stop_ids (sb_heap s) ` set ?is"
      then obtain k where "k \<in> set ?is" "stop_ids (sb_heap s) k = st_OrderID n" by auto
      then show "j \<in> set ?is" using e(3) [of k] j(1) by simp
    next
      assume "j \<in> set ?is"
      then show "st_OrderID n \<in> stop_ids (sb_heap s) ` set ?is" using j(2) by (auto simp: stop_core_def)
    qed
    also have "\<dots> \<longleftrightarrow> due_stop now (sb_node s j)" using e(2) ids(2) j(1) by auto
    also have "\<dots> \<longleftrightarrow> due_stop now n" using due_stop_core [of n "sb_node s j"] j(2) by simp
    finally show "(st_OrderID n \<in> stop_ids (sb_heap s) ` set ?is) = due_stop now n" .
  qed
  then show ?thesis using s' by (intro exI [of _ s']) (simp add: ExpireGTD_stop_def)
qed

end
