(* ===== verification/Stop_Claims.thy ===== *)
theory Stop_Claims
  imports Stop_Trigger Book_Demo
begin

section \<open>The stop book: the properties\<close>

text \<open>
  A new stop book satisfies the invariant; then the contract of its operations, over any tree
  library with the documented behaviour: which stops a trade price fires, and how adding and
  cancelling undo each other.
\<close>

subsection \<open>Starting from the empty stop book\<close>

lemma NewStopBook_ok:
  assumes B: "price_index B" and h: "stop_pools h X {}"
  shows "stop_ok B pp (NewStopBook B h d) X" "\<And>y. stop_view B y (NewStopBook B h d) = []"
proof -
  let ?s = "NewStopBook B h d" and ?G = "\<lambda>x :: bool. [] :: glevel list"
  have "stop_tree x ?s = bt_new B (stop_less x)" for x by (simp add: stop_tree_def NewStopBook_def)
  then have "stop_tree_rep B x pp (stop_tree x ?s) []" for x
    using btree.scan_new [OF price_index.axioms [OF B]] by (simp add: stop_tree_rep_def built_new)
  then have rep: "stop_rep B pp ?s ?G X"
    using h by (intro stop_repI)
      (simp_all add: stop_levels_rep_def disjoint_ghost_def all_nodes_def all_slots_def index_on_def
        NewStopBook_def)
  moreover have "full_levels ?G" by (simp add: full_levels_def)
  ultimately show "stop_ok B pp ?s X" unfolding stop_ok_def by blast
  show "stop_view B y ?s = []" for y using stop_view_ok [OF rep, of y] by (simp add: stop_shows_def)
qed

lemma stop_pools_new:
  "stop_pools \<lparr>sh_nodes = New zeroStopNode n, sh_levels = New zeroStopLevel m\<rparr> {} {}"
  by (simp add: stop_pools_def pool_ok_New used_slots_New)

text \<open>Acquiring a slot and filling it in.\<close>

lemma AcquireNode_ok:
  assumes ok: "stop_ok B pp s X" and acq: "AcquireNode s = Inr (s0, i)"
    and s1: "s1 = s0\<lparr>sb_heap := set_snode i f (sb_heap s0)\<rparr>"
  shows "stop_ok B pp s1 (insert i X)" "i \<notin> X" "sb_node s1 i = f zeroStopNode"
    "sb_index s1 = sb_index s" "sb_maxDepth s1 = sb_maxDepth s" "stop_view B y s1 = stop_view B y s"
    "sh_levels (sb_heap s1) = sh_levels (sb_heap s)"
proof -
  obtain G where rep: "stop_rep B pp s G X" and full: "full_levels G" using ok by (auto simp: stop_ok_def)
  note r = stop_repD [OF rep]
  obtain p where p: "Acquire zeroStopNode (sh_nodes (sb_heap s)) = Inr (p, i)"
    "s0 = s\<lparr>sb_heap := (sb_heap s)\<lparr>sh_nodes := p\<rparr>\<rparr>"
    using acq by (auto simp: AcquireNode_def split: sum.splits)
  have okp: "pool_ok (sh_nodes (sb_heap s))" and used: "used_slots (sh_nodes (sb_heap s)) = all_nodes G \<union> X"
    using r(6) by (simp_all add: stop_pools_def)
  note a = Acquire_ok [OF okp p(1)]
  show "i \<notin> X" using a(2) used by auto
  have fresh: "i \<notin> all_nodes G" using a(2) used by auto
  have il: "i < snodes_n (sb_heap s0)" using a(4,5) p(2) by simp
  have n0: "sb_node s0 = (sb_node s)(i := zeroStopNode)"
    using a(4,5) by (auto simp: p(2) snode_def fun_eq_iff)
  have n: "sb_node s1 = (sb_node s)(i := f zeroStopNode)"
    using snode_set_snode [OF il, of f] n0 by (simp add: s1)
  show "sb_node s1 i = f zeroStopNode" by (simp add: n)
  show "sb_index s1 = sb_index s" "sb_maxDepth s1 = sb_maxDepth s"
    "sh_levels (sb_heap s1) = sh_levels (sb_heap s)" by (simp_all add: s1 p(2) set_snode_def)
  have l: "sb_level s1 = sb_level s" by (simp add: s1 p(2) stop_simps) (simp add: slevel_def fun_eq_iff)
  have sz: "snodes_n (sb_heap s1) = snodes_n (sb_heap s)" "slevels_n (sb_heap s1) = slevels_n (sb_heap s)"
    using a(4) by (simp_all add: s1 p(2) stop_simps)
  have rep1: "stop_rep B pp s1 G (insert i X)"
  proof (rule stop_repI)
    have tr: "stop_tree x s1 = stop_tree x s" for x by (simp add: s1 p(2))
    show "stop_tree_rep B x pp (stop_tree x s1) (entries (G x))" for x using r(1) by (simp add: tr)
    show "stop_levels_rep (sb_heap s1) x (G x)" for x
      unfolding stop_levels_rep_def
    proof (clarify, intro conjI ballI)
      fix pr k q assume kq: "(pr, k, q) \<in> set (G x)"
      have same: "sb_node s1 j = sb_node s j" if "j \<in> set q" for j
        using that fresh all_nodes_in [where G = G, OF kq that] by (auto simp: n)
      show "stop_level_rep (sb_heap s1) pr k q"
        using stop_level_rep_frame [OF stop_levels_repD(1) [OF r(2) kq], of "sb_heap s1"] same sz by (simp add: l)
      show "stop_order x pr j (sb_node s1 j)" if "j \<in> set q" for j
        using stop_levels_repD(2) [OF r(2) kq that] same [OF that] by simp
    qed
    show "disjoint_ghost G" by (fact r(3))
    show "insert i X \<inter> all_nodes G = {}" using r(4) fresh by auto
    show "index_on (sb_index s1) (stop_ids (sb_heap s1)) (all_nodes G)"
    proof -
      have "sb_index s1 = sb_index s" by (simp add: s1 p(2))
      then show ?thesis using r(5) fresh by (auto simp: index_on_def n)
    qed
    have "stop_pools (sb_heap s0) (insert i (all_nodes G \<union> X)) (all_slots G)"
      using r(6) a(1,3) by (simp add: stop_pools_def p(2))
    then show "stop_pools (sb_heap s1) (all_nodes G \<union> insert i X) (all_slots G)"
      using stop_frame_pools [of "sb_heap s1" "sb_heap s0"] by (simp add: stop_pools_def s1 stop_simps)
  qed
  then show "stop_ok B pp s1 (insert i X)" using full by (auto simp: stop_ok_def)
  have "stop_shows s1 (G y) = stop_shows s (G y)"
  proof -
    have "map (stop_core \<circ> sb_node s1) q = map (stop_core \<circ> sb_node s) q" if "(pr, k, q) \<in> set (G y)" for pr k q
      using fresh all_nodes_in [where G = G, OF that] by (auto simp: n)
    then show ?thesis by (auto simp: stop_shows_def)
  qed
  then show "stop_view B y s1 = stop_view B y s" using stop_view_ok [OF rep] stop_view_ok [OF rep1] by simp
qed

lemma stop_view_sorted:
  assumes B: "price_index B" and ok: "stop_ok B pp s X"
  shows "sorted_wrt (\<lambda>p p'. ival p' < ival p) (map fst (stop_view B True s))"
    "sorted_wrt (\<lambda>p p'. ival p < ival p') (map fst (stop_view B False s))"
proof -
  obtain G where rep: "stop_rep B pp s G X" using ok by (auto simp: stop_ok_def)
  have fst_view: "map fst (stop_view B x s) = map fst (entries (G x))" for x
    by (auto simp: stop_view_ok [OF rep] stop_shows_def)
  note k = stop_tree_keys [OF B stop_repD(1) [OF rep]]
  have prec: "d_precision p = pp" if "p \<in> set (map fst (entries (G x)))" for p x
    using that k(1) [of x] by force
  have "sorted_wrt (\<lambda>p p'. stop_less x p p' = Some True) (map fst (stop_view B x s))" for x
    using k(3) [of x] by (simp only: fst_view)
  from sorted_wrt_mono_rel [OF _ this, of True] sorted_wrt_mono_rel [OF _ this, of False]
  show "sorted_wrt (\<lambda>p p'. ival p' < ival p) (map fst (stop_view B True s))"
    "sorted_wrt (\<lambda>p p'. ival p < ival p') (map fst (stop_view B False s))"
    using prec by (simp_all add: fst_view stop_less_def compare_same del: map_map)
qed

lemma CheckTriggers_ok:
  assumes B: "price_index B" and ok: "stop_ok B pp s X" and lp: "d_precision lp = pp"
    and depth: "depth < sb_maxDepth s"
  shows "\<exists>s'. CheckTriggers B lp depth s = Some (Inr (
       concat (map (map convertToTriggered \<circ> snd) (filter (hit True lp \<circ> fst) (stop_view B True s)) @
               map (map convertToTriggered \<circ> snd) (filter (hit False lp \<circ> fst) (stop_view B False s))), s')) \<and>
     stop_ok B pp s' X \<and> sb_maxDepth s' = sb_maxDepth s \<and> sb_node s' = sb_node s \<and>
     (\<forall>x. stop_view B x s' = filter (\<lambda>e. \<not> hit x lp (fst e)) (stop_view B x s))"
proof -
  obtain G where rep: "stop_rep B pp s G X" and full: "full_levels G" using ok by (auto simp: stop_ok_def)
  let ?c = "\<lambda>s. \<lambda>(p :: Decimal, l :: nat, q). map (convertToTriggered \<circ> sb_node s) q"
  obtain s1 where s1: "fire_side B True lp [] s =
       Some ([] @ concat (map (?c s) (takeWhile (level_hit True lp) (G True))), s1)"
    "sb_node s1 = sb_node s" "sb_maxDepth s1 = sb_maxDepth s"
    "stop_rep B pp s1 (G(True := dropWhile (level_hit True lp) (G True))) X"
    using fire_side_ok [OF B lp rep, of True "[]"] by blast
  let ?G1 = "G(True := dropWhile (level_hit True lp) (G True))"
  obtain s2 where s2: "fire_side B False lp (concat (map (?c s) (takeWhile (level_hit True lp) (G True)))) s1 =
       Some (concat (map (?c s) (takeWhile (level_hit True lp) (G True))) @
             concat (map (?c s1) (takeWhile (level_hit False lp) (?G1 False))), s2)"
    "sb_node s2 = sb_node s1" "sb_maxDepth s2 = sb_maxDepth s1"
    "stop_rep B pp s2 (?G1(False := dropWhile (level_hit False lp) (?G1 False))) X"
    using fire_side_ok [OF B lp s1(4), of False] by blast
  let ?G2 = "?G1(False := dropWhile (level_hit False lp) (?G1 False))"
  note front = hit_front [OF B rep, where lp = lp]
  have G2: "?G2 x = filter (\<lambda>e. \<not> level_hit x lp e) (G x)" for x
    using front(2) by (cases x) simp_all
  have "q \<noteq> []" if "(p, l, q) \<in> set (?G2 x)" for p l q x
    using that full_levelsD [OF full, of p l q x] unfolding G2 by simp
  then have "full_levels ?G2" unfolding full_levels_def by blast
  then have ok2: "stop_ok B pp s2 X" using s2(4) unfolding stop_ok_def by blast
  have conv: "concat (map (?c s) (filter (level_hit x lp) (G x))) =
      concat (map (map convertToTriggered \<circ> snd) (filter (hit x lp \<circ> fst) (stop_view B x s)))" for x
  proof -
    have "map (?c s) (filter (level_hit x lp) g) =
        map (map convertToTriggered \<circ> snd) (filter (hit x lp \<circ> fst) (stop_shows s g))" for g
      by (induction g) (auto simp: stop_shows_def convertToTriggered_def stop_core_def)
    then show ?thesis by (simp add: stop_view_ok [OF rep])
  qed
  have view: "stop_view B x s2 = filter (\<lambda>e. \<not> hit x lp (fst e)) (stop_view B x s)" for x
  proof -
    have "stop_shows s2 (filter (\<lambda>e. \<not> level_hit x lp e) g) =
        filter (\<lambda>e. \<not> hit x lp (fst e)) (stop_shows s g)" for g
      by (induction g) (auto simp: stop_shows_def s1(2) s2(2))
    then show ?thesis using stop_view_ok [OF s2(4), of x] by (simp only: G2 stop_view_ok [OF rep])
  qed
  have fr: "takeWhile (level_hit True lp) (G True) = filter (level_hit True lp) (G True)"
    "takeWhile (level_hit False lp) (?G1 False) = filter (level_hit False lp) (G False)"
    using front(1) [of True] front(1) [of False] by simp_all
  have "CheckTriggers B lp depth s = Some (Inr (
       concat (map (map convertToTriggered \<circ> snd) (filter (hit True lp \<circ> fst) (stop_view B True s)) @
               map (map convertToTriggered \<circ> snd) (filter (hit False lp \<circ> fst) (stop_view B False s))), s2))"
    using depth s1(1) s2(1) by (simp add: CheckTriggers_def fr conv s1(2) del: fun_upd_apply)
  then show ?thesis using ok2 view s1(2,3) s2(2,3) by (intro exI [of _ s2]) simp
qed

subsection \<open>A small stop book\<close>

definition demo_stop :: "OrderID \<Rightarrow> Side \<Rightarrow> i64 \<Rightarrow> i64 \<Rightarrow> nat \<Rightarrow> StopNode \<Rightarrow> StopNode" where
  "demo_stop oid side trigger expire idx n = n\<lparr>st_PoolIndex := idx, st_OrderID := oid, st_UserID := ''alice'',
     st_MarketID := ''M'', st_Side := side, st_TIF := GTC, st_TriggerPrice := \<lparr>d_value = trigger, d_precision = 2\<rparr>,
     st_LimitPrice := Zero 2, st_Qty := \<lparr>d_value = 10, d_precision = 0\<rparr>, st_ConvertTo := Market,
     st_ExpireAt := expire\<rparr>"

definition hold_stop :: "(nat \<Rightarrow> StopNode \<Rightarrow> StopNode) \<Rightarrow> 't StopBook \<Rightarrow> ('t StopBook \<times> nat) option" where
  "hold_stop f s = (case AcquireNode s of Inl err \<Rightarrow> None
     | Inr (s0, i) \<Rightarrow> Some (s0\<lparr>sb_heap := set_snode i (f i) (sb_heap s0)\<rparr>, i))"

definition demo_empty :: "(Decimal, nat) list_tree StopBook" where
  "demo_empty = NewStopBook list_btree
     \<lparr>sh_nodes = New zeroStopNode 3, sh_levels = New zeroStopLevel 2\<rparr> 2"

definition demo_held :: "(Decimal, nat) list_tree StopBook" where
  "demo_held = fst (the (hold_stop (demo_stop ''s1'' Ask 10000 50) demo_empty))"

definition demo_one :: "(Decimal, nat) list_tree StopBook" where
  "demo_one = the (AddStop list_btree 0 demo_held)"

definition demo_held2 :: "(Decimal, nat) list_tree StopBook" where
  "demo_held2 = fst (the (hold_stop (demo_stop ''s2'' Bid 10200 0) demo_one))"

definition demo_stops :: "(Decimal, nat) list_tree StopBook" where
  "demo_stops = the (AddStop list_btree 1 demo_held2)"

lemma demo_stops_ok:
  "stop_ok list_btree 2 demo_held {0}" "addable 2 demo_held {0} 0"
  "stop_ok list_btree 2 demo_stops {}"
proof -
  have e: "stop_ok list_btree 2 demo_empty {}"
    unfolding demo_empty_def by (rule NewStopBook_ok(1) [OF list_index stop_pools_new])
  have hold: "stop_ok list_btree 2 s' (insert i X)" if "stop_ok list_btree 2 s X" "hold_stop f s = Some (s', i)"
    for s s' :: "(Decimal, nat) list_tree StopBook" and f i X
    using that AcquireNode_ok(1) [OF that(1), of _ i _ "f i"] by (auto simp: hold_stop_def split: sum.splits)
  have "hold_stop (demo_stop ''s1'' Ask 10000 50) demo_empty \<noteq> None" "snd (the (hold_stop (demo_stop ''s1'' Ask 10000 50) demo_empty)) = 0" by code_simp+
  then have h1: "hold_stop (demo_stop ''s1'' Ask 10000 50) demo_empty = Some (demo_held, 0)" by (auto simp: demo_held_def)
  show ok1: "stop_ok list_btree 2 demo_held {0}" using hold [OF e h1] by simp
  show a1: "addable 2 demo_held {0} 0" by code_simp
  have t1: "st_TriggerPrice (stop_core (sb_node demo_held 0)) = \<lparr>d_value = 10000, d_precision = 2\<rparr>" by code_simp
  have "AddStop list_btree 0 demo_held \<noteq> None" by code_simp
  then have r1: "AddStop list_btree 0 demo_held = Some demo_one" by (auto simp: demo_one_def)
  have ok2: "stop_ok list_btree 2 demo_one {}"
    using AddStop_ok [OF list_index ok1 a1 refl refl] r1 by (auto simp: stop_added_def split: if_splits)
  have "hold_stop (demo_stop ''s2'' Bid 10200 0) demo_one \<noteq> None" "snd (the (hold_stop (demo_stop ''s2'' Bid 10200 0) demo_one)) = 1" by code_simp+
  then have h2: "hold_stop (demo_stop ''s2'' Bid 10200 0) demo_one = Some (demo_held2, 1)" by (auto simp: demo_held2_def)
  have ok3: "stop_ok list_btree 2 demo_held2 {1}" using hold [OF ok2 h2] by simp
  have a2: "addable 2 demo_held2 {1} 1" by code_simp
  have "AddStop list_btree 1 demo_held2 \<noteq> None" by code_simp
  then have r2: "AddStop list_btree 1 demo_held2 = Some demo_stops" by (auto simp: demo_stops_def)
  show "stop_ok list_btree 2 demo_stops {}"
    using AddStop_ok [OF list_index ok3 a2 refl refl] r2 by (auto simp: stop_added_def split: if_splits)
qed

subsection \<open>The properties\<close>

text \<open>Claim C37: a trade price fires exactly the pending stops whose trigger it reaches, in order of
  priority: the stop sells from the highest trigger price down, then the stop buys from the
  lowest up, at one price in the order in which they were placed.  The fired stops leave the
  book, the others stay as they were, and at the cascade limit nothing is fired and the caller
  gets the error.\<close>

theorem CheckTriggers_fires:
  assumes "price_index B" and "stop_ok B pp s X" and "d_precision lp = pp"
  defines "fired x \<equiv> concat (map (map convertToTriggered \<circ> snd) (filter (hit x lp \<circ> fst) (stop_view B x s)))"
  shows "if sb_maxDepth s \<le> depth then CheckTriggers B lp depth s = Some (Inl ErrCascadeLimit)
     else \<exists>s'. CheckTriggers B lp depth s = Some (Inr (fired True @ fired False, s')) \<and>
       stop_ok B pp s' X \<and>
       (\<forall>x. stop_view B x s' = filter (\<lambda>e. \<not> hit x lp (fst e)) (stop_view B x s)) \<and>
       sorted_wrt (\<lambda>p p'. ival p' < ival p) (map fst (stop_view B True s)) \<and>
       sorted_wrt (\<lambda>p p'. ival p < ival p') (map fst (stop_view B False s))"
proof (cases "sb_maxDepth s \<le> depth")
  case False
  then have "depth < sb_maxDepth s" by simp
  from CheckTriggers_ok [OF assms(1-3) this] show ?thesis
    using stop_view_sorted [OF assms(1,2)] False by (auto simp: fired_def)
qed (simp add: CheckTriggers_def)

theorem CheckTriggers_fires_witness:
  "\<exists>s' ts. CheckTriggers list_btree \<lparr>d_value = 9900, d_precision = 2\<rparr> 0 demo_stops = Some (Inr (ts, s')) \<and>
     map to_OrderID ts = [''s1''] \<and> stop_ok list_btree 2 s' {}"
proof -
  have p: "d_precision \<lparr>d_value = 9900, d_precision = 2\<rparr> = 2" by simp
  have d: "sb_maxDepth demo_stops = 2" by code_simp
  have f: "map to_OrderID (
       concat (map (map convertToTriggered \<circ> snd) (filter (hit True \<lparr>d_value = 9900, d_precision = 2\<rparr> \<circ> fst) (stop_view list_btree True demo_stops))) @
       concat (map (map convertToTriggered \<circ> snd) (filter (hit False \<lparr>d_value = 9900, d_precision = 2\<rparr> \<circ> fst) (stop_view list_btree False demo_stops)))) = [''s1'']"
    by code_simp
  show ?thesis
    using CheckTriggers_fires [OF list_index demo_stops_ok(3) p, of 0] f by (auto simp: d)
qed

text \<open>An id that is not pending is in no queue.\<close>

lemma stop_without_absent:
  assumes rep: "stop_rep B pp s G X" and full: "full_levels G" and oid: "sb_index s oid = None"
    and sub: "set L \<subseteq> set (stop_view B y s)"
  shows "without (\<lambda>m. st_OrderID m = oid) L = L"
proof (rule without_none)
  fix p q assume e: "(p, q) \<in> set L"
  then have v: "(p, q) \<in> set (stop_view B y s)" using sub by blast
  have "q \<noteq> []" using v stop_view_ok [OF rep, of y] by (auto simp: stop_shows_def dest!: full_levelsD [OF full])
  moreover have "st_OrderID m \<noteq> oid" if "m \<in> set q" for m using stop_view_node [OF rep v that] oid by auto
  ultimately show "q \<noteq> [] \<and> (\<forall>m\<in>set q. st_OrderID m \<noteq> oid)" by blast
qed

lemma stop_without_in:
  assumes B: "price_index B" and rep: "stop_rep B pp s G X" and full: "full_levels G"
    and n: "sb_index s (st_OrderID n) = None" "d_precision (st_TriggerPrice n) = pp"
  shows "without (\<lambda>m. st_OrderID m = st_OrderID n) (stop_in y n (stop_view B y s)) = stop_view B y s"
proof -
  let ?L = "stop_view B y s" and ?P = "\<lambda>m. st_OrderID m = st_OrderID n"
  note same = stop_without_absent [OF rep full n(1), of _ y]
  have queue: "q \<noteq> [] \<and> filter (\<lambda>m. \<not> ?P m) q = q" if "(p, q) \<in> set ?L" for p q
  proof -
    have "without ?P [(p, q)] = [(p, q)]" using that by (intro same) simp
    then show ?thesis by (auto simp: Let_def split: if_splits)
  qed
  show ?thesis
  proof (cases "st_TriggerPrice n \<in> fst ` set ?L")
    case True
    have "without ?P (map (\<lambda>(p, q). (p, if p = st_TriggerPrice n then q @ [n] else q)) L) = L"
      if "set L \<subseteq> set ?L" for L
      using that
    proof (induction L)
      case (Cons e L)
      obtain p q where e: "e = (p, q)" by (cases e)
      then show ?case using Cons queue [of p q] by (simp add: Let_def)
    qed simp
    then show ?thesis using True by (simp add: stop_in_def)
  next
    case False
    let ?p = "st_TriggerPrice n"
    have fst_view: "map fst ?L = map fst (entries (G y))"
      by (auto simp: stop_view_ok [OF rep] stop_shows_def)
    note k = stop_tree_keys [OF B stop_repD(1) [OF rep, of y]]
    have L: "sorted_wrt (\<lambda>a b. stop_less y a b = Some True) (map fst ?L)" "fst ` set ?L \<subseteq> prices pp"
      using k(1,3) fst_view by (simp_all flip: set_map)
    have "without ?P (stop_in y n ?L) =
        filter (\<lambda>e. stop_less y (fst e) ?p = Some True) ?L @ filter (\<lambda>e. stop_less y ?p (fst e) = Some True) ?L"
      using False same [of "filter _ ?L"] by (simp add: stop_in_def entries_set_def Let_def)
    also have "\<dots> = ?L"
      using n(2) False L by (intro split_sorted [OF tree_less_orders [of "side_of y" pp, folded stop_less_tree_less]]) auto
    finally show ?thesis .
  qed
qed

text \<open>Claim C38: a stop is added at the end of the queue of its trigger price, and cancelling it
  at once, which only its owner can, gives the stop book as it was.  Adding fails only by the
  panic of the code when a new trigger price is needed and the level pool is exhausted.\<close>

theorem AddStop_CancelStop:
  assumes "price_index B" and "stop_ok B pp s X" and "addable pp s X i"
  defines "n \<equiv> stop_core (sb_node s i)"
  defines "x \<equiv> st_Side n = Ask"
  shows "if st_TriggerPrice n \<notin> fst ` set (stop_view B x s) \<and>
            Len (sh_levels (sb_heap s)) = Capacity (sh_levels (sb_heap s))
     then AddStop B i s = None
     else \<exists>s1 s2. AddStop B i s = Some s1 \<and> stop_ok B pp s1 (X - {i}) \<and>
       stop_view B x s1 = stop_in x n (stop_view B x s) \<and> stop_view B (\<not> x) s1 = stop_view B (\<not> x) s \<and>
       (\<forall>uid. uid \<noteq> st_UserID n \<longrightarrow> CancelStop B (st_OrderID n) uid s1 = Some (Inl ErrStopOwnershipMismatch)) \<and>
       CancelStop B (st_OrderID n) (st_UserID n) s1 = Some (Inr (i, s2)) \<and> stop_ok B pp s2 X \<and>
       sb_index s2 = sb_index s \<and> (\<forall>y. stop_view B y s2 = stop_view B y s)"
proof (cases "st_TriggerPrice n \<notin> fst ` set (stop_view B x s) \<and>
            Len (sh_levels (sb_heap s)) = Capacity (sh_levels (sb_heap s))")
  case True
  then show ?thesis using AddStop_ok [OF assms(1-3) meta_eq_to_obj_eq [OF n_def] meta_eq_to_obj_eq [OF x_def]] by simp
next
  case False
  obtain s1 where s1: "AddStop B i s = Some s1" "stop_ok B pp s1 (X - {i})"
    "\<forall>j. stop_core (sb_node s1 j) = stop_core (sb_node s j)"
    "sb_index s1 = (sb_index s)(st_OrderID n \<mapsto> i)"
    "stop_view B (\<not> x) s1 = stop_view B (\<not> x) s" "stop_view B x s1 = stop_in x n (stop_view B x s)"
    using AddStop_ok [OF assms(1-3) meta_eq_to_obj_eq [OF n_def] meta_eq_to_obj_eq [OF x_def]] False by (auto simp: stop_added_def split: if_splits)
  obtain G where rep: "stop_rep B pp s G X" and full: "full_levels G" using assms(2) by (auto simp: stop_ok_def)
  have i: "i \<in> X" "sb_index s (st_OrderID n) = None" "d_precision (st_TriggerPrice n) = pp"
    using assms(3) by (simp_all add: addable_def Let_def n_def stop_core_def)
  have own: "st_UserID (sb_node s1 i) = st_UserID n"
    using stop_core_eqD(2) [of "sb_node s1 i" "sb_node s i"] s1(3) by (simp add: n_def stop_core_def)
  have idx: "sb_index s1 (st_OrderID n) = Some i" by (simp add: s1(4))
  from CancelStop_ok [OF assms(1) s1(2) idx own] obtain s2 where
    s2: "CancelStop B (st_OrderID n) (st_UserID n) s1 = Some (Inr (i, s2))"
    "stop_ok B pp s2 (insert i (X - {i}))" "sb_index s2 = (sb_index s1)(st_OrderID n := None)"
    "\<forall>y. stop_view B y s2 = without (\<lambda>m. st_OrderID m = st_OrderID n) (stop_view B y s1)" by blast
  have other: "without (\<lambda>m. st_OrderID m = st_OrderID n) (stop_view B z s) = stop_view B z s" for z
    by (rule stop_without_absent [OF rep full i(2) subset_refl])
  have "stop_view B z s2 = stop_view B z s" for z
  proof (cases "z = x")
    case True
    then show ?thesis using s2(4) s1(6) stop_without_in [OF assms(1) rep full i(2,3)] by simp
  next
    case z: False
    then have "stop_view B z s1 = stop_view B z s" using s1(5) by (cases x; cases z) auto
    then show ?thesis using s2(4) other by simp
  qed
  moreover have "sb_index s2 = sb_index s" using s2(3) s1(4) i(2) by (auto simp: fun_eq_iff)
  moreover have "insert i (X - {i}) = X" using i(1) by auto
  moreover have "\<forall>uid. uid \<noteq> st_UserID n \<longrightarrow> CancelStop B (st_OrderID n) uid s1 = Some (Inl ErrStopOwnershipMismatch)"
    using idx own by (simp add: CancelStop_def)
  ultimately show ?thesis
    unfolding if_not_P [OF False] using s1 s2(1,2) by (intro exI [of _ s1] exI [of _ s2]) simp
qed

theorem AddStop_CancelStop_witness:
  "\<exists>s1 s2. AddStop list_btree 0 demo_held = Some s1 \<and>
     CancelStop list_btree ''s1'' ''alice'' s1 = Some (Inr (0, s2)) \<and> sb_index s2 = sb_index demo_held"
proof -
  have "st_OrderID (stop_core (sb_node demo_held 0)) = ''s1''"
    "st_UserID (stop_core (sb_node demo_held 0)) = ''alice''"
    "Len (sh_levels (sb_heap demo_held)) \<noteq> Capacity (sh_levels (sb_heap demo_held))" by code_simp+
  then show ?thesis
    using AddStop_CancelStop [OF list_index demo_stops_ok(1,2)] by (auto split: if_splits)
qed

end
