(* ===== verification/Auction.thy ===== *)
theory Auction
  imports Market_Config Decimal_Text
begin

section \<open>The call auction (\<open>auction/\<close>)\<close>

text \<open>
  \<open>AuctionBook\<close> collects limit orders while the market is in the auction state, in two
  sorted slices.  \<open>ComputeClearingPrice\<close> finds the price of the largest executable volume and
  \<open>Sweep\<close> executes the orders at it.
\<close>

record AuctionOrder =
  ao_OrderID :: OrderID
  ao_UserID :: UserID
  ao_Side :: Side
  ao_Price :: Decimal
  ao_Qty :: Decimal
  ao_TIF :: TIF
  ao_SeqNum :: u64

record AuctionBook =
  ab_bids :: "AuctionOrder list"
  ab_asks :: "AuctionOrder list"
  ab_pricePrecision :: u8
  ab_qtyPrecision :: u8

definition NewAuctionBook :: "u8 \<Rightarrow> u8 \<Rightarrow> AuctionBook" where
  "NewAuctionBook pricePrecision qtyPrecision =
     \<lparr>ab_bids = [], ab_asks = [], ab_pricePrecision = pricePrecision, ab_qtyPrecision = qtyPrecision\<rparr>"

subsection \<open>Adding an order\<close>

text \<open>\<open>sort.Slice\<close> of the standard library sorts by the given order; on a short slice it is the
  insertion sort below, and on any slice whose keys are distinct the result is the same.  The
  sorted part is kept in reverse.\<close>

fun sift :: "('a \<Rightarrow> 'a \<Rightarrow> bool option) \<Rightarrow> 'a \<Rightarrow> 'a list \<Rightarrow> 'a list option" where
  "sift less_fn x [] = Some [x]"
| "sift less_fn x (y # ys) = do {
     b \<leftarrow> less_fn x y;
     if b then do { r \<leftarrow> sift less_fn x ys; Some (y # r) } else Some (x # y # ys) }"

fun insertion_sort :: "('a \<Rightarrow> 'a \<Rightarrow> bool option) \<Rightarrow> 'a list \<Rightarrow> 'a list \<Rightarrow> 'a list option" where
  "insertion_sort less_fn sorted_rev [] = Some (rev sorted_rev)"
| "insertion_sort less_fn sorted_rev (x # xs) = do {
     r \<leftarrow> sift less_fn x sorted_rev;
     insertion_sort less_fn r xs }"

definition bidLess :: "AuctionOrder \<Rightarrow> AuctionOrder \<Rightarrow> bool option" where
  "bidLess a b = do {
     eq \<leftarrow> Equal (ao_Price a) (ao_Price b);
     if eq then Some (ao_SeqNum a < ao_SeqNum b) else GreaterThan (ao_Price a) (ao_Price b) }"

definition askLess :: "AuctionOrder \<Rightarrow> AuctionOrder \<Rightarrow> bool option" where
  "askLess a b = do {
     eq \<leftarrow> Equal (ao_Price a) (ao_Price b);
     if eq then Some (ao_SeqNum a < ao_SeqNum b) else LessThan (ao_Price a) (ao_Price b) }"

definition AddOrder :: "AuctionOrder \<Rightarrow> AuctionBook \<Rightarrow> AuctionBook option" where
  "AddOrder order a =
     (if ao_Side order = Bid then do {
        bids \<leftarrow> insertion_sort bidLess [] (ab_bids a @ [order]);
        Some (a\<lparr>ab_bids := bids\<rparr>) }
      else do {
        asks \<leftarrow> insertion_sort askLess [] (ab_asks a @ [order]);
        Some (a\<lparr>ab_asks := asks\<rparr>) })"

definition BidCount :: "AuctionBook \<Rightarrow> nat" where
  "BidCount a = length (ab_bids a)"

definition AskCount :: "AuctionBook \<Rightarrow> nat" where
  "AskCount a = length (ab_asks a)"

definition Has_auction :: "OrderID \<Rightarrow> AuctionBook \<Rightarrow> bool" where
  "Has_auction orderID a \<longleftrightarrow>
     (\<exists>x\<in>set (ab_bids a). ao_OrderID x = orderID) \<or> (\<exists>x\<in>set (ab_asks a). ao_OrderID x = orderID)"

subsection \<open>The clearing price\<close>

fun priceSet :: "AuctionOrder list \<Rightarrow> (string \<rightharpoonup> Decimal) \<Rightarrow> (string \<rightharpoonup> Decimal) option" where
  "priceSet [] m = Some m"
| "priceSet (x # xs) m = do {
     key \<leftarrow> String_dec (ao_Price x);
     priceSet xs (m(key \<mapsto> ao_Price x)) }"

text \<open>The inner and the outer loop of the exchange sort.\<close>

fun swap_pass :: "Decimal \<Rightarrow> Decimal list \<Rightarrow> (Decimal \<times> Decimal list) option" where
  "swap_pass x [] = Some (x, [])"
| "swap_pass x (y # ys) = do {
     gt \<leftarrow> GreaterThan x y;
     (least, rest) \<leftarrow> swap_pass (if gt then y else x) ys;
     Some (least, (if gt then x else y) # rest) }"

fun sort_prices :: "nat \<Rightarrow> Decimal list \<Rightarrow> Decimal list option" where
  "sort_prices 0 ps = Some ps"
| "sort_prices (Suc k) [] = Some []"
| "sort_prices (Suc k) (p # ps) = do {
     (least, rest) \<leftarrow> swap_pass p ps;
     rest \<leftarrow> sort_prices k rest;
     Some (least # rest) }"

fun cumBid :: "Decimal \<Rightarrow> Decimal \<Rightarrow> AuctionOrder list \<Rightarrow> Decimal option" where
  "cumBid candidate acc [] = Some acc"
| "cumBid candidate acc (x # xs) = do {
     ge \<leftarrow> GreaterThanOrEqual (ao_Price x) candidate;
     acc \<leftarrow> (if ge then Add acc (ao_Qty x) else Some acc);
     cumBid candidate acc xs }"

fun cumAsk :: "Decimal \<Rightarrow> Decimal \<Rightarrow> AuctionOrder list \<Rightarrow> Decimal option" where
  "cumAsk candidate acc [] = Some acc"
| "cumAsk candidate acc (x # xs) = do {
     le \<leftarrow> LessThanOrEqual (ao_Price x) candidate;
     acc \<leftarrow> (if le then Add acc (ao_Qty x) else Some acc);
     cumAsk candidate acc xs }"

text \<open>The best candidate so far: its price, quantity and imbalance, and whether there is one.\<close>

record best_candidate =
  bc_price :: Decimal
  bc_qty :: Decimal
  bc_imbalance :: Decimal
  bc_found :: bool

definition betterRef :: "Decimal \<Rightarrow> Decimal \<Rightarrow> Decimal \<Rightarrow> Decimal \<Rightarrow> best_candidate \<Rightarrow> bool option" where
  "betterRef refPrice candidate execQty imbalance best =
     (if \<not> IsZero refPrice \<and> bc_found best then do {
        eqQ \<leftarrow> Equal execQty (bc_qty best);
        eqI \<leftarrow> (if eqQ then Equal imbalance (bc_imbalance best) else Some False);
        if eqI then do {
          dc \<leftarrow> Sub candidate refPrice;
          db \<leftarrow> Sub (bc_price best) refPrice;
          let distCand = Abs_dec dc;
          let distBest = Abs_dec db;
          lt \<leftarrow> LessThan distCand distBest;
          if lt then Some True
          else do {
            eq \<leftarrow> Equal distCand distBest;
            if eq then Equal candidate refPrice else Some False } }
        else Some False }
      else Some False)"

definition isBetter :: "Decimal \<Rightarrow> Decimal \<Rightarrow> bool \<Rightarrow> best_candidate \<Rightarrow> bool option" where
  "isBetter execQty imbalance better_ref best =
     (if \<not> bc_found best then Some True
      else do {
        gt \<leftarrow> GreaterThan execQty (bc_qty best);
        if gt then Some True
        else do {
          eq \<leftarrow> Equal execQty (bc_qty best);
          lt \<leftarrow> (if eq then LessThan imbalance (bc_imbalance best) else Some False);
          Some (lt \<or> better_ref) } })"

fun bestCandidate :: "AuctionBook \<Rightarrow> Decimal \<Rightarrow> Decimal list \<Rightarrow> best_candidate \<Rightarrow> best_candidate option" where
  "bestCandidate a refPrice [] best = Some best"
| "bestCandidate a refPrice (candidate # prices) best = do {
     bid \<leftarrow> cumBid candidate (Zero (ab_qtyPrecision a)) (ab_bids a);
     ask \<leftarrow> cumAsk candidate (Zero (ab_qtyPrecision a)) (ab_asks a);
     lt \<leftarrow> LessThan ask bid;
     let execQty = (if lt then ask else bid);
     if IsZero execQty then bestCandidate a refPrice prices best
     else do {
       diff \<leftarrow> Sub bid ask;
       let imbalance = Abs_dec diff;
       br \<leftarrow> betterRef refPrice candidate execQty imbalance best;
       better \<leftarrow> isBetter execQty imbalance br best;
       bestCandidate a refPrice prices
         (if better then \<lparr>bc_price = candidate, bc_qty = execQty, bc_imbalance = imbalance, bc_found = True\<rparr>
          else best) } }"

text \<open>\<open>keys\<close> is the order in which the run visits the map of prices.\<close>

definition ComputeClearingPrice :: "string list \<Rightarrow> Decimal \<Rightarrow> AuctionBook \<Rightarrow> (Decimal \<times> Decimal \<times> bool) option" where
  "ComputeClearingPrice keys refPrice a =
     (if ab_bids a = [] \<or> ab_asks a = [] then Some (Zero (ab_pricePrecision a), Zero (ab_qtyPrecision a), False)
      else do {
        m \<leftarrow> priceSet (ab_bids a) Map.empty;
        m \<leftarrow> priceSet (ab_asks a) m;
        let prices = List.map_filter m keys;
        prices \<leftarrow> sort_prices (length prices - 1) prices;
        best \<leftarrow> bestCandidate a refPrice prices
          \<lparr>bc_price = Zero (ab_pricePrecision a), bc_qty = Zero (ab_qtyPrecision a),
           bc_imbalance = Zero (ab_qtyPrecision a), bc_found = False\<rparr>;
        Some (bc_price best, bc_qty best, bc_found best) })"

subsection \<open>The sweep\<close>

fun filter_opt :: "('a \<Rightarrow> bool option) \<Rightarrow> 'a list \<Rightarrow> 'a list option" where
  "filter_opt P [] = Some []"
| "filter_opt P (x # xs) = do {
     b \<leftarrow> P x;
     ys \<leftarrow> filter_opt P xs;
     Some (if b then x # ys else ys) }"

definition sweep_fill :: "Decimal \<Rightarrow> AuctionOrder \<Rightarrow> AuctionOrder \<Rightarrow> Decimal \<Rightarrow> Decimal \<Rightarrow> Decimal \<Rightarrow> Fill" where
  "sweep_fill clearingPrice bid ask fillQty bidLeft askLeft =
     \<lparr>f_MakerOrderID = ao_OrderID ask, f_TakerOrderID = ao_OrderID bid,
      f_MakerUserID = ao_UserID ask, f_TakerUserID = ao_UserID bid, f_MakerSide = Ask,
      f_Price = clearingPrice, f_Qty = fillQty, f_MakerRemainQty = askLeft,
      f_TakerRemainQty = bidLeft, f_MakerSeqNum = ao_SeqNum ask, f_TakerSeqNum = ao_SeqNum bid,
      f_Timestamp = 0, f_MakerLevelTotalQty = zeroDecimal, f_MakerLevelDisplayQty = zeroDecimal,
      f_MakerLevelOrderCount = 0, f_MakerLevelExists = False\<rparr>"

text \<open>The matching loop, over the two indices and the remaining quantities.\<close>

partial_function (option) sweep_loop :: "Decimal \<Rightarrow> AuctionOrder list \<Rightarrow> AuctionOrder list \<Rightarrow> nat \<Rightarrow> nat \<Rightarrow>
    Decimal list \<Rightarrow> Decimal list \<Rightarrow> Fill list \<Rightarrow> (Decimal list \<times> Decimal list \<times> Fill list) option" where
  "sweep_loop p eligBids eligAsks bi ai bidRemain askRemain fills =
     (if \<not> (bi < length eligBids \<and> ai < length eligAsks) then Some (bidRemain, askRemain, fills)
      else if IsZero (bidRemain ! bi) then sweep_loop p eligBids eligAsks (bi + 1) ai bidRemain askRemain fills
      else if IsZero (askRemain ! ai) then sweep_loop p eligBids eligAsks bi (ai + 1) bidRemain askRemain fills
      else Option.bind (LessThan (askRemain ! ai) (bidRemain ! bi)) (\<lambda>lt.
        let fillQty = (if lt then askRemain ! ai else bidRemain ! bi) in
        Option.bind (Sub (askRemain ! ai) fillQty) (\<lambda>askLeft.
        Option.bind (Sub (bidRemain ! bi) fillQty) (\<lambda>bidLeft.
          sweep_loop p eligBids eligAsks bi ai (bidRemain[bi := bidLeft]) (askRemain[ai := askLeft])
            (fills @ [sweep_fill p (eligBids ! bi) (eligAsks ! ai) fillQty bidLeft askLeft])))))"

declare sweep_loop.simps [code]

text \<open>The eligible orders with something left, with their remaining quantity.\<close>

fun leftovers :: "AuctionOrder list \<Rightarrow> Decimal list \<Rightarrow> AuctionOrder list" where
  "leftovers (x # xs) (r # rs) = (if \<not> IsZero r then x\<lparr>ao_Qty := r\<rparr> # leftovers xs rs else leftovers xs rs)"
| "leftovers _ _ = []"

definition Sweep :: "Decimal \<Rightarrow> AuctionBook \<Rightarrow> (Fill list \<times> AuctionOrder list \<times> AuctionOrder list) option" where
  "Sweep clearingPrice a = do {
     eligBids \<leftarrow> filter_opt (\<lambda>x. GreaterThanOrEqual (ao_Price x) clearingPrice) (ab_bids a);
     eligAsks \<leftarrow> filter_opt (\<lambda>x. LessThanOrEqual (ao_Price x) clearingPrice) (ab_asks a);
     (bidRemain, askRemain, fills) \<leftarrow>
       sweep_loop clearingPrice eligBids eligAsks 0 0 (map ao_Qty eligBids) (map ao_Qty eligAsks) [];
     outBids \<leftarrow> filter_opt (\<lambda>x. LessThan (ao_Price x) clearingPrice) (ab_bids a);
     outAsks \<leftarrow> filter_opt (\<lambda>x. GreaterThan (ao_Price x) clearingPrice) (ab_asks a);
     let left = leftovers eligBids bidRemain @ leftovers eligAsks askRemain @ outBids @ outAsks;
     Some (fills, filter (\<lambda>x. ao_TIF x = GTC) left, filter (\<lambda>x. ao_TIF x \<noteq> GTC) left) }"

end
