(* ===== verification/Auction_Proof.thy ===== *)
theory Auction_Proof
  imports Auction "HOL-Library.Multiset"
begin

section \<open>The call auction: what its steps compute\<close>

text \<open>
  The invariant of the auction book (both sides in price-time priority), the executable volume of
  a price, the loop over candidate prices as a search for the best, and the two-pointer sweep.
\<close>

subsection \<open>The invariant of the auction book\<close>

text \<open>Price-time priority: the better price first, at one price the earlier order.\<close>

definition bid_before :: "AuctionOrder \<Rightarrow> AuctionOrder \<Rightarrow> bool" where
  "bid_before x y \<longleftrightarrow> ival (ao_Price y) < ival (ao_Price x) \<or>
     ival (ao_Price x) = ival (ao_Price y) \<and> ao_SeqNum x \<le> ao_SeqNum y"

definition ask_before :: "AuctionOrder \<Rightarrow> AuctionOrder \<Rightarrow> bool" where
  "ask_before x y \<longleftrightarrow> ival (ao_Price x) < ival (ao_Price y) \<or>
     ival (ao_Price x) = ival (ao_Price y) \<and> ao_SeqNum x \<le> ao_SeqNum y"

definition auction_order :: "u8 \<Rightarrow> u8 \<Rightarrow> AuctionOrder \<Rightarrow> bool" where
  "auction_order pp qp x \<longleftrightarrow> d_precision (ao_Price x) = pp \<and> d_precision (ao_Qty x) = qp \<and>
     0 < ival (ao_Price x) \<and> 0 < ival (ao_Qty x)"

definition auction_ok :: "u8 \<Rightarrow> u8 \<Rightarrow> AuctionBook \<Rightarrow> bool" where
  "auction_ok pp qp a \<longleftrightarrow> ab_pricePrecision a = pp \<and> ab_qtyPrecision a = qp \<and>
     (\<forall>x\<in>set (ab_bids a) \<union> set (ab_asks a). auction_order pp qp x) \<and>
     sorted_wrt bid_before (ab_bids a) \<and> sorted_wrt ask_before (ab_asks a)"

lemma auction_okD:
  assumes "auction_ok pp qp a"
  shows "ab_pricePrecision a = pp" "ab_qtyPrecision a = qp"
    "\<And>x. x \<in> set (ab_bids a) \<Longrightarrow> auction_order pp qp x" "\<And>x. x \<in> set (ab_asks a) \<Longrightarrow> auction_order pp qp x"
    "sorted_wrt bid_before (ab_bids a)" "sorted_wrt ask_before (ab_asks a)"
  using assms by (auto simp: auction_ok_def)

lemma auction_orderD:
  assumes "auction_order pp qp x"
  shows "d_precision (ao_Price x) = pp" "d_precision (ao_Qty x) = qp" "0 < ival (ao_Price x)" "0 < ival (ao_Qty x)"
  using assms by (simp_all add: auction_order_def)

subsection \<open>Sorting\<close>

text \<open>The comparator decides a total preorder on the elements \<open>S\<close>.\<close>

definition decides :: "('a \<Rightarrow> 'a \<Rightarrow> bool option) \<Rightarrow> ('a \<Rightarrow> 'a \<Rightarrow> bool) \<Rightarrow> 'a set \<Rightarrow> bool" where
  "decides less_fn le S \<longleftrightarrow> (\<forall>x\<in>S. \<forall>y\<in>S. less_fn x y = Some (\<not> le y x)) \<and>
     (\<forall>x\<in>S. \<forall>y\<in>S. le x y \<or> le y x) \<and> (\<forall>x\<in>S. \<forall>y\<in>S. \<forall>z\<in>S. le x y \<longrightarrow> le y z \<longrightarrow> le x z)"

lemma sift_ok:
  assumes "decides less_fn le S" and "x \<in> S" and "set ys \<subseteq> S" and "sorted_wrt (\<lambda>a b. le b a) ys"
  shows "\<exists>r. sift less_fn x ys = Some r \<and> mset r = add_mset x (mset ys) \<and> sorted_wrt (\<lambda>a b. le b a) r"
  using assms(3,4)
proof (induction ys)
  case (Cons y ys)
  have cmp: "less_fn x y = Some (\<not> le y x)" "le x y \<or> le y x"
    using assms(1,2) Cons.prems(1) unfolding decides_def by auto
  have y: "\<And>b. b \<in> set ys \<Longrightarrow> le b y" using Cons.prems(2) by simp
  show ?case
  proof (cases "le y x")
    case True
    have "le b x" if "b \<in> set ys" for b
      using assms(1,2) Cons.prems(1) y [OF that] True that unfolding decides_def by (meson list.set_intros subsetD)
    then show ?thesis using cmp True Cons.prems(2) by simp
  next
    case False
    obtain r where r: "sift less_fn x ys = Some r" "mset r = add_mset x (mset ys)" "sorted_wrt (\<lambda>a b. le b a) r"
      using Cons by auto
    have "set r = insert x (set ys)" using arg_cong [OF r(2), of set_mset] by simp
    then have "\<forall>b\<in>set r. le b y" using y cmp(2) False by auto
    then show ?thesis using cmp False r by simp
  qed
qed simp

lemma insertion_sort_ok:
  assumes "decides less_fn le S" and "set xs \<subseteq> S" and "set acc \<subseteq> S" and "sorted_wrt (\<lambda>a b. le b a) acc"
  shows "\<exists>r. insertion_sort less_fn acc xs = Some r \<and> mset r = mset acc + mset xs \<and> sorted_wrt le r"
  using assms(2-4)
proof (induction xs arbitrary: acc)
  case Nil
  then show ?case by (simp add: sorted_wrt_rev)
next
  case (Cons x xs)
  obtain r where r: "sift less_fn x acc = Some r" "mset r = add_mset x (mset acc)" "sorted_wrt (\<lambda>a b. le b a) r"
    using sift_ok [OF assms(1) _ Cons.prems(2,3), of x] Cons.prems(1) by auto
  have "set r = insert x (set acc)" using arg_cong [OF r(2), of set_mset] by simp
  then have "set r \<subseteq> S" using Cons.prems by auto
  then show ?case using Cons.IH [OF _ _ r(3)] Cons.prems(1) r(1,2) by auto
qed

lemma bid_decides: "decides bidLess bid_before {x. d_precision (ao_Price x) = pp}"
  by (auto simp: decides_def bidLess_def bid_before_def compare_same sint_eq_iff [symmetric])

lemma ask_decides: "decides askLess ask_before {x. d_precision (ao_Price x) = pp}"
  by (auto simp: decides_def askLess_def ask_before_def compare_same sint_eq_iff [symmetric])

lemma AddOrder_ok:
  assumes ok: "auction_ok pp qp a" and x: "auction_order pp qp x"
  shows "\<exists>a'. AddOrder x a = Some a' \<and> auction_ok pp qp a' \<and>
     mset (ab_bids a') = mset (ab_bids a) + (if ao_Side x = Bid then {#x#} else {#}) \<and>
     mset (ab_asks a') = mset (ab_asks a) + (if ao_Side x = Bid then {#} else {#x#})"
proof -
  note d = auction_okD [OF ok]
  have prec: "set (ab_bids a @ [x]) \<subseteq> {x. d_precision (ao_Price x) = pp}"
    "set (ab_asks a @ [x]) \<subseteq> {x. d_precision (ao_Price x) = pp}"
    using d(3,4) x by (auto simp: auction_order_def)
  show ?thesis
  proof (cases "ao_Side x = Bid")
    case True
    obtain r where r: "insertion_sort bidLess [] (ab_bids a @ [x]) = Some r"
      "mset r = mset [] + mset (ab_bids a @ [x])" "sorted_wrt bid_before r"
      using insertion_sort_ok [OF bid_decides prec(1), of "[]"] by auto
    have "set r = insert x (set (ab_bids a))" using arg_cong [OF r(2), of set_mset] by simp
    then have "auction_ok pp qp (a\<lparr>ab_bids := r\<rparr>)" using ok x r(3) by (auto simp: auction_ok_def)
    then show ?thesis using True r by (intro exI [of _ "a\<lparr>ab_bids := r\<rparr>"]) (simp add: AddOrder_def)
  next
    case False
    obtain r where r: "insertion_sort askLess [] (ab_asks a @ [x]) = Some r"
      "mset r = mset [] + mset (ab_asks a @ [x])" "sorted_wrt ask_before r"
      using insertion_sort_ok [OF ask_decides prec(2), of "[]"] by auto
    have "set r = insert x (set (ab_asks a))" using arg_cong [OF r(2), of set_mset] by simp
    then have "auction_ok pp qp (a\<lparr>ab_asks := r\<rparr>)" using ok x r(3) by (auto simp: auction_ok_def)
    then show ?thesis using False r by (intro exI [of _ "a\<lparr>ab_asks := r\<rparr>"]) (simp add: AddOrder_def)
  qed
qed

lemma swap_pass_ok:
  assumes "d_precision x = pp" and "\<forall>y\<in>set ys. d_precision y = pp"
  shows "\<exists>m r. swap_pass x ys = Some (m, r) \<and> mset (m # r) = mset (x # ys) \<and> (\<forall>y\<in>set r. ival m \<le> ival y)"
  using assms
proof (induction ys arbitrary: x)
  case (Cons y ys)
  define g where "g \<longleftrightarrow> ival x > ival y"
  have gt: "GreaterThan x y = Some g" using Cons.prems by (simp add: compare_same g_def)
  obtain m r where r: "swap_pass (if g then y else x) ys = Some (m, r)"
    "mset (m # r) = mset ((if g then y else x) # ys)" "\<forall>z\<in>set r. ival m \<le> ival z"
  proof -
    have "d_precision (if g then y else x) = pp" "\<forall>y\<in>set ys. d_precision y = pp" using Cons.prems by simp_all
    then show thesis using Cons.IH [of "if g then y else x"] that by blast
  qed
  have "ival m \<le> ival (if g then y else x)"
  proof (cases "m = (if g then y else x)")
    case False
    have "(if g then y else x) \<in># mset (m # r)" unfolding r(2) by simp
    then show ?thesis using False r(3) by auto
  qed simp
  then have "ival m \<le> ival (if g then x else y)" by (auto simp: g_def split: if_splits)
  then show ?case using gt r by (auto simp: add_mset_commute)
qed simp

lemma sort_prices_ok:
  assumes "\<forall>y\<in>set ps. d_precision y = pp" and "length ps \<le> Suc k"
  shows "\<exists>r. sort_prices k ps = Some r \<and> mset r = mset ps \<and> sorted_wrt (\<lambda>a b. ival a \<le> ival b) r"
  using assms
proof (induction k arbitrary: ps)
  case 0
  then show ?case by (cases ps) auto
next
  case (Suc k)
  show ?case
  proof (cases ps)
    case (Cons p qs)
    obtain m r where m: "swap_pass p qs = Some (m, r)" "mset (m # r) = mset (p # qs)" "\<forall>y\<in>set r. ival m \<le> ival y"
      using swap_pass_ok [of p pp qs] Suc.prems Cons by auto
    have sr: "set (m # r) = set (p # qs)" using arg_cong [OF m(2), of set_mset] by simp
    have "length r \<le> Suc k" using arg_cong [OF m(2), of size] Suc.prems Cons by simp
    moreover have "\<forall>y\<in>set r. d_precision y = pp" using sr Suc.prems(1) Cons by auto
    ultimately obtain r' where r': "sort_prices k r = Some r'" "mset r' = mset r" "sorted_wrt (\<lambda>a b. ival a \<le> ival b) r'"
      using Suc.IH by blast
    have "set r' = set r" using arg_cong [OF r'(2), of set_mset] by simp
    then show ?thesis using m r' Cons by simp
  qed simp
qed

subsection \<open>Executable volume\<close>

definition bid_volume :: "AuctionOrder list \<Rightarrow> Decimal \<Rightarrow> int" where
  "bid_volume xs p = (\<Sum>x\<leftarrow>filter (\<lambda>x. ival p \<le> ival (ao_Price x)) xs. ival (ao_Qty x))"

definition ask_volume :: "AuctionOrder list \<Rightarrow> Decimal \<Rightarrow> int" where
  "ask_volume xs p = (\<Sum>x\<leftarrow>filter (\<lambda>x. ival (ao_Price x) \<le> ival p) xs. ival (ao_Qty x))"

definition volume :: "AuctionBook \<Rightarrow> Decimal \<Rightarrow> int" where
  "volume a p = min (bid_volume (ab_bids a) p) (ask_volume (ab_asks a) p)"

definition imbalance :: "AuctionBook \<Rightarrow> Decimal \<Rightarrow> int" where
  "imbalance a p = \<bar>bid_volume (ab_bids a) p - ask_volume (ab_asks a) p\<bar>"

text \<open>The sums of the quantities of each side fit in 63 bits, so nothing wraps around.\<close>

definition total_qty :: "AuctionOrder list \<Rightarrow> int" where
  "total_qty xs = (\<Sum>x\<leftarrow>xs. ival (ao_Qty x))"

definition fits :: "AuctionBook \<Rightarrow> bool" where
  "fits a \<longleftrightarrow> total_qty (ab_bids a) < 2 ^ 63 \<and> total_qty (ab_asks a) < 2 ^ 63"

lemma sum_filter_le:
  assumes "\<And>x. x \<in> set xs \<Longrightarrow> (0 :: int) \<le> f x"
  shows "0 \<le> sum_list (map f (filter P xs))" "sum_list (map f (filter P xs)) \<le> sum_list (map f xs)"
  using assms by (induction xs) (auto intro: add_increasing)

lemma volumes_bounded:
  assumes "auction_ok pp qp a"
  shows "0 \<le> bid_volume (ab_bids a) p" "bid_volume (ab_bids a) p \<le> total_qty (ab_bids a)"
    "0 \<le> ask_volume (ab_asks a) p" "ask_volume (ab_asks a) p \<le> total_qty (ab_asks a)"
  using auction_okD(3,4) [OF assms] auction_orderD(4)
  unfolding bid_volume_def ask_volume_def total_qty_def by (intro sum_filter_le; force)+

lemma ival_dadd: "in_i64 (ival a + ival b) \<Longrightarrow> ival (dadd a b) = ival a + ival b"
  by (simp add: sint_add)

lemma ival_dsub: "in_i64 (ival a - ival b) \<Longrightarrow> ival (dsub a b) = ival a - ival b"
  by (simp add: sint_sub)

lemma cumBid_ok:
  assumes "\<forall>x\<in>set xs. auction_order pp qp x" and "d_precision c = pp" and "d_precision acc = qp"
    and "0 \<le> ival acc" and "ival acc + total_qty xs < 2 ^ 63"
  shows "\<exists>d. cumBid c acc xs = Some d \<and> d_precision d = qp \<and> ival d = ival acc + bid_volume xs c"
  using assms
proof (induction xs arbitrary: acc)
  case (Cons x xs)
  note x = auction_orderD [of pp qp x]
  have tot: "0 \<le> total_qty xs" using Cons.prems(1) by (force simp: total_qty_def auction_order_def intro!: sum_list_nonneg)
  have ge: "GreaterThanOrEqual (ao_Price x) c = Some (ival c \<le> ival (ao_Price x))"
    using Cons.prems by (simp add: compare_same x)
  show ?case
  proof (cases "ival c \<le> ival (ao_Price x)")
    case True
    have "in_i64 (ival acc + ival (ao_Qty x))" using Cons.prems x tot by (simp add: in_i64_def total_qty_def)
    then have s: "ival (dadd acc (ao_Qty x)) = ival acc + ival (ao_Qty x)" by (rule ival_dadd)
    have "\<exists>d. cumBid c (dadd acc (ao_Qty x)) xs = Some d \<and> d_precision d = qp \<and>
        ival d = ival (dadd acc (ao_Qty x)) + bid_volume xs c"
      using Cons.prems x by (intro Cons.IH; (simp only: s)?) (auto simp: total_qty_def)
    then show ?thesis using ge True Cons.prems x s by (auto simp: Add_same bid_volume_def)
  next
    case False
    then show ?thesis using ge Cons x by (auto simp: bid_volume_def total_qty_def)
  qed
qed (simp add: bid_volume_def)

lemma cumAsk_ok:
  assumes "\<forall>x\<in>set xs. auction_order pp qp x" and "d_precision c = pp" and "d_precision acc = qp"
    and "0 \<le> ival acc" and "ival acc + total_qty xs < 2 ^ 63"
  shows "\<exists>d. cumAsk c acc xs = Some d \<and> d_precision d = qp \<and> ival d = ival acc + ask_volume xs c"
  using assms
proof (induction xs arbitrary: acc)
  case (Cons x xs)
  note x = auction_orderD [of pp qp x]
  have tot: "0 \<le> total_qty xs" using Cons.prems(1) by (force simp: total_qty_def auction_order_def intro!: sum_list_nonneg)
  have le: "LessThanOrEqual (ao_Price x) c = Some (ival (ao_Price x) \<le> ival c)"
    using Cons.prems by (simp add: compare_same x)
  show ?case
  proof (cases "ival (ao_Price x) \<le> ival c")
    case True
    have "in_i64 (ival acc + ival (ao_Qty x))" using Cons.prems x tot by (simp add: in_i64_def total_qty_def)
    then have s: "ival (dadd acc (ao_Qty x)) = ival acc + ival (ao_Qty x)" by (rule ival_dadd)
    have "\<exists>d. cumAsk c (dadd acc (ao_Qty x)) xs = Some d \<and> d_precision d = qp \<and>
        ival d = ival (dadd acc (ao_Qty x)) + ask_volume xs c"
      using Cons.prems x by (intro Cons.IH; (simp only: s)?) (auto simp: total_qty_def)
    then show ?thesis using le True Cons.prems x s by (auto simp: Add_same ask_volume_def)
  next
    case False
    then show ?thesis using le Cons x by (auto simp: ask_volume_def total_qty_def)
  qed
qed (simp add: ask_volume_def)

subsection \<open>The best candidate\<close>

lemma Abs_sub_ok:
  assumes "d_precision a = qp" "d_precision b = qp" "0 \<le> ival a" "0 \<le> ival b"
  shows "\<exists>d. Sub a b = Some d \<and> d_precision (Abs_dec d) = qp \<and> ival (Abs_dec d) = \<bar>ival a - ival b\<bar>"
proof -
  have "in_i64 (ival a - ival b)"
    using assms(3,4) sint_upper [of "d_value a"] sint_upper [of "d_value b"] by (simp add: in_i64_def)
  then have d: "ival (dsub a b) = ival a - ival b" by (rule ival_dsub)
  have "in_i64 (- ival (dsub a b))"
    using assms(3,4) sint_upper [of "d_value a"] sint_upper [of "d_value b"] unfolding d by (simp add: in_i64_def)
  then have n: "sint (- d_value (dsub a b)) = - ival (dsub a b)" by (rule sint_neg)
  have "ival (Abs_dec (dsub a b)) = \<bar>ival (dsub a b)\<bar>"
    using n by (simp add: Abs_dec_def abs_if)
  then have "ival (Abs_dec (dsub a b)) = \<bar>ival a - ival b\<bar>" by (simp only: d)
  moreover have "d_precision (Abs_dec (dsub a b)) = qp" using assms by (simp add: Abs_dec_def)
  ultimately show ?thesis using assms by (intro exI [of _ "dsub a b"]) (simp add: Sub_same)
qed

text \<open>The price \<open>b\<close> is at least as good as \<open>c\<close>: more volume, then less imbalance, then closer to
  the reference price (when there is one), then lower.\<close>

definition prefers :: "AuctionBook \<Rightarrow> Decimal \<Rightarrow> Decimal \<Rightarrow> Decimal \<Rightarrow> bool" where
  "prefers a ref b c \<longleftrightarrow> volume a c < volume a b \<or>
     volume a c = volume a b \<and> (imbalance a b < imbalance a c \<or>
       imbalance a b = imbalance a c \<and>
         (if ival ref = 0 then ival b \<le> ival c
          else \<bar>ival b - ival ref\<bar> < \<bar>ival c - ival ref\<bar> \<or>
               \<bar>ival b - ival ref\<bar> = \<bar>ival c - ival ref\<bar> \<and> ival b \<le> ival c))"

lemma prefers_total: "\<not> prefers a ref b c \<Longrightarrow> prefers a ref c b"
  by (auto simp: prefers_def split: if_splits)

lemma prefers_trans: "prefers a ref b c \<Longrightarrow> prefers a ref c d \<Longrightarrow> prefers a ref b d"
  by (auto simp: prefers_def split: if_splits)

definition candidate_price :: "u8 \<Rightarrow> Decimal \<Rightarrow> bool" where
  "candidate_price pp c \<longleftrightarrow> d_precision c = pp \<and> 0 < ival c"

definition best_ok :: "u8 \<Rightarrow> AuctionBook \<Rightarrow> Decimal \<Rightarrow> Decimal set \<Rightarrow> best_candidate \<Rightarrow> bool" where
  "best_ok qp a ref S b \<longleftrightarrow>
     (if bc_found b then bc_price b \<in> S \<and> 0 < volume a (bc_price b) \<and>
        d_precision (bc_qty b) = qp \<and> ival (bc_qty b) = volume a (bc_price b) \<and>
        d_precision (bc_imbalance b) = qp \<and> ival (bc_imbalance b) = imbalance a (bc_price b) \<and>
        (\<forall>c\<in>S. prefers a ref (bc_price b) c)
      else (\<forall>c\<in>S. volume a c = 0))"

lemma better_ok:
  assumes b: "best_ok qp a ref S b" and S: "\<forall>s\<in>S. candidate_price pp s \<and> ival s < ival c"
    and c: "candidate_price pp c" "0 < volume a c" and ref: "d_precision ref = pp" "0 \<le> ival ref"
    and q: "d_precision q = qp" "ival q = volume a c" and i: "d_precision i = qp" "ival i = imbalance a c"
  shows "Option.bind (betterRef ref c q i b) (\<lambda>br. isBetter q i br b) =
     Some (\<not> bc_found b \<or> \<not> prefers a ref (bc_price b) c)"
proof (cases "bc_found b")
  case False
  then show ?thesis by (simp add: betterRef_def isBetter_def)
next
  case True
  have B: "bc_price b \<in> S" "d_precision (bc_qty b) = qp" "ival (bc_qty b) = volume a (bc_price b)"
    "d_precision (bc_imbalance b) = qp" "ival (bc_imbalance b) = imbalance a (bc_price b)"
    using b True by (simp_all add: best_ok_def)
  have pb: "d_precision (bc_price b) = pp" "0 < ival (bc_price b)" "ival (bc_price b) < ival c"
    using S B(1) by (auto simp: candidate_price_def)
  have pc: "d_precision c = pp" "0 < ival c" using c(1) by (simp_all add: candidate_price_def)
  have eqq: "Equal q (bc_qty b) = Some (volume a c = volume a (bc_price b))"
    using q B by (simp add: compare_same flip: sint_eq_iff)
  have eqi: "Equal i (bc_imbalance b) = Some (imbalance a c = imbalance a (bc_price b))"
    using i B by (simp add: compare_same flip: sint_eq_iff)
  have gt: "GreaterThan q (bc_qty b) = Some (volume a (bc_price b) < volume a c)"
    and lt: "LessThan i (bc_imbalance b) = Some (imbalance a c < imbalance a (bc_price b))"
    using q i B by (simp_all add: compare_same)
  obtain dc where dc: "Sub c ref = Some dc" "d_precision (Abs_dec dc) = pp" "ival (Abs_dec dc) = \<bar>ival c - ival ref\<bar>"
    using Abs_sub_ok [OF pc(1) ref(1)] pc ref by auto
  obtain db where db: "Sub (bc_price b) ref = Some db" "d_precision (Abs_dec db) = pp"
    "ival (Abs_dec db) = \<bar>ival (bc_price b) - ival ref\<bar>"
    using Abs_sub_ok [OF pb(1) ref(1)] pb ref by auto
  have dlt: "LessThan (Abs_dec dc) (Abs_dec db) = Some (\<bar>ival c - ival ref\<bar> < \<bar>ival (bc_price b) - ival ref\<bar>)"
    and deq: "Equal (Abs_dec dc) (Abs_dec db) = Some (\<bar>ival c - ival ref\<bar> = \<bar>ival (bc_price b) - ival ref\<bar>)"
    and ceq: "Equal c ref = Some (ival c = ival ref)"
    using dc db pc ref by (simp_all add: compare_same flip: sint_eq_iff)
  have z: "IsZero ref = (ival ref = 0)" by (simp add: IsZero_def sint_0_iff)
  have nd: "\<bar>ival c - ival ref\<bar> = \<bar>ival (bc_price b) - ival ref\<bar> \<Longrightarrow> ival c \<noteq> ival ref" using pb(3) by arith
  let ?closer = "ival ref \<noteq> 0 \<and> volume a c = volume a (bc_price b) \<and>
      imbalance a c = imbalance a (bc_price b) \<and> \<bar>ival c - ival ref\<bar> < \<bar>ival (bc_price b) - ival ref\<bar>"
  have br: "betterRef ref c q i b = Some ?closer"
  proof (cases "ival ref \<noteq> 0 \<and> volume a c = volume a (bc_price b) \<and> imbalance a c = imbalance a (bc_price b)")
    case same: True
    then show ?thesis
      using True nd
      by (cases "\<bar>ival c - ival ref\<bar> < \<bar>ival (bc_price b) - ival ref\<bar>";
          cases "\<bar>ival c - ival ref\<bar> = \<bar>ival (bc_price b) - ival ref\<bar>")
        (simp_all add: betterRef_def eqq eqi dc(1) db(1) dlt deq ceq z Let_def)
  next
    case same: False
    then show ?thesis
      using True by (cases "volume a c = volume a (bc_price b)") (auto simp add: betterRef_def eqq eqi z)
  qed
  have ib: "isBetter q i x b = Some (volume a (bc_price b) < volume a c \<or>
      volume a c = volume a (bc_price b) \<and> imbalance a c < imbalance a (bc_price b) \<or> x)" for x
    using True by (cases "volume a c = volume a (bc_price b)") (auto simp: isBetter_def gt eqq lt)
  have "\<not> prefers a ref (bc_price b) c \<longleftrightarrow> volume a (bc_price b) < volume a c \<or>
      volume a c = volume a (bc_price b) \<and> imbalance a c < imbalance a (bc_price b) \<or> ?closer"
    unfolding prefers_def using pb(3) by arith
  then show ?thesis using True by (simp add: br ib)
qed

lemma bestCandidate_ok:
  assumes ok: "auction_ok pp qp a" and fits: "fits a" and ref: "d_precision ref = pp" "0 \<le> ival ref"
  shows "sorted_wrt (\<lambda>x y. ival x < ival y) ps \<Longrightarrow> \<forall>c\<in>set ps. candidate_price pp c \<Longrightarrow>
    \<forall>s\<in>S. candidate_price pp s \<and> (\<forall>c\<in>set ps. ival s < ival c) \<Longrightarrow> best_ok qp a ref S b \<Longrightarrow>
    \<exists>b'. bestCandidate a ref ps b = Some b' \<and> best_ok qp a ref (S \<union> set ps) b' \<and>
      (bc_found b' \<or> b' = b)"
proof (induction ps arbitrary: S b)
  case (Cons c ps)
  note d = auction_okD [OF ok] and vb = volumes_bounded [OF ok, of c]
  have c: "candidate_price pp c" "d_precision c = pp" using Cons.prems(2) by (simp_all add: candidate_price_def)
  have z: "ival (Zero qp) = 0" "d_precision (Zero qp) = qp" by simp_all
  obtain bid where bid: "cumBid c (Zero qp) (ab_bids a) = Some bid" "d_precision bid = qp"
    "ival bid = bid_volume (ab_bids a) c"
    using cumBid_ok [of "ab_bids a" pp qp c "Zero qp"] d(3) c(2) fits z by (auto simp: fits_def)
  obtain ask where ask: "cumAsk c (Zero qp) (ab_asks a) = Some ask" "d_precision ask = qp"
    "ival ask = ask_volume (ab_asks a) c"
    using cumAsk_ok [of "ab_asks a" pp qp c "Zero qp"] d(4) c(2) fits z by (auto simp: fits_def)
  define q where "q = (if ival ask < ival bid then ask else bid)"
  have q: "d_precision q = qp" "ival q = volume a c" using bid ask by (auto simp: q_def volume_def)
  have lt: "LessThan ask bid = Some (ival ask < ival bid)" using bid ask by (simp add: compare_same)
  obtain df where df: "Sub bid ask = Some df" "d_precision (Abs_dec df) = qp" "ival (Abs_dec df) = imbalance a c"
    using Abs_sub_ok [OF bid(2) ask(2)] vb bid(3) ask(3) by (auto simp: imbalance_def)
  have vol0: "0 \<le> volume a c" using vb by (simp add: volume_def)
  have zero: "IsZero q = (volume a c = 0)" using q(2) by (simp add: IsZero_def sint_0_iff [symmetric])
  have S': "\<forall>s\<in>insert c S. candidate_price pp s \<and> (\<forall>c\<in>set ps. ival s < ival c)"
    using Cons.prems(1,3) c(1) by auto
  have un: "insert c S \<union> set ps = S \<union> set (c # ps)" by auto
  have run: "bestCandidate a ref (c # ps) b = (if volume a c = 0 then bestCandidate a ref ps b
      else Option.bind (Option.bind (betterRef ref c q (Abs_dec df) b) (\<lambda>br. isBetter q (Abs_dec df) br b))
        (\<lambda>better. bestCandidate a ref ps
         (if better then \<lparr>bc_price = c, bc_qty = q, bc_imbalance = Abs_dec df, bc_found = True\<rparr> else b)))"
    using zero
    by (cases "ival ask < ival bid") (simp_all add: d(2) bid(1) ask(1) lt df(1) Let_def q_def cong: if_cong)
  show ?case
  proof (cases "volume a c = 0")
    case True
    have "best_ok qp a ref (insert c S) b"
      using Cons.prems(4) True by (auto simp: best_ok_def prefers_def split: if_splits)
    then have "\<exists>b'. bestCandidate a ref ps b = Some b' \<and> best_ok qp a ref (insert c S \<union> set ps) b' \<and>
        (bc_found b' \<or> b' = b)"
      using Cons.prems S' by (intro Cons.IH) auto
    then show ?thesis using run True un by simp
  next
    case False
    let ?better = "\<not> bc_found b \<or> \<not> prefers a ref (bc_price b) c"
    let ?b = "if ?better then \<lparr>bc_price = c, bc_qty = q, bc_imbalance = Abs_dec df, bc_found = True\<rparr> else b"
    have pos: "0 < volume a c" using False vol0 by simp
    have S: "\<forall>s\<in>S. candidate_price pp s \<and> ival s < ival c" using Cons.prems(3) by simp
    have step: "Option.bind (betterRef ref c q (Abs_dec df) b) (\<lambda>br. isBetter q (Abs_dec df) br b) = Some ?better"
      by (rule better_ok [OF Cons.prems(4) S c(1) pos ref q df(2,3)])
    have "best_ok qp a ref (insert c S) ?b"
    proof (cases ?better)
      case better: True
      have "prefers a ref c s" if "s \<in> S" for s
      proof (cases "bc_found b")
        case True
        then have "prefers a ref c (bc_price b)" using better prefers_total by blast
        moreover have "prefers a ref (bc_price b) s" using Cons.prems(4) True that by (simp add: best_ok_def)
        ultimately show ?thesis by (rule prefers_trans)
      next
        case False
        then have "volume a s = 0" using Cons.prems(4) that by (simp add: best_ok_def)
        then show ?thesis using pos by (simp add: prefers_def)
      qed
      moreover have "prefers a ref c c" using prefers_total [of a ref c c] by blast
      ultimately show ?thesis using better q df(2,3) pos by (simp add: best_ok_def)
    next
      case nb: False
      then show ?thesis using Cons.prems(4) by (simp add: best_ok_def)
    qed
    then have "\<exists>b'. bestCandidate a ref ps ?b = Some b' \<and> best_ok qp a ref (insert c S \<union> set ps) b' \<and>
        (bc_found b' \<or> b' = ?b)"
      using Cons.prems S' by (intro Cons.IH) auto
    then show ?thesis using run False un step by (auto split: if_splits)
  qed
qed simp

subsection \<open>The set of candidate prices\<close>

lemma priceSet_ok:
  assumes "\<forall>x\<in>set xs. auction_order pp qp x" and "unat pp \<le> 18"
  shows "\<exists>m'. priceSet xs m = Some m' \<and>
     dom m' = dom m \<union> {k. \<exists>x\<in>set xs. String_dec (ao_Price x) = Some k} \<and>
     (\<forall>k p. m' k = Some p \<longrightarrow> m k = Some p \<or> (\<exists>x\<in>set xs. ao_Price x = p \<and> String_dec p = Some k))"
  using assms(1)
proof (induction xs arbitrary: m)
  case (Cons x xs)
  note x = auction_orderD [of pp qp x]
  obtain k where k: "String_dec (ao_Price x) = Some k"
    using String_parses [of "ao_Price x"] Cons.prems x assms(2) by auto
  obtain m' where m': "priceSet xs (m(k \<mapsto> ao_Price x)) = Some m'"
    "dom m' = dom (m(k \<mapsto> ao_Price x)) \<union> {k. \<exists>x\<in>set xs. String_dec (ao_Price x) = Some k}"
    "\<forall>k' p. m' k' = Some p \<longrightarrow> (m(k \<mapsto> ao_Price x)) k' = Some p \<or> (\<exists>x\<in>set xs. ao_Price x = p \<and> String_dec p = Some k')"
  proof -
    have "\<forall>x\<in>set xs. auction_order pp qp x" using Cons.prems by simp
    from Cons.IH [OF this, of "m(k \<mapsto> ao_Price x)"] show thesis using that by blast
  qed
  have "dom m' = dom m \<union> {k. \<exists>y\<in>set (x # xs). String_dec (ao_Price y) = Some k}"
    unfolding m'(2) using k by auto
  moreover have "\<forall>k' p. m' k' = Some p \<longrightarrow> m k' = Some p \<or> (\<exists>y\<in>set (x # xs). ao_Price y = p \<and> String_dec p = Some k')"
    using m'(3) k by (auto split: if_splits)
  moreover have "priceSet (x # xs) m = Some m'" using k m'(1) by simp
  ultimately show ?case by blast
qed auto

text \<open>The text determines the price.\<close>

lemma String_inj:
  assumes "auction_order pp qp x" "auction_order pp qp y" "unat pp \<le> 18"
    and "String_dec (ao_Price x) = Some k" "String_dec (ao_Price y) = Some k"
  shows "ao_Price x = ao_Price y"
proof -
  note x = auction_orderD [OF assms(1)] and y = auction_orderD [OF assms(2)]
  have "ParseDecimal k pp = Some (Inr (ao_Price x))" "ParseDecimal k pp = Some (Inr (ao_Price y))"
    using String_parses [of "ao_Price x"] String_parses [of "ao_Price y"] x y assms by auto
  then show ?thesis by simp
qed

definition limit_prices :: "AuctionBook \<Rightarrow> Decimal set" where
  "limit_prices a = ao_Price ` (set (ab_bids a) \<union> set (ab_asks a))"

definition price_keys :: "AuctionBook \<Rightarrow> string set" where
  "price_keys a = {k. \<exists>p\<in>limit_prices a. String_dec p = Some k}"

lemma strictly_sorted:
  assumes "sorted_wrt (\<lambda>a b. ival a \<le> ival b) ps" and "distinct ps" and "\<forall>p\<in>set ps. d_precision p = pp"
  shows "sorted_wrt (\<lambda>x y. ival x < ival y) ps"
  using assms
proof (induction ps)
  case (Cons p ps)
  have "ival p < ival q" if "q \<in> set ps" for q
  proof -
    have "ival p \<le> ival q" "p \<noteq> q" "d_precision p = d_precision q" using Cons.prems that by auto
    moreover have "p = q" if "ival p = ival q" "d_precision p = d_precision q"
      using that by (cases p; cases q) (simp add: sint_eq_iff)
    ultimately show ?thesis by fastforce
  qed
  then show ?case using Cons by simp
qed simp

lemma candidates_ok:
  assumes ok: "auction_ok pp qp a" and pp: "unat pp \<le> 18" and keys: "distinct keys" "set keys = price_keys a"
  shows "\<exists>m1 m ps. priceSet (ab_bids a) Map.empty = Some m1 \<and> priceSet (ab_asks a) m1 = Some m \<and>
     sort_prices (length (List.map_filter m keys) - 1) (List.map_filter m keys) = Some ps \<and>
     set ps = limit_prices a \<and> sorted_wrt (\<lambda>x y. ival x < ival y) ps"
proof -
  note d = auction_okD [OF ok]
  obtain m1 where m1: "priceSet (ab_bids a) Map.empty = Some m1"
    "dom m1 = {} \<union> {k. \<exists>x\<in>set (ab_bids a). String_dec (ao_Price x) = Some k}"
    "\<forall>k p. m1 k = Some p \<longrightarrow> None = Some p \<or> (\<exists>x\<in>set (ab_bids a). ao_Price x = p \<and> String_dec p = Some k)"
    using priceSet_ok [OF _ pp, of "ab_bids a" qp Map.empty] d(3) unfolding dom_empty by blast
  obtain m where m: "priceSet (ab_asks a) m1 = Some m"
    "dom m = dom m1 \<union> {k. \<exists>x\<in>set (ab_asks a). String_dec (ao_Price x) = Some k}"
    "\<forall>k p. m k = Some p \<longrightarrow> m1 k = Some p \<or> (\<exists>x\<in>set (ab_asks a). ao_Price x = p \<and> String_dec p = Some k)"
    using priceSet_ok [OF _ pp, of "ab_asks a" qp m1] d(4) by blast
  have dom: "dom m = set keys"
    unfolding m(2) m1(2) keys(2) price_keys_def limit_prices_def by blast
  have ran: "p \<in> limit_prices a \<and> String_dec p = Some k" if "m k = Some p" for k p
  proof -
    have "m1 k = Some p \<or> (\<exists>x\<in>set (ab_asks a). ao_Price x = p \<and> String_dec p = Some k)" using m(3) that by blast
    moreover have "\<exists>x\<in>set (ab_bids a). ao_Price x = p \<and> String_dec p = Some k" if "m1 k = Some p"
      using m1(3) that by blast
    ultimately show ?thesis unfolding limit_prices_def by blast
  qed
  have lim: "\<exists>x. auction_order pp qp x \<and> ao_Price x = p" if "p \<in> limit_prices a" for p
    using that d(3,4) unfolding limit_prices_def by blast
  let ?ps = "List.map_filter m keys"
  have mf: "set ?ps = {p. \<exists>k\<in>set keys. m k = Some p}"
    by (force simp: List.map_filter_def)
  have inj: "p = p'" if "p \<in> limit_prices a" "p' \<in> limit_prices a" "String_dec p = Some k" "String_dec p' = Some k" for p p' k
  proof -
    from lim [OF that(1)] lim [OF that(2)] obtain x y where
      "auction_order pp qp x" "ao_Price x = p" "auction_order pp qp y" "ao_Price y = p'" by blast
    then show ?thesis using String_inj [of pp qp x y k] pp that(3,4) by simp
  qed
  have lp: "set ?ps = limit_prices a"
  proof
    show "set ?ps \<subseteq> limit_prices a" using ran unfolding mf by blast
    show "limit_prices a \<subseteq> set ?ps"
    proof
      fix p assume p: "p \<in> limit_prices a"
      then obtain x where x: "auction_order pp qp x" "ao_Price x = p" using lim by blast
      obtain k where k: "String_dec p = Some k"
        using String_parses [of p] auction_orderD [OF x(1)] x(2) pp by auto
      then have "k \<in> dom m" unfolding dom keys(2) price_keys_def using p by blast
      then obtain p' where "m k = Some p'" by auto
      then have "p' = p" using ran [of k p'] inj p k by blast
      then show "p \<in> set ?ps" using \<open>m k = Some p'\<close> \<open>k \<in> dom m\<close> dom mf by auto
    qed
  qed
  have "distinct ?ps"
    using keys(1)
  proof (induction keys)
    case (Cons k ks)
    show ?case
    proof (cases "m k")
      case (Some p)
      have "p \<noteq> p'" if "k' \<in> set ks" "m k' = Some p'" for k' p'
        using that ran [OF Some] ran [OF that(2)] Cons.prems by auto
      then have "p \<notin> set (List.map_filter m ks)" by (force simp: List.map_filter_def)
      then show ?thesis using Cons Some by (simp add: List.map_filter_simps)
    qed (use Cons in \<open>simp add: List.map_filter_simps\<close>)
  qed (simp add: List.map_filter_simps)
  have prec: "d_precision p = pp" if "p \<in> limit_prices a" for p
    using lim [OF that] auction_orderD(1) by blast
  obtain ps where ps: "sort_prices (length ?ps - 1) ?ps = Some ps" "mset ps = mset ?ps"
    "sorted_wrt (\<lambda>a b. ival a \<le> ival b) ps"
  proof -
    have "length ?ps \<le> Suc (length ?ps - 1)" by simp
    moreover have "\<forall>y\<in>set ?ps. d_precision y = pp" using prec unfolding lp by blast
    ultimately show thesis using sort_prices_ok [of ?ps pp "length ?ps - 1"] that by blast
  qed
  have sps: "set ps = limit_prices a" using arg_cong [OF ps(2), of set_mset] lp by simp
  have "distinct ps" using mset_eq_imp_distinct_iff [OF ps(2)] \<open>distinct ?ps\<close> by simp
  then have "sorted_wrt (\<lambda>x y. ival x < ival y) ps"
    using strictly_sorted [OF ps(3), of pp] prec sps by simp
  then show ?thesis using m1(1) m(1) ps(1) sps by blast
qed

subsection \<open>The sweep\<close>

text \<open>What is left of the quantities \<open>qs\<close> when the volume \<open>v\<close> is given out in order.\<close>

fun allot :: "int \<Rightarrow> int list \<Rightarrow> int list" where
  "allot v [] = []"
| "allot v (q # qs) = (q - min v q) # allot (v - min v q) qs"

lemma length_allot [simp]: "length (allot v qs) = length qs"
  by (induction qs arbitrary: v) auto

lemma allot_0: "\<forall>q\<in>set qs. 0 \<le> q \<Longrightarrow> allot 0 qs = qs"
  by (induction qs) auto

lemma allot_zeros: "\<forall>q\<in>set zs. q = 0 \<Longrightarrow> 0 \<le> v \<Longrightarrow> allot v (zs @ qs) = zs @ allot v qs"
  by (induction zs) auto

lemma allot_step:
  assumes "\<forall>q\<in>set zs. q = 0" and "0 \<le> k" "k \<le> v" "k \<le> x"
  shows "allot (v - k) (zs @ (x - k) # qs) = allot v (zs @ x # qs)"
  using assms by (simp add: allot_zeros min_diff_distrib_left [symmetric])

lemma sum_allot: "0 \<le> v \<Longrightarrow> v \<le> sum_list qs \<Longrightarrow> \<forall>q\<in>set qs. 0 \<le> q \<Longrightarrow> sum_list (allot v qs) = sum_list qs - v"
proof (induction qs arbitrary: v)
  case (Cons q qs)
  then show ?case using Cons.IH [of "v - min v q"] by (auto simp: min_def allot_0)
qed simp

definition taken_by :: "(Fill \<Rightarrow> OrderID) \<Rightarrow> OrderID \<Rightarrow> Fill list \<Rightarrow> int" where
  "taken_by side oid fs = (\<Sum>f\<leftarrow>filter (\<lambda>f. side f = oid) fs. ival (f_Qty f))"

lemma taken_by_simps [simp]:
  "taken_by side oid [] = 0"
  "taken_by side oid (fs @ gs) = taken_by side oid fs + taken_by side oid gs"
  "taken_by side oid (f # fs) = (if side f = oid then ival (f_Qty f) else 0) + taken_by side oid fs"
  by (simp_all add: taken_by_def)

text \<open>A fill of the sweep: at the clearing price, positive, between an eligible bid and ask.\<close>

definition fair_fill :: "Decimal \<Rightarrow> AuctionOrder list \<Rightarrow> AuctionOrder list \<Rightarrow> Fill \<Rightarrow> bool" where
  "fair_fill p bids asks f \<longleftrightarrow> f_Price f = p \<and> 0 < ival (f_Qty f) \<and> f_MakerSide f = Ask \<and>
     (\<exists>x\<in>set bids. f_TakerOrderID f = ao_OrderID x \<and> f_TakerUserID f = ao_UserID x) \<and>
     (\<exists>x\<in>set asks. f_MakerOrderID f = ao_OrderID x \<and> f_MakerUserID f = ao_UserID x)"

definition remains :: "u8 \<Rightarrow> nat \<Rightarrow> nat \<Rightarrow> Decimal list \<Rightarrow> bool" where
  "remains qp n i rs \<longleftrightarrow> length rs = n \<and> i \<le> n \<and> (\<forall>r\<in>set rs. d_precision r = qp \<and> 0 \<le> ival r) \<and>
     (\<forall>j<i. ival (rs ! j) = 0)"

abbreviation ivals :: "Decimal list \<Rightarrow> int list" where
  "ivals rs \<equiv> map (\<lambda>r. ival r) rs"

lemma remains_nth: "remains qp n i rs \<Longrightarrow> j < n \<Longrightarrow> d_precision (rs ! j) = qp \<and> 0 \<le> ival (rs ! j)"
  by (auto simp: remains_def)

lemma ivals_split:
  assumes "remains qp n i rs" and "i < n"
  shows "ivals rs = take i (ivals rs) @ ival (rs ! i) # drop (Suc i) (ivals rs)"
    "\<forall>q\<in>set (take i (ivals rs)). q = 0"
proof -
  have len: "i < length rs" using assms by (simp add: remains_def)
  show "ivals rs = take i (ivals rs) @ ival (rs ! i) # drop (Suc i) (ivals rs)"
    using id_take_nth_drop [of i "ivals rs"] len by simp
  show "\<forall>q\<in>set (take i (ivals rs)). q = 0"
    using assms len by (auto simp: remains_def in_set_conv_nth)
qed

lemma remains_update:
  assumes "remains qp n i rs" and "i < n" and "d_precision r = qp" "0 \<le> ival r"
  shows "remains qp n i (rs[i := r])"
  using assms set_update_subset_insert [of rs i r] by (auto simp: remains_def)

lemma remains_allot:
  assumes "remains qp n i rs" and "i < n" and "0 \<le> k" "k \<le> v" "k \<le> ival (rs ! i)"
    and "ival r = ival (rs ! i) - k"
  shows "allot (v - k) (ivals (rs[i := r])) = allot v (ivals rs)"
    "sum_list (ivals (rs[i := r])) = sum_list (ivals rs) - k"
proof -
  note sp = ivals_split [OF assms(1,2)]
  have len: "i < length rs" using assms by (simp add: remains_def)
  have upd: "ivals (rs[i := r]) = take i (ivals rs) @ (ival (rs ! i) - k) # drop (Suc i) (ivals rs)"
    using len assms(6) by (simp add: map_update upd_conv_take_nth_drop take_map drop_map)
  show "allot (v - k) (ivals (rs[i := r])) = allot v (ivals rs)"
    unfolding upd by (subst (2) sp(1)) (rule allot_step [OF sp(2) assms(3-5)])
  show "sum_list (ivals (rs[i := r])) = sum_list (ivals rs) - k"
    unfolding upd by (subst (3) sp(1)) simp
qed

lemma remains_done: "remains qp n n rs \<Longrightarrow> sum_list (ivals rs) = 0"
proof -
  assume r: "remains qp n n rs"
  then have "\<forall>q\<in>set (ivals rs). q = 0" by (auto simp: remains_def in_set_conv_nth)
  moreover have "sum_list xs = 0" if "\<forall>q\<in>set xs. q = 0" for xs :: "int list"
    using that by (induction xs) auto
  ultimately show ?thesis by blast
qed

lemma ivals_nonneg: "remains qp n i rs \<Longrightarrow> \<forall>q\<in>set (ivals rs). 0 \<le> q"
  by (auto simp: remains_def)

lemma sum_ivals_ge:
  assumes "remains qp n i rs" and "j < n"
  shows "ival (rs ! j) \<le> sum_list (ivals rs)" "0 \<le> sum_list (ivals rs)"
proof -
  show "0 \<le> sum_list (ivals rs)" using ivals_nonneg [OF assms(1)] by (intro sum_list_nonneg) auto
  have "ival (rs ! j) \<in> set (ivals rs)" using assms by (simp add: remains_def)
  moreover have "x \<le> sum_list xs" if "x \<in> set xs" "\<forall>q\<in>set xs. 0 \<le> q" for x :: int and xs
    using that
  proof (induction xs)
    case (Cons y ys)
    have "0 \<le> sum_list ys" using Cons.prems(2) by (intro sum_list_nonneg) simp
    then show ?case using Cons by auto
  qed simp
  ultimately show "ival (rs ! j) \<le> sum_list (ivals rs)" using ivals_nonneg [OF assms(1)] by blast
qed

definition swept :: "Decimal \<Rightarrow> AuctionOrder list \<Rightarrow> AuctionOrder list \<Rightarrow> u8 \<Rightarrow> Decimal list \<Rightarrow> Decimal list \<Rightarrow>
    Decimal list \<Rightarrow> Decimal list \<Rightarrow> Fill list \<Rightarrow> bool" where
  "swept p bids asks qp R S R' S' fs \<longleftrightarrow>
     (let v = min (sum_list (ivals R)) (sum_list (ivals S)) in
        ivals R' = allot v (ivals R) \<and> ivals S' = allot v (ivals S) \<and>
        (\<forall>r\<in>set R' \<union> set S'. d_precision r = qp) \<and>
        (\<forall>f\<in>set fs. fair_fill p bids asks f \<and> d_precision (f_Qty f) = qp) \<and> (\<Sum>f\<leftarrow>fs. ival (f_Qty f)) = v \<and>
        (\<forall>j<length bids. taken_by f_TakerOrderID (ao_OrderID (bids ! j)) fs = ival (R ! j) - ival (R' ! j)) \<and>
        (\<forall>j<length asks. taken_by f_MakerOrderID (ao_OrderID (asks ! j)) fs = ival (S ! j) - ival (S' ! j)))"

text \<open>One fill in front of a sweep: \<open>q\<close> goes from the bid at \<open>bi\<close> to the ask at \<open>ai\<close>.\<close>

lemma taken_by_fill:
  assumes ids: "distinct (map ao_OrderID os)" and j: "i < length os" "j < length os" "length os = length R"
    and f: "who f = ao_OrderID (os ! i)" and r: "ival r = ival (R ! i) - ival (f_Qty f)"
    and fs: "taken_by who (ao_OrderID (os ! j)) fs = ival (R[i := r] ! j) - w"
  shows "taken_by who (ao_OrderID (os ! j)) (f # fs) = ival (R ! j) - w"
proof -
  have "ao_OrderID (os ! i) = ao_OrderID (os ! j) \<longleftrightarrow> i = j"
    using nth_eq_iff_index_eq [OF ids, of i j] j by simp
  then show ?thesis using assms by (auto simp: nth_list_update)
qed

lemma swept_fill:
  assumes ids: "distinct (map ao_OrderID bids)" "distinct (map ao_OrderID asks)"
    and r: "remains qp (length bids) bi R" "bi < length bids" and s: "remains qp (length asks) ai S" "ai < length asks"
    and q: "d_precision q = qp" "0 < ival q" "ival q \<le> ival (R ! bi)" "ival q \<le> ival (S ! ai)"
    and rb: "ival rb = ival (R ! bi) - ival q" and sa: "ival sa = ival (S ! ai) - ival q"
    and rest: "swept p bids asks qp (R[bi := rb]) (S[ai := sa]) R' S' fs"
  shows "swept p bids asks qp R S R' S' (sweep_fill p (bids ! bi) (asks ! ai) q rb sa # fs)"
proof -
  let ?f = "sweep_fill p (bids ! bi) (asks ! ai) q rb sa" and ?R = "R[bi := rb]" and ?S = "S[ai := sa]"
  have v: "ival q \<le> min (sum_list (ivals R)) (sum_list (ivals S))"
    using sum_ivals_ge(1) [OF r] sum_ivals_ge(1) [OF s] q by auto
  note ar = remains_allot [OF r order.strict_implies_order [OF q(2)] v q(3) rb]
  note as = remains_allot [OF s order.strict_implies_order [OF q(2)] v q(4) sa]
  have vv: "min (sum_list (ivals ?R)) (sum_list (ivals ?S)) = min (sum_list (ivals R)) (sum_list (ivals S)) - ival q"
    unfolding ar(2) as(2) by (simp add: min_diff_distrib_left)
  have fq: "f_Qty ?f = q" "f_TakerOrderID ?f = ao_OrderID (bids ! bi)" "f_MakerOrderID ?f = ao_OrderID (asks ! ai)"
    by (simp_all add: sweep_fill_def)
  have fair: "fair_fill p bids asks ?f" using r(2) s(2) q(2) unfolding fair_fill_def by (auto simp: sweep_fill_def)
  have "taken_by f_TakerOrderID (ao_OrderID (bids ! j)) (?f # fs) = ival (R ! j) - ival (R' ! j)" if "j < length bids" for j
    using r that rest by (intro taken_by_fill [where i = bi and r = rb, OF ids(1) r(2) that])
      (simp_all add: fq rb remains_def swept_def Let_def)
  moreover have "taken_by f_MakerOrderID (ao_OrderID (asks ! j)) (?f # fs) = ival (S ! j) - ival (S' ! j)" if "j < length asks" for j
    using s that rest by (intro taken_by_fill [where i = ai and r = sa, OF ids(2) s(2) that])
      (simp_all add: fq sa remains_def swept_def Let_def)
  ultimately show ?thesis using rest fair unfolding swept_def vv ar(1) as(1) Let_def by (simp add: fq q(1))
qed

lemma sweep_loop_ok:
  assumes ids: "distinct (map ao_OrderID bids)" "distinct (map ao_OrderID asks)"
  shows "remains qp (length bids) bi R \<Longrightarrow> remains qp (length asks) ai S \<Longrightarrow>
    \<exists>R' S' fs. sweep_loop p bids asks bi ai R S fills = Some (R', S', fills @ fs) \<and>
      swept p bids asks qp R S R' S' fs"
proof (induction "nat (sum_list (ivals R) + sum_list (ivals S)) + (length bids - bi) + (length asks - ai)"
    arbitrary: bi ai R S fills rule: less_induct)
  case less
  let ?n = "length bids" and ?m = "length asks"
  note r = less.prems(1) and s = less.prems(2)
  consider (finished) "\<not> (bi < ?n \<and> ai < ?m)" | (bid_empty) "bi < ?n" "ai < ?m" "ival (R ! bi) = 0"
    | (ask_empty) "bi < ?n" "ai < ?m" "ival (R ! bi) \<noteq> 0" "ival (S ! ai) = 0"
    | (fill) "bi < ?n" "ai < ?m" "ival (R ! bi) \<noteq> 0" "ival (S ! ai) \<noteq> 0" by blast
  then show ?case
  proof cases
    case finished
    then have "bi = ?n \<or> ai = ?m" using r s by (auto simp: remains_def)
    then have "sum_list (ivals R) = 0 \<or> sum_list (ivals S) = 0"
      using r s remains_done by blast
    moreover have "0 \<le> sum_list (ivals R)" "0 \<le> sum_list (ivals S)"
      using ivals_nonneg [OF r] ivals_nonneg [OF s] by (auto intro!: sum_list_nonneg)
    ultimately have v: "min (sum_list (ivals R)) (sum_list (ivals S)) = 0" by auto
    have "swept p bids asks qp R S R S []"
      using r s allot_0 [OF ivals_nonneg [OF r]] allot_0 [OF ivals_nonneg [OF s]]
      by (auto simp: swept_def v remains_def)
    then show ?thesis using finished by (intro exI [of _ R] exI [of _ S] exI [of _ "[]"]) (simp add: sweep_loop.simps)
  next
    case bid_empty
    have r': "remains qp ?n (bi + 1) R" using r bid_empty by (auto simp: remains_def less_Suc_eq)
    have run: "sweep_loop p bids asks bi ai R S fills = sweep_loop p bids asks (bi + 1) ai R S fills"
      using bid_empty by (subst sweep_loop.simps) (simp add: IsZero_def sint_0_iff)
    show ?thesis unfolding run by (rule less.hyps [OF _ r' s]) (use bid_empty in auto)
  next
    case ask_empty
    have s': "remains qp ?m (ai + 1) S" using s ask_empty by (auto simp: remains_def less_Suc_eq)
    have run: "sweep_loop p bids asks bi ai R S fills = sweep_loop p bids asks bi (ai + 1) R S fills"
      using ask_empty by (subst sweep_loop.simps) (simp add: IsZero_def sint_0_iff)
    show ?thesis unfolding run by (rule less.hyps [OF _ r s']) (use ask_empty in auto)
  next
    case fill
    have R: "d_precision (R ! bi) = qp" "0 < ival (R ! bi)" using remains_nth [OF r fill(1)] fill(3) by auto
    have S: "d_precision (S ! ai) = qp" "0 < ival (S ! ai)" using remains_nth [OF s fill(2)] fill(4) by auto
    define q where "q = (if ival (S ! ai) < ival (R ! bi) then S ! ai else R ! bi)"
    have q: "d_precision q = qp" "0 < ival q" "ival q \<le> ival (R ! bi)" "ival q \<le> ival (S ! ai)"
      using R S by (auto simp: q_def)
    define rb where "rb = dsub (R ! bi) q"
    define sa where "sa = dsub (S ! ai) q"
    have rb: "Sub (R ! bi) q = Some rb" "d_precision rb = qp" "ival rb = ival (R ! bi) - ival q"
      using R(1) q by (simp_all add: rb_def Sub_same sint_sub_nonneg)
    have sa: "Sub (S ! ai) q = Some sa" "d_precision sa = qp" "ival sa = ival (S ! ai) - ival q"
      using S(1) q by (simp_all add: sa_def Sub_same sint_sub_nonneg)
    let ?R = "R[bi := rb]" and ?S = "S[ai := sa]"
    define f where "f = sweep_fill p (bids ! bi) (asks ! ai) q rb sa"
    have lt: "LessThan (S ! ai) (R ! bi) = Some (ival (S ! ai) < ival (R ! bi))" using R S by (simp add: compare_same)
    have run: "sweep_loop p bids asks bi ai R S fills = sweep_loop p bids asks bi ai ?R ?S (fills @ [f])"
      using fill lt rb(1) sa(1)
      by (subst sweep_loop.simps) (simp add: IsZero_def sint_0_iff Let_def f_def flip: q_def)
    have r': "remains qp ?n bi ?R" "remains qp ?m ai ?S"
      using remains_update [OF r fill(1)] remains_update [OF s fill(2)] rb sa q by simp_all
    have v: "ival q \<le> min (sum_list (ivals R)) (sum_list (ivals S))"
      using sum_ivals_ge(1) [OF r fill(1)] sum_ivals_ge(1) [OF s fill(2)] q by auto
    have "nat (sum_list (ivals ?R) + sum_list (ivals ?S)) + (?n - bi) + (?m - ai) <
        nat (sum_list (ivals R) + sum_list (ivals S)) + (?n - bi) + (?m - ai)"
      unfolding remains_allot(2) [OF r fill(1) order.strict_implies_order [OF q(2)] v q(3) rb(3)]
        remains_allot(2) [OF s fill(2) order.strict_implies_order [OF q(2)] v q(4) sa(3)]
      using q(2-4) sum_ivals_ge [OF r fill(1)] sum_ivals_ge [OF s fill(2)] by simp
    from less.hyps [OF this r', of "fills @ [f]"] obtain R' S' fs where
      ih: "sweep_loop p bids asks bi ai ?R ?S (fills @ [f]) = Some (R', S', (fills @ [f]) @ fs)"
        "swept p bids asks qp ?R ?S R' S' fs" by blast
    have "swept p bids asks qp R S R' S' (f # fs)"
      unfolding f_def by (rule swept_fill [OF ids r fill(1) s fill(2) q rb(3) sa(3) ih(2)])
    then show ?thesis unfolding run ih(1) by (intro exI [of _ R'] exI [of _ S'] exI [of _ "f # fs"]) simp
  qed
qed

end
