(* ===== verification/Auction_Claims.thy ===== *)
theory Auction_Claims
  imports Auction_Proof
begin

section \<open>The call auction: the properties\<close>

text \<open>
  The contract of \<open>ComputeClearingPrice\<close>, \<open>Sweep\<close> and \<open>AddOrder\<close>: the clearing price is the best by
  the rule the comment in \<open>equilibrium.go\<close> gives, and the sweep gives out exactly the executable
  volume.  \<open>ComputeClearingPrice_ok\<close> and \<open>Sweep_ok\<close> are what the processor uses.
\<close>

lemma filter_opt_ok: "(\<And>x. x \<in> set xs \<Longrightarrow> P x = Some (Q x)) \<Longrightarrow> filter_opt P xs = Some (filter Q xs)"
  by (induction xs) auto

definition elig_bids :: "AuctionBook \<Rightarrow> Decimal \<Rightarrow> AuctionOrder list" where
  "elig_bids a p = filter (\<lambda>x. ival p \<le> ival (ao_Price x)) (ab_bids a)"

definition elig_asks :: "AuctionBook \<Rightarrow> Decimal \<Rightarrow> AuctionOrder list" where
  "elig_asks a p = filter (\<lambda>x. ival (ao_Price x) \<le> ival p) (ab_asks a)"

text \<open>The eligible orders with what is left of each when the executable volume is given out in
  price-time priority.\<close>

definition left_bids :: "AuctionBook \<Rightarrow> Decimal \<Rightarrow> (AuctionOrder \<times> int) list" where
  "left_bids a p = zip (elig_bids a p) (allot (volume a p) (map (\<lambda>x. ival (ao_Qty x)) (elig_bids a p)))"

definition left_asks :: "AuctionBook \<Rightarrow> Decimal \<Rightarrow> (AuctionOrder \<times> int) list" where
  "left_asks a p = zip (elig_asks a p) (allot (volume a p) (map (\<lambda>x. ival (ao_Qty x)) (elig_asks a p)))"

definition rest_orders :: "u8 \<Rightarrow> (AuctionOrder \<times> int) list \<Rightarrow> AuctionOrder list" where
  "rest_orders qp rs = map (\<lambda>(x, r). x\<lparr>ao_Qty := \<lparr>d_value = word_of_int r, d_precision = qp\<rparr>\<rparr>)
     (filter (\<lambda>(x, r). r \<noteq> 0) rs)"

lemma leftovers_ok:
  assumes "length rs = length xs" and "\<forall>r\<in>set rs. d_precision r = qp"
  shows "leftovers xs rs = rest_orders qp (zip xs (ivals rs))"
  using assms
proof (induction xs rs rule: leftovers.induct)
  case (1 x xs r rs)
  have "\<lparr>d_value = word_of_int (ival r), d_precision = qp\<rparr> = r" using 1(4) by (cases r) simp
  then show ?case using 1 by (auto simp: rest_orders_def IsZero_def sint_0_iff)
qed (auto simp: rest_orders_def)

text \<open>All orders with something left: the eligible ones, then the others untouched.\<close>

definition auction_rest :: "u8 \<Rightarrow> AuctionBook \<Rightarrow> Decimal \<Rightarrow> AuctionOrder list" where
  "auction_rest qp a p = rest_orders qp (left_bids a p) @ rest_orders qp (left_asks a p) @
     filter (\<lambda>x. ival (ao_Price x) < ival p) (ab_bids a) @
     filter (\<lambda>x. ival p < ival (ao_Price x)) (ab_asks a)"

lemma remains_start: "(\<And>x. x \<in> set xs \<Longrightarrow> auction_order pp qp x) \<Longrightarrow> remains qp (length xs) 0 (map ao_Qty xs)"
  using auction_orderD by (fastforce simp: remains_def)

lemma Sweep_ok:
  assumes ok: "auction_ok pp qp a" and p: "d_precision p = pp"
    and ids: "distinct (map ao_OrderID (ab_bids a))" "distinct (map ao_OrderID (ab_asks a))"
  shows "\<exists>fs. Sweep p a = Some (fs, filter (\<lambda>x. ao_TIF x = GTC) (auction_rest qp a p),
       filter (\<lambda>x. ao_TIF x \<noteq> GTC) (auction_rest qp a p)) \<and>
     (\<forall>f\<in>set fs. fair_fill p (elig_bids a p) (elig_asks a p) f \<and> d_precision (f_Qty f) = qp) \<and>
     (\<Sum>f\<leftarrow>fs. ival (f_Qty f)) = volume a p \<and>
     (\<forall>(x, r)\<in>set (left_bids a p). taken_by f_TakerOrderID (ao_OrderID x) fs = ival (ao_Qty x) - r) \<and>
     (\<forall>(x, r)\<in>set (left_asks a p). taken_by f_MakerOrderID (ao_OrderID x) fs = ival (ao_Qty x) - r)"
proof -
  note d = auction_okD [OF ok]
  let ?B = "elig_bids a p" and ?A = "elig_asks a p"
  have prec: "d_precision (ao_Price x) = d_precision p" if "x \<in> set (ab_bids a) \<union> set (ab_asks a)" for x
    using that d(3,4) p by (auto simp: auction_order_def)
  have flt: "filter_opt (\<lambda>x. GreaterThanOrEqual (ao_Price x) p) (ab_bids a) = Some ?B"
    "filter_opt (\<lambda>x. LessThanOrEqual (ao_Price x) p) (ab_asks a) = Some ?A"
    "filter_opt (\<lambda>x. LessThan (ao_Price x) p) (ab_bids a) = Some (filter (\<lambda>x. ival (ao_Price x) < ival p) (ab_bids a))"
    "filter_opt (\<lambda>x. GreaterThan (ao_Price x) p) (ab_asks a) = Some (filter (\<lambda>x. ival p < ival (ao_Price x)) (ab_asks a))"
    unfolding elig_bids_def elig_asks_def by (intro filter_opt_ok; simp add: compare_same prec)+
  have r: "remains qp (length ?B) 0 (map ao_Qty ?B)" "remains qp (length ?A) 0 (map ao_Qty ?A)"
    using d(3,4) by (auto intro!: remains_start simp: elig_bids_def elig_asks_def)
  have dist: "distinct (map ao_OrderID ?B)" "distinct (map ao_OrderID ?A)"
    using ids by (auto simp: elig_bids_def elig_asks_def distinct_map_filter)
  from sweep_loop_ok [OF dist r, of p "[]"] obtain R S fs where
    loop: "sweep_loop p ?B ?A 0 0 (map ao_Qty ?B) (map ao_Qty ?A) [] = Some (R, S, fs)"
      "swept p ?B ?A qp (map ao_Qty ?B) (map ao_Qty ?A) R S fs" by auto
  have v: "min (sum_list (ivals (map ao_Qty ?B))) (sum_list (ivals (map ao_Qty ?A))) = volume a p"
    by (simp add: volume_def bid_volume_def ask_volume_def elig_bids_def elig_asks_def comp_def)
  have RS: "ivals R = allot (volume a p) (map (\<lambda>x. ival (ao_Qty x)) ?B)"
    "ivals S = allot (volume a p) (map (\<lambda>x. ival (ao_Qty x)) ?A)"
    "\<forall>r\<in>set R. d_precision r = qp" "\<forall>r\<in>set S. d_precision r = qp"
    "\<forall>f\<in>set fs. fair_fill p ?B ?A f \<and> d_precision (f_Qty f) = qp" "(\<Sum>f\<leftarrow>fs. ival (f_Qty f)) = volume a p"
    "\<And>j. j < length ?B \<Longrightarrow> taken_by f_TakerOrderID (ao_OrderID (?B ! j)) fs = ival (ao_Qty (?B ! j)) - ival (R ! j)"
    "\<And>j. j < length ?A \<Longrightarrow> taken_by f_MakerOrderID (ao_OrderID (?A ! j)) fs = ival (ao_Qty (?A ! j)) - ival (S ! j)"
    using loop(2) unfolding swept_def v Let_def by (simp_all add: comp_def)
  have len: "length R = length ?B" "length S = length ?A"
    using arg_cong [OF RS(1), of length] arg_cong [OF RS(2), of length] by simp_all
  have lb: "left_bids a p = zip ?B (ivals R)" and la: "left_asks a p = zip ?A (ivals S)"
    by (simp_all add: left_bids_def left_asks_def RS(1,2))
  have "leftovers ?B R = rest_orders qp (left_bids a p)" "leftovers ?A S = rest_orders qp (left_asks a p)"
    unfolding lb la using leftovers_ok RS(3,4) len by simp_all
  then have run: "Sweep p a = Some (fs, filter (\<lambda>x. ao_TIF x = GTC) (auction_rest qp a p),
       filter (\<lambda>x. ao_TIF x \<noteq> GTC) (auction_rest qp a p))"
    by (simp add: Sweep_def flt loop(1) auction_rest_def)
  have tb: "\<forall>(x, r)\<in>set (left_bids a p). taken_by f_TakerOrderID (ao_OrderID x) fs = ival (ao_Qty x) - r"
    using RS(7) len by (auto simp: lb set_zip)
  have ta: "\<forall>(x, r)\<in>set (left_asks a p). taken_by f_MakerOrderID (ao_OrderID x) fs = ival (ao_Qty x) - r"
    using RS(8) len by (auto simp: la set_zip)
  show ?thesis using run RS(5,6) tb ta by blast
qed

text \<open>Claim C40: the sweep executes exactly the executable volume at the clearing price, all of it at
  this one price, between bids at or above and asks at or below it, in price-time priority:
  each eligible order is filled by what the volume leaves to it after the orders before it.
  Everything that is not executed is handed back once, the GTC orders to be transferred and
  the others to be cancelled, with exactly the quantity that is left.\<close>

theorem Sweep_executes_volume:
  assumes ok: "auction_ok pp qp a" and p: "d_precision p = pp"
    and ids: "distinct (map ao_OrderID (ab_bids a))" "distinct (map ao_OrderID (ab_asks a))"
  shows "\<exists>fs. Sweep p a = Some (fs, filter (\<lambda>x. ao_TIF x = GTC) (auction_rest qp a p),
       filter (\<lambda>x. ao_TIF x \<noteq> GTC) (auction_rest qp a p)) \<and>
     (\<forall>f\<in>set fs. fair_fill p (elig_bids a p) (elig_asks a p) f) \<and>
     (\<Sum>f\<leftarrow>fs. ival (f_Qty f)) = volume a p \<and>
     (\<forall>(x, r)\<in>set (left_bids a p). taken_by f_TakerOrderID (ao_OrderID x) fs = ival (ao_Qty x) - r) \<and>
     (\<forall>(x, r)\<in>set (left_asks a p). taken_by f_MakerOrderID (ao_OrderID x) fs = ival (ao_Qty x) - r)"
  using Sweep_ok [OF assms] by blast

subsection \<open>The clearing price\<close>

lemma sum_filter_mono:
  assumes "\<And>x. x \<in> set xs \<Longrightarrow> (0 :: int) \<le> f x" and "\<And>x. x \<in> set xs \<Longrightarrow> P x \<Longrightarrow> Q x"
  shows "sum_list (map f (filter P xs)) \<le> sum_list (map f (filter Q xs))"
  using assms by (induction xs) (auto intro: add_increasing)

lemma sum_filter_pos:
  assumes "\<And>x. x \<in> set xs \<Longrightarrow> (0 :: int) < f x"
  shows "0 < sum_list (map f (filter P xs)) \<longleftrightarrow> (\<exists>x\<in>set xs. P x)"
  using assms
proof (induction xs)
  case (Cons x xs)
  have "0 \<le> sum_list (map f (filter P xs))" using Cons.prems by (intro sum_list_nonneg) (auto intro: less_imp_le)
  then show ?case using Cons by (auto intro: add_pos_nonneg)
qed simp

definition crossing :: "AuctionBook \<Rightarrow> bool" where
  "crossing a \<longleftrightarrow> (\<exists>x\<in>set (ab_bids a). \<exists>y\<in>set (ab_asks a). ival (ao_Price y) \<le> ival (ao_Price x))"

lemma volume_pos:
  assumes "auction_ok pp qp a"
  shows "0 < volume a p \<longleftrightarrow> (\<exists>x\<in>set (ab_bids a). ival p \<le> ival (ao_Price x)) \<and>
     (\<exists>y\<in>set (ab_asks a). ival (ao_Price y) \<le> ival p)"
  using sum_filter_pos [of "ab_bids a" "\<lambda>x. ival (ao_Qty x)" "\<lambda>x. ival p \<le> ival (ao_Price x)"]
    sum_filter_pos [of "ab_asks a" "\<lambda>x. ival (ao_Qty x)" "\<lambda>x. ival (ao_Price x) \<le> ival p"]
    auction_okD(3,4) [OF assms] auction_orderD(4)
  unfolding volume_def bid_volume_def ask_volume_def min_less_iff_conj by blast

lemma crossing_volume:
  assumes ok: "auction_ok pp qp a"
  shows "crossing a \<longleftrightarrow> (\<exists>c\<in>limit_prices a. 0 < volume a c)"
proof
  assume "crossing a"
  then obtain x y where xy: "x \<in> set (ab_bids a)" "y \<in> set (ab_asks a)" "ival (ao_Price y) \<le> ival (ao_Price x)"
    by (auto simp: crossing_def)
  then have "0 < volume a (ao_Price x)" unfolding volume_pos [OF ok] by auto
  then show "\<exists>c\<in>limit_prices a. 0 < volume a c" using xy(1) by (auto simp: limit_prices_def)
next
  assume "\<exists>c\<in>limit_prices a. 0 < volume a c"
  then show "crossing a" unfolding volume_pos [OF ok] crossing_def by (meson order_trans)
qed

lemma volume_at_limit:
  assumes ok: "auction_ok pp qp a" and pos: "0 < volume a p"
  shows "\<exists>c\<in>limit_prices a. volume a p \<le> volume a c"
proof -
  note d = auction_okD [OF ok]
  define E where "E = {x \<in> set (ab_bids a). ival p \<le> ival (ao_Price x)}"
  have "finite E" "E \<noteq> {}" using pos by (auto simp: E_def volume_pos [OF ok])
  then obtain x where x: "x \<in> E" "\<And>y. y \<in> E \<Longrightarrow> ival (ao_Price x) \<le> ival (ao_Price y)"
    using arg_min_if_finite [of E "\<lambda>x. ival (ao_Price x)"] by (metis not_le)
  let ?c = "ao_Price x"
  have "filter (\<lambda>x. ival p \<le> ival (ao_Price x)) (ab_bids a) = filter (\<lambda>y. ival ?c \<le> ival (ao_Price y)) (ab_bids a)"
    using x by (intro filter_cong) (auto simp: E_def intro: order_trans)
  then have "bid_volume (ab_bids a) p = bid_volume (ab_bids a) ?c" by (simp add: bid_volume_def)
  moreover have "ask_volume (ab_asks a) p \<le> ask_volume (ab_asks a) ?c"
    unfolding ask_volume_def
  proof (rule sum_filter_mono)
    show "0 \<le> ival (ao_Qty y)" if "y \<in> set (ab_asks a)" for y
      using auction_orderD(4) [OF d(4) [OF that]] by simp
    show "ival (ao_Price y) \<le> ival ?c" if "ival (ao_Price y) \<le> ival p" for y
      using x(1) that by (simp add: E_def)
  qed
  ultimately have "volume a p \<le> volume a ?c" by (simp add: volume_def)
  then show ?thesis using x(1) by (auto simp: E_def limit_prices_def)
qed

lemma ComputeClearingPrice_ok:
  assumes ok: "auction_ok pp qp a" and fits: "fits a" and pp: "unat pp \<le> 18"
    and ref: "d_precision ref = pp" "0 \<le> ival ref"
    and keys: "distinct keys" "set keys = price_keys a"
  shows "if crossing a then \<exists>p q. ComputeClearingPrice keys ref a = Some (p, q, True) \<and>
       p \<in> limit_prices a \<and> ival q = volume a p \<and> 0 < volume a p \<and>
       (\<forall>p'. volume a p' \<le> volume a p) \<and> (\<forall>c\<in>limit_prices a. prefers a ref p c)
     else ComputeClearingPrice keys ref a = Some (Zero pp, Zero qp, False)"
proof (cases "ab_bids a = [] \<or> ab_asks a = []")
  case True
  then show ?thesis using auction_okD(1,2) [OF ok] by (auto simp: ComputeClearingPrice_def crossing_def)
next
  case False
  note d = auction_okD [OF ok]
  obtain m1 m ps where m: "priceSet (ab_bids a) Map.empty = Some m1" "priceSet (ab_asks a) m1 = Some m"
    "sort_prices (length (List.map_filter m keys) - 1) (List.map_filter m keys) = Some ps"
    "set ps = limit_prices a" "sorted_wrt (\<lambda>x y. ival x < ival y) ps"
    using candidates_ok [OF ok pp keys] by blast
  let ?b0 = "\<lparr>bc_price = Zero pp, bc_qty = Zero qp, bc_imbalance = Zero qp, bc_found = False\<rparr>"
  have "candidate_price pp c" if "c \<in> set ps" for c
    using that d(3,4) auction_orderD(1,3) unfolding m(4) limit_prices_def candidate_price_def by fastforce
  moreover have "best_ok qp a ref {} ?b0" by (simp add: best_ok_def)
  ultimately obtain b where b: "bestCandidate a ref ps ?b0 = Some b" "best_ok qp a ref (limit_prices a) b"
    "bc_found b \<or> b = ?b0"
    using bestCandidate_ok [OF ok fits ref m(5), of "{}" ?b0] m(4) by auto
  have run: "ComputeClearingPrice keys ref a = Some (bc_price b, bc_qty b, bc_found b)"
    using False m(1-3) b(1) d(1,2) by (simp add: ComputeClearingPrice_def)
  show ?thesis
  proof (cases "bc_found b")
    case found: True
    have bb: "bc_price b \<in> limit_prices a" "0 < volume a (bc_price b)" "ival (bc_qty b) = volume a (bc_price b)"
      "\<forall>c\<in>limit_prices a. prefers a ref (bc_price b) c"
      using b(2) found by (simp_all add: best_ok_def)
    have "volume a p' \<le> volume a (bc_price b)" for p'
    proof (cases "0 < volume a p'")
      case True
      then obtain c where c: "c \<in> limit_prices a" "volume a p' \<le> volume a c" using volume_at_limit [OF ok] by blast
      then have "volume a c \<le> volume a (bc_price b)" using bb(4) by (force simp: prefers_def)
      then show ?thesis using c(2) by simp
    qed (use bb(2) in simp)
    moreover have "crossing a" using bb(1,2) crossing_volume [OF ok] by blast
    ultimately show ?thesis using run found bb by simp
  next
    case nf: False
    then have "\<forall>c\<in>limit_prices a. volume a c = 0" using b(2) by (simp add: best_ok_def)
    then have "\<not> crossing a" using crossing_volume [OF ok] by force
    then show ?thesis using run nf b(3) by simp
  qed
qed


subsection \<open>Adding orders\<close>

text \<open>Adding an order to the auction puts it into its side and keeps both sides in
  price-time priority, whatever was added before.\<close>

theorem AddOrder_keeps_priority:
  assumes "auction_ok pp qp a" and "auction_order pp qp x"
  shows "\<exists>a'. AddOrder x a = Some a' \<and> auction_ok pp qp a' \<and>
     mset (ab_bids a') = mset (ab_bids a) + (if ao_Side x = Bid then {#x#} else {#}) \<and>
     mset (ab_asks a') = mset (ab_asks a) + (if ao_Side x = Bid then {#} else {#x#})"
  by (rule AddOrder_ok [OF assms])

subsection \<open>A small auction\<close>

definition demo_auction_order :: "OrderID \<Rightarrow> Side \<Rightarrow> i64 \<Rightarrow> i64 \<Rightarrow> u64 \<Rightarrow> AuctionOrder" where
  "demo_auction_order oid side price qty seq =
     \<lparr>ao_OrderID = oid, ao_UserID = ''alice'', ao_Side = side, ao_Price = NewDecimal price 2,
      ao_Qty = NewDecimal qty 0, ao_TIF = GTC, ao_SeqNum = seq\<rparr>"

definition demo_auction :: AuctionBook where
  "demo_auction = \<lparr>ab_bids = [demo_auction_order ''b1'' Bid 10200 5 1, demo_auction_order ''b2'' Bid 10000 5 2],
     ab_asks = [demo_auction_order ''a1'' Ask 9900 4 3, demo_auction_order ''a2'' Ask 10100 3 4],
     ab_pricePrecision = 2, ab_qtyPrecision = 0\<rparr>"

lemma demo_auction_ok: "auction_ok 2 0 demo_auction"
  by (simp add: auction_ok_def demo_auction_def demo_auction_order_def auction_order_def bid_before_def ask_before_def NewDecimal_def)

lemma demo_auction_fits: "fits demo_auction"
  by (simp add: fits_def total_qty_def demo_auction_def demo_auction_order_def)

theorem AddOrder_keeps_priority_witness:
  "\<exists>a'. AddOrder (demo_auction_order ''b3'' Bid 10200 1 5) demo_auction = Some a' \<and> auction_ok 2 0 a'"
proof -
  have "auction_order 2 0 (demo_auction_order ''b3'' Bid 10200 1 5)"
    by (simp add: auction_order_def demo_auction_order_def)
  then show ?thesis using AddOrder_keeps_priority [OF demo_auction_ok] by blast
qed

theorem Sweep_executes_volume_witness:
  "\<exists>fs r1 r2. Sweep (NewDecimal 10100 2) demo_auction = Some (fs, r1, r2) \<and> (\<Sum>f\<leftarrow>fs. ival (f_Qty f)) = 5"
proof -
  have ids: "distinct (map ao_OrderID (ab_bids demo_auction))" "distinct (map ao_OrderID (ab_asks demo_auction))"
    by (simp_all add: demo_auction_def demo_auction_order_def)
  have v: "volume demo_auction (NewDecimal 10100 2) = 5"
    by (simp add: volume_def bid_volume_def ask_volume_def demo_auction_def demo_auction_order_def)
  have p: "d_precision (NewDecimal 10100 2) = 2" by simp
  show ?thesis using Sweep_executes_volume [OF demo_auction_ok p ids] v by auto
qed


end
