(* ===== verification/State_Machine.thy ===== *)
theory State_Machine
  imports Market_Config
begin

section \<open>The market's state machine (\<open>statemachine/\<close>)\<close>

text \<open>
  \<open>MarketState\<close> with its table of transitions, and \<open>Machine\<close>: \<open>Transition\<close> and the
  permissions the processor asks for.  The last part relates the table to runs of the machine.
\<close>

datatype MarketState = PreOpen | Auction | Open | Halted | Closed | StateByte u8

fun MarketState_String :: "MarketState \<Rightarrow> string" where
  "MarketState_String PreOpen = ''PreOpen''"
| "MarketState_String Auction = ''Auction''"
| "MarketState_String Open = ''Open''"
| "MarketState_String Halted = ''Halted''"
| "MarketState_String Closed = ''Closed''"
| "MarketState_String (StateByte b) = ''Unknown''"

datatype transition_error = ErrInvalidTransition

text \<open>The table; reading a missing key of a Go map gives the nil slice.\<close>

fun validTransitions :: "MarketState \<Rightarrow> MarketState list" where
  "validTransitions PreOpen = [Auction, Open, Halted, Closed]"
| "validTransitions Auction = [Open, Halted, Closed]"
| "validTransitions Open = [Halted, Closed]"
| "validTransitions Halted = [Open, Auction, PreOpen, Closed]"
| "validTransitions Closed = [PreOpen]"
| "validTransitions (StateByte b) = []"

definition CanTransition :: "MarketState \<Rightarrow> MarketState \<Rightarrow> bool" where
  "CanTransition src dst \<longleftrightarrow> list_ex (\<lambda>allowed. allowed = dst) (validTransitions src)"

record Machine =
  m_state :: MarketState
  m_cfg :: MarketConfig

definition NewMachine :: "MarketConfig \<Rightarrow> Machine" where
  "NewMachine cfg = \<lparr>m_state = PreOpen, m_cfg = cfg\<rparr>"

definition Current :: "Machine \<Rightarrow> MarketState" where
  "Current m = m_state m"

definition Transition :: "MarketState \<Rightarrow> Machine \<Rightarrow> transition_error + Machine" where
  "Transition to m =
     (if \<not> CanTransition (m_state m) to then Inl ErrInvalidTransition
      else Inr (m\<lparr>m_state := to\<rparr>))"

definition CanAcceptLimitOrder :: "Machine \<Rightarrow> bool" where
  "CanAcceptLimitOrder m \<longleftrightarrow>
     m_state m = Open \<or> m_state m = Auction \<or> m_state m = PreOpen \<or> m_state m = Halted"

definition CanAcceptMarketOrder :: "Machine \<Rightarrow> bool" where
  "CanAcceptMarketOrder m \<longleftrightarrow> m_state m = Open"

definition CanAcceptStopOrder :: "Machine \<Rightarrow> bool" where
  "CanAcceptStopOrder m \<longleftrightarrow> m_state m = Open \<or> m_state m = Halted"

definition CanMatch :: "Machine \<Rightarrow> bool" where
  "CanMatch m \<longleftrightarrow> m_state m = Open \<or> m_state m = Auction"

definition CanCancel :: "Machine \<Rightarrow> bool" where
  "CanCancel m \<longleftrightarrow> True"

subsection \<open>Runs\<close>

text \<open>A caller asks for a sequence of states; a refused transition leaves the machine as it is.\<close>

fun request_all :: "MarketState list \<Rightarrow> Machine \<Rightarrow> Machine" where
  "request_all [] m = m"
| "request_all (to # tos) m =
     request_all tos (case Transition to m of Inl _ \<Rightarrow> m | Inr m' \<Rightarrow> m')"

definition declared :: "MarketState \<Rightarrow> bool" where
  "declared s \<longleftrightarrow> (\<forall>b. s \<noteq> StateByte b)"

text \<open>Sessions: what the machine guarantees between closing and trading again.\<close>

fun trace :: "MarketState list \<Rightarrow> Machine \<Rightarrow> MarketState list" where
  "trace [] m = [m_state m]"
| "trace (to # tos) m =
     m_state m # trace tos (case Transition to m of Inl _ \<Rightarrow> m | Inr m' \<Rightarrow> m')"

lemma CanTransition_iff: "CanTransition s t \<longleftrightarrow> t \<in> set (validTransitions s)"
  by (auto simp: CanTransition_def list_ex_iff)

lemma Transition_simps:
  "t \<in> set (validTransitions (m_state m)) \<Longrightarrow> Transition t m = Inr (m\<lparr>m_state := t\<rparr>)"
  "t \<notin> set (validTransitions (m_state m)) \<Longrightarrow> Transition t m = Inl ErrInvalidTransition"
  by (simp_all add: Transition_def CanTransition_iff)

lemma Transition_cases:
  "(case Transition t m of Inl _ \<Rightarrow> m | Inr m' \<Rightarrow> m') =
     (if t \<in> set (validTransitions (m_state m)) then m\<lparr>m_state := t\<rparr> else m)"
  by (simp add: Transition_simps)

lemma transitions_declared: "t \<in> set (validTransitions s) \<Longrightarrow> declared t"
  by (cases s) (auto simp: declared_def)

lemma validTransitions_Open: "Open \<in> set (validTransitions s) \<Longrightarrow> s \<in> {PreOpen, Auction, Halted}"
  by (cases s) auto

lemma trace_hd: "trace tos m = m_state m # tl (trace tos m)"
  by (cases tos) auto

text \<open>A closed market that trades again was in \<open>PreOpen\<close> in between.\<close>

lemma trace_closed:
  assumes "m_state m = Closed" and "trace tos m ! j \<noteq> Closed" and "j < length (trace tos m)"
  shows "PreOpen \<in> set (take (Suc j) (trace tos m))"
  using assms
proof (induction tos arbitrary: m j)
  case (Cons t tos)
  then obtain i where j: "j = Suc i" by (cases j) auto
  show ?case
  proof (cases "t = PreOpen")
    case True
    let ?m = "m\<lparr>m_state := PreOpen\<rparr>"
    have "trace (t # tos) m = Closed # trace tos ?m"
      using Cons.prems(1) True by (simp add: Transition_cases)
    moreover have "trace tos ?m = PreOpen # tl (trace tos ?m)" using trace_hd [of tos ?m] by simp
    ultimately have "trace (t # tos) m = Closed # PreOpen # tl (trace tos ?m)" by simp
    then show ?thesis by (simp add: j del: trace.simps)
  next
    case False
    then have tr: "trace (t # tos) m = Closed # trace tos m"
      using Cons.prems(1) by (simp add: Transition_cases)
    have "PreOpen \<in> set (take (Suc i) (trace tos m))"
      using Cons.prems tr j by (intro Cons.IH) auto
    then show ?thesis by (simp add: tr j del: trace.simps)
  qed
qed auto

lemma trace_suffix:
  "i < length (trace tos m) \<Longrightarrow> \<exists>tos' m'. drop i (trace tos m) = trace tos' m' \<and> m_state m' = trace tos m ! i"
proof (induction tos arbitrary: m i)
  case (Cons t tos)
  show ?case
  proof (cases i)
    case 0
    then show ?thesis by (intro exI [of _ "t # tos"] exI [of _ m]) simp
  next
    case (Suc k)
    then show ?thesis using Cons by simp
  qed
qed (auto intro!: exI [of _ "[]"])

text \<open>Claim C36: whatever transitions are requested, a market that was closed and later
  is open (or in any other state) has gone through PreOpen in between.\<close>

theorem reopening_passes_PreOpen:
  assumes "i < j" and "j < length (trace tos m)"
    and "trace tos m ! i = Closed" and "trace tos m ! j \<noteq> Closed"
  shows "\<exists>k. i < k \<and> k \<le> j \<and> trace tos m ! k = PreOpen"
proof -
  let ?T = "trace tos m"
  obtain tos' m' where d: "drop i ?T = trace tos' m'" "m_state m' = Closed"
    using trace_suffix [of i tos m] assms by auto
  have "PreOpen \<in> set (take (Suc (j - i)) (drop i ?T))"
    unfolding d(1) by (rule trace_closed [OF d(2)]) (use assms d(1) in \<open>simp_all flip: d(1)\<close>)
  then obtain n where "n < length (take (Suc (j - i)) (drop i ?T))" "take (Suc (j - i)) (drop i ?T) ! n = PreOpen"
    by (metis in_set_conv_nth)
  then have n: "n \<le> j - i" "?T ! (i + n) = PreOpen" using assms by auto
  then have "n \<noteq> 0" using assms(3) by (cases n) auto
  with n assms(1) show ?thesis by (intro exI [of _ "i + n"]) auto
qed

theorem reopening_passes_PreOpen_witness:
  "\<exists>k. 1 < k \<and> k \<le> 4 \<and>
     trace [Closed, Open, PreOpen, Open] \<lparr>m_state = Open, m_cfg = demo_config\<rparr> ! k = PreOpen"
  by (rule reopening_passes_PreOpen) (simp_all add: Transition_cases)

end
