(* ===== verification/Circuit.thy ===== *)
theory Circuit
  imports Market_Config
begin

section \<open>The circuit breaker (\<open>circuit/\<close>)\<close>

text \<open>
  \<open>RollingWindow\<close> is a ring buffer of 10000 price samples; \<open>Add_sample\<close> writes at the head
  and then evicts the oldest samples until one is recent enough.  The theory shows that the
  ring buffer is a queue of samples (\<open>samples\<close>), and what \<open>Check\<close> decides in terms of it.
\<close>

record PriceSample =
  ps_Price :: Decimal
  ps_Timestamp :: i64

record RollingWindow =
  w_buffer :: "PriceSample list"
  w_head :: nat
  w_size :: nat
  w_duration :: i64

definition maxSamples :: nat where
  "maxSamples = 10000"

definition zeroSample :: PriceSample where
  "zeroSample = \<lparr>ps_Price = zeroDecimal, ps_Timestamp = 0\<rparr>"

definition NewRollingWindow :: "i64 \<Rightarrow> RollingWindow" where
  "NewRollingWindow duration =
     \<lparr>w_buffer = replicate maxSamples zeroSample, w_head = 0, w_size = 0, w_duration = duration\<rparr>"

text \<open>The index of the oldest of \<open>size\<close> samples; the sum is taken first, so no term is negative.\<close>

definition oldest_at :: "nat \<Rightarrow> nat \<Rightarrow> nat" where
  "oldest_at head n = (head + maxSamples - n) mod maxSamples"

text \<open>The eviction loop: how many samples are left.\<close>

fun evict :: "PriceSample list \<Rightarrow> nat \<Rightarrow> i64 \<Rightarrow> nat \<Rightarrow> nat" where
  "evict buffer head cutoff 0 = 0"
| "evict buffer head cutoff (Suc n) =
     (if sint cutoff \<le> sint (ps_Timestamp (buffer ! oldest_at head (Suc n))) then Suc n
      else evict buffer head cutoff n)"

definition Add_sample :: "Decimal \<Rightarrow> i64 \<Rightarrow> RollingWindow \<Rightarrow> RollingWindow" where
  "Add_sample price now w =
     (let w = w\<lparr>w_buffer := (w_buffer w)[w_head w := \<lparr>ps_Price = price, ps_Timestamp = now\<rparr>]\<rparr>;
          w = w\<lparr>w_head := (w_head w + 1) mod maxSamples\<rparr>;
          w = (if w_size w < maxSamples then w\<lparr>w_size := w_size w + 1\<rparr> else w);
          cutoff = now - w_duration w
      in w\<lparr>w_size := evict (w_buffer w) (w_head w) cutoff (w_size w)\<rparr>)"

definition OldestPrice :: "RollingWindow \<Rightarrow> Decimal \<times> bool" where
  "OldestPrice w =
     (if w_size w = 0 then (Zero 2, False)
      else (ps_Price (w_buffer w ! oldest_at (w_head w) (w_size w)), True))"

definition NewestPrice :: "RollingWindow \<Rightarrow> Decimal \<times> bool" where
  "NewestPrice w =
     (if w_size w = 0 then (Zero 2, False)
      else (ps_Price (w_buffer w ! ((w_head w + maxSamples - 1) mod maxSamples)), True))"

definition Len_window :: "RollingWindow \<Rightarrow> nat" where
  "Len_window w = w_size w"

definition Reset_window :: "RollingWindow \<Rightarrow> RollingWindow" where
  "Reset_window w = w\<lparr>w_head := 0, w_size := 0\<rparr>"

subsection \<open>The breaker\<close>

record CircuitBreaker =
  br_window :: RollingWindow
  br_cfg :: CircuitBreakerConfig
  br_lastHalt :: i64

definition NewCircuitBreaker :: "CircuitBreakerConfig \<Rightarrow> CircuitBreaker" where
  "NewCircuitBreaker cfg =
     \<lparr>br_window = NewRollingWindow (cb_WindowDuration cfg), br_cfg = cfg, br_lastHalt = 0\<rparr>"

definition halt_reason :: string where
  "halt_reason = ''price move exceeded circuit breaker threshold''"

text \<open>The result: the reason, whether to halt, and the breaker.\<close>

definition Check :: "Decimal \<Rightarrow> i64 \<Rightarrow> CircuitBreaker \<Rightarrow> (string \<times> bool \<times> CircuitBreaker) option" where
  "Check tradePrice now cb = do {
     let cb = cb\<lparr>br_window := Add_sample tradePrice now (br_window cb)\<rparr>;
     let quiet = Some ([], False, cb);
     if 0 < sint (cb_CooldownPeriod (br_cfg cb)) \<and> 0 < sint (br_lastHalt cb) \<and>
        sint (now - br_lastHalt cb) < sint (cb_CooldownPeriod (br_cfg cb)) then quiet
     else if Len_window (br_window cb) < 2 then quiet
     else do {
       let (oldest, ok) = OldestPrice (br_window cb);
       if \<not> ok \<or> IsZero oldest then quiet
       else do {
         diff \<leftarrow> Sub tradePrice oldest;
         move \<leftarrow> Div (Abs_dec diff) oldest 4;
         above \<leftarrow> GreaterThan move (cb_MaxMovePercent (br_cfg cb));
         if above then Some (halt_reason, True, cb) else quiet } } }"

definition LastHalt :: "CircuitBreaker \<Rightarrow> i64" where
  "LastHalt cb = br_lastHalt cb"

definition SetLastHalt :: "i64 \<Rightarrow> CircuitBreaker \<Rightarrow> CircuitBreaker" where
  "SetLastHalt ts cb = cb\<lparr>br_lastHalt := ts, br_window := Reset_window (br_window cb)\<rparr>"

subsection \<open>The ring buffer is a queue\<close>

definition window_ok :: "RollingWindow \<Rightarrow> bool" where
  "window_ok w \<longleftrightarrow> length (w_buffer w) = maxSamples \<and> w_head w < maxSamples \<and> w_size w \<le> maxSamples"

definition samples :: "RollingWindow \<Rightarrow> PriceSample list" where
  "samples w = map (\<lambda>k. w_buffer w ! oldest_at (w_head w) k) (rev [1..<Suc (w_size w)])"

text \<open>The specification of \<open>Add_sample\<close>: append, drop the overflow, drop what is too old.\<close>

definition window_add :: "PriceSample \<Rightarrow> i64 \<Rightarrow> PriceSample list \<Rightarrow> PriceSample list" where
  "window_add s cutoff xs =
     (let ys = xs @ [s] in
      dropWhile (\<lambda>x. sint (ps_Timestamp x) < sint cutoff) (drop (length ys - maxSamples) ys))"

lemma maxSamples_pos [simp]: "0 < maxSamples"
  by (simp add: maxSamples_def)

lemma length_samples [simp]: "length (samples w) = w_size w"
  by (simp add: samples_def)

lemma oldest_at_eq:
  assumes "head < maxSamples" and "n \<le> maxSamples"
  shows "oldest_at head n = (if n \<le> head then head - n else head + maxSamples - n)"
  using assms by (auto simp: oldest_at_def le_mod_geq)

lemma next_head: "head < maxSamples \<Longrightarrow>
    (head + 1) mod maxSamples = (if head + 1 = maxSamples then 0 else head + 1)"
  by auto

lemma oldest_at_next:
  "head < maxSamples \<Longrightarrow> n < maxSamples \<Longrightarrow>
     oldest_at ((head + 1) mod maxSamples) (Suc n) = oldest_at head n"
  by (auto simp: oldest_at_eq next_head [simplified])

lemma oldest_at_neq:
  "head < maxSamples \<Longrightarrow> 0 < n \<Longrightarrow> n < maxSamples \<Longrightarrow> oldest_at head n \<noteq> head"
  by (auto simp: oldest_at_eq)

lemma oldest_at_1: "head < maxSamples \<Longrightarrow> oldest_at ((head + 1) mod maxSamples) 1 = head"
  using oldest_at_next [of head 0] by (simp add: oldest_at_eq)

text \<open>What is left after the eviction are the samples from the first recent one on.\<close>

lemma evict_samples:
  "map (\<lambda>k. buf ! oldest_at h k) (rev [1..<Suc (evict buf h c n)]) =
     dropWhile (\<lambda>x. sint (ps_Timestamp x) < sint c) (map (\<lambda>k. buf ! oldest_at h k) (rev [1..<Suc n]))"
  by (induction n) auto

lemma evict_le: "evict buf h c n \<le> n"
  by (induction n) auto

lemma Add_sample_ok:
  assumes ok: "window_ok w"
  shows "window_ok (Add_sample price now w)" (is ?ok)
    and "samples (Add_sample price now w) =
      window_add \<lparr>ps_Price = price, ps_Timestamp = now\<rparr> (now - w_duration w) (samples w)" (is ?rep)
    and "w_duration (Add_sample price now w) = w_duration w"
proof -
  define s where "s = \<lparr>ps_Price = price, ps_Timestamp = now\<rparr>"
  define buf where "buf = (w_buffer w)[w_head w := s]"
  define h where "h = (w_head w + 1) mod maxSamples"
  define n where "n = (if w_size w < maxSamples then w_size w + 1 else w_size w)"
  have w: "length (w_buffer w) = maxSamples" "w_head w < maxSamples" "w_size w \<le> maxSamples"
    using ok by (simp_all add: window_ok_def)
  have add: "Add_sample price now w =
      w\<lparr>w_buffer := buf, w_head := h, w_size := evict buf h (now - w_duration w) n\<rparr>"
    by (simp add: Add_sample_def Let_def buf_def h_def n_def s_def)
  have n: "n \<le> maxSamples" "0 < n" "n - 1 \<le> w_size w" "n - 1 < maxSamples"
    using w(3) by (auto simp: n_def)
  show ?ok using w n evict_le [of buf h "now - w_duration w" n]
    by (simp add: add window_ok_def buf_def h_def)
  show "w_duration (Add_sample price now w) = w_duration w" by (simp add: add)
  have new: "buf ! oldest_at h 1 = s" using w oldest_at_1 [OF w(2)] by (simp add: buf_def h_def)
  have old: "buf ! oldest_at h (Suc k) = w_buffer w ! oldest_at (w_head w) k"
    if "1 \<le> k" "k < n" for k
    using oldest_at_next [OF w(2), of k] oldest_at_neq [OF w(2), of k] that n
    by (simp add: buf_def h_def)
  have "[1..<Suc n] = 1 # map Suc [1..<n]" using n(2) by (simp add: upt_conv_Cons map_Suc_upt del: upt_Suc)
  then have "map (\<lambda>k. buf ! oldest_at h k) (rev [1..<Suc n]) =
      map (\<lambda>k. w_buffer w ! oldest_at (w_head w) k) (rev [1..<n]) @ [s]"
    using new old by (simp add: rev_map del: upt_Suc)
  also have "map (\<lambda>k. w_buffer w ! oldest_at (w_head w) k) (rev [1..<n]) =
      drop (w_size w - (n - 1)) (samples w)"
  proof -
    have "[1..<n] = take (n - 1) [1..<Suc (w_size w)]" using n by (simp del: upt_Suc)
    then have "rev [1..<n] = drop (w_size w - (n - 1)) (rev [1..<Suc (w_size w)])"
      using n by (simp add: drop_rev del: upt_Suc)
    then show ?thesis by (simp only: samples_def drop_map)
  qed
  also have "drop (w_size w - (n - 1)) (samples w) @ [s] =
      drop (length (samples w @ [s]) - maxSamples) (samples w @ [s])"
    using w(3) by (cases "w_size w < maxSamples") (simp_all add: n_def, simp add: maxSamples_def)
  finally have all: "map (\<lambda>k. buf ! oldest_at h k) (rev [1..<Suc n]) =
      drop (length (samples w @ [s]) - maxSamples) (samples w @ [s])" .
  have "samples (Add_sample price now w) =
      map (\<lambda>k. buf ! oldest_at h k) (rev [1..<Suc (evict buf h (now - w_duration w) n)])"
    by (simp add: add samples_def del: upt_Suc)
  then show ?rep
    unfolding evict_samples all by (simp only: window_add_def s_def Let_def)
qed

lemma samples_empty: "w_size w = 0 \<Longrightarrow> samples w = []"
  using length_samples [of w] by (metis length_0_conv)

lemma NewRollingWindow_ok: "window_ok (NewRollingWindow d)" "samples (NewRollingWindow d) = []"
  "w_duration (NewRollingWindow d) = d"
  by (simp_all add: window_ok_def NewRollingWindow_def samples_def)

lemma Reset_window_ok: "window_ok w \<Longrightarrow> window_ok (Reset_window w)" "samples (Reset_window w) = []"
  by (simp_all add: window_ok_def Reset_window_def samples_def)

lemma OldestPrice_ok:
  "OldestPrice w = (case samples w of [] \<Rightarrow> (Zero 2, False) | s # _ \<Rightarrow> (ps_Price s, True))"
proof (cases "w_size w")
  case (Suc n)
  have "rev [1..<Suc (Suc n)] = Suc n # rev [1..<Suc n]" by simp
  then show ?thesis by (simp add: OldestPrice_def samples_def Suc del: upt_Suc)
qed (simp add: OldestPrice_def samples_empty)

lemma NewestPrice_ok:
  assumes "window_ok w"
  shows "NewestPrice w = (if samples w = [] then (Zero 2, False) else (ps_Price (last (samples w)), True))"
proof (cases "w_size w")
  case (Suc n)
  have "[1..<Suc (Suc n)] = 1 # [2..<Suc (Suc n)]" by (simp add: upt_conv_Cons numeral_2_eq_2 del: upt_Suc)
  then have "last (samples w) = w_buffer w ! oldest_at (w_head w) 1"
    by (simp add: samples_def Suc last_map del: upt_Suc)
  moreover have "samples w \<noteq> []" using Suc length_samples [of w] by fastforce
  ultimately show ?thesis by (simp add: NewestPrice_def Suc oldest_at_def)
qed (simp add: NewestPrice_def samples_empty)

lemma window_add_last: "sint c \<le> sint (ps_Timestamp s) \<Longrightarrow> \<exists>ys. window_add s c xs = ys @ [s]"
proof -
  assume c: "sint c \<le> sint (ps_Timestamp s)"
  have "length (xs @ [s]) - maxSamples \<le> length xs" by (simp add: maxSamples_def)
  then have "drop (length (xs @ [s]) - maxSamples) (xs @ [s]) = drop (length (xs @ [s]) - maxSamples) xs @ [s]" by simp
  then show ?thesis using c by (simp add: window_add_def Let_def dropWhile_append)
qed

fun add_all :: "(Decimal \<times> i64) list \<Rightarrow> RollingWindow \<Rightarrow> RollingWindow" where
  "add_all [] w = w"
| "add_all ((p, t) # xs) w = add_all xs (Add_sample p t w)"

definition queue_all :: "i64 \<Rightarrow> (Decimal \<times> i64) list \<Rightarrow> PriceSample list \<Rightarrow> PriceSample list" where
  "queue_all d = fold (\<lambda>(p, t). window_add \<lparr>ps_Price = p, ps_Timestamp = t\<rparr> (t - d))"

lemma add_all_ok:
  "window_ok w \<Longrightarrow> window_ok (add_all xs w) \<and> samples (add_all xs w) = queue_all (w_duration w) xs (samples w)"
proof (induction xs arbitrary: w)
  case (Cons x xs)
  obtain p t where x: "x = (p, t)" by (cases x)
  then show ?case using Cons Add_sample_ok [OF Cons.prems, of p t] by (simp add: queue_all_def)
qed (simp add: queue_all_def)

text \<open>Claim C27: the rolling window is a queue.  Whatever samples are added, the ring
  buffer represents the list of samples that \<open>window_add\<close> (append, keep the last 10000,
  drop the stale ones from the front) gives, its indices stay in range, the oldest price is
  the first of the list and the newest the last.\<close>

theorem rolling_window_is_queue:
  fixes xs d
  defines "w \<equiv> add_all xs (NewRollingWindow d)" and "q \<equiv> queue_all d xs []"
  shows "window_ok w \<and> samples w = q \<and> Len_window w = length q \<and>
     OldestPrice w = (if q = [] then (Zero 2, False) else (ps_Price (hd q), True)) \<and>
     NewestPrice w = (if q = [] then (Zero 2, False) else (ps_Price (last q), True))"
proof -
  have "window_ok w" "samples w = q"
    using add_all_ok [OF NewRollingWindow_ok(1), of xs d]
    by (simp_all add: w_def q_def NewRollingWindow_ok)
  then show ?thesis using NewestPrice_ok [of w] OldestPrice_ok [of w] length_samples [of w]
    by (auto simp: Len_window_def split: list.split)
qed

subsection \<open>When the breaker trips\<close>

definition cooling :: "i64 \<Rightarrow> CircuitBreaker \<Rightarrow> bool" where
  "cooling now cb \<longleftrightarrow> 0 < sint (cb_CooldownPeriod (br_cfg cb)) \<and> 0 < sint (br_lastHalt cb) \<and>
     sint (now - br_lastHalt cb) < sint (cb_CooldownPeriod (br_cfg cb))"

text \<open>The relative move from \<open>a\<close> to \<open>b\<close> in units of 0.0001, rounded down.\<close>

definition move4 :: "Decimal \<Rightarrow> Decimal \<Rightarrow> int" where
  "move4 a b = \<bar>ival b - ival a\<bar> * 10000 div ival a"

lemma Div_4:
  assumes "d_precision d = d_precision r" and "0 < ival r" and "0 \<le> ival d" and "ival d * 10000 < 2 ^ 63"
  shows "Div d r 4 = Some (NewDecimal (word_of_int (ival d * 10000 div ival r)) 4)"
    "sint (word_of_int (ival d * 10000 div ival r) :: i64) = ival d * 10000 div ival r"
proof -
  have p: "pow10_at 4 = Some 10000" by (simp add: pow10_at_eq)
  have ten: "sint (10000 :: i64) = 10000" by simp
  have num: "sint (d_value d * 10000) = ival d * 10000"
    using assms(3,4) ten by (subst sint_mul) (simp_all add: in_i64_def)
  have nz: "d_value r \<noteq> 0" using assms(2) by auto
  have "go_quot (d_value d * 10000) (d_value r) = Some (word_of_int (ival d * 10000 div ival r))"
    using assms(2,3) nz by (simp add: go_quot_def num sdiv_nonneg)
  then show "Div d r 4 = Some (NewDecimal (word_of_int (ival d * 10000 div ival r)) 4)"
    using nz p assms(1) by (simp add: Div_def NewDecimal_def)
  have "0 \<le> ival d * 10000 div ival r" using assms(2,3) by (intro pos_imp_zdiv_nonneg_iff [THEN iffD2]) auto
  moreover have "ival d * 10000 div ival r \<le> ival d * 10000"
    using assms(2,3) zdiv_mono2 [of "ival d * 10000" 1 "ival r"] by simp
  ultimately show "sint (word_of_int (ival d * 10000 div ival r) :: i64) = ival d * 10000 div ival r"
    using assms(4) by (intro sint_word_of_int) (simp add: in_i64_def)
qed

lemma Check_eq:
  assumes "cb' = cb\<lparr>br_window := Add_sample p now (br_window cb)\<rparr>"
  shows "Check p now cb =
     (if cooling now cb \<or> Len_window (br_window cb') < 2 then Some ([], False, cb')
      else case OldestPrice (br_window cb') of (oldest, ok) \<Rightarrow>
        if \<not> ok \<or> IsZero oldest then Some ([], False, cb')
        else do {
          diff \<leftarrow> Sub p oldest;
          move \<leftarrow> Div (Abs_dec diff) oldest 4;
          above \<leftarrow> GreaterThan move (cb_MaxMovePercent (br_cfg cb));
          if above then Some (halt_reason, True, cb') else Some ([], False, cb') })"
  unfolding assms by (auto simp: Check_def cooling_def Let_def split: prod.split)

lemma Check_ok:
  assumes ok: "window_ok (br_window cb)" and max: "d_precision (cb_MaxMovePercent (br_cfg cb)) = 4"
    and ys: "ys = window_add \<lparr>ps_Price = p, ps_Timestamp = now\<rparr> (now - w_duration (br_window cb)) (samples (br_window cb))"
    and prices: "\<forall>s\<in>set ys. d_precision (ps_Price s) = d_precision p \<and> 0 < ival (ps_Price s)"
    and small: "\<forall>s\<in>set ys. \<bar>ival p - ival (ps_Price s)\<bar> * 10000 < 2 ^ 63"
  shows "\<exists>cb' halt. Check p now cb = Some (if halt then halt_reason else [], halt, cb') \<and>
     samples (br_window cb') = ys \<and> window_ok (br_window cb') \<and> br_lastHalt cb' = br_lastHalt cb \<and> br_cfg cb' = br_cfg cb \<and>
     (halt \<longleftrightarrow> \<not> cooling now cb \<and> 2 \<le> length ys \<and>
        ival (cb_MaxMovePercent (br_cfg cb)) < move4 (ps_Price (hd ys)) p)"
proof -
  define cb' where "cb' = cb\<lparr>br_window := Add_sample p now (br_window cb)\<rparr>"
  have w: "window_ok (br_window cb')" "samples (br_window cb') = ys"
    using Add_sample_ok [OF ok] ys by (simp_all add: cb'_def)
  have len: "Len_window (br_window cb') = length ys" using w(2) length_samples [of "br_window cb'"] by (simp add: Len_window_def)
  show ?thesis
  proof (cases "cooling now cb \<or> length ys < 2")
    case True
    then have "Check p now cb = Some ([], False, cb')"
      using len by (auto simp: Check_eq [OF cb'_def])
    then show ?thesis using w True by (intro exI [of _ cb'] exI [of _ False]) (auto simp: cb'_def)
  next
    case False
    then obtain r zs where hd: "ys = r # zs" by (cases ys) auto
    let ?r = "ps_Price r" and ?m = "cb_MaxMovePercent (br_cfg cb)"
    have r: "d_precision ?r = d_precision p" "0 < ival ?r" "\<bar>ival p - ival ?r\<bar> * 10000 < 2 ^ 63"
      using prices small hd by auto
    let ?d = "Abs_dec (dsub p ?r)"
    have "in_i64 (ival p - ival ?r)" using r(3) by (simp add: in_i64_def abs_if split: if_splits)
    then have diff: "sint (d_value p - d_value ?r) = ival p - ival ?r" by (rule sint_sub)
    have "in_i64 (- (ival p - ival ?r))" using r(3) by (simp add: in_i64_def abs_if split: if_splits)
    then have abs: "ival ?d = \<bar>ival p - ival ?r\<bar>" "d_precision ?d = d_precision ?r"
      using diff r(1) sint_neg [of "d_value p - d_value ?r"] by (auto simp: Abs_dec_def)
    have "OldestPrice (br_window cb') = (?r, True)" using OldestPrice_ok [of "br_window cb'"] w(2) hd by simp
    moreover have "Div ?d ?r 4 = Some (NewDecimal (word_of_int (\<bar>ival p - ival ?r\<bar> * 10000 div ival ?r)) 4)"
      "sint (word_of_int (\<bar>ival p - ival ?r\<bar> * 10000 div ival ?r) :: i64) = move4 ?r p"
      using Div_4 [of ?d ?r] abs r by (simp_all add: move4_def)
    moreover have "\<not> IsZero ?r" using r(2) by (auto simp: IsZero_def)
    moreover have "Sub p ?r = Some (dsub p ?r)" using r(1) by (simp add: Sub_same)
    ultimately have "Check p now cb = Some (if ival ?m < move4 ?r p then halt_reason else [], ival ?m < move4 ?r p, cb')"
      using False len max by (simp add: Check_eq [OF cb'_def] compare_same)
    then show ?thesis using w False hd by (intro exI [of _ cb'] exI [of _ "ival ?m < move4 ?r p"]) (auto simp: cb'_def Suc_le_eq)
  qed
qed

text \<open>Claim C28: when the circuit breaker halts the market.  Prices of one precision, a
  threshold of precision 4 and moves that fit the 64-bit intermediate: then \<open>Check\<close> returns,
  has recorded the trade, and asks for a halt exactly when it is not cooling down, the window
  has another trade, and the move from the oldest price in the window exceeds the threshold.\<close>

theorem Check_trips:
  assumes ok: "window_ok (br_window cb)" and max: "d_precision (cb_MaxMovePercent (br_cfg cb)) = 4"
    and ys: "ys = window_add \<lparr>ps_Price = p, ps_Timestamp = now\<rparr> (now - w_duration (br_window cb)) (samples (br_window cb))"
    and prices: "\<forall>s\<in>set ys. d_precision (ps_Price s) = d_precision p \<and> 0 < ival (ps_Price s)"
    and small: "\<forall>s\<in>set ys. \<bar>ival p - ival (ps_Price s)\<bar> * 10000 < 2 ^ 63"
  shows "\<exists>cb' halt. Check p now cb = Some (if halt then halt_reason else [], halt, cb') \<and>
     samples (br_window cb') = ys \<and> window_ok (br_window cb') \<and> br_lastHalt cb' = br_lastHalt cb \<and>
     (halt \<longleftrightarrow> \<not> cooling now cb \<and> 2 \<le> length ys \<and>
        ival (cb_MaxMovePercent (br_cfg cb)) < move4 (ps_Price (hd ys)) p)"
  using Check_ok [OF assms] by blast

theorem Check_trips_witness:
  fixes cfg :: CircuitBreakerConfig
  defines "cfg \<equiv> \<lparr>cb_WindowDuration = 60, cb_MaxMovePercent = NewDecimal 500 4, cb_CooldownPeriod = 300,
      cb_ReferenceMode = RefFirstTrade\<rparr>"
  defines "cb \<equiv> (NewCircuitBreaker cfg)\<lparr>br_window := Add_sample (NewDecimal 10000 2) 1000 (NewRollingWindow 60)\<rparr>"
  shows "\<exists>cb'. Check (NewDecimal 10600 2) 1010 cb = Some (halt_reason, True, cb')"
proof -
  let ?s = "\<lparr>ps_Price = NewDecimal 10000 2, ps_Timestamp = 1000\<rparr>"
    and ?t = "\<lparr>ps_Price = NewDecimal 10600 2, ps_Timestamp = 1010\<rparr>"
  have one: "window_ok (br_window cb)" "samples (br_window cb) = [?s]" "w_duration (br_window cb) = 60"
    using Add_sample_ok [OF NewRollingWindow_ok(1), of "NewDecimal 10000 2" 1000 60]
    by (simp_all add: cb_def NewRollingWindow_ok window_add_def maxSamples_def)
  have two: "window_add ?t (1010 - w_duration (br_window cb)) (samples (br_window cb)) = [?s, ?t]"
    by (simp add: one window_add_def maxSamples_def)
  have "\<not> cooling 1010 cb" by (simp add: cooling_def cb_def NewCircuitBreaker_def)
  then show ?thesis
    using Check_trips [OF one(1) _ two [symmetric]]
    by (simp add: cb_def NewCircuitBreaker_def cfg_def move4_def) metis
qed

end
