(* ===== verification/Positions.thy ===== *)
theory Positions
  imports Market_Config
begin

section \<open>Net positions (\<open>engine/positions.go\<close>)\<close>

text \<open>
  \<open>positionTracker\<close> keeps a signed net quantity per user, which reduce-only orders are checked
  against.  The theory shows that the positions of a market always sum to zero, that a
  user's position is what he bought less what he sold, and what \<open>wouldIncrease\<close> decides.
\<close>

record positionTracker =
  pt_positions :: "UserID \<rightharpoonup> Decimal"
  pt_precision :: u8

definition newPositionTracker :: "u8 \<Rightarrow> positionTracker" where
  "newPositionTracker qtyPrecision = \<lparr>pt_positions = Map.empty, pt_precision = qtyPrecision\<rparr>"

definition position :: "UserID \<Rightarrow> positionTracker \<Rightarrow> Decimal" where
  "position userID pt =
     (case pt_positions pt userID of Some pos \<Rightarrow> pos | None \<Rightarrow> Zero (pt_precision pt))"

definition add_position :: "UserID \<Rightarrow> Decimal \<Rightarrow> positionTracker \<Rightarrow> positionTracker option" where
  "add_position userID delta pt = do {
     pos \<leftarrow> Add (position userID pt) delta;
     Some (pt\<lparr>pt_positions := (pt_positions pt)(userID \<mapsto> pos)\<rparr>) }"

definition applyFill :: "Fill \<Rightarrow> positionTracker \<Rightarrow> positionTracker option" where
  "applyFill f pt = do {
     let makerDelta = f_Qty f;
     let takerDelta = f_Qty f;
     let (makerDelta, takerDelta) =
       (if f_MakerSide f = Ask then (Neg makerDelta, takerDelta) else (makerDelta, Neg takerDelta));
     pt \<leftarrow> add_position (f_MakerUserID f) makerDelta pt;
     add_position (f_TakerUserID f) takerDelta pt }"

definition wouldIncrease :: "UserID \<Rightarrow> Side \<Rightarrow> Decimal \<Rightarrow> positionTracker \<Rightarrow> bool option" where
  "wouldIncrease userID side qty pt =
     (let pos = position userID pt in
      if side = Bid then map_option IsPositive (Add pos qty)
      else map_option IsNegative (Sub pos qty))"

text \<open>The processor applies the fills of a command one after the other.\<close>

fun applyFills :: "Fill list \<Rightarrow> positionTracker \<Rightarrow> positionTracker option" where
  "applyFills [] pt = Some pt"
| "applyFills (f # fs) pt = do { pt \<leftarrow> applyFill f pt; applyFills fs pt }"

subsection \<open>What the tracker keeps\<close>

definition tracker_ok :: "positionTracker \<Rightarrow> bool" where
  "tracker_ok pt \<longleftrightarrow> finite (dom (pt_positions pt)) \<and>
     (\<forall>d\<in>ran (pt_positions pt). d_precision d = pt_precision pt)"

text \<open>The mantissa of a user's position, and the sum of all.\<close>

definition net :: "positionTracker \<Rightarrow> UserID \<Rightarrow> i64" where
  "net pt u = d_value (position u pt)"

definition net_total :: "positionTracker \<Rightarrow> i64" where
  "net_total pt = (\<Sum>u\<in>dom (pt_positions pt). net pt u)"

text \<open>What a user bought less what he sold in a fill.\<close>

definition bought :: "UserID \<Rightarrow> Fill \<Rightarrow> i64" where
  "bought u f =
     (if f_MakerUserID f = u then (if f_MakerSide f = Ask then - d_value (f_Qty f) else d_value (f_Qty f)) else 0) +
     (if f_TakerUserID f = u then (if f_MakerSide f = Ask then d_value (f_Qty f) else - d_value (f_Qty f)) else 0)"

lemma position_prec: "tracker_ok pt \<Longrightarrow> d_precision (position u pt) = pt_precision pt"
  by (auto simp: tracker_ok_def position_def ran_def split: option.split)

lemma add_position_ok:
  assumes ok: "tracker_ok pt" and d: "d_precision d = pt_precision pt"
  shows "\<exists>pt'. add_position u d pt = Some pt' \<and> tracker_ok pt' \<and> pt_precision pt' = pt_precision pt \<and>
     dom (pt_positions pt') = insert u (dom (pt_positions pt)) \<and>
     net pt' = (net pt)(u := net pt u + d_value d)"
proof -
  let ?v = "dadd (position u pt) d"
  let ?pt = "pt\<lparr>pt_positions := (pt_positions pt)(u \<mapsto> ?v)\<rparr>"
  have run: "add_position u d pt = Some ?pt"
    using position_prec [OF ok] d by (simp add: add_position_def Add_same)
  have "ran (pt_positions ?pt) \<subseteq> insert ?v (ran (pt_positions pt))" by (auto simp: ran_def)
  then have "tracker_ok ?pt" using ok position_prec [OF ok] by (auto simp: tracker_ok_def)
  then show ?thesis using run by (auto simp: net_def position_def fun_eq_iff split: option.split)
qed

lemma net_outside: "u \<notin> dom (pt_positions pt) \<Longrightarrow> net pt u = 0"
  by (auto simp: net_def position_def split: option.split)

lemma net_total_add:
  assumes "finite (dom (pt_positions pt))" "dom (pt_positions pt') = insert u (dom (pt_positions pt))"
    and "net pt' = (net pt)(u := net pt u + k)"
  shows "net_total pt' = net_total pt + k"
proof -
  let ?D = "dom (pt_positions pt)"
  have "net_total pt' = net pt' u + (\<Sum>v\<in>?D - {u}. net pt' v)"
    using assms(1,2) by (simp add: net_total_def sum.insert_remove)
  also have "(\<Sum>v\<in>?D - {u}. net pt' v) = (\<Sum>v\<in>?D - {u}. net pt v)"
    using assms(3) by (intro sum.cong) auto
  also have "net pt' u = net pt u + k" using assms(3) by simp
  also have "net pt u + (\<Sum>v\<in>?D - {u}. net pt v) = net_total pt"
    using assms(1) net_outside [of u pt]
    by (cases "u \<in> ?D") (simp_all add: net_total_def sum.remove)
  then have "net pt u + k + (\<Sum>v\<in>?D - {u}. net pt v) = net_total pt + k" by (simp add: algebra_simps)
  finally show ?thesis .
qed

lemma applyFill_ok:
  assumes ok: "tracker_ok pt" and q: "d_precision (f_Qty f) = pt_precision pt"
  shows "\<exists>pt'. applyFill f pt = Some pt' \<and> tracker_ok pt' \<and> pt_precision pt' = pt_precision pt \<and>
     net_total pt' = net_total pt \<and> (\<forall>u. net pt' u = net pt u + bought u f)"
proof -
  define md where "md = (if f_MakerSide f = Ask then Neg (f_Qty f) else f_Qty f)"
  define td where "td = (if f_MakerSide f = Ask then f_Qty f else Neg (f_Qty f))"
  have run: "applyFill f pt = Option.bind (add_position (f_MakerUserID f) md pt) (add_position (f_TakerUserID f) td)"
    by (simp add: applyFill_def md_def td_def Let_def)
  have prec: "d_precision md = pt_precision pt" "d_precision td = pt_precision pt"
    using q by (simp_all add: md_def td_def Neg_def)
  have vals: "d_value md + d_value td = 0" by (simp add: md_def td_def Neg_def)
  obtain p1 where p1: "add_position (f_MakerUserID f) md pt = Some p1" "tracker_ok p1"
    "pt_precision p1 = pt_precision pt" "dom (pt_positions p1) = insert (f_MakerUserID f) (dom (pt_positions pt))"
    "net p1 = (net pt)(f_MakerUserID f := net pt (f_MakerUserID f) + d_value md)"
    using add_position_ok [OF ok prec(1)] by blast
  obtain p2 where p2: "add_position (f_TakerUserID f) td p1 = Some p2" "tracker_ok p2"
    "pt_precision p2 = pt_precision p1" "dom (pt_positions p2) = insert (f_TakerUserID f) (dom (pt_positions p1))"
    "net p2 = (net p1)(f_TakerUserID f := net p1 (f_TakerUserID f) + d_value td)"
    using add_position_ok [OF p1(2)] prec(2) p1(3) by metis
  have "net_total p1 = net_total pt + d_value md"
    using net_total_add [OF _ p1(4,5)] ok by (simp add: tracker_ok_def)
  moreover have "net_total p2 = net_total p1 + d_value td"
    using net_total_add [OF _ p2(4,5)] p1(2) by (simp add: tracker_ok_def)
  ultimately have "net_total p2 = net_total pt" using vals by (simp add: add.assoc)
  moreover have "net p2 u = net pt u + bought u f" for u
    by (auto simp: p2(5) p1(5) bought_def md_def td_def Neg_def)
  ultimately show ?thesis using run p1 p2 by auto
qed

lemma applyFills_ok:
  "tracker_ok pt \<Longrightarrow> \<forall>f\<in>set fs. d_precision (f_Qty f) = pt_precision pt \<Longrightarrow>
   \<exists>pt'. applyFills fs pt = Some pt' \<and> tracker_ok pt' \<and> net_total pt' = net_total pt \<and>
     (\<forall>u. net pt' u = net pt u + (\<Sum>f\<leftarrow>fs. bought u f))"
proof (induction fs arbitrary: pt)
  case (Cons f fs)
  obtain p1 where p1: "applyFill f pt = Some p1" "tracker_ok p1" "pt_precision p1 = pt_precision pt"
    "net_total p1 = net_total pt" "\<forall>u. net p1 u = net pt u + bought u f"
    using applyFill_ok [of pt f] Cons.prems by auto
  obtain p2 where "applyFills fs p1 = Some p2" "tracker_ok p2" "net_total p2 = net_total p1"
    "\<forall>u. net p2 u = net p1 u + (\<Sum>f\<leftarrow>fs. bought u f)"
    using Cons.IH [OF p1(2)] Cons.prems p1(3) by auto
  then show ?case using p1 by (auto simp: add.assoc)
qed simp

lemma new_tracker_ok: "tracker_ok (newPositionTracker p)" "net_total (newPositionTracker p) = 0"
  "net (newPositionTracker p) u = 0" "pt_precision (newPositionTracker p) = p"
  by (simp_all add: tracker_ok_def newPositionTracker_def net_total_def net_def position_def)

text \<open>Positions net out.  From an empty tracker, fills of the market's quantity
  precision never panic; afterwards the positions of all users sum to zero, and each user's
  is what he bought less what he sold (self-trades, where he does both, change nothing).
  Everything is in 64-bit arithmetic, so no bound on the quantities is needed.\<close>

theorem positions_net_out:
  assumes "\<forall>f\<in>set fs. d_precision (f_Qty f) = p"
  shows "\<exists>pt. applyFills fs (newPositionTracker p) = Some pt \<and> net_total pt = 0 \<and>
     (\<forall>u. net pt u = (\<Sum>f\<leftarrow>fs. bought u f))"
  using applyFills_ok [OF new_tracker_ok(1), of fs p] assms by (auto simp: new_tracker_ok)

text \<open>A fill for the examples.\<close>

definition demo_fill :: "UserID \<Rightarrow> UserID \<Rightarrow> Side \<Rightarrow> Decimal \<Rightarrow> Decimal \<Rightarrow> Fill" where
  "demo_fill maker taker side price qty =
     \<lparr>f_MakerOrderID = ''m'', f_TakerOrderID = ''t'', f_MakerUserID = maker, f_TakerUserID = taker,
      f_MakerSide = side, f_Price = price, f_Qty = qty, f_MakerRemainQty = zeroDecimal,
      f_TakerRemainQty = zeroDecimal, f_MakerSeqNum = 0, f_TakerSeqNum = 0, f_Timestamp = 0,
      f_MakerLevelTotalQty = zeroDecimal, f_MakerLevelDisplayQty = zeroDecimal,
      f_MakerLevelOrderCount = 0, f_MakerLevelExists = False\<rparr>"

theorem positions_net_out_witness:
  "\<exists>pt. applyFills [demo_fill ''a'' ''b'' Ask (NewDecimal 100 2) (NewDecimal 7 0),
       demo_fill ''b'' ''a'' Bid (NewDecimal 100 2) (NewDecimal 3 0)] (newPositionTracker 0) = Some pt \<and>
     net_total pt = 0 \<and> net pt ''a'' = - 10 \<and> net pt ''b'' = 10"
proof -
  let ?fs = "[demo_fill ''a'' ''b'' Ask (NewDecimal 100 2) (NewDecimal 7 0),
       demo_fill ''b'' ''a'' Bid (NewDecimal 100 2) (NewDecimal 3 0)]"
  have "(\<Sum>f\<leftarrow>?fs. bought ''a'' f) = - 10" "(\<Sum>f\<leftarrow>?fs. bought ''b'' f) = 10"
    by (simp_all add: bought_def demo_fill_def)
  then show ?thesis using positions_net_out [of ?fs 0] by (simp add: demo_fill_def) metis
qed

text \<open>Claim C26: what reduce-only means.  Where the new position does not overflow, an order of
  a positive quantity that \<open>wouldIncrease\<close> lets through leaves the user, filled in full, on
  the same side of zero and no further from it; one it stops would put him on the order's
  side of zero.\<close>

theorem wouldIncrease_reduces:
  assumes "tracker_ok pt" and "d_precision qty = pt_precision pt" and "0 < ival qty"
    and "side = Bid \<or> side = Ask"
    and "new = (if side = Bid then ival (position u pt) + ival qty else ival (position u pt) - ival qty)"
    and "in_i64 new"
  shows "\<exists>r. wouldIncrease u side qty pt = Some r \<and>
     (if r then (if side = Bid then 0 < new else new < 0)
      else \<bar>new\<bar> < \<bar>ival (position u pt)\<bar> \<and> 0 \<le> new * ival (position u pt))"
proof -
  let ?p = "ival (position u pt)"
  have prec: "d_precision (position u pt) = d_precision qty" using position_prec assms(1,2) by simp
  consider (bid) "side = Bid" | (ask) "side = Ask" using assms(4) by blast
  then show ?thesis
  proof cases
    case bid
    then have "wouldIncrease u side qty pt = Some (0 < new)"
      using assms(5,6) prec by (simp add: wouldIncrease_def Add_same IsPositive_def sint_add)
    moreover have "\<bar>new\<bar> < \<bar>?p\<bar> \<and> 0 \<le> new * ?p" if "\<not> 0 < new"
      using that bid assms(3,5) by (auto intro: mult_nonpos_nonpos)
    ultimately show ?thesis using bid by auto
  next
    case ask
    then have "wouldIncrease u side qty pt = Some (new < 0)"
      using assms(5,6) prec by (simp add: wouldIncrease_def Sub_same IsNegative_def sint_sub)
    moreover have "\<bar>new\<bar> < \<bar>?p\<bar> \<and> 0 \<le> new * ?p" if "\<not> new < 0"
      using that ask assms(3,5) by (auto intro: mult_nonneg_nonneg)
    ultimately show ?thesis using ask by auto
  qed
qed

theorem wouldIncrease_reduces_witness:
  "\<exists>pt r. add_position ''a'' (NewDecimal 5 0) (newPositionTracker 0) = Some pt \<and>
     wouldIncrease ''a'' Ask (NewDecimal 3 0) pt = Some r \<and> \<not> r"
proof -
  obtain pt where pt: "add_position ''a'' (NewDecimal 5 0) (newPositionTracker 0) = Some pt" "tracker_ok pt"
    "pt_precision pt = 0" "net pt ''a'' = 5"
    using add_position_ok [OF new_tracker_ok(1), of "NewDecimal 5 0" 0 "''a''"]
    by (metis NewDecimal_sel add_0 fun_upd_same new_tracker_ok(3,4))
  then have "ival (position ''a'' pt) = 5" by (simp add: net_def)
  then have "\<exists>r. wouldIncrease ''a'' Ask (NewDecimal 3 0) pt = Some r \<and>
     (if r then (if Ask = Bid then (0 :: int) < 2 else (2 :: int) < 0)
      else \<bar>2 :: int\<bar> < \<bar>ival (position ''a'' pt)\<bar> \<and> 0 \<le> (2 :: int) * ival (position ''a'' pt))"
    using pt(3) by (intro wouldIncrease_reduces [OF pt(2)]) (simp_all add: in_i64_def)
  then show ?thesis using pt(1) by auto
qed

end
