(* ===== verification/Fees.thy ===== *)
theory Fees
  imports Positions
begin

section \<open>Fees (\<open>fees/\<close>)\<close>

text \<open>
  The three fee calculators.  \<open>FeeCalculator\<close> is the interface the engine is given; the volume
  a user traded (\<open>VolumeProvider\<close>, a query of the server's database) is a function.  The
  theory shows which tier \<open>findTier\<close> selects, what the flat calculator charges, and when the
  tiered calculator agrees with it.
\<close>

record FeeResult =
  fr_MakerFee :: Decimal
  fr_TakerFee :: Decimal
  fr_Currency :: string

type_synonym FeeCalculator = "FeeSchedule \<Rightarrow> Fill \<Rightarrow> FeeResult option"

definition ZeroFee_Calculate :: FeeCalculator where
  "ZeroFee_Calculate schedule fill =
     (let p = d_precision (f_Price fill)
      in Some \<lparr>fr_MakerFee = Zero p, fr_TakerFee = Zero p, fr_Currency = fs_FeeCurrency schedule\<rparr>)"

definition FlatRate_Calculate :: FeeCalculator where
  "FlatRate_Calculate schedule fill = do {
     notional \<leftarrow> MulQty (f_Price fill) (f_Qty fill);
     let notionalValue = d_value notional;
     makerFeeValue \<leftarrow> go_quot (notionalValue * d_value (fs_MakerFeeRate schedule)) 10000;
     takerFeeValue \<leftarrow> go_quot (notionalValue * d_value (fs_TakerFeeRate schedule)) 10000;
     Some \<lparr>fr_MakerFee = NewDecimal makerFeeValue (d_precision (f_Price fill)),
           fr_TakerFee = NewDecimal takerFeeValue (d_precision (f_Price fill)),
           fr_Currency = fs_FeeCurrency schedule\<rparr> }"

text \<open>\<open>findTier\<close> returns the last tier of the list whose volume is reached.\<close>

fun findTier_loop :: "FeeTier option \<Rightarrow> FeeTier list \<Rightarrow> Decimal \<Rightarrow> FeeTier option option" where
  "findTier_loop best [] volume = Some best"
| "findTier_loop best (t # tiers) volume = do {
     ge \<leftarrow> GreaterThanOrEqual volume (ft_MinVolume t);
     findTier_loop (if ge then Some t else best) tiers volume }"

definition findTier :: "FeeTier list \<Rightarrow> Decimal \<Rightarrow> FeeTier option option" where
  "findTier tiers volume = findTier_loop None tiers volume"

text \<open>The loop \<open>qtyScale *= 10\<close>, once per digit of the quantity's precision.\<close>

fun qtyScale :: "nat \<Rightarrow> i64" where
  "qtyScale 0 = 1"
| "qtyScale (Suc i) = qtyScale i * 10"

type_synonym VolumeProvider = "UserID \<Rightarrow> MarketID \<Rightarrow> Decimal"

definition TieredFee_Calculate :: "VolumeProvider \<Rightarrow> MarketID \<Rightarrow> FeeCalculator" where
  "TieredFee_Calculate getVolume marketID schedule fill = do {
     makerTier \<leftarrow> findTier (fs_Tiers schedule) (getVolume (f_MakerUserID fill) marketID);
     takerTier \<leftarrow> findTier (fs_Tiers schedule) (getVolume (f_TakerUserID fill) marketID);
     let makerRate = (case makerTier of None \<Rightarrow> fs_MakerFeeRate schedule | Some t \<Rightarrow> ft_MakerFeeRate t);
     let takerRate = (case takerTier of None \<Rightarrow> fs_TakerFeeRate schedule | Some t \<Rightarrow> ft_TakerFeeRate t);
     notionalValue \<leftarrow> go_quot (d_value (f_Price fill) * d_value (f_Qty fill))
                              (qtyScale (unat (d_precision (f_Qty fill))));
     makerFeeValue \<leftarrow> go_quot (notionalValue * d_value makerRate) 10000;
     takerFeeValue \<leftarrow> go_quot (notionalValue * d_value takerRate) 10000;
     Some \<lparr>fr_MakerFee = NewDecimal makerFeeValue (d_precision (f_Price fill)),
           fr_TakerFee = NewDecimal takerFeeValue (d_precision (f_Price fill)),
           fr_Currency = fs_FeeCurrency schedule\<rparr> }"

subsection \<open>Which tier applies\<close>

lemma findTier_loop_ok:
  assumes "\<forall>t\<in>set ts. d_precision (ft_MinVolume t) = d_precision v"
  shows "findTier_loop best ts v =
     Some (case rev (filter (\<lambda>t. ival (ft_MinVolume t) \<le> ival v) ts) of [] \<Rightarrow> best | t # _ \<Rightarrow> Some t)"
  using assms
proof (induction ts arbitrary: best)
  case (Cons t ts)
  then show ?case by (auto simp: compare_same split: list.split)
qed simp

lemma tiersAscending_sorted:
  "tiersAscending ts = Some True \<Longrightarrow>
     sorted_wrt (\<lambda>a b. ival (ft_MinVolume a) < ival (ft_MinVolume b)) ts \<and>
     (\<forall>a\<in>set ts. \<forall>b\<in>set ts. d_precision (ft_MinVolume a) = d_precision (ft_MinVolume b))"
proof (induction ts rule: tiersAscending.induct)
  case (1 t0 t1 ts)
  from "1.prems" have gt: "GreaterThan (ft_MinVolume t1) (ft_MinVolume t0) = Some True"
    and asc: "tiersAscending (t1 # ts) = Some True"
    by (auto simp: bind_Some_iff split: if_splits)
  from gt have p: "d_precision (ft_MinVolume t1) = d_precision (ft_MinVolume t0)"
    "ival (ft_MinVolume t0) < ival (ft_MinVolume t1)"
    by (auto simp: GreaterThan_def assertSamePrecision_def split: if_splits)
  have ih: "sorted_wrt (\<lambda>a b. ival (ft_MinVolume a) < ival (ft_MinVolume b)) (t1 # ts)"
    "\<forall>a\<in>set (t1 # ts). \<forall>b\<in>set (t1 # ts). d_precision (ft_MinVolume a) = d_precision (ft_MinVolume b)"
    using "1.IH" [OF gt _ asc] by blast+
  show ?case
  proof (intro conjI)
    show "sorted_wrt (\<lambda>a b. ival (ft_MinVolume a) < ival (ft_MinVolume b)) (t0 # t1 # ts)"
      using ih(1) p(2) by auto
    show "\<forall>a\<in>set (t0 # t1 # ts). \<forall>b\<in>set (t0 # t1 # ts). d_precision (ft_MinVolume a) = d_precision (ft_MinVolume b)"
    proof -
      have "\<forall>a\<in>set (t1 # ts). d_precision (ft_MinVolume a) = d_precision (ft_MinVolume t1)"
        using ih(2) by (meson list.set_intros(1))
      then have "\<forall>a\<in>set (t0 # t1 # ts). d_precision (ft_MinVolume a) = d_precision (ft_MinVolume t1)"
        using p(1) by simp
      then show ?thesis by metis
    qed
  qed
qed auto

lemma last_filter_sorted:
  assumes "sorted_wrt (\<lambda>a b. f a < (f b :: int)) ts" and "filter (\<lambda>t. f t \<le> v) ts \<noteq> []"
  shows "last (filter (\<lambda>t. f t \<le> v) ts) \<in> set ts" "f (last (filter (\<lambda>t. f t \<le> v) ts)) \<le> v"
    "\<And>u. u \<in> set ts \<Longrightarrow> f u \<le> v \<Longrightarrow> f u \<le> f (last (filter (\<lambda>t. f t \<le> v) ts))"
proof -
  let ?fs = "filter (\<lambda>t. f t \<le> v) ts"
  have "last ?fs \<in> set ?fs" using assms(2) by (rule last_in_set)
  then have "last ?fs \<in> {t \<in> set ts. f t \<le> v}" by (simp only: set_filter)
  then show "last ?fs \<in> set ts" "f (last ?fs) \<le> v" by blast+
  fix u assume "u \<in> set ts" "f u \<le> v"
  then have "u \<in> set (butlast ?fs @ [last ?fs])" using assms(2) by simp
  moreover have "sorted_wrt (\<lambda>a b. f a < f b) (butlast ?fs @ [last ?fs])"
    using assms by (simp add: sorted_wrt_filter)
  ultimately show "f u \<le> f (last ?fs)" by (auto simp: sorted_wrt_append simp del: append_butlast_last_id)
qed

text \<open>Claim C29: \<open>findTier\<close> on the tiers of a validated schedule (volumes ascending) never
  panics for a volume of their precision, and selects the tier with the greatest volume the
  user has reached, or none when he has reached no tier.\<close>

theorem findTier_best:
  assumes "tiersAscending tiers = Some True"
    and "\<forall>t\<in>set tiers. d_precision (ft_MinVolume t) = d_precision volume"
  shows "\<exists>r. findTier tiers volume = Some r \<and>
     (case r of
        None \<Rightarrow> \<forall>t\<in>set tiers. ival volume < ival (ft_MinVolume t)
      | Some t \<Rightarrow> t \<in> set tiers \<and> ival (ft_MinVolume t) \<le> ival volume \<and>
          (\<forall>u\<in>set tiers. ival (ft_MinVolume u) \<le> ival volume \<longrightarrow>
             ival (ft_MinVolume u) \<le> ival (ft_MinVolume t)))"
proof -
  let ?f = "\<lambda>t. ival (ft_MinVolume t)"
  let ?fs = "filter (\<lambda>t. ?f t \<le> ival volume) tiers"
  show ?thesis
  proof (cases "?fs = []")
    case True
    then show ?thesis using findTier_loop_ok [OF assms(2), of None]
      by (auto simp: findTier_def filter_empty_conv not_le)
  next
    case False
    then have "findTier tiers volume = Some (Some (last ?fs))"
      using findTier_loop_ok [OF assms(2), of None]
      by (cases ?fs rule: rev_cases) (auto simp: findTier_def)
    then show ?thesis
      using last_filter_sorted [of ?f tiers "ival volume"] False tiersAscending_sorted [OF assms(1)] by auto
  qed
qed

definition demo_tiers :: "FeeTier list" where
  "demo_tiers =
     [\<lparr>ft_MinVolume = NewDecimal 0 2, ft_MakerFeeRate = NewDecimal 10 4, ft_TakerFeeRate = NewDecimal 20 4\<rparr>,
      \<lparr>ft_MinVolume = NewDecimal 5000 2, ft_MakerFeeRate = NewDecimal 5 4, ft_TakerFeeRate = NewDecimal 10 4\<rparr>,
      \<lparr>ft_MinVolume = NewDecimal 90000 2, ft_MakerFeeRate = NewDecimal 0 4, ft_TakerFeeRate = NewDecimal 5 4\<rparr>]"

theorem findTier_best_witness:
  "\<exists>t. findTier demo_tiers (NewDecimal 7000 2) = Some (Some t) \<and> ival (ft_MinVolume t) = 5000"
proof -
  have "tiersAscending demo_tiers = Some True" by (simp add: demo_tiers_def compare_same)
  moreover have "\<forall>t\<in>set demo_tiers. d_precision (ft_MinVolume t) = d_precision (NewDecimal 7000 2)"
    by (simp add: demo_tiers_def)
  ultimately obtain r where r: "findTier demo_tiers (NewDecimal 7000 2) = Some r"
    "case r of None \<Rightarrow> \<forall>t\<in>set demo_tiers. ival (NewDecimal 7000 2) < ival (ft_MinVolume t)
      | Some t \<Rightarrow> t \<in> set demo_tiers \<and> ival (ft_MinVolume t) \<le> ival (NewDecimal 7000 2) \<and>
          (\<forall>u\<in>set demo_tiers. ival (ft_MinVolume u) \<le> ival (NewDecimal 7000 2) \<longrightarrow>
             ival (ft_MinVolume u) \<le> ival (ft_MinVolume t))"
    using findTier_best [of demo_tiers "NewDecimal 7000 2"] by blast
  then show ?thesis by (cases r) (auto simp: demo_tiers_def)
qed

subsection \<open>What is charged\<close>

text \<open>\<open>fee notional rate\<close>: the share of the notional, rounded towards zero.\<close>

definition fee :: "int \<Rightarrow> Decimal \<Rightarrow> int" where
  "fee notional rate = (notional * ival rate) sdiv 10000"

definition charges :: "int \<Rightarrow> Decimal \<Rightarrow> Decimal \<Rightarrow> FeeSchedule \<Rightarrow> Fill \<Rightarrow> FeeResult" where
  "charges notional makerRate takerRate schedule f =
     \<lparr>fr_MakerFee = NewDecimal (word_of_int (fee notional makerRate)) (d_precision (f_Price f)),
      fr_TakerFee = NewDecimal (word_of_int (fee notional takerRate)) (d_precision (f_Price f)),
      fr_Currency = fs_FeeCurrency schedule\<rparr>"

lemma go_quot_10000:
  assumes "in_i64 (sint n * sint r)"
  shows "go_quot (n * r) 10000 = Some (word_of_int ((sint n * sint r) sdiv 10000))"
proof -
  have "sint (n * r) = sint n * sint r" using assms by (rule sint_mul)
  moreover have "sint (10000 :: i64) = 10000" "(10000 :: i64) \<noteq> 0" by simp_all
  ultimately show ?thesis by (simp add: go_quot_def)
qed

lemma qtyScale_eq: "qtyScale n = 10 ^ n"
  by (induction n) simp_all

lemma sdiv_le: "0 \<le> a \<Longrightarrow> 0 < b \<Longrightarrow> a sdiv b \<le> (a :: int)"
  by (simp add: sdiv_nonneg) (metis div_by_1 int_one_le_iff_zero_less zdiv_mono2 zero_less_one)

text \<open>The notional of a fill with a non-negative price and quantity, in units of the price's
  last decimal.\<close>

definition notional :: "Fill \<Rightarrow> int" where
  "notional f = ival (f_Price f) * ival (f_Qty f) div 10 ^ unat (d_precision (f_Qty f))"

definition chargeable :: "Fill \<Rightarrow> bool" where
  "chargeable f \<longleftrightarrow> 0 \<le> ival (f_Price f) \<and> 0 \<le> ival (f_Qty f) \<and> unat (d_precision (f_Qty f)) \<le> 18"

lemma notional_nonneg: "chargeable f \<Longrightarrow> 0 \<le> notional f"
  by (simp add: notional_def chargeable_def pos_imp_zdiv_nonneg_iff)

lemma MulQty_notional:
  assumes "chargeable f" and "notional f < 2 ^ 63"
  shows "\<exists>d. MulQty (f_Price f) (f_Qty f) = Some d \<and> ival d = notional f"
proof -
  let ?n = "unat (d_precision (f_Qty f))"
  have sc: "scaled (f_Price f) (f_Qty f) ?n = notional f"
    using assms(1) by (simp add: scaled_def notional_def chargeable_def sdiv_nonneg)
  have "\<bar>ival (f_Price f)\<bar> * \<bar>ival (f_Qty f)\<bar> div 10 ^ ?n = notional f"
    using assms(1) by (simp add: notional_def chargeable_def)
  then have "MulQty (f_Price f) (f_Qty f) =
      Some \<lparr>d_value = word_of_int (notional f), d_precision = d_precision (f_Price f)\<rparr>"
    using MulQty_eq [of "f_Qty f" "f_Price f"] assms sc by (simp add: chargeable_def)
  moreover have "sint (word_of_int (notional f) :: i64) = notional f"
    using notional_nonneg [OF assms(1)] assms(2) by (intro sint_word_of_int) (simp add: in_i64_def)
  ultimately show ?thesis by simp
qed

lemma FlatRate_ok:
  assumes "chargeable f" and "notional f < 2 ^ 63"
    and "in_i64 (notional f * ival (fs_MakerFeeRate s))" and "in_i64 (notional f * ival (fs_TakerFeeRate s))"
  shows "FlatRate_Calculate s f = Some (charges (notional f) (fs_MakerFeeRate s) (fs_TakerFeeRate s) s f)"
proof -
  obtain d where d: "MulQty (f_Price f) (f_Qty f) = Some d" "ival d = notional f"
    using MulQty_notional [OF assms(1,2)] by blast
  then show ?thesis
    using assms(3,4) go_quot_10000 [of "d_value d" "d_value (fs_MakerFeeRate s)"]
      go_quot_10000 [of "d_value d" "d_value (fs_TakerFeeRate s)"]
    by (simp add: FlatRate_Calculate_def charges_def fee_def)
qed

lemma Tiered_ok:
  assumes f: "chargeable f" and p: "ival (f_Price f) * ival (f_Qty f) < 2 ^ 63"
    and tiers: "findTier (fs_Tiers s) (vol (f_MakerUserID f) mk) = Some mt"
      "findTier (fs_Tiers s) (vol (f_TakerUserID f) mk) = Some tt"
    and rates: "mr = (case mt of None \<Rightarrow> fs_MakerFeeRate s | Some t \<Rightarrow> ft_MakerFeeRate t)"
      "tr = (case tt of None \<Rightarrow> fs_TakerFeeRate s | Some t \<Rightarrow> ft_TakerFeeRate t)"
    and fit: "in_i64 (notional f * ival mr)" "in_i64 (notional f * ival tr)"
  shows "TieredFee_Calculate vol mk s f = Some (charges (notional f) mr tr s f)"
proof -
  let ?n = "unat (d_precision (f_Qty f))"
  have n: "?n \<le> 18" and nn: "0 \<le> ival (f_Price f) * ival (f_Qty f)" using f by (simp_all add: chargeable_def)
  have prod: "sint (d_value (f_Price f) * d_value (f_Qty f)) = ival (f_Price f) * ival (f_Qty f)"
    using nn p by (intro sint_mul) (simp add: in_i64_def)
  have ten: "sint (qtyScale ?n) = 10 ^ ?n" using sint_pow10 [OF n] by (simp add: qtyScale_eq)
  then have nz: "qtyScale ?n \<noteq> 0" by auto
  define w where "w = (word_of_int (notional f) :: i64)"
  have q: "go_quot (d_value (f_Price f) * d_value (f_Qty f)) (qtyScale ?n) = Some w"
    using nz nn ten by (simp add: go_quot_def prod sdiv_nonneg notional_def w_def)
  have "notional f \<le> ival (f_Price f) * ival (f_Qty f)"
    using sdiv_le [OF nn, of "10 ^ ?n"] nn by (simp add: notional_def sdiv_nonneg)
  then have "sint w = notional f"
    unfolding w_def using notional_nonneg [OF f] p by (intro sint_word_of_int) (simp add: in_i64_def)
  then show ?thesis
    using tiers fit q go_quot_10000 [of w "d_value mr"] go_quot_10000 [of w "d_value tr"]
    by (simp add: TieredFee_Calculate_def charges_def fee_def rates [symmetric])
qed



text \<open>Claim C31: a tiered schedule none of whose tiers the two users have reached charges what
  the flat schedule charges, as long as the product of the price and quantity mantissas fits in
  64 bits.\<close>

theorem Tiered_equals_flat:
  assumes "chargeable f" and "ival (f_Price f) * ival (f_Qty f) < 2 ^ 63"
    and "findTier (fs_Tiers s) (vol (f_MakerUserID f) mk) = Some None"
    and "findTier (fs_Tiers s) (vol (f_TakerUserID f) mk) = Some None"
    and "in_i64 (notional f * ival (fs_MakerFeeRate s))" and "in_i64 (notional f * ival (fs_TakerFeeRate s))"
  shows "TieredFee_Calculate vol mk s f = FlatRate_Calculate s f"
proof -
  have nn: "0 \<le> ival (f_Price f) * ival (f_Qty f)" using assms(1) by (simp add: chargeable_def)
  have "notional f \<le> ival (f_Price f) * ival (f_Qty f)"
    using sdiv_le [OF nn, of "10 ^ unat (d_precision (f_Qty f))"] nn by (simp add: notional_def sdiv_nonneg)
  then have "notional f < 2 ^ 63" using assms(2) by linarith
  then show ?thesis
    using FlatRate_ok [OF assms(1) _ assms(5,6)]
      Tiered_ok [of f s vol mk None None "fs_MakerFeeRate s" "fs_TakerFeeRate s"] assms by simp
qed

theorem Tiered_equals_flat_witness:
  "TieredFee_Calculate (\<lambda>u m. Zero 2) ''TEST-USD''
       ((mc_FeeSchedule demo_config)\<lparr>fs_Tiers := tl demo_tiers\<rparr>)
       (demo_fill ''a'' ''b'' Ask (NewDecimal 10050 2) (NewDecimal 30 0)) =
     FlatRate_Calculate ((mc_FeeSchedule demo_config)\<lparr>fs_Tiers := tl demo_tiers\<rparr>)
       (demo_fill ''a'' ''b'' Ask (NewDecimal 10050 2) (NewDecimal 30 0))"
  by (rule Tiered_equals_flat)
    (simp_all add: chargeable_def notional_def demo_fill_def demo_config_def demo_tiers_def in_i64_def
      findTier_def compare_same)

text \<open>Beyond that they differ: the tiered calculator multiplies the mantissas in 64 bits.\<close>

text \<open>On the same schedule and fill, with a notional of 10 (in the quote asset) and
  quantities of precision 18, the flat calculator charges 0.02 and the tiered one nothing like
  it, because its product of mantissas wraps around.\<close>

theorem Tiered_wraps_around:
  fixes f s
  defines "f \<equiv> demo_fill ''a'' ''b'' Ask (NewDecimal 1000 2) (NewDecimal 1000000000000000000 18)"
    and "s \<equiv> (mc_FeeSchedule demo_config)\<lparr>fs_TakerFeeRate := NewDecimal 2000 4\<rparr>"
  shows "map_option (ival \<circ> fr_TakerFee) (FlatRate_Calculate s f) = Some 200 \<and>
     map_option (ival \<circ> fr_TakerFee) (TieredFee_Calculate (\<lambda>u m. Zero 2) ''TEST-USD'' s f) \<noteq> Some 200"
proof
  have "FlatRate_Calculate s f = Some (charges (notional f) (fs_MakerFeeRate s) (fs_TakerFeeRate s) s f)"
    by (rule FlatRate_ok)
      (simp_all add: f_def s_def chargeable_def notional_def demo_fill_def demo_config_def in_i64_def)
  then show "map_option (ival \<circ> fr_TakerFee) (FlatRate_Calculate s f) = Some 200"
    by (simp add: charges_def fee_def f_def s_def notional_def demo_fill_def demo_config_def sdiv_nonneg)
  show "map_option (ival \<circ> fr_TakerFee) (TieredFee_Calculate (\<lambda>u m. Zero 2) ''TEST-USD'' s f) \<noteq> Some 200"
    by (simp add: TieredFee_Calculate_def f_def s_def demo_fill_def demo_config_def findTier_def qtyScale_eq
        go_quot_def)
qed

end
