(* ===== verification/Events.thy ===== *)
theory Events
  imports Market_Config
begin

section \<open>Events (\<open>events/\<close>)\<close>

text \<open>
  The output contract of the engine.  Every event type embeds \<open>Base\<close>, which carries the
  sequence number, the time and the market; \<open>Event\<close> is the interface, a sum of the concrete
  types with the four methods.
\<close>

subsection \<open>Type strings, depth updates and roles\<close>

definition TypeOrderAccepted :: string where "TypeOrderAccepted = ''order_accepted''"
definition TypeOrderRested :: string where "TypeOrderRested = ''order_rested''"
definition TypeTradeFill :: string where "TypeTradeFill = ''trade_fill''"
definition TypeTradeExecuted :: string where "TypeTradeExecuted = ''trade_executed''"
definition TypeOrderCanceled :: string where "TypeOrderCanceled = ''order_canceled''"
definition TypeOrderRejected :: string where "TypeOrderRejected = ''order_rejected''"
definition TypeOrderExpired :: string where "TypeOrderExpired = ''order_expired''"
definition TypeStopTriggered :: string where "TypeStopTriggered = ''stop_triggered''"
definition TypeMarketHalted :: string where "TypeMarketHalted = ''market_halted''"
definition TypeMarketResumed :: string where "TypeMarketResumed = ''market_resumed''"
definition TypeDepthUpdate :: string where "TypeDepthUpdate = ''depth_update''"
definition TypeBookSnapshot :: string where "TypeBookSnapshot = ''book_snapshot''"
definition TypeAuctionOpened :: string where "TypeAuctionOpened = ''auction_opened''"
definition TypeAuctionCleared :: string where "TypeAuctionCleared = ''auction_cleared''"

type_synonym DepthUpdateType = string

definition DepthAdd :: DepthUpdateType where "DepthAdd = ''add''"
definition DepthModify :: DepthUpdateType where "DepthModify = ''modify''"
definition DepthDelete :: DepthUpdateType where "DepthDelete = ''delete''"

type_synonym Role = string

definition RoleMaker :: Role where "RoleMaker = ''maker''"
definition RoleTaker :: Role where "RoleTaker = ''taker''"

subsection \<open>The event types\<close>

record Base =
  e_SeqNum :: u64
  e_Timestamp :: i64
  e_MarketID :: MarketID

definition NewBase :: "u64 \<Rightarrow> i64 \<Rightarrow> MarketID \<Rightarrow> Base" where
  "NewBase seqNum ts marketID = \<lparr>e_SeqNum = seqNum, e_Timestamp = ts, e_MarketID = marketID\<rparr>"

record OrderAccepted =
  oa_Base :: Base
  oa_OrderID :: OrderID
  oa_UserID :: UserID
  oa_Side :: Side
  oa_OrderType :: OrderType
  oa_Price :: Decimal
  oa_StopPrice :: Decimal
  oa_OrigQty :: Decimal
  oa_DisplayQty :: Decimal
  oa_TIF :: TIF
  oa_Flags :: OrderFlags
  oa_OrderSeqNum :: u64

record OrderRested =
  or_Base :: Base
  or_OrderID :: OrderID
  or_UserID :: UserID
  or_Side :: Side
  or_Price :: Decimal
  or_RemainQty :: Decimal
  or_DisplayQty :: Decimal

record TradeFill =
  tf_Base :: Base
  tf_FillID :: FillID
  tf_TradeID :: TradeID
  tf_OrderID :: OrderID
  tf_UserID :: UserID
  tf_Role :: Role
  tf_Side :: Side
  tf_Price :: Decimal
  tf_FilledQty :: Decimal
  tf_RemainQty :: Decimal
  tf_Fee :: Decimal
  tf_FeeCurrency :: string

record TradeExecuted =
  te_Base :: Base
  te_TradeID :: TradeID
  te_MakerOrderID :: OrderID
  te_MakerUserID :: UserID
  te_MakerSide :: Side
  te_MakerRemainQty :: Decimal
  te_MakerFee :: Decimal
  te_TakerOrderID :: OrderID
  te_TakerUserID :: UserID
  te_TakerRemainQty :: Decimal
  te_TakerFee :: Decimal
  te_Price :: Decimal
  te_Qty :: Decimal
  te_FeeCurrency :: string

record OrderCanceled =
  oc_Base :: Base
  oc_OrderID :: OrderID
  oc_UserID :: UserID
  oc_Side :: Side
  oc_Price :: Decimal
  oc_CanceledQty :: Decimal
  oc_FilledQty :: Decimal
  oc_Reason :: CancelReason

record OrderRejected =
  oj_Base :: Base
  oj_OrderID :: OrderID
  oj_UserID :: UserID
  oj_Reason :: RejectionReason
  oj_Message :: string

record OrderExpired =
  oe_Base :: Base
  oe_OrderID :: OrderID
  oe_UserID :: UserID
  oe_Side :: Side
  oe_Price :: Decimal
  oe_ExpiredQty :: Decimal

record StopTriggered =
  sg_Base :: Base
  sg_StopOrderID :: OrderID
  sg_UserID :: UserID
  sg_TriggerPrice :: Decimal
  sg_ConvertedTo :: OrderType
  sg_ConvertedPrice :: Decimal

record MarketHalted =
  mh_Base :: Base
  mh_Reason :: string
  mh_HaltType :: HaltType

record MarketResumed =
  mr_Base :: Base
  mr_ResumedBy :: string

record EventDepthLevel =
  ed_Price :: Decimal
  ed_TotalQty :: Decimal
  ed_DisplayQty :: Decimal
  ed_OrderCount :: int

record DepthUpdate =
  du_Base :: Base
  du_Side :: Side
  du_Price :: Decimal
  du_NewTotalQty :: Decimal
  du_NewDisplayQty :: Decimal
  du_NewOrderCount :: int
  du_UpdateType :: DepthUpdateType

record BookSnapshot =
  bs_Base :: Base
  bs_Bids :: "EventDepthLevel list"
  bs_Asks :: "EventDepthLevel list"

record AuctionOpened =
  ap_Base :: Base
  ap_IndicativePrice :: Decimal
  ap_IndicativeQty :: Decimal

record AuctionCleared =
  al_Base :: Base
  al_ClearingPrice :: Decimal
  al_MatchedQty :: Decimal

subsection \<open>The interface\<close>

datatype Event =
    EvAccepted OrderAccepted | EvRested OrderRested | EvTradeFill TradeFill
  | EvTradeExecuted TradeExecuted | EvCanceled OrderCanceled | EvRejected OrderRejected
  | EvExpired OrderExpired | EvStopTriggered StopTriggered | EvHalted MarketHalted
  | EvResumed MarketResumed | EvDepthUpdate DepthUpdate | EvSnapshot BookSnapshot
  | EvAuctionOpened AuctionOpened | EvAuctionCleared AuctionCleared

text \<open>The embedded base, whose three methods every event type has by promotion.\<close>

fun event_base :: "Event \<Rightarrow> Base" where
  "event_base (EvAccepted e) = oa_Base e"
| "event_base (EvRested e) = or_Base e"
| "event_base (EvTradeFill e) = tf_Base e"
| "event_base (EvTradeExecuted e) = te_Base e"
| "event_base (EvCanceled e) = oc_Base e"
| "event_base (EvRejected e) = oj_Base e"
| "event_base (EvExpired e) = oe_Base e"
| "event_base (EvStopTriggered e) = sg_Base e"
| "event_base (EvHalted e) = mh_Base e"
| "event_base (EvResumed e) = mr_Base e"
| "event_base (EvDepthUpdate e) = du_Base e"
| "event_base (EvSnapshot e) = bs_Base e"
| "event_base (EvAuctionOpened e) = ap_Base e"
| "event_base (EvAuctionCleared e) = al_Base e"

definition SeqNum :: "Event \<Rightarrow> u64" where
  "SeqNum e = e_SeqNum (event_base e)"

definition Timestamp :: "Event \<Rightarrow> i64" where
  "Timestamp e = e_Timestamp (event_base e)"

definition Event_MarketID :: "Event \<Rightarrow> MarketID" where
  "Event_MarketID e = e_MarketID (event_base e)"

fun Event_Type :: "Event \<Rightarrow> string" where
  "Event_Type (EvAccepted e) = TypeOrderAccepted"
| "Event_Type (EvRested e) = TypeOrderRested"
| "Event_Type (EvTradeFill e) = TypeTradeFill"
| "Event_Type (EvTradeExecuted e) = TypeTradeExecuted"
| "Event_Type (EvCanceled e) = TypeOrderCanceled"
| "Event_Type (EvRejected e) = TypeOrderRejected"
| "Event_Type (EvExpired e) = TypeOrderExpired"
| "Event_Type (EvStopTriggered e) = TypeStopTriggered"
| "Event_Type (EvHalted e) = TypeMarketHalted"
| "Event_Type (EvResumed e) = TypeMarketResumed"
| "Event_Type (EvDepthUpdate e) = TypeDepthUpdate"
| "Event_Type (EvSnapshot e) = TypeBookSnapshot"
| "Event_Type (EvAuctionOpened e) = TypeAuctionOpened"
| "Event_Type (EvAuctionCleared e) = TypeAuctionCleared"

end
