(* ===== verification/Commands.thy ===== *)
theory Commands
  imports Market_Config
begin

section \<open>Commands and the pre-order hook (\<open>engine/commands.go\<close>, \<open>hooks/preorder.go\<close>)\<close>

text \<open>
  The instructions a caller submits, a sum of the seven command types with the methods of the
  interface, and the types of the validation hook.  The hook itself is supplied by the caller
  of the engine.
\<close>

record PlaceLimitOrder =
  pl_MarketID :: MarketID
  pl_OrderID :: OrderID
  pl_UserID :: UserID
  pl_Side :: Side
  pl_Price :: Decimal
  pl_Qty :: Decimal
  pl_DisplayQty :: Decimal
  pl_TIF :: TIF
  pl_Flags :: OrderFlags
  pl_ExpireAt :: i64
  pl_STPMode :: STPMode

record PlaceMarketOrder =
  pm_MarketID :: MarketID
  pm_OrderID :: OrderID
  pm_UserID :: UserID
  pm_Side :: Side
  pm_Qty :: Decimal
  pm_TIF :: TIF
  pm_Flags :: OrderFlags
  pm_STPMode :: STPMode

record PlaceStopOrder =
  po_MarketID :: MarketID
  po_OrderID :: OrderID
  po_UserID :: UserID
  po_Side :: Side
  po_TriggerPrice :: Decimal
  po_LimitPrice :: Decimal
  po_Qty :: Decimal
  po_ConvertTo :: OrderType
  po_TIF :: TIF
  po_ExpireAt :: i64
  po_Flags :: OrderFlags
  po_STPMode :: STPMode

record CancelOrder =
  co_MarketID :: MarketID
  co_OrderID :: OrderID
  co_UserID :: UserID

record AdminCreateMarket =
  cm_MarketID :: MarketID
  cm_Config :: MarketConfig

record AdminHaltMarket =
  hm_MarketID :: MarketID
  hm_Reason :: string

record AdminResumeMarket =
  rm_MarketID :: MarketID

datatype Command =
    CmdLimit PlaceLimitOrder | CmdMarket PlaceMarketOrder | CmdStop PlaceStopOrder
  | CmdCancel CancelOrder | CmdCreate AdminCreateMarket | CmdHalt AdminHaltMarket
  | CmdResume AdminResumeMarket

fun CommandMarketID :: "Command \<Rightarrow> MarketID" where
  "CommandMarketID (CmdLimit c) = pl_MarketID c"
| "CommandMarketID (CmdMarket c) = pm_MarketID c"
| "CommandMarketID (CmdStop c) = po_MarketID c"
| "CommandMarketID (CmdCancel c) = co_MarketID c"
| "CommandMarketID (CmdCreate c) = cm_MarketID c"
| "CommandMarketID (CmdHalt c) = hm_MarketID c"
| "CommandMarketID (CmdResume c) = rm_MarketID c"

fun CommandOrderID :: "Command \<Rightarrow> OrderID" where
  "CommandOrderID (CmdLimit c) = pl_OrderID c"
| "CommandOrderID (CmdMarket c) = pm_OrderID c"
| "CommandOrderID (CmdStop c) = po_OrderID c"
| "CommandOrderID (CmdCancel c) = co_OrderID c"
| "CommandOrderID (CmdCreate c) = []"
| "CommandOrderID (CmdHalt c) = []"
| "CommandOrderID (CmdResume c) = []"

fun CommandUserID :: "Command \<Rightarrow> UserID" where
  "CommandUserID (CmdLimit c) = pl_UserID c"
| "CommandUserID (CmdMarket c) = pm_UserID c"
| "CommandUserID (CmdStop c) = po_UserID c"
| "CommandUserID (CmdCancel c) = co_UserID c"
| "CommandUserID (CmdCreate c) = ''admin''"
| "CommandUserID (CmdHalt c) = ''admin''"
| "CommandUserID (CmdResume c) = ''admin''"

subsection \<open>The hook\<close>

text \<open>The \<open>Context\<close> of the standard library, which the engine leaves nil, is not a field.\<close>

record OrderContext =
  cx_MarketID :: MarketID
  cx_UserID :: UserID
  cx_OrderID :: OrderID
  cx_Side :: Side
  cx_OrderType :: OrderType
  cx_Price :: Decimal
  cx_Qty :: Decimal
  cx_TIF :: TIF
  cx_Flags :: OrderFlags
  cx_Config :: MarketConfig

record ValidationResult =
  vr_OK :: bool
  vr_Reason :: RejectionReason
  vr_Message :: string

text \<open>The zero value of \<open>RejectionReason\<close> is no declared constant.\<close>

definition hook_OK :: ValidationResult where
  "hook_OK = \<lparr>vr_OK = True, vr_Reason = RejectByte 0, vr_Message = []\<rparr>"

definition hook_Reject :: "RejectionReason \<Rightarrow> string \<Rightarrow> ValidationResult" where
  "hook_Reject reason message = \<lparr>vr_OK = False, vr_Reason = reason, vr_Message = message\<rparr>"

type_synonym PreOrderHook = "OrderContext \<Rightarrow> ValidationResult"

end
