(* ===== verification/Processor.thy ===== *)
theory Processor
  imports Matching Stop_Book Auction State_Machine Circuit Fees Events Commands
begin

section \<open>The command processor: state, events, triggers (\<open>engine/processor.go\<close>)\<close>

text \<open>
  \<open>CommandProcessor\<close> owns the books of one market.  Two of the code's fields are pointers into
  other fields: the node pool is the one of \<open>p_book\<close>'s heap and \<open>orderSeq\<close> its counter.  The
  event channel is the list of the events sent so far.  The calls of \<open>time.Now\<close> are the
  parameter \<open>now\<close>; the identifiers of the ULID package are the values of \<open>p_newULID\<close>, one per
  call.  The pre-order hook is a function of its context.
\<close>

record 't Processor =
  p_book :: "'t OrderBook"
  p_stopBook :: "'t StopBook"
  p_auctionBook :: "AuctionBook option"
  p_breaker :: "CircuitBreaker option"
  p_state :: Machine
  p_preHaltState :: MarketState
  p_positions :: positionTracker
  p_eventSeq :: Counter
  p_feeCalc :: FeeCalculator
  p_preHook :: "PreOrderHook option"
  p_cfg :: MarketConfig
  p_events :: "Event list"
  p_newULID :: "nat \<Rightarrow> string"
  p_ulids :: nat

definition newCommandProcessor :: "'t OrderBook \<Rightarrow> 't StopBook \<Rightarrow> AuctionBook option \<Rightarrow>
    CircuitBreaker option \<Rightarrow> Machine \<Rightarrow> FeeCalculator \<Rightarrow> PreOrderHook option \<Rightarrow> MarketConfig \<Rightarrow>
    (nat \<Rightarrow> string) \<Rightarrow> 't Processor" where
  "newCommandProcessor b sb ab breaker sm feeCalc preHook cfg newULID =
     \<lparr>p_book = b, p_stopBook = sb, p_auctionBook = ab, p_breaker = breaker, p_state = sm,
      p_preHaltState = StateByte 0, p_positions = newPositionTracker (mc_QtyPrecision cfg),
      p_eventSeq = NewCounter (mc_InitialEventSeq cfg), p_feeCalc = feeCalc, p_preHook = preHook,
      p_cfg = cfg, p_events = [], p_newULID = newULID, p_ulids = 0\<rparr>"

subsection \<open>Emission and identifiers\<close>

definition emit :: "Event \<Rightarrow> 't Processor \<Rightarrow> 't Processor" where
  "emit e p = p\<lparr>p_events := p_events p @ [e]\<rparr>"

definition nextEventSeq :: "'t Processor \<Rightarrow> 't Processor \<times> u64" where
  "nextEventSeq p = (let (c, s) = Next (p_eventSeq p) in (p\<lparr>p_eventSeq := c\<rparr>, s))"

text \<open>Every event literal of the processor starts with a new base.\<close>

definition emitEvent :: "i64 \<Rightarrow> (Base \<Rightarrow> Event) \<Rightarrow> 't Processor \<Rightarrow> 't Processor" where
  "emitEvent now mk p =
     (let (p, s) = nextEventSeq p in emit (mk (NewBase s now (mc_MarketID (p_cfg p)))) p)"

definition rejectOrder :: "OrderID \<Rightarrow> UserID \<Rightarrow> RejectionReason \<Rightarrow> string \<Rightarrow> i64 \<Rightarrow> 't Processor \<Rightarrow> 't Processor" where
  "rejectOrder orderID userID reason msg now =
     emitEvent now (\<lambda>base. EvRejected
       \<lparr>oj_Base = base, oj_OrderID = orderID, oj_UserID = userID, oj_Reason = reason, oj_Message = msg\<rparr>)"

definition NewTradeID :: "'t Processor \<Rightarrow> TradeID \<times> 't Processor" where
  "NewTradeID p = (''trd_'' @ p_newULID p (p_ulids p), p\<lparr>p_ulids := p_ulids p + 1\<rparr>)"

definition NewFillID :: "'t Processor \<Rightarrow> FillID \<times> 't Processor" where
  "NewFillID p = (''fil_'' @ p_newULID p (p_ulids p), p\<lparr>p_ulids := p_ulids p + 1\<rparr>)"

text \<open>\<open>p.nodePool.Acquire()\<close> and \<open>p.orderSeq.Next()\<close>, on the objects shared with the book.\<close>

definition acquireOrder :: "'t Processor \<Rightarrow> pool_error + ('t Processor \<times> nat)" where
  "acquireOrder p =
     (case Acquire zeroNode (h_nodes (b_heap (p_book p))) of
        Inl err \<Rightarrow> Inl err
      | Inr (pool, idx) \<Rightarrow>
          Inr (p\<lparr>p_book := (p_book p)\<lparr>b_heap := (b_heap (p_book p))\<lparr>h_nodes := pool\<rparr>\<rparr>\<rparr>, idx))"

definition nextOrderSeq :: "'t Processor \<Rightarrow> 't Processor \<times> u64" where
  "nextOrderSeq p =
     (let (c, s) = Next (b_orderSeq (p_book p)) in (p\<lparr>p_book := (p_book p)\<lparr>b_orderSeq := c\<rparr>\<rparr>, s))"

definition releaseOrder :: "nat \<Rightarrow> 't Processor \<Rightarrow> 't Processor option" where
  "releaseOrder idx p = do {
     b \<leftarrow> releaseNode idx (p_book p);
     Some (p\<lparr>p_book := b\<rparr>) }"

definition transitionTo :: "MarketState \<Rightarrow> 't Processor \<Rightarrow> transition_error + 't Processor" where
  "transitionTo s p =
     (case Transition s (p_state p) of Inl err \<Rightarrow> Inl err | Inr m \<Rightarrow> Inr (p\<lparr>p_state := m\<rparr>))"

subsection \<open>The events of fills\<close>

definition side_fill :: "Fill \<Rightarrow> FillID \<Rightarrow> TradeID \<Rightarrow> Role \<Rightarrow> OrderID \<Rightarrow> UserID \<Rightarrow> Side \<Rightarrow> Decimal \<Rightarrow>
    Decimal \<Rightarrow> string \<Rightarrow> Base \<Rightarrow> Event" where
  "side_fill f fillID tradeID role orderID userID side remain sideFee currency base =
     EvTradeFill \<lparr>tf_Base = base, tf_FillID = fillID, tf_TradeID = tradeID, tf_OrderID = orderID,
       tf_UserID = userID, tf_Role = role, tf_Side = side, tf_Price = f_Price f,
       tf_FilledQty = f_Qty f, tf_RemainQty = remain, tf_Fee = sideFee, tf_FeeCurrency = currency\<rparr>"

definition trade_event :: "Fill \<Rightarrow> TradeID \<Rightarrow> FeeResult \<Rightarrow> Base \<Rightarrow> Event" where
  "trade_event f tradeID feeResult base =
     EvTradeExecuted \<lparr>te_Base = base, te_TradeID = tradeID, te_MakerOrderID = f_MakerOrderID f,
       te_MakerUserID = f_MakerUserID f, te_MakerSide = f_MakerSide f,
       te_MakerRemainQty = f_MakerRemainQty f, te_MakerFee = fr_MakerFee feeResult,
       te_TakerOrderID = f_TakerOrderID f, te_TakerUserID = f_TakerUserID f,
       te_TakerRemainQty = f_TakerRemainQty f, te_TakerFee = fr_TakerFee feeResult,
       te_Price = f_Price f, te_Qty = f_Qty f, te_FeeCurrency = fr_Currency feeResult\<rparr>"

definition fill_depth_event :: "Fill \<Rightarrow> Base \<Rightarrow> Event" where
  "fill_depth_event f base =
     EvDepthUpdate \<lparr>du_Base = base, du_Side = f_MakerSide f, du_Price = f_Price f,
       du_NewTotalQty = f_MakerLevelTotalQty f, du_NewDisplayQty = f_MakerLevelDisplayQty f,
       du_NewOrderCount = f_MakerLevelOrderCount f,
       du_UpdateType = (if f_MakerLevelExists f then DepthModify else DepthDelete)\<rparr>"

definition emitFill :: "i64 \<Rightarrow> Fill \<Rightarrow> 't Processor \<Rightarrow> 't Processor option" where
  "emitFill now fill p = do {
     let f = fill\<lparr>f_Timestamp := now\<rparr>;
     positions \<leftarrow> applyFill f (p_positions p);
     let p = p\<lparr>p_positions := positions\<rparr>;
     let (tradeID, p) = NewTradeID p;
     feeResult \<leftarrow> p_feeCalc p (mc_FeeSchedule (p_cfg p)) f;
     let makerSide = f_MakerSide f;
     let takerSide = Opposite makerSide;
     let (fillID, p) = NewFillID p;
     let p = emitEvent now (side_fill f fillID tradeID RoleMaker (f_MakerOrderID f) (f_MakerUserID f)
               makerSide (f_MakerRemainQty f) (fr_MakerFee feeResult) (fr_Currency feeResult)) p;
     let (fillID, p) = NewFillID p;
     let p = emitEvent now (side_fill f fillID tradeID RoleTaker (f_TakerOrderID f) (f_TakerUserID f)
               takerSide (f_TakerRemainQty f) (fr_TakerFee feeResult) (fr_Currency feeResult)) p;
     let p = emitEvent now (trade_event f tradeID feeResult) p;
     Some (emitEvent now (fill_depth_event f) p) }"

fun emitFills :: "i64 \<Rightarrow> Fill list \<Rightarrow> 't Processor \<Rightarrow> 't Processor option" where
  "emitFills now [] p = Some p"
| "emitFills now (f # fills) p = do { p \<leftarrow> emitFill now f p; emitFills now fills p }"

text \<open>The result: the price of the last fill, and the processor.\<close>

definition emitFillEvents :: "Fill list \<Rightarrow> i64 \<Rightarrow> 't Processor \<Rightarrow> (Decimal option \<times> 't Processor) option" where
  "emitFillEvents fills now p =
     (if fills = [] then Some (None, p)
      else do { p \<leftarrow> emitFills now fills p; Some (Some (f_Price (last fills)), p) })"

fun emitSTPCancels :: "STPCanceled list \<Rightarrow> i64 \<Rightarrow> 't Processor \<Rightarrow> 't Processor" where
  "emitSTPCancels [] now p = p"
| "emitSTPCancels (sc # cancels) now p =
     emitSTPCancels cancels now (emitEvent now (\<lambda>base. EvCanceled
       \<lparr>oc_Base = base, oc_OrderID = sc_OrderID sc, oc_UserID = sc_UserID sc, oc_Side = sc_Side sc,
        oc_Price = sc_Price sc, oc_CanceledQty = sc_RemainQty sc, oc_FilledQty = sc_FilledQty sc,
        oc_Reason = CancelSTP\<rparr>) p)"

subsection \<open>The event of the disposition\<close>

fun sumFills :: "Decimal \<Rightarrow> Fill list \<Rightarrow> Decimal option" where
  "sumFills filledQty [] = Some filledQty"
| "sumFills filledQty (f # fills) = do { q \<leftarrow> Add filledQty (f_Qty f); sumFills q fills }"

definition emitRested :: "'t btree_fns \<Rightarrow> OrderID \<Rightarrow> UserID \<Rightarrow> Side \<Rightarrow> Decimal \<Rightarrow> Disposition \<Rightarrow> i64 \<Rightarrow>
    't Processor \<Rightarrow> 't Processor option" where
  "emitRested B orderID userID side price disposition now p = do {
     (orderRemain, orderDisplay, _) \<leftarrow> OrderRestInfo orderID (p_book p);
     (levelTotal, levelDisplay, orderCount, _) \<leftarrow> LevelInfo B side price (p_book p);
     let p = emitEvent now (\<lambda>base. EvRested
       \<lparr>or_Base = base, or_OrderID = orderID, or_UserID = userID, or_Side = side, or_Price = price,
        or_RemainQty = orderRemain, or_DisplayQty = orderDisplay\<rparr>) p;
     Some (emitEvent now (\<lambda>base. EvDepthUpdate
       \<lparr>du_Base = base, du_Side = side, du_Price = price, du_NewTotalQty = levelTotal,
        du_NewDisplayQty = levelDisplay, du_NewOrderCount = orderCount,
        du_UpdateType = (if disposition = PartialFill_Rested then DepthModify else DepthAdd)\<rparr>) p) }"

definition emitUnfilled :: "OrderID \<Rightarrow> UserID \<Rightarrow> Side \<Rightarrow> Decimal \<Rightarrow> Decimal \<Rightarrow> Fill list \<Rightarrow> CancelReason \<Rightarrow> i64 \<Rightarrow>
    't Processor \<Rightarrow> 't Processor option" where
  "emitUnfilled orderID userID side price origQty fills reason now p = do {
     filledQty \<leftarrow> sumFills (Zero (mc_QtyPrecision (p_cfg p))) fills;
     canceledQty \<leftarrow> Sub origQty filledQty;
     Some (emitEvent now (\<lambda>base. EvCanceled
       \<lparr>oc_Base = base, oc_OrderID = orderID, oc_UserID = userID, oc_Side = side, oc_Price = price,
        oc_CanceledQty = canceledQty, oc_FilledQty = filledQty, oc_Reason = reason\<rparr>) p) }"

definition emitDisposition :: "'t btree_fns \<Rightarrow> OrderID \<Rightarrow> UserID \<Rightarrow> Side \<Rightarrow> Decimal \<Rightarrow> Decimal \<Rightarrow> Fill list \<Rightarrow>
    Disposition \<Rightarrow> i64 \<Rightarrow> 't Processor \<Rightarrow> 't Processor option" where
  "emitDisposition B orderID userID side price origQty fills disposition now p =
     (case disposition of
        Rested \<Rightarrow> emitRested B orderID userID side price disposition now p
      | PartialFill_Rested \<Rightarrow> emitRested B orderID userID side price disposition now p
      | FullyFilled \<Rightarrow> Some p
      | Canceled \<Rightarrow> emitUnfilled orderID userID side price origQty fills CancelIOC now p
      | PartialFill_Canceled \<Rightarrow> emitUnfilled orderID userID side price origQty fills CancelIOC now p
      | STPCanceled_Taker \<Rightarrow> emitUnfilled orderID userID side price origQty fills CancelSTP now p
      | Rejected \<Rightarrow> Some (rejectOrder orderID userID RejectFOKFailed
          ''FOK order could not be fully filled'' now p))"

text \<open>What every handler does with the result of \<open>PlaceLimit\<close> or \<open>PlaceMarket\<close>: fills, cancels,
  disposition, in this order.\<close>

type_synonym 't place = "'t OrderBook \<Rightarrow> (Fill list \<times> STPCanceled list \<times> Disposition \<times> 't OrderBook) option"

definition placeAndEmit :: "'t btree_fns \<Rightarrow> 't place \<Rightarrow> OrderID \<Rightarrow> UserID \<Rightarrow> Side \<Rightarrow> Decimal \<Rightarrow> Decimal \<Rightarrow> i64 \<Rightarrow>
    't Processor \<Rightarrow> (Decimal option \<times> 't Processor) option" where
  "placeAndEmit B place orderID userID side price origQty now p = do {
     (fills, stpCancels, disposition, b) \<leftarrow> place (p_book p);
     let p = p\<lparr>p_book := b\<rparr>;
     (lastFillPrice, p) \<leftarrow> emitFillEvents fills now p;
     let p = emitSTPCancels stpCancels now p;
     p \<leftarrow> emitDisposition B orderID userID side price origQty fills disposition now p;
     Some (lastFillPrice, p) }"

end
