(* ===== verification/Cascade.thy ===== *)
theory Cascade
  imports Processor
begin

section \<open>Stop triggers and the circuit breaker (\<open>engine/processor.go\<close>)\<close>

text \<open>
  \<open>checkStopsAndBreaker\<close> and \<open>processTriggeredOrder\<close> call each other: a trade fires stops, a
  fired stop may trade.  The code's recursion is bounded by the depth argument and the stop
  book's limit; here it is a partial function, so that termination is something to prove.
\<close>

text \<open>The halt of the market for a given reason, if the state machine allows it.\<close>

definition haltMarket :: "string \<Rightarrow> HaltType \<Rightarrow> i64 \<Rightarrow> 't Processor \<Rightarrow> 't Processor" where
  "haltMarket reason haltType now p =
     (let p = p\<lparr>p_preHaltState := Current (p_state p)\<rparr> in
      case transitionTo Halted p of
        Inl _ \<Rightarrow> p
      | Inr p \<Rightarrow> emitEvent now (\<lambda>base. EvHalted
          \<lparr>mh_Base = base, mh_Reason = reason, mh_HaltType = haltType\<rparr>) p)"

definition checkBreaker :: "Decimal \<Rightarrow> i64 \<Rightarrow> 't Processor \<Rightarrow> 't Processor option" where
  "checkBreaker lastTradePrice now p =
     (case p_breaker p of
        None \<Rightarrow> Some p
      | Some breaker \<Rightarrow> do {
          (reason, shouldHalt, breaker) \<leftarrow> Check lastTradePrice now breaker;
          let p = p\<lparr>p_breaker := Some breaker\<rparr>;
          if \<not> shouldHalt then Some p
          else
            let p = p\<lparr>p_preHaltState := Current (p_state p)\<rparr> in
            (case transitionTo Halted p of
               Inl _ \<Rightarrow> Some p
             | Inr p \<Rightarrow>
                 let p = p\<lparr>p_breaker := Some (SetLastHalt now breaker)\<rparr> in
                 Some (emitEvent now (\<lambda>base. EvHalted
                   \<lparr>mh_Base = base, mh_Reason = reason, mh_HaltType = HaltCircuitBreaker\<rparr>) p)) })"

subsection \<open>A triggered order\<close>

text \<open>The node the code fills in; iceberg is not supported on conversion.\<close>

definition triggeredNode :: "MarketConfig \<Rightarrow> TriggeredOrder \<Rightarrow> nat \<Rightarrow> u64 \<Rightarrow> i64 \<Rightarrow> OrderNode \<Rightarrow> OrderNode" where
  "triggeredNode cfg t idx seq now n = n\<lparr>
     n_PoolIndex := idx, n_OrderID := to_OrderID t, n_UserID := to_UserID t,
     n_MarketID := mc_MarketID cfg, n_Side := to_Side t, n_TIF := to_TIF t,
     n_Flags := Clear_flags (to_Flags t) FlagIceberg, n_STPMode := to_STPMode t, n_SeqNum := seq,
     n_Timestamp := now, n_OrigQty := to_Qty t, n_RemainQty := to_Qty t,
     n_FilledQty := Zero (mc_QtyPrecision cfg), n_DisplayQty := to_Qty t, n_OrigDisplayQty := to_Qty t,
     n_Type := (if to_ConvertTo t = Market then Market else Limit),
     n_Price := (if to_ConvertTo t = Market then Zero (mc_PricePrecision cfg) else to_LimitPrice t)\<rparr>"

definition triggered_accepted :: "TriggeredOrder \<Rightarrow> OrderNode \<Rightarrow> Base \<Rightarrow> Event" where
  "triggered_accepted t n base = EvAccepted
     \<lparr>oa_Base = base, oa_OrderID = to_OrderID t, oa_UserID = to_UserID t, oa_Side = to_Side t,
      oa_OrderType = n_Type n,
      oa_Price = (if to_ConvertTo t = Market then zeroDecimal else to_LimitPrice t),
      oa_StopPrice = zeroDecimal, oa_OrigQty = to_Qty t, oa_DisplayQty = to_Qty t, oa_TIF = to_TIF t,
      oa_Flags = n_Flags n, oa_OrderSeqNum = n_SeqNum n\<rparr>"

definition placeTriggered :: "'t btree_fns \<Rightarrow> TriggeredOrder \<Rightarrow> nat \<Rightarrow> i64 \<Rightarrow> 't Processor \<Rightarrow>
    (Decimal option \<times> 't Processor) option" where
  "placeTriggered B t idx now p =
     (let (p, seq) = nextOrderSeq p;
          p = p\<lparr>p_book := set_b_node idx (triggeredNode (p_cfg p) t idx seq now) (p_book p)\<rparr>;
          p = emitEvent now (triggered_accepted t (b_node (p_book p) idx)) p
      in if to_ConvertTo t = Market
         then placeAndEmit B (PlaceMarket B idx) (to_OrderID t) (to_UserID t) (to_Side t)
                (Zero (mc_PricePrecision (p_cfg p))) (to_Qty t) now p
         else placeAndEmit B (PlaceLimit B idx) (to_OrderID t) (to_UserID t) (to_Side t)
                (to_LimitPrice t) (to_Qty t) now p)"

text \<open>\<open>again\<close> is the call of \<open>checkStopsAndBreaker\<close>: price, depth, processor.\<close>

definition processTriggeredOrder :: "'t btree_fns \<Rightarrow>
    (Decimal \<Rightarrow> int \<Rightarrow> 't Processor \<Rightarrow> 't Processor option) \<Rightarrow> TriggeredOrder \<Rightarrow> int \<Rightarrow> i64 \<Rightarrow>
    't Processor \<Rightarrow> 't Processor option" where
  "processTriggeredOrder B again t depth now p =
     (case acquireOrder p of
        Inl err \<Rightarrow> Some (rejectOrder (to_OrderID t) (to_UserID t) RejectPoolExhausted
          ''node pool exhausted'' now p)
      | Inr (p, idx) \<Rightarrow>
          Option.bind (placeTriggered B t idx now p) (\<lambda>(lastFillPrice, p).
            case lastFillPrice of
              None \<Rightarrow> Some p
            | Some price \<Rightarrow> again price (depth + 1) p))"

fun processTriggered :: "'t btree_fns \<Rightarrow>
    (Decimal \<Rightarrow> int \<Rightarrow> 't Processor \<Rightarrow> 't Processor option) \<Rightarrow> Decimal \<Rightarrow> int \<Rightarrow> i64 \<Rightarrow>
    TriggeredOrder list \<Rightarrow> 't Processor \<Rightarrow> 't Processor option" where
  "processTriggered B again lastTradePrice depth now [] p = Some p"
| "processTriggered B again lastTradePrice depth now (t # triggered) p =
     Option.bind
       (processTriggeredOrder B again t depth now (emitEvent now (\<lambda>base. EvStopTriggered
          \<lparr>sg_Base = base, sg_StopOrderID = to_OrderID t, sg_UserID = to_UserID t,
           sg_TriggerPrice = lastTradePrice, sg_ConvertedTo = to_ConvertTo t,
           sg_ConvertedPrice = to_LimitPrice t\<rparr>) p))
       (processTriggered B again lastTradePrice depth now triggered)"

lemma processTriggeredOrder_mono [partial_function_mono]:
  assumes "\<And>price d p. mono_option (\<lambda>f. g f price d p)"
  shows "mono_option (\<lambda>f. processTriggeredOrder B (g f) t depth now p)"
proof -
  have "mono_option (\<lambda>f. case q of (lastFillPrice, p) \<Rightarrow>
      (case lastFillPrice of None \<Rightarrow> Some p | Some price \<Rightarrow> g f price (depth + 1) p))" for q
    using assms by (cases q; cases "fst q") (auto intro: partial_function_mono)
  then show ?thesis unfolding processTriggeredOrder_def
    by (cases "acquireOrder p") (auto split: prod.split intro!: partial_function_mono)
qed

lemma processTriggered_mono [partial_function_mono]:
  assumes "\<And>price d p. mono_option (\<lambda>f. g f price d p)"
  shows "mono_option (\<lambda>f. processTriggered B (g f) price depth now ts p)"
proof (induction ts arbitrary: p)
  case (Cons t ts)
  then show ?case by (simp, intro partial_function_mono assms)
qed (simp add: partial_function_mono)

partial_function (option) checkStopsAndBreaker :: "'t btree_fns \<Rightarrow> Decimal \<Rightarrow> int \<Rightarrow> i64 \<Rightarrow> 't Processor \<Rightarrow> 't Processor option" where
  "checkStopsAndBreaker B lastTradePrice depth now p =
     Option.bind (CheckTriggers B lastTradePrice depth (p_stopBook p)) (\<lambda>r. case r of
       Inl err \<Rightarrow> Some (haltMarket ''stop order cascade depth limit reached'' HaltCascadeLimit now p)
     | Inr (triggered, sb) \<Rightarrow>
         Option.bind
           (processTriggered B (\<lambda>price d. checkStopsAndBreaker B price d now) lastTradePrice depth now
              triggered (p\<lparr>p_stopBook := sb\<rparr>))
           (checkBreaker lastTradePrice now))"

declare checkStopsAndBreaker.simps [code]

end
