(* ===== verification/Limit_Orders.thy ===== *)
theory Limit_Orders
  imports Cascade
begin

section \<open>Limit orders (\<open>engine/processor.go\<close>)\<close>

text \<open>
  \<open>processLimitOrder\<close>: a sequence of checks, each of which may reject the order, then the
  order is filled into a node and matched, rested or handed to the auction book.  A check is
  the value \<open>Some (Some (reason, message))\<close> for a rejection, \<open>Some None\<close> when the order passes and
  \<open>None\<close> for a panic; \<open>first_check\<close> runs checks in order and stops at the first that does not
  pass, as the early returns of the code do.
\<close>

type_synonym rejection = "RejectionReason \<times> string"

definition check :: "bool \<Rightarrow> RejectionReason \<Rightarrow> string \<Rightarrow> rejection option option" where
  "check failed reason msg = Some (if failed then Some (reason, msg) else None)"

definition check_that :: "bool option \<Rightarrow> RejectionReason \<Rightarrow> string \<Rightarrow> rejection option option" where
  "check_that failed reason msg =
     Option.bind failed (\<lambda>f. check f reason msg)"

fun first_check :: "rejection option option list \<Rightarrow> rejection option option" where
  "first_check [] = Some None"
| "first_check (c # cs) =
     (case c of None \<Rightarrow> None | Some (Some r) \<Rightarrow> Some (Some r) | Some None \<Rightarrow> first_check cs)"

text \<open>Go's short-circuit \<open>&&\<close> with a right operand that may panic.\<close>

definition and_then :: "bool \<Rightarrow> bool option \<Rightarrow> bool option" where
  "and_then a b = (if a then b else Some False)"

subsection \<open>Validation\<close>

definition valueAboveMax :: "Decimal \<Rightarrow> Decimal \<Rightarrow> Decimal \<Rightarrow> bool option" where
  "valueAboveMax price qty maxValue = do {
     let scale = qtyScale (unat (d_precision qty));
     rawNotional \<leftarrow> go_quot (d_value price * d_value qty) scale;
     Some (sint (d_value maxValue) < sint rawNotional) }"

text \<open>The bounds on the quantity, which all three kinds of orders have.\<close>

definition qtyChecks :: "MarketConfig \<Rightarrow> Decimal \<Rightarrow> rejection option option list" where
  "qtyChecks cfg qty =
     [check (\<not> IsPositive qty) RejectBelowMinQty ''qty must be positive'',
      check_that (and_then (\<not> IsZero (mc_MinOrderQty cfg)) (LessThan qty (mc_MinOrderQty cfg)))
        RejectBelowMinQty ''qty below minimum'',
      check_that (and_then (\<not> IsZero (mc_MaxOrderQty cfg)) (GreaterThan qty (mc_MaxOrderQty cfg)))
        RejectAboveMaxQty ''qty above maximum'']"

definition dayChecks :: "MarketConfig \<Rightarrow> TIF \<Rightarrow> i64 \<Rightarrow> rejection option option list" where
  "dayChecks cfg tif now =
     [check (tif = DAY \<and> mc_SessionEnd cfg = 0) RejectFeatureDisabled
        ''DAY orders not supported (SessionEnd not configured)'',
      check (tif = DAY \<and> sint (mc_SessionEnd cfg) \<le> sint now) RejectInvalidExpiry
        ''DAY order: trading session has already ended'']"

definition icebergChecks :: "MarketConfig \<Rightarrow> PlaceLimitOrder \<Rightarrow> rejection option option list" where
  "icebergChecks cfg cmd =
     (if \<not> Has (pl_Flags cmd) FlagIceberg then []
      else
        [check (\<not> IsPositive (pl_DisplayQty cmd)) RejectInvalidLot
           ''iceberg DisplayQty must be positive'',
         check_that (map_option Not (IsValidLot (pl_DisplayQty cmd) (mc_LotSize cfg))) RejectInvalidLot
           ''iceberg DisplayQty is not a valid lot'',
         check_that (GreaterThanOrEqual (pl_DisplayQty cmd) (pl_Qty cmd)) RejectInvalidLot
           ''iceberg DisplayQty must be less than total Qty''])"

definition validateLimitOrder :: "MarketConfig \<Rightarrow> PlaceLimitOrder \<Rightarrow> i64 \<Rightarrow> rejection option option" where
  "validateLimitOrder cfg cmd now = first_check (
     [check (\<not> IsPositive (pl_Price cmd)) RejectInvalidPrice ''price must be positive''] @
     qtyChecks cfg (pl_Qty cmd) @
     [check_that (and_then (\<not> IsZero (mc_MaxOrderValue cfg))
          (valueAboveMax (pl_Price cmd) (pl_Qty cmd) (mc_MaxOrderValue cfg)))
        RejectAboveMaxValue ''order value above maximum'',
      check_that (map_option Not (IsValidTick (pl_Price cmd) (mc_TickSize cfg))) RejectInvalidTick
        ''price is not a valid tick'',
      check_that (map_option Not (IsValidLot (pl_Qty cmd) (mc_LotSize cfg))) RejectInvalidLot
        ''qty is not a valid lot''] @
     icebergChecks cfg cmd @
     [check (pl_TIF cmd = GTD \<and> sint (pl_ExpireAt cmd) \<le> sint now) RejectInvalidExpiry
        ''GTD expireAt must be in the future''] @
     dayChecks cfg (pl_TIF cmd) now)"

text \<open>Steps 1 to 4: state, features, duplicates, validation.\<close>

definition knownOrder :: "OrderID \<Rightarrow> 't Processor \<Rightarrow> bool" where
  "knownOrder orderID p \<longleftrightarrow> HasOrder orderID (p_book p) \<or> Has_stop orderID (p_stopBook p)"

definition featureOff :: "'t Processor \<Rightarrow> FeatureSet \<Rightarrow> bool" where
  "featureOff p f \<longleftrightarrow> \<not> Has_feature (mc_Features (p_cfg p)) f"

definition reduceOnlyChecks :: "UserID \<Rightarrow> Side \<Rightarrow> Decimal \<Rightarrow> OrderFlags \<Rightarrow> 't Processor \<Rightarrow> rejection option option list" where
  "reduceOnlyChecks userID side qty flags p =
     [check (Has flags FlagReduceOnly \<and> featureOff p FeatureReduceOnly) RejectFeatureDisabled
        ''ReduceOnly orders disabled'',
      check_that (and_then (Has flags FlagReduceOnly) (wouldIncrease userID side qty (p_positions p)))
        RejectReduceOnly ''reduce-only order would increase position'']"

definition limitChecks :: "PlaceLimitOrder \<Rightarrow> i64 \<Rightarrow> 't Processor \<Rightarrow> rejection option option" where
  "limitChecks cmd now p = first_check (
     [check (\<not> CanAcceptLimitOrder (p_state p)) RejectMarketNotOpen ''market not open for limit orders'',
      check (pl_TIF cmd = IOC \<and> featureOff p FeatureIOC) RejectFeatureDisabled ''IOC orders disabled'',
      check (pl_TIF cmd = FOK \<and> featureOff p FeatureFOK) RejectFeatureDisabled ''FOK orders disabled'',
      check (Has (pl_Flags cmd) FlagPostOnly \<and> featureOff p FeaturePostOnly) RejectFeatureDisabled
        ''PostOnly orders disabled'',
      check (Has (pl_Flags cmd) FlagIceberg \<and> featureOff p FeatureIcebergOrders) RejectFeatureDisabled
        ''iceberg orders disabled''] @
     reduceOnlyChecks (pl_UserID cmd) (pl_Side cmd) (pl_Qty cmd) (pl_Flags cmd) p @
     [check (knownOrder (pl_OrderID cmd) p \<or>
         (case p_auctionBook p of None \<Rightarrow> False | Some ab \<Rightarrow> Has_auction (pl_OrderID cmd) ab))
        RejectDuplicateOrderID ''duplicate order id'',
      validateLimitOrder (p_cfg p) cmd now])"

text \<open>Step 4b: the depth limit rejects the order, or turns it into an IOC order.\<close>

definition depthLimit :: "'t btree_fns \<Rightarrow> PlaceLimitOrder \<Rightarrow> 't Processor \<Rightarrow> (rejection + PlaceLimitOrder) option" where
  "depthLimit B cmd p = do {
     exceeds \<leftarrow> and_then (0 < mc_MaxDepth (p_cfg p) \<and> CanRest (pl_TIF cmd) \<and>
         Current (p_state p) \<noteq> State_Machine.Auction)
       (WouldExceedMaxDepth B (pl_Price cmd) (pl_Side cmd) (p_book p));
     if \<not> exceeds then Some (Inr cmd)
     else (case mc_MaxDepthMode (p_cfg p) of
         DepthRejectOrder \<Rightarrow> Some (Inl (RejectMaxDepth, ''order price exceeds book depth limit''))
       | DepthTreatAsIOC \<Rightarrow> Some (Inr (cmd\<lparr>pl_TIF := IOC\<rparr>))
       | DepthModeByte _ \<Rightarrow> Some (Inr cmd)) }"

text \<open>Steps 5 and 5b: post-only, and the capacity of the level pool.\<close>

definition postOnlyCheck :: "'t btree_fns \<Rightarrow> PlaceLimitOrder \<Rightarrow> 't Processor \<Rightarrow> rejection option option" where
  "postOnlyCheck B cmd p =
     check_that (and_then (Has (pl_Flags cmd) FlagPostOnly \<and> Current (p_state p) \<noteq> State_Machine.Auction)
       (WouldCross B (pl_Price cmd) (pl_Side cmd) (p_book p)))
       RejectPostOnlyWouldCross ''post-only order would cross''"

definition levelCheck :: "'t btree_fns \<Rightarrow> PlaceLimitOrder \<Rightarrow> 't Processor \<Rightarrow> rejection option option" where
  "levelCheck B cmd p = do {
     needsLevel \<leftarrow> and_then (CanRest (pl_TIF cmd) \<and> LevelPoolFull (p_book p))
       (map_option Not (HasLevel B (pl_Side cmd) (pl_Price cmd) (p_book p)));
     if \<not> needsLevel then Some None
     else if Current (p_state p) = Halted \<or> Current (p_state p) = PreOpen
     then check True RejectPoolExhausted ''level pool exhausted''
     else if Current (p_state p) = Open
     then check_that (map_option Not (WouldCross B (pl_Price cmd) (pl_Side cmd) (p_book p)))
            RejectPoolExhausted ''level pool exhausted''
     else Some None }"

text \<open>Step 6: the hook.\<close>

definition hookCheck :: "PlaceLimitOrder \<Rightarrow> 't Processor \<Rightarrow> rejection option option" where
  "hookCheck cmd p =
     (case p_preHook p of
        None \<Rightarrow> Some None
      | Some validate \<Rightarrow>
          let ctx = \<lparr>cx_MarketID = mc_MarketID (p_cfg p), cx_UserID = pl_UserID cmd,
                cx_OrderID = pl_OrderID cmd, cx_Side = pl_Side cmd, cx_OrderType = Limit,
                cx_Price = pl_Price cmd, cx_Qty = pl_Qty cmd, cx_TIF = pl_TIF cmd,
                cx_Flags = pl_Flags cmd, cx_Config = p_cfg p\<rparr>;
              result = validate ctx
          in check (\<not> vr_OK result) (vr_Reason result) (vr_Message result))"

text \<open>All checks: a rejection, or the order to place.\<close>

definition limitVerdict :: "'t btree_fns \<Rightarrow> PlaceLimitOrder \<Rightarrow> i64 \<Rightarrow> 't Processor \<Rightarrow> (rejection + PlaceLimitOrder) option" where
  "limitVerdict B cmd now p = do {
     early \<leftarrow> limitChecks cmd now p;
     case early of
       Some r \<Rightarrow> Some (Inl r)
     | None \<Rightarrow> do {
         limited \<leftarrow> depthLimit B cmd p;
         case limited of
           Inl r \<Rightarrow> Some (Inl r)
         | Inr cmd \<Rightarrow> do {
             late \<leftarrow> first_check [postOnlyCheck B cmd p, levelCheck B cmd p, hookCheck cmd p];
             case late of Some r \<Rightarrow> Some (Inl r) | None \<Rightarrow> Some (Inr cmd) } } }"

subsection \<open>Placing the order\<close>

definition limit_accepted :: "PlaceLimitOrder \<Rightarrow> Decimal \<Rightarrow> u64 \<Rightarrow> Base \<Rightarrow> Event" where
  "limit_accepted cmd displayQty seq base = EvAccepted
     \<lparr>oa_Base = base, oa_OrderID = pl_OrderID cmd, oa_UserID = pl_UserID cmd, oa_Side = pl_Side cmd,
      oa_OrderType = Limit, oa_Price = pl_Price cmd, oa_StopPrice = zeroDecimal,
      oa_OrigQty = pl_Qty cmd, oa_DisplayQty = displayQty, oa_TIF = pl_TIF cmd,
      oa_Flags = pl_Flags cmd, oa_OrderSeqNum = seq\<rparr>"

text \<open>Step 6b: during the auction the order only goes to the auction book.\<close>

definition acceptAuctionOrder :: "PlaceLimitOrder \<Rightarrow> AuctionBook \<Rightarrow> i64 \<Rightarrow> 't Processor \<Rightarrow> 't Processor option" where
  "acceptAuctionOrder cmd ab now p = do {
     let (p, seq) = nextOrderSeq p;
     let p = emitEvent now (limit_accepted cmd (pl_Qty cmd) seq) p;
     ab \<leftarrow> AddOrder \<lparr>ao_OrderID = pl_OrderID cmd, ao_UserID = pl_UserID cmd, ao_Side = pl_Side cmd,
        ao_Price = pl_Price cmd, ao_Qty = pl_Qty cmd, ao_TIF = pl_TIF cmd, ao_SeqNum = seq\<rparr> ab;
     Some (p\<lparr>p_auctionBook := Some ab\<rparr>) }"

text \<open>Step 7: the node.\<close>

definition limitNode :: "MarketConfig \<Rightarrow> PlaceLimitOrder \<Rightarrow> nat \<Rightarrow> u64 \<Rightarrow> i64 \<Rightarrow> OrderNode \<Rightarrow> OrderNode option" where
  "limitNode cfg cmd idx seq now n = do {
     let n = n\<lparr>n_PoolIndex := idx, n_OrderID := pl_OrderID cmd, n_UserID := pl_UserID cmd,
       n_MarketID := mc_MarketID cfg, n_Side := pl_Side cmd, n_Type := Limit, n_Price := pl_Price cmd,
       n_OrigQty := pl_Qty cmd, n_FilledQty := Zero (d_precision (pl_Qty cmd)), n_TIF := pl_TIF cmd,
       n_Flags := pl_Flags cmd,
       n_ExpireAt := (if pl_TIF cmd = DAY then mc_SessionEnd cfg else pl_ExpireAt cmd),
       n_STPMode := pl_STPMode cmd, n_Timestamp := now, n_SeqNum := seq\<rparr>;
     if Has (pl_Flags cmd) FlagIceberg then do {
       hidden \<leftarrow> Sub (pl_Qty cmd) (pl_DisplayQty cmd);
       Some (n\<lparr>n_DisplayQty := pl_DisplayQty cmd, n_OrigDisplayQty := pl_DisplayQty cmd,
          n_HiddenQty := hidden, n_RemainQty := pl_DisplayQty cmd\<rparr>) }
     else Some (n\<lparr>n_RemainQty := pl_Qty cmd, n_DisplayQty := pl_Qty cmd, n_OrigDisplayQty := pl_Qty cmd\<rparr>) }"

text \<open>Resting without matching, while the market is halted or not yet open.\<close>

definition restOrder :: "'t btree_fns \<Rightarrow> nat \<Rightarrow> PlaceLimitOrder \<Rightarrow> i64 \<Rightarrow> 't Processor \<Rightarrow> 't Processor option" where
  "restOrder B idx cmd now p = do {
     r \<leftarrow> PlaceResting B idx (p_book p);
     case r of
       Inl err \<Rightarrow> do {
         p \<leftarrow> releaseOrder (n_PoolIndex (b_node (p_book p) idx)) p;
         emitDisposition B (pl_OrderID cmd) (pl_UserID cmd) (pl_Side cmd) (pl_Price cmd) (pl_Qty cmd) []
           Canceled now p }
     | Inr b \<Rightarrow>
         emitDisposition B (pl_OrderID cmd) (pl_UserID cmd) (pl_Side cmd) (pl_Price cmd) (pl_Qty cmd) []
           Rested now (p\<lparr>p_book := b\<rparr>) }"

text \<open>The last steps of all handlers that match: stops and breaker, if there was a trade.\<close>

definition afterMatch :: "'t btree_fns \<Rightarrow> i64 \<Rightarrow> Decimal option \<times> 't Processor \<Rightarrow> 't Processor option" where
  "afterMatch B now r =
     (case r of (lastFillPrice, p) \<Rightarrow>
        (case lastFillPrice of
           None \<Rightarrow> Some p
         | Some price \<Rightarrow> checkStopsAndBreaker B price 0 now p))"

definition placeLimitOrder :: "'t btree_fns \<Rightarrow> PlaceLimitOrder \<Rightarrow> i64 \<Rightarrow> 't Processor \<Rightarrow> 't Processor option" where
  "placeLimitOrder B cmd now p =
     (case acquireOrder p of
        Inl err \<Rightarrow> Some (rejectOrder (pl_OrderID cmd) (pl_UserID cmd) RejectPoolExhausted
          ''node pool exhausted'' now p)
      | Inr (p, idx) \<Rightarrow> do {
          let (p, seq) = nextOrderSeq p;
          n \<leftarrow> limitNode (p_cfg p) cmd idx seq now (b_node (p_book p) idx);
          let p = p\<lparr>p_book := set_b_node idx (\<lambda>_. n) (p_book p)\<rparr>;
          let p = emitEvent now (limit_accepted cmd (n_DisplayQty n) seq) p;
          if Current (p_state p) = Halted \<or> Current (p_state p) = PreOpen
          then restOrder B idx cmd now p
          else do {
            r \<leftarrow> placeAndEmit B (PlaceLimit B idx) (pl_OrderID cmd) (pl_UserID cmd) (pl_Side cmd)
              (pl_Price cmd) (pl_Qty cmd) now p;
            afterMatch B now r } })"

definition processLimitOrder :: "'t btree_fns \<Rightarrow> PlaceLimitOrder \<Rightarrow> i64 \<Rightarrow> 't Processor \<Rightarrow> 't Processor option" where
  "processLimitOrder B cmd now p = do {
     verdict \<leftarrow> limitVerdict B cmd now p;
     case verdict of
       Inl (reason, msg) \<Rightarrow> Some (rejectOrder (pl_OrderID cmd) (pl_UserID cmd) reason msg now p)
     | Inr cmd \<Rightarrow>
         (case p_auctionBook p of
            Some ab \<Rightarrow>
              if Current (p_state p) = State_Machine.Auction then acceptAuctionOrder cmd ab now p
              else placeLimitOrder B cmd now p
          | None \<Rightarrow> placeLimitOrder B cmd now p) }"

end
