(* ===== verification/Handlers.thy ===== *)
theory Handlers
  imports Limit_Orders
begin

section \<open>The other handlers and the dispatch loop (\<open>engine/processor.go\<close>)\<close>

text \<open>
  Market and stop orders, cancellation, the administrative commands, expiry and the auction,
  then \<open>dispatch\<close> and the loop of \<open>run\<close> as a fold over the inputs its \<open>select\<close> receives.
\<close>

subsection \<open>Market orders\<close>

definition marketChecks :: "PlaceMarketOrder \<Rightarrow> 't Processor \<Rightarrow> rejection option option" where
  "marketChecks cmd p = first_check (
     [check (\<not> CanAcceptMarketOrder (p_state p)) RejectMarketNotOpen ''market not open for market orders'',
      check (featureOff p FeatureMarketOrders) RejectFeatureDisabled ''market orders disabled'',
      check (Has (pm_Flags cmd) FlagIceberg) RejectFeatureDisabled ''market orders cannot be iceberg''] @
     reduceOnlyChecks (pm_UserID cmd) (pm_Side cmd) (pm_Qty cmd) (pm_Flags cmd) p @
     [check (knownOrder (pm_OrderID cmd) p) RejectDuplicateOrderID ''duplicate order id''] @
     qtyChecks (p_cfg p) (pm_Qty cmd) @
     [check (CanRest (pm_TIF cmd)) RejectFeatureDisabled
        ''market orders cannot use resting TIF (GTC/GTD/DAY)''])"

definition marketNode :: "MarketConfig \<Rightarrow> PlaceMarketOrder \<Rightarrow> nat \<Rightarrow> u64 \<Rightarrow> i64 \<Rightarrow> OrderNode \<Rightarrow> OrderNode" where
  "marketNode cfg cmd idx seq now n = n\<lparr>n_PoolIndex := idx, n_OrderID := pm_OrderID cmd,
     n_UserID := pm_UserID cmd, n_MarketID := mc_MarketID cfg, n_Side := pm_Side cmd,
     n_Type := Market, n_Price := Zero (mc_PricePrecision cfg), n_OrigQty := pm_Qty cmd,
     n_RemainQty := pm_Qty cmd, n_FilledQty := Zero (d_precision (pm_Qty cmd)),
     n_DisplayQty := pm_Qty cmd, n_OrigDisplayQty := pm_Qty cmd, n_TIF := pm_TIF cmd,
     n_Flags := pm_Flags cmd, n_STPMode := pm_STPMode cmd, n_Timestamp := now, n_SeqNum := seq\<rparr>"

definition market_accepted :: "PlaceMarketOrder \<Rightarrow> u64 \<Rightarrow> Base \<Rightarrow> Event" where
  "market_accepted cmd seq base = EvAccepted
     \<lparr>oa_Base = base, oa_OrderID = pm_OrderID cmd, oa_UserID = pm_UserID cmd, oa_Side = pm_Side cmd,
      oa_OrderType = Market, oa_Price = zeroDecimal, oa_StopPrice = zeroDecimal,
      oa_OrigQty = pm_Qty cmd, oa_DisplayQty = pm_Qty cmd, oa_TIF = pm_TIF cmd,
      oa_Flags = pm_Flags cmd, oa_OrderSeqNum = seq\<rparr>"

definition placeMarketOrder :: "'t btree_fns \<Rightarrow> PlaceMarketOrder \<Rightarrow> i64 \<Rightarrow> 't Processor \<Rightarrow> 't Processor option" where
  "placeMarketOrder B cmd now p =
     (case acquireOrder p of
        Inl err \<Rightarrow> Some (rejectOrder (pm_OrderID cmd) (pm_UserID cmd) RejectPoolExhausted
          ''node pool exhausted'' now p)
      | Inr (p, idx) \<Rightarrow> do {
          let (p, seq) = nextOrderSeq p;
          let p = p\<lparr>p_book := set_b_node idx (marketNode (p_cfg p) cmd idx seq now) (p_book p)\<rparr>;
          let p = emitEvent now (market_accepted cmd seq) p;
          r \<leftarrow> placeAndEmit B (PlaceMarket B idx) (pm_OrderID cmd) (pm_UserID cmd) (pm_Side cmd)
            (Zero (mc_PricePrecision (p_cfg p))) (pm_Qty cmd) now p;
          afterMatch B now r })"

definition processMarketOrder :: "'t btree_fns \<Rightarrow> PlaceMarketOrder \<Rightarrow> i64 \<Rightarrow> 't Processor \<Rightarrow> 't Processor option" where
  "processMarketOrder B cmd now p = do {
     verdict \<leftarrow> marketChecks cmd p;
     case verdict of
       Some (reason, msg) \<Rightarrow> Some (rejectOrder (pm_OrderID cmd) (pm_UserID cmd) reason msg now p)
     | None \<Rightarrow> placeMarketOrder B cmd now p }"

subsection \<open>Stop orders\<close>

definition priceCheck :: "MarketConfig \<Rightarrow> Decimal \<Rightarrow> string \<Rightarrow> rejection option option" where
  "priceCheck cfg price msg =
     check_that (if \<not> IsPositive price then Some True
                 else map_option Not (IsValidTick price (mc_TickSize cfg))) RejectInvalidTick msg"

definition stopChecks :: "PlaceStopOrder \<Rightarrow> i64 \<Rightarrow> 't Processor \<Rightarrow> rejection option option" where
  "stopChecks cmd now p = first_check (
     [check (\<not> CanAcceptStopOrder (p_state p)) RejectMarketNotOpen ''market not open for stop orders'',
      check (featureOff p FeatureStopOrders) RejectFeatureDisabled ''stop orders disabled'',
      check (Has (po_Flags cmd) FlagReduceOnly \<and> featureOff p FeatureReduceOnly) RejectFeatureDisabled
        ''ReduceOnly orders disabled'',
      check (knownOrder (po_OrderID cmd) p) RejectDuplicateOrderID ''duplicate order id'',
      check (po_TIF cmd = GTD \<and> sint (po_ExpireAt cmd) \<le> sint now) RejectInvalidExpiry
        ''GTD expireAt must be in the future''] @
     dayChecks (p_cfg p) (po_TIF cmd) now @
     qtyChecks (p_cfg p) (po_Qty cmd) @
     [check_that (and_then (\<not> IsZero (mc_MaxOrderValue (p_cfg p)))
          (valueAboveMax (po_TriggerPrice cmd) (po_Qty cmd) (mc_MaxOrderValue (p_cfg p))))
        RejectAboveMaxValue ''order value above maximum'',
      check_that (map_option Not (IsValidLot (po_Qty cmd) (mc_LotSize (p_cfg p)))) RejectInvalidLot
        ''qty is not a valid lot'',
      priceCheck (p_cfg p) (po_TriggerPrice cmd) ''trigger price is not a valid tick''] @
     (if po_ConvertTo cmd = Limit
      then [priceCheck (p_cfg p) (po_LimitPrice cmd) ''limit price is not a valid tick''] else []))"

definition stopNode :: "MarketConfig \<Rightarrow> PlaceStopOrder \<Rightarrow> nat \<Rightarrow> u64 \<Rightarrow> i64 \<Rightarrow> StopNode \<Rightarrow> StopNode" where
  "stopNode cfg cmd idx seq now n = n\<lparr>st_PoolIndex := idx, st_OrderID := po_OrderID cmd,
     st_UserID := po_UserID cmd, st_MarketID := mc_MarketID cfg, st_Side := po_Side cmd,
     st_TriggerPrice := po_TriggerPrice cmd, st_LimitPrice := po_LimitPrice cmd, st_Qty := po_Qty cmd,
     st_ConvertTo := po_ConvertTo cmd, st_TIF := po_TIF cmd,
     st_ExpireAt := (if po_TIF cmd = DAY then mc_SessionEnd cfg else po_ExpireAt cmd),
     st_Flags := po_Flags cmd, st_STPMode := po_STPMode cmd, st_SeqNum := seq, st_Timestamp := now\<rparr>"

definition stop_accepted :: "PlaceStopOrder \<Rightarrow> u64 \<Rightarrow> Base \<Rightarrow> Event" where
  "stop_accepted cmd seq base = EvAccepted
     \<lparr>oa_Base = base, oa_OrderID = po_OrderID cmd, oa_UserID = po_UserID cmd, oa_Side = po_Side cmd,
      oa_OrderType = po_ConvertTo cmd, oa_Price = po_LimitPrice cmd,
      oa_StopPrice = po_TriggerPrice cmd, oa_OrigQty = po_Qty cmd, oa_DisplayQty = po_Qty cmd,
      oa_TIF = po_TIF cmd, oa_Flags = po_Flags cmd, oa_OrderSeqNum = seq\<rparr>"

definition placeStopOrder :: "'t btree_fns \<Rightarrow> PlaceStopOrder \<Rightarrow> i64 \<Rightarrow> 't Processor \<Rightarrow> 't Processor option" where
  "placeStopOrder B cmd now p =
     (case AcquireNode (p_stopBook p) of
        Inl err \<Rightarrow> Some (rejectOrder (po_OrderID cmd) (po_UserID cmd) RejectPoolExhausted
          ''stop node pool exhausted'' now p)
      | Inr (sb, idx) \<Rightarrow> do {
          let (p, seq) = nextOrderSeq p;
          let sb = sb\<lparr>sb_heap := set_snode idx (stopNode (p_cfg p) cmd idx seq now) (sb_heap sb)\<rparr>;
          sb \<leftarrow> AddStop B idx sb;
          Some (emitEvent now (stop_accepted cmd seq) (p\<lparr>p_stopBook := sb\<rparr>)) })"

definition processStopOrder :: "'t btree_fns \<Rightarrow> PlaceStopOrder \<Rightarrow> i64 \<Rightarrow> 't Processor \<Rightarrow> 't Processor option" where
  "processStopOrder B cmd now p = do {
     verdict \<leftarrow> stopChecks cmd now p;
     case verdict of
       Some (reason, msg) \<Rightarrow> Some (rejectOrder (po_OrderID cmd) (po_UserID cmd) reason msg now p)
     | None \<Rightarrow> placeStopOrder B cmd now p }"

subsection \<open>Cancellation\<close>

text \<open>The events of a cancelled resting order, before its node is released.\<close>

definition emitCanceled :: "'t btree_fns \<Rightarrow> CancelOrder \<Rightarrow> OrderNode \<Rightarrow> i64 \<Rightarrow> 't Processor \<Rightarrow> 't Processor option" where
  "emitCanceled B cmd n now p = do {
     canceledQty \<leftarrow> (if Has (n_Flags n) FlagIceberg then Add (n_RemainQty n) (n_HiddenQty n)
                    else Some (n_RemainQty n));
     let p = emitEvent now (\<lambda>base. EvCanceled
       \<lparr>oc_Base = base, oc_OrderID = co_OrderID cmd, oc_UserID = co_UserID cmd, oc_Side = n_Side n,
        oc_Price = n_Price n, oc_CanceledQty = canceledQty, oc_FilledQty = n_FilledQty n,
        oc_Reason = CancelUserRequested\<rparr>) p;
     (levelTotal, levelDisplay, orderCount, exists) \<leftarrow> LevelInfo B (n_Side n) (n_Price n) (p_book p);
     let zero = Zero (mc_QtyPrecision (p_cfg p));
     Some (emitEvent now (\<lambda>base. EvDepthUpdate
       \<lparr>du_Base = base, du_Side = n_Side n, du_Price = n_Price n,
        du_NewTotalQty = (if exists then levelTotal else zero),
        du_NewDisplayQty = (if exists then levelDisplay else zero), du_NewOrderCount = orderCount,
        du_UpdateType = (if exists then DepthModify else DepthDelete)\<rparr>) p) }"

definition cancelStopOrder :: "'t btree_fns \<Rightarrow> CancelOrder \<Rightarrow> i64 \<Rightarrow> 't Processor \<Rightarrow> 't Processor option" where
  "cancelStopOrder B cmd now p = do {
     r \<leftarrow> CancelStop B (co_OrderID cmd) (co_UserID cmd) (p_stopBook p);
     case r of
       Inr (i, sb) \<Rightarrow> do {
         let n = sb_node sb i;
         let p = emitEvent now (\<lambda>base. EvCanceled
           \<lparr>oc_Base = base, oc_OrderID = co_OrderID cmd, oc_UserID = co_UserID cmd,
            oc_Side = st_Side n, oc_Price = st_TriggerPrice n, oc_CanceledQty = st_Qty n,
            oc_FilledQty = zeroDecimal, oc_Reason = CancelUserRequested\<rparr>) (p\<lparr>p_stopBook := sb\<rparr>);
         sb \<leftarrow> ReleaseNode (st_PoolIndex n) (p_stopBook p);
         Some (p\<lparr>p_stopBook := sb\<rparr>) }
     | Inl ErrStopOwnershipMismatch \<Rightarrow>
         Some (rejectOrder (co_OrderID cmd) (co_UserID cmd) RejectOrderNotFound ''order not found'' now p)
     | Inl _ \<Rightarrow>
         Some (rejectOrder (co_OrderID cmd) (co_UserID cmd) RejectOrderNotFound ''order not found'' now p) }"

definition processCancelOrder :: "'t btree_fns \<Rightarrow> CancelOrder \<Rightarrow> i64 \<Rightarrow> 't Processor \<Rightarrow> 't Processor option" where
  "processCancelOrder B cmd now p = do {
     r \<leftarrow> Cancel B (co_OrderID cmd) (co_UserID cmd) (p_book p);
     case r of
       Inr (i, b) \<Rightarrow> do {
         p \<leftarrow> emitCanceled B cmd (b_node b i) now (p\<lparr>p_book := b\<rparr>);
         releaseOrder (n_PoolIndex (b_node b i)) p }
     | Inl ErrOwnershipMismatch \<Rightarrow>
         Some (rejectOrder (co_OrderID cmd) (co_UserID cmd) RejectOrderNotFound ''order not found'' now p)
     | Inl _ \<Rightarrow> cancelStopOrder B cmd now p }"

subsection \<open>Administration\<close>

definition processAdminHalt :: "AdminHaltMarket \<Rightarrow> i64 \<Rightarrow> 't Processor \<Rightarrow> 't Processor" where
  "processAdminHalt cmd now p = haltMarket (hm_Reason cmd) HaltAdmin now p"

definition processAdminResume :: "AdminResumeMarket \<Rightarrow> i64 \<Rightarrow> 't Processor \<Rightarrow> 't Processor" where
  "processAdminResume cmd now p =
     (let target = p_preHaltState p;
          target = (if target \<noteq> Open \<and> target \<noteq> State_Machine.Auction then Open else target)
      in case transitionTo target p of
           Inl _ \<Rightarrow> p
         | Inr p \<Rightarrow> emitEvent now (\<lambda>base. EvResumed \<lparr>mr_Base = base, mr_ResumedBy = ''admin''\<rparr>) p)"

subsection \<open>Expiry\<close>

definition expired_event :: "OrderID \<Rightarrow> UserID \<Rightarrow> Side \<Rightarrow> Decimal \<Rightarrow> Decimal \<Rightarrow> Base \<Rightarrow> Event" where
  "expired_event orderID userID side price qty base = EvExpired
     \<lparr>oe_Base = base, oe_OrderID = orderID, oe_UserID = userID, oe_Side = side, oe_Price = price,
      oe_ExpiredQty = qty\<rparr>"

fun emitExpired :: "nat list \<Rightarrow> i64 \<Rightarrow> 't Processor \<Rightarrow> 't Processor option" where
  "emitExpired [] now p = Some p"
| "emitExpired (i # expired) now p = do {
     let n = b_node (p_book p) i;
     let p = emitEvent now (expired_event (n_OrderID n) (n_UserID n) (n_Side n) (n_Price n) (n_RemainQty n)) p;
     p \<leftarrow> releaseOrder (n_PoolIndex n) p;
     emitExpired expired now p }"

fun emitExpiredStops :: "nat list \<Rightarrow> i64 \<Rightarrow> 't Processor \<Rightarrow> 't Processor option" where
  "emitExpiredStops [] now p = Some p"
| "emitExpiredStops (i # expired) now p = do {
     let n = sb_node (p_stopBook p) i;
     let p = emitEvent now (expired_event (st_OrderID n) (st_UserID n) (st_Side n) (st_TriggerPrice n) (st_Qty n)) p;
     sb \<leftarrow> ReleaseNode (st_PoolIndex n) (p_stopBook p);
     emitExpiredStops expired now (p\<lparr>p_stopBook := sb\<rparr>) }"

text \<open>\<open>ids\<close> and \<open>stopIds\<close> are the orders in which the run visits the two indices.\<close>

definition runExpiryCheck :: "'t btree_fns \<Rightarrow> OrderID list \<Rightarrow> OrderID list \<Rightarrow> i64 \<Rightarrow> 't Processor \<Rightarrow> 't Processor option" where
  "runExpiryCheck B ids stopIds now p = do {
     (expired, b) \<leftarrow> ExpireGTD B ids now (p_book p);
     p \<leftarrow> emitExpired expired now (p\<lparr>p_book := b\<rparr>);
     (expiredStops, sb) \<leftarrow> ExpireGTD_stop B stopIds now (p_stopBook p);
     emitExpiredStops expiredStops now (p\<lparr>p_stopBook := sb\<rparr>) }"

subsection \<open>The auction\<close>

definition openAuction :: "i64 \<Rightarrow> 't Processor \<Rightarrow> 't Processor" where
  "openAuction now p =
     (case transitionTo State_Machine.Auction p of
        Inl _ \<Rightarrow> p
      | Inr p \<Rightarrow> emitEvent now (\<lambda>base. EvAuctionOpened
          \<lparr>ap_Base = base, ap_IndicativePrice = Zero (mc_PricePrecision (p_cfg p)),
           ap_IndicativeQty = Zero (mc_QtyPrecision (p_cfg p))\<rparr>) p)"

definition auctionNode :: "MarketConfig \<Rightarrow> AuctionOrder \<Rightarrow> nat \<Rightarrow> OrderNode \<Rightarrow> OrderNode" where
  "auctionNode cfg a idx n = n\<lparr>n_PoolIndex := idx, n_OrderID := ao_OrderID a, n_UserID := ao_UserID a,
     n_MarketID := mc_MarketID cfg, n_Side := ao_Side a, n_Type := Limit, n_Price := ao_Price a,
     n_OrigQty := ao_Qty a, n_RemainQty := ao_Qty a, n_FilledQty := Zero (d_precision (ao_Qty a)),
     n_DisplayQty := ao_Qty a, n_OrigDisplayQty := ao_Qty a, n_TIF := GTC, n_SeqNum := ao_SeqNum a\<rparr>"

text \<open>Unmatched GTC orders go to the continuous book.\<close>

fun carryOver :: "'t btree_fns \<Rightarrow> AuctionOrder list \<Rightarrow> i64 \<Rightarrow> 't Processor \<Rightarrow> 't Processor option" where
  "carryOver B [] now p = Some p"
| "carryOver B (a # unmatched) now p =
     (case acquireOrder p of
        Inl err \<Rightarrow> carryOver B unmatched now (rejectOrder (ao_OrderID a) (ao_UserID a)
          RejectPoolExhausted ''node pool exhausted on auction carryover'' now p)
      | Inr (p, idx) \<Rightarrow> do {
          let p = p\<lparr>p_book := set_b_node idx (auctionNode (p_cfg p) a idx) (p_book p)\<rparr>;
          (_, p) \<leftarrow> placeAndEmit B (PlaceLimit B idx) (ao_OrderID a) (ao_UserID a) (ao_Side a)
            (ao_Price a) (ao_Qty a) now p;
          carryOver B unmatched now p })"

fun emitAuctionCancels :: "AuctionOrder list \<Rightarrow> i64 \<Rightarrow> 't Processor \<Rightarrow> 't Processor" where
  "emitAuctionCancels [] now p = p"
| "emitAuctionCancels (a # canceled) now p =
     emitAuctionCancels canceled now (emitEvent now (\<lambda>base. EvCanceled
       \<lparr>oc_Base = base, oc_OrderID = ao_OrderID a, oc_UserID = ao_UserID a, oc_Side = ao_Side a,
        oc_Price = ao_Price a, oc_CanceledQty = ao_Qty a,
        oc_FilledQty = Zero (d_precision (ao_Qty a)), oc_Reason = CancelIOC\<rparr>) p)"

text \<open>The execution at a price: the fills, the carry-over, the cancels and the transition to
  continuous trading, whose error is ignored.  The auction book stays as it is.\<close>

definition executeAuction :: "'t btree_fns \<Rightarrow> Decimal \<Rightarrow> Decimal \<Rightarrow> AuctionBook \<Rightarrow> i64 \<Rightarrow> 't Processor \<Rightarrow> 't Processor option" where
  "executeAuction B clearingPrice matchedQty ab now p = do {
     (fills, unmatched, canceled) \<leftarrow> Sweep clearingPrice ab;
     (_, p) \<leftarrow> emitFillEvents fills now p;
     p \<leftarrow> carryOver B unmatched now p;
     let p = emitAuctionCancels canceled now p;
     let p = emitEvent now (\<lambda>base. EvAuctionCleared
       \<lparr>al_Base = base, al_ClearingPrice = clearingPrice, al_MatchedQty = matchedQty\<rparr>) p;
     Some (case transitionTo Open p of Inl _ \<Rightarrow> p | Inr p \<Rightarrow> p) }"

definition auctionReference :: "MarketConfig \<Rightarrow> Decimal" where
  "auctionReference cfg =
     (case mc_Auction cfg of
        None \<Rightarrow> Zero (mc_PricePrecision cfg)
      | Some ac \<Rightarrow> if \<not> IsZero (ac_ReferencePrice ac) then ac_ReferencePrice ac
                  else Zero (mc_PricePrecision cfg))"

text \<open>\<open>keys\<close> is the order in which the run visits the map of prices.\<close>

definition clearAuction :: "'t btree_fns \<Rightarrow> string list \<Rightarrow> i64 \<Rightarrow> 't Processor \<Rightarrow> 't Processor option" where
  "clearAuction B keys now p =
     (let p = (if Current (p_state p) = PreOpen then openAuction now p else p) in
      if Current (p_state p) \<noteq> State_Machine.Auction then Some p
      else do {
        ab \<leftarrow> p_auctionBook p;
        (clearingPrice, matchedQty, found) \<leftarrow> ComputeClearingPrice keys (auctionReference (p_cfg p)) ab;
        if found then executeAuction B clearingPrice matchedQty ab now p
        else executeAuction B (Zero (mc_PricePrecision (p_cfg p))) (Zero (mc_QtyPrecision (p_cfg p))) ab now p })"

subsection \<open>Dispatch and the loop\<close>

definition dispatch :: "'t btree_fns \<Rightarrow> Command \<Rightarrow> i64 \<Rightarrow> 't Processor \<Rightarrow> 't Processor option" where
  "dispatch B cmd now p =
     (case cmd of
        CmdLimit c \<Rightarrow> processLimitOrder B c now p
      | CmdMarket c \<Rightarrow> processMarketOrder B c now p
      | CmdStop c \<Rightarrow> processStopOrder B c now p
      | CmdCancel c \<Rightarrow> processCancelOrder B c now p
      | CmdHalt c \<Rightarrow> Some (processAdminHalt c now p)
      | CmdResume c \<Rightarrow> Some (processAdminResume c now p)
      | CmdCreate c \<Rightarrow> Some p)"

text \<open>What the \<open>select\<close> of \<open>run\<close> receives: a command, a tick of the timer, or one of the two auction
  timers, each with the time and, where a map is visited, the order.\<close>

datatype Input =
    InCommand Command i64
  | InTick "OrderID list" "OrderID list" i64
  | InAuctionOpen i64
  | InAuctionClear "string list" i64

fun serve :: "'t btree_fns \<Rightarrow> Input \<Rightarrow> 't Processor \<Rightarrow> 't Processor option" where
  "serve B (InCommand cmd now) p = dispatch B cmd now p"
| "serve B (InTick ids stopIds now) p = runExpiryCheck B ids stopIds now p"
| "serve B (InAuctionOpen now) p = Some (openAuction now p)"
| "serve B (InAuctionClear keys now) p = clearAuction B keys now p"

fun run :: "'t btree_fns \<Rightarrow> Input list \<Rightarrow> 't Processor \<Rightarrow> 't Processor option" where
  "run B [] p = Some p"
| "run B (i # inputs) p = do { p \<leftarrow> serve B i p; run B inputs p }"

end
