(* ===== verification/Engine.thy ===== *)
theory Engine
  imports Handlers
begin

section \<open>The engine and its recovery (\<open>engine/engine.go\<close>, \<open>engine/recovery.go\<close>)\<close>

text \<open>
  \<open>Engine\<close> builds the components of one market, seeds recovered orders, and queues commands.
  The bounded command channel is a list with a capacity; the goroutine that receives from it
  is \<open>receive\<close>, one command at a time.  The pools and the order counter, which the code shares
  by pointer, are those of the processor's book.
\<close>

datatype engine_error = ErrNotStarted | ErrAlreadyStarted | ErrCommandQueueFull

definition defaultCmdBuffer :: int where "defaultCmdBuffer = 1024"
definition defaultEventBuffer :: int where "defaultEventBuffer = 4096"
definition defaultNodePool :: int where "defaultNodePool = 100000"
definition defaultLevelPool :: int where "defaultLevelPool = 10000"
definition defaultStopPool :: int where "defaultStopPool = 10000"

record EngineStats =
  es_MarketID :: MarketID
  es_State :: MarketState
  es_OrderSeq :: u64
  es_EventSeq :: u64
  es_NodePoolUsed :: nat
  es_NodePoolCapacity :: nat
  es_LevelPoolUsed :: nat
  es_LevelPoolCapacity :: nat
  es_OpenOrders :: nat
  es_StopOrders :: int
  es_BidLevels :: int
  es_AskLevels :: int

subsection \<open>Recovered orders\<close>

record RecoveredOrder =
  ro_OrderID :: OrderID
  ro_UserID :: UserID
  ro_Side :: Side
  ro_Type :: OrderType
  ro_Price :: Decimal
  ro_StopPrice :: Decimal
  ro_RemainQty :: Decimal
  ro_DisplayQty :: Decimal
  ro_Flags :: OrderFlags
  ro_TIF :: TIF
  ro_ExpireAt :: i64

definition recoveredStop :: "MarketConfig \<Rightarrow> RecoveredOrder \<Rightarrow> nat \<Rightarrow> u64 \<Rightarrow> i64 \<Rightarrow> StopNode \<Rightarrow> StopNode" where
  "recoveredStop cfg ro idx seq now n =
     (let n = n\<lparr>st_PoolIndex := idx, st_OrderID := ro_OrderID ro, st_UserID := ro_UserID ro,
            st_MarketID := mc_MarketID cfg, st_Side := ro_Side ro, st_TriggerPrice := ro_StopPrice ro,
            st_Qty := ro_RemainQty ro, st_TIF := ro_TIF ro, st_Flags := ro_Flags ro,
            st_ExpireAt := ro_ExpireAt ro, st_Timestamp := now, st_SeqNum := seq\<rparr>
      in if ro_Type ro = StopLimit then n\<lparr>st_ConvertTo := Limit, st_LimitPrice := ro_Price ro\<rparr>
         else n\<lparr>st_ConvertTo := Market\<rparr>)"

definition seedStop :: "'t btree_fns \<Rightarrow> RecoveredOrder \<Rightarrow> i64 \<Rightarrow> 't Processor \<Rightarrow> 't Processor option" where
  "seedStop B ro now p =
     (case AcquireNode (p_stopBook p) of
        Inl err \<Rightarrow> Some p
      | Inr (sb, idx) \<Rightarrow> do {
          let (p, seq) = nextOrderSeq p;
          sb \<leftarrow> AddStop B idx
            (sb\<lparr>sb_heap := set_snode idx (recoveredStop (p_cfg p) ro idx seq now) (sb_heap sb)\<rparr>);
          Some (p\<lparr>p_stopBook := sb\<rparr>) })"

definition recoveredNode :: "MarketConfig \<Rightarrow> RecoveredOrder \<Rightarrow> nat \<Rightarrow> u64 \<Rightarrow> i64 \<Rightarrow> OrderNode \<Rightarrow> OrderNode option" where
  "recoveredNode cfg ro idx seq now n = do {
     let n = n\<lparr>n_PoolIndex := idx, n_OrderID := ro_OrderID ro, n_UserID := ro_UserID ro,
       n_MarketID := mc_MarketID cfg, n_Side := ro_Side ro, n_Type := Limit, n_Price := ro_Price ro,
       n_OrigQty := ro_RemainQty ro, n_RemainQty := ro_RemainQty ro,
       n_FilledQty := Zero (mc_QtyPrecision cfg), n_TIF := ro_TIF ro, n_Flags := ro_Flags ro,
       n_ExpireAt := ro_ExpireAt ro, n_Timestamp := now, n_SeqNum := seq\<rparr>;
     iceberg \<leftarrow> and_then (Has (ro_Flags ro) FlagIceberg \<and> IsPositive (ro_DisplayQty ro))
       (LessThan (ro_DisplayQty ro) (ro_RemainQty ro));
     if iceberg then do {
       hidden \<leftarrow> Sub (ro_RemainQty ro) (ro_DisplayQty ro);
       Some (n\<lparr>n_DisplayQty := ro_DisplayQty ro, n_OrigDisplayQty := ro_DisplayQty ro,
         n_HiddenQty := hidden, n_RemainQty := ro_DisplayQty ro\<rparr>) }
     else Some (n\<lparr>n_DisplayQty := ro_RemainQty ro, n_OrigDisplayQty := ro_RemainQty ro,
         n_HiddenQty := Zero (mc_QtyPrecision cfg)\<rparr>) }"

definition seedOrder :: "'t btree_fns \<Rightarrow> RecoveredOrder \<Rightarrow> i64 \<Rightarrow> 't Processor \<Rightarrow> 't Processor option" where
  "seedOrder B ro now p =
     (case acquireOrder p of
        Inl err \<Rightarrow> Some p
      | Inr (p, idx) \<Rightarrow> do {
          let (p, seq) = nextOrderSeq p;
          n \<leftarrow> recoveredNode (p_cfg p) ro idx seq now (b_node (p_book p) idx);
          let p = p\<lparr>p_book := set_b_node idx (\<lambda>_. n) (p_book p)\<rparr>;
          r \<leftarrow> PlaceResting B idx (p_book p);
          case r of
            Inl err \<Rightarrow> releaseOrder (n_PoolIndex (b_node (p_book p) idx)) p
          | Inr b \<Rightarrow> Some (p\<lparr>p_book := b\<rparr>) })"

fun seedInitialOrders :: "'t btree_fns \<Rightarrow> RecoveredOrder list \<Rightarrow> i64 \<Rightarrow> 't Processor \<Rightarrow> 't Processor option" where
  "seedInitialOrders B [] now p = Some p"
| "seedInitialOrders B (ro # recovered) now p =
     Option.bind
       (if ro_Type ro = Stop \<or> ro_Type ro = StopLimit then seedStop B ro now p
        else if ro_Type ro = Market then Some p
        else seedOrder B ro now p)
       (seedInitialOrders B recovered now)"

subsection \<open>Options\<close>

record options =
  op_cmdBuffer :: int
  op_eventBuffer :: int
  op_nodePool :: int
  op_levelPool :: int
  op_preHook :: "PreOrderHook option"
  op_feeCalc :: "FeeCalculator option"
  op_initialOrders :: "RecoveredOrder list"

type_synonym Option = "options \<Rightarrow> options"

definition WithPreOrderHook :: "PreOrderHook option \<Rightarrow> Option" where
  "WithPreOrderHook h op = op\<lparr>op_preHook := h\<rparr>"

definition WithCommandBuffer :: "int \<Rightarrow> Option" where
  "WithCommandBuffer n op = op\<lparr>op_cmdBuffer := n\<rparr>"

definition WithEventBuffer :: "int \<Rightarrow> Option" where
  "WithEventBuffer n op = op\<lparr>op_eventBuffer := n\<rparr>"

definition WithNodePoolSize :: "int \<Rightarrow> Option" where
  "WithNodePoolSize n op = op\<lparr>op_nodePool := n\<rparr>"

definition WithLevelPoolSize :: "int \<Rightarrow> Option" where
  "WithLevelPoolSize n op = op\<lparr>op_levelPool := n\<rparr>"

definition WithFeeCalculator :: "FeeCalculator option \<Rightarrow> Option" where
  "WithFeeCalculator f op = op\<lparr>op_feeCalc := f\<rparr>"

definition WithInitialOrders :: "RecoveredOrder list \<Rightarrow> Option" where
  "WithInitialOrders recovered op = op\<lparr>op_initialOrders := recovered\<rparr>"

definition default_options :: options where
  "default_options = \<lparr>op_cmdBuffer = defaultCmdBuffer, op_eventBuffer = defaultEventBuffer,
     op_nodePool = defaultNodePool, op_levelPool = defaultLevelPool, op_preHook = None,
     op_feeCalc = None, op_initialOrders = []\<rparr>"

subsection \<open>The engine\<close>

record 't Engine =
  en_processor :: "'t Processor"
  en_cfg :: MarketConfig
  en_cmdChan :: "Command list"
  en_cmdBuffer :: nat
  en_started :: bool
  en_quit :: bool
  en_initialOrders :: "RecoveredOrder list"

text \<open>\<open>make\<close> panics on a negative size.\<close>

definition make_size :: "int \<Rightarrow> nat option" where
  "make_size n = (if n < 0 then None else Some (nat n))"

definition New_engine :: "'t btree_fns \<Rightarrow> (nat \<Rightarrow> string) \<Rightarrow> MarketConfig \<Rightarrow> Option list \<Rightarrow>
    (config_error + 't Engine) option" where
  "New_engine B newULID cfg opts = do {
     valid \<leftarrow> Validate cfg;
     case valid of
       Inl err \<Rightarrow> Some (Inl err)
     | Inr cfg \<Rightarrow> do {
         let op = fold (\<lambda>opt op. opt op) opts default_options;
         let feeCalc = (case op_feeCalc op of None \<Rightarrow> ZeroFee_Calculate | Some f \<Rightarrow> f);
         nodes \<leftarrow> make_size (op_nodePool op);
         levels \<leftarrow> make_size (op_levelPool op);
         let b = NewOrderBook B cfg \<lparr>h_nodes = New zeroNode nodes, h_levels = New zeroLevel levels\<rparr>
                   (NewCounter (mc_InitialOrderSeq cfg));
         let breaker = map_option NewCircuitBreaker (mc_CircuitBreaker cfg);
         let stops = nat defaultStopPool;
         let maxCascade = (if mc_MaxCascadeDepth cfg = 0 then 10 else mc_MaxCascadeDepth cfg);
         let sb = NewStopBook B
                    \<lparr>sh_nodes = New zeroStopNode stops, sh_levels = New zeroStopLevel (stops div 10)\<rparr> maxCascade;
         let ab = (if Has_feature (mc_Features cfg) FeatureAuctions \<and> mc_Auction cfg \<noteq> None
                   then Some (NewAuctionBook (mc_PricePrecision cfg) (mc_QtyPrecision cfg)) else None);
         cmdBuffer \<leftarrow> make_size (op_cmdBuffer op);
         eventBuffer \<leftarrow> make_size (op_eventBuffer op);
         let p = newCommandProcessor b sb ab breaker (NewMachine cfg) feeCalc (op_preHook op) cfg newULID;
         Some (Inr \<lparr>en_processor = p, en_cfg = cfg, en_cmdChan = [], en_cmdBuffer = cmdBuffer,
            en_started = False, en_quit = False, en_initialOrders = op_initialOrders op\<rparr>) } }"

definition Start :: "'t btree_fns \<Rightarrow> i64 \<Rightarrow> 't Engine \<Rightarrow> (engine_error + 't Engine) option" where
  "Start B now e =
     (if en_started e then Some (Inl ErrAlreadyStarted)
      else do {
        p \<leftarrow> seedInitialOrders B (en_initialOrders e) now (en_processor e);
        Some (Inr (e\<lparr>en_started := True, en_processor := p\<rparr>)) })"

definition Submit :: "Command \<Rightarrow> 't Engine \<Rightarrow> engine_error + 't Engine" where
  "Submit cmd e =
     (if \<not> en_started e then Inl ErrNotStarted
      else if length (en_cmdChan e) < en_cmdBuffer e then Inr (e\<lparr>en_cmdChan := en_cmdChan e @ [cmd]\<rparr>)
      else Inl ErrCommandQueueFull)"

text \<open>One turn of the processor's loop that receives a command; nothing when the channel is empty.\<close>

definition receive :: "'t btree_fns \<Rightarrow> i64 \<Rightarrow> 't Engine \<Rightarrow> 't Engine option" where
  "receive B now e =
     (case en_cmdChan e of
        [] \<Rightarrow> Some e
      | cmd # cmds \<Rightarrow> do {
          p \<leftarrow> dispatch B cmd now (en_processor e);
          Some (e\<lparr>en_cmdChan := cmds, en_processor := p\<rparr>) })"

definition Events_of :: "'t Engine \<Rightarrow> Event list" where
  "Events_of e = p_events (en_processor e)"

definition event_level :: "DepthLevel \<Rightarrow> EventDepthLevel" where
  "event_level l = \<lparr>ed_Price = dl_Price l, ed_TotalQty = dl_TotalQty l,
     ed_DisplayQty = dl_DisplayQty l, ed_OrderCount = dl_OrderCount l\<rparr>"

definition Snapshot_engine :: "'t btree_fns \<Rightarrow> int \<Rightarrow> i64 \<Rightarrow> 't Engine \<Rightarrow> BookSnapshot option" where
  "Snapshot_engine B levels now e = do {
     (bids, asks) \<leftarrow> Snapshot B levels (p_book (en_processor e));
     Some \<lparr>bs_Base = NewBase 0 now (mc_MarketID (en_cfg e)), bs_Bids = map event_level bids,
           bs_Asks = map event_level asks\<rparr> }"

definition BBO_engine :: "'t btree_fns \<Rightarrow> 't Engine \<Rightarrow> Decimal \<times> Decimal \<times> bool \<times> bool" where
  "BBO_engine B e = BBO B (p_book (en_processor e))"

definition Stats :: "'t Engine \<Rightarrow> EngineStats" where
  "Stats e =
     (let p = en_processor e; h = b_heap (p_book p)
      in \<lparr>es_MarketID = mc_MarketID (en_cfg e), es_State = Current (p_state p),
          es_OrderSeq = Peek (b_orderSeq (p_book p)), es_EventSeq = Peek (p_eventSeq p),
          es_NodePoolUsed = Len (h_nodes h), es_NodePoolCapacity = Capacity (h_nodes h),
          es_LevelPoolUsed = Len (h_levels h), es_LevelPoolCapacity = Capacity (h_levels h),
          es_OpenOrders = OpenOrderCount (p_book p), es_StopOrders = Len_stop (p_stopBook p),
          es_BidLevels = BidLevelCount (p_book p), es_AskLevels = AskLevelCount (p_book p)\<rparr>)"

text \<open>Closing twice closes a closed channel, which panics.\<close>

definition Close :: "'t Engine \<Rightarrow> (engine_error + 't Engine) option" where
  "Close e =
     (if \<not> en_started e then Some (Inl ErrNotStarted)
      else if en_quit e then None
      else Some (Inr (e\<lparr>en_quit := True\<rparr>)))"

subsection \<open>The loop of the processor\<close>

text \<open>
  \<open>run\<close> arms two timers when the market has auctions -- at once (or a millisecond later) where their time has
  passed -- and then receives from whatever is ready: the command channel, the ticker, a
  timer, which is disarmed when it has fired, or the channel that \<open>Close\<close> closes, which ends the loop.
  Between two turns callers submit and close.  A step carries the commands that \<open>Submit\<close>
  accepted and the inputs that were served in it; times are nanoseconds.
\<close>

definition armTimers :: "i64 \<Rightarrow> 't Processor \<Rightarrow> i64 option \<times> i64 option" where
  "armTimers now p =
     (case (p_auctionBook p, mc_Auction (p_cfg p)) of
        (Some ab, Some ac) \<Rightarrow>
          let openAt = ac_OpenTime ac - ac_PreOpenDuration ac;
              clearAt = ac_OpenTime ac
          in (Some (if sint now < sint openAt then openAt else now),
              Some (if sint now < sint clearAt then clearAt else now + 1000000))
      | _ \<Rightarrow> (None, None))"

record 't Loop =
  lp_engine :: "'t Engine"
  lp_openC :: "i64 option"
  lp_clearC :: "i64 option"
  lp_done :: bool

definition startLoop :: "i64 \<Rightarrow> 't Engine \<Rightarrow> 't Loop" where
  "startLoop now e =
     (let (openC, clearC) = armTimers now (en_processor e)
      in \<lparr>lp_engine = e, lp_openC = openC, lp_clearC = clearC, lp_done = False\<rparr>)"

definition serve_input :: "'t btree_fns \<Rightarrow> Input \<Rightarrow> 't Loop \<Rightarrow> 't Loop option" where
  "serve_input B i l = do {
     p \<leftarrow> serve B i (en_processor (lp_engine l));
     Some (l\<lparr>lp_engine := (lp_engine l)\<lparr>en_processor := p\<rparr>\<rparr>) }"

definition fired :: "i64 option \<Rightarrow> i64 \<Rightarrow> bool" where
  "fired timer now \<longleftrightarrow> (case timer of None \<Rightarrow> False | Some at \<Rightarrow> sint at \<le> sint now)"

inductive loop_step :: "'t btree_fns \<Rightarrow> 't Loop \<Rightarrow> Command list \<Rightarrow> Input list \<Rightarrow> 't Loop \<Rightarrow> bool" for B where
  accept: "Submit cmd (lp_engine l) = Inr e \<Longrightarrow> loop_step B l [cmd] [] (l\<lparr>lp_engine := e\<rparr>)"
| refuse: "Submit cmd (lp_engine l) = Inl err \<Longrightarrow> loop_step B l [] [] l"
| close: "Close (lp_engine l) = Some (Inr e) \<Longrightarrow> loop_step B l [] [] (l\<lparr>lp_engine := e\<rparr>)"
| command: "\<not> lp_done l \<Longrightarrow> en_cmdChan (lp_engine l) = cmd # cmds \<Longrightarrow> receive B now (lp_engine l) = Some e \<Longrightarrow>
    loop_step B l [] [InCommand cmd now] (l\<lparr>lp_engine := e\<rparr>)"
| tick: "\<not> lp_done l \<Longrightarrow> serve_input B (InTick ids stopIds now) l = Some l' \<Longrightarrow>
    loop_step B l [] [InTick ids stopIds now] l'"
| auction_open: "\<not> lp_done l \<Longrightarrow> fired (lp_openC l) now \<Longrightarrow> serve_input B (InAuctionOpen now) l = Some l' \<Longrightarrow>
    loop_step B l [] [InAuctionOpen now] (l'\<lparr>lp_openC := None\<rparr>)"
| auction_clear: "\<not> lp_done l \<Longrightarrow> fired (lp_clearC l) now \<Longrightarrow> serve_input B (InAuctionClear keys now) l = Some l' \<Longrightarrow>
    loop_step B l [] [InAuctionClear keys now] (l'\<lparr>lp_clearC := None\<rparr>)"
| leave: "\<not> lp_done l \<Longrightarrow> en_quit (lp_engine l) \<Longrightarrow> loop_step B l [] [] (l\<lparr>lp_done := True\<rparr>)"

inductive_cases loop_stepE: "loop_step B l acc ins l'"

inductive loop_run :: "'t btree_fns \<Rightarrow> 't Loop \<Rightarrow> Command list \<Rightarrow> Input list \<Rightarrow> 't Loop \<Rightarrow> bool" for B where
  begun: "loop_run B l [] [] l"
| step: "loop_run B l acc ins l' \<Longrightarrow> loop_step B l' acc' ins' l'' \<Longrightarrow> loop_run B l (acc @ acc') (ins @ ins') l''"

end
