(* ===== verification/Event_Log.thy ===== *)
theory Event_Log
  imports Engine
begin

section \<open>The event log\<close>

text \<open>
  Every operation of the processor only appends to the event log, numbers what it appends, and
  reports every trade.  \<open>logs ts p p'\<close> says that from \<open>p\<close> to \<open>p'\<close> events with the times \<open>ts\<close>
  were appended, each with the market's id and the next number of the event counter; that
  every trade among them is reported by four consistent events in a row; and that the positions have moved
  by the reported trades.  It composes, so each operation is a line over the operations it calls.
\<close>

subsection \<open>Reported trades\<close>

text \<open>The four events of a trade: the fill of the maker, the fill of the taker, the trade, and the depth at
  its price.\<close>

definition trade_group :: "TradeFill \<Rightarrow> TradeFill \<Rightarrow> TradeExecuted \<Rightarrow> DepthUpdate \<Rightarrow> bool" where
  "trade_group m t x d \<longleftrightarrow>
     tf_TradeID m = te_TradeID x \<and> tf_TradeID t = te_TradeID x \<and>
     tf_Role m = RoleMaker \<and> tf_Role t = RoleTaker \<and>
     tf_OrderID m = te_MakerOrderID x \<and> tf_OrderID t = te_TakerOrderID x \<and>
     tf_UserID m = te_MakerUserID x \<and> tf_UserID t = te_TakerUserID x \<and>
     tf_Side m = te_MakerSide x \<and> tf_Side t = Opposite (te_MakerSide x) \<and>
     tf_Price m = te_Price x \<and> tf_Price t = te_Price x \<and>
     tf_FilledQty m = te_Qty x \<and> tf_FilledQty t = te_Qty x \<and>
     tf_RemainQty m = te_MakerRemainQty x \<and> tf_RemainQty t = te_TakerRemainQty x \<and>
     tf_Fee m = te_MakerFee x \<and> tf_Fee t = te_TakerFee x \<and>
     du_Side d = te_MakerSide x \<and> du_Price d = te_Price x"

fun trade_ev :: "Event \<Rightarrow> bool" where
  "trade_ev (EvTradeFill e) = True"
| "trade_ev (EvTradeExecuted e) = True"
| "trade_ev _ = False"

inductive trades_reported :: "Event list \<Rightarrow> bool" where
  none: "trades_reported []"
| other: "\<not> trade_ev e \<Longrightarrow> trades_reported es \<Longrightarrow> trades_reported (e # es)"
| trade: "trade_group m t x d \<Longrightarrow> trades_reported es \<Longrightarrow>
    trades_reported (EvTradeFill m # EvTradeFill t # EvTradeExecuted x # EvDepthUpdate d # es)"

lemma trades_reported_append: "trades_reported es \<Longrightarrow> trades_reported fs \<Longrightarrow> trades_reported (es @ fs)"
  by (induction rule: trades_reported.induct) (simp_all add: trades_reported.intros)

text \<open>What a user bought less what he sold, by the reports.\<close>

fun bought_in :: "UserID \<Rightarrow> Event \<Rightarrow> i64" where
  "bought_in u (EvTradeExecuted x) =
     (if te_MakerUserID x = u then (if te_MakerSide x = Ask then - d_value (te_Qty x) else d_value (te_Qty x)) else 0) +
     (if te_TakerUserID x = u then (if te_MakerSide x = Ask then d_value (te_Qty x) else - d_value (te_Qty x)) else 0)"
| "bought_in u _ = 0"

lemma bought_in_other: "\<not> trade_ev e \<Longrightarrow> bought_in u e = 0"
  by (cases e) simp_all

lemma add_position_net: "add_position u d pt = Some pt' \<Longrightarrow> net pt' v = net pt v + (if u = v then d_value d else 0)"
  by (auto simp: add_position_def Add_def net_def position_def elim!: bindE split: option.split)

lemma applyFill_net: "applyFill f pt = Some pt' \<Longrightarrow> net pt' u = net pt u + bought u f"
  by (auto simp: applyFill_def Let_def bought_def Neg_def add_position_net elim!: bindE split: prod.splits if_splits)

subsection \<open>The log of a step\<close>

definition logs :: "i64 list \<Rightarrow> 't Processor \<Rightarrow> 't Processor \<Rightarrow> bool" where
  "logs ts p p' \<longleftrightarrow> p_cfg p' = p_cfg p \<and>
     cnt (p_eventSeq p') = cnt (p_eventSeq p) + of_nat (length ts) \<and>
     (\<exists>es. p_events p' = p_events p @ es \<and> length es = length ts \<and>
        (\<forall>k<length es. event_base (es ! k) =
           NewBase (cnt (p_eventSeq p) + of_nat (Suc k)) (ts ! k) (mc_MarketID (p_cfg p))) \<and>
        trades_reported es \<and>
        (\<forall>u. net (p_positions p') u = net (p_positions p) u + (\<Sum>e\<leftarrow>es. bought_in u e)))"

text \<open>All at the same time \<open>now\<close>, however many.\<close>

definition logs_at :: "i64 \<Rightarrow> 't Processor \<Rightarrow> 't Processor \<Rightarrow> bool" where
  "logs_at now p p' \<longleftrightarrow> (\<exists>n. logs (replicate n now) p p')"

lemma logs_Nil: "p_cfg p' = p_cfg p \<Longrightarrow> p_eventSeq p' = p_eventSeq p \<Longrightarrow> p_events p' = p_events p \<Longrightarrow>
   p_positions p' = p_positions p \<Longrightarrow> logs [] p p'"
  by (simp add: logs_def none)

lemma logs_trans:
  assumes "logs ts p q" and "logs us q r"
  shows "logs (ts @ us) p r"
proof -
  obtain es fs where e: "p_events q = p_events p @ es" "length es = length ts"
      "\<forall>k<length es. event_base (es ! k) =
         NewBase (cnt (p_eventSeq p) + of_nat (Suc k)) (ts ! k) (mc_MarketID (p_cfg p))"
      "trades_reported es" "\<forall>u. net (p_positions q) u = net (p_positions p) u + (\<Sum>e\<leftarrow>es. bought_in u e)"
    and f: "p_events r = p_events q @ fs" "length fs = length us"
      "\<forall>k<length fs. event_base (fs ! k) =
         NewBase (cnt (p_eventSeq q) + of_nat (Suc k)) (us ! k) (mc_MarketID (p_cfg q))"
      "trades_reported fs" "\<forall>u. net (p_positions r) u = net (p_positions q) u + (\<Sum>e\<leftarrow>fs. bought_in u e)"
    using assms by (auto simp: logs_def)
  have c: "p_cfg q = p_cfg p" "p_cfg r = p_cfg p"
    "cnt (p_eventSeq q) = cnt (p_eventSeq p) + of_nat (length ts)"
    "cnt (p_eventSeq r) = cnt (p_eventSeq p) + of_nat (length (ts @ us))"
    using assms by (simp_all add: logs_def)
  have "event_base ((es @ fs) ! k) =
      NewBase (cnt (p_eventSeq p) + of_nat (Suc k)) ((ts @ us) ! k) (mc_MarketID (p_cfg p))"
    if k: "k < length (es @ fs)" for k
  proof (cases "k < length es")
    case False
    then obtain j where j: "k = length ts + j" "j < length fs"
      using k e(2) by (metis add_diff_inverse_nat length_append nat_add_left_cancel_less)
    then show ?thesis using f(3) c(1,3) e(2) by (simp add: nth_append algebra_simps)
  qed (use e in \<open>simp add: nth_append\<close>)
  then show ?thesis using e(1,2,5) f(1,2,5) trades_reported_append [OF e(4) f(4)] c
    by (simp add: logs_def add.assoc exI [of _ "es @ fs"])
qed

lemma logs_at_refl [intro]: "p_cfg p' = p_cfg p \<Longrightarrow> p_eventSeq p' = p_eventSeq p \<Longrightarrow> p_events p' = p_events p \<Longrightarrow>
   p_positions p' = p_positions p \<Longrightarrow> logs_at now p p'"
  using logs_Nil [of p' p] by (auto simp: logs_at_def intro!: exI [of _ 0])

lemma logs_at_trans: "logs_at now p q \<Longrightarrow> logs_at now q r \<Longrightarrow> logs_at now p r"
  using logs_trans by (fastforce simp: logs_at_def simp flip: replicate_add)

text \<open>Emission is the only step that logs; trades are reported by \<open>emitFill\<close> alone.\<close>

lemma logs_emit:
  assumes "\<And>base. event_base (mk base) = base \<and> \<not> trade_ev (mk base)"
  shows "logs_at now p (emitEvent now mk p)"
  unfolding logs_at_def
  by (rule exI [of _ 1], unfold logs_def, intro conjI)
    (simp_all add: emitEvent_def nextEventSeq_def emit_def Next_def assms bought_in_other trades_reported.intros)

lemma logs_emit_after [intro!]:
  "logs_at now p q \<Longrightarrow> (\<And>base. event_base (mk base) = base \<and> \<not> trade_ev (mk base)) \<Longrightarrow>
   logs_at now p (emitEvent now mk q)"
  by (rule logs_at_trans [OF _ logs_emit])

lemma logs_at_self [simp]: "logs_at now p p"
  by (rule logs_at_refl) simp_all

lemma logs_at_fields [simp]:
  "logs_at now p (q\<lparr>p_book := b\<rparr>) = logs_at now p q" "logs_at now (p\<lparr>p_book := b\<rparr>) q = logs_at now p q"
  "logs_at now p (q\<lparr>p_stopBook := sb\<rparr>) = logs_at now p q"
  "logs_at now (p\<lparr>p_stopBook := sb\<rparr>) q = logs_at now p q"
  "logs_at now p (q\<lparr>p_auctionBook := ab\<rparr>) = logs_at now p q"
  "logs_at now p (q\<lparr>p_breaker := br\<rparr>) = logs_at now p q"
  "logs_at now p (q\<lparr>p_state := m\<rparr>) = logs_at now p q"
  "logs_at now p (q\<lparr>p_preHaltState := ms\<rparr>) = logs_at now p q"
  "logs_at now p (q\<lparr>p_ulids := n\<rparr>) = logs_at now p q"
  by (simp_all add: logs_at_def logs_def)

lemma emitEvent_sel [simp]:
  "p_book (emitEvent now mk p) = p_book p" "p_stopBook (emitEvent now mk p) = p_stopBook p"
  "p_auctionBook (emitEvent now mk p) = p_auctionBook p" "p_breaker (emitEvent now mk p) = p_breaker p"
  "p_state (emitEvent now mk p) = p_state p" "p_preHaltState (emitEvent now mk p) = p_preHaltState p"
  "p_positions (emitEvent now mk p) = p_positions p" "p_feeCalc (emitEvent now mk p) = p_feeCalc p"
  "p_preHook (emitEvent now mk p) = p_preHook p" "p_cfg (emitEvent now mk p) = p_cfg p"
  by (simp_all add: emitEvent_def nextEventSeq_def emit_def Next_def)

text \<open>The operations on the shared pool and counters log nothing.\<close>

lemma no_log:
  "acquireOrder p = Inr (q, i) \<Longrightarrow> logs_at now p q"
  "nextOrderSeq p = (q, c) \<Longrightarrow> logs_at now p q"
  "releaseOrder i p = Some q \<Longrightarrow> logs_at now p q"
  "transitionTo s p = Inr q \<Longrightarrow> logs_at now p q"
  by (auto simp: acquireOrder_def nextOrderSeq_def Next_def releaseOrder_def
      transitionTo_def bind_Some_iff split: sum.splits)

subsection \<open>Emission helpers\<close>

lemma rejectOrder_logs [simp]: "logs_at now p (rejectOrder oid uid r m now p)"
  unfolding rejectOrder_def by (rule logs_emit) simp

lemma emitSTPCancels_logs: "logs_at now p (emitSTPCancels scs now p)"
proof (induction scs arbitrary: p)
  case (Cons sc scs)
  then show ?case unfolding emitSTPCancels.simps by (rule logs_at_trans [OF logs_emit, rotated]) simp
qed (simp add: logs_at_refl)

text \<open>A fill is applied to the positions and reported by the four events of a trade.\<close>

lemma fill_group_reported:
  "trades_reported [side_fill f i1 tid RoleMaker (f_MakerOrderID f) (f_MakerUserID f) (f_MakerSide f)
       (f_MakerRemainQty f) (fr_MakerFee r) cur b1,
     side_fill f i2 tid RoleTaker (f_TakerOrderID f) (f_TakerUserID f) (Opposite (f_MakerSide f))
       (f_TakerRemainQty f) (fr_TakerFee r) cur b2, trade_event f tid r b3, fill_depth_event f b4]"
  unfolding side_fill_def trade_event_def fill_depth_event_def
  by (rule trade [OF _ none]) (simp add: trade_group_def)

lemma fill_bought_in:
  "bought_in u (side_fill f i t role oid uid s rem fe cur base) = 0" "bought_in u (fill_depth_event f base) = 0"
  "bought_in u (trade_event f t r base) = bought u f"
  "event_base (side_fill f i t role oid uid s rem fe cur base) = base"
  "event_base (trade_event f t r base) = base" "event_base (fill_depth_event f base) = base"
  by (simp_all add: side_fill_def trade_event_def fill_depth_event_def bought_def)

lemma emitFill_logs:
  assumes "emitFill now f p = Some p'"
  shows "logs_at now p p'"
proof -
  let ?f = "f\<lparr>f_Timestamp := now\<rparr>" and ?b = "\<lambda>k. NewBase (cnt (p_eventSeq p) + k) now (mc_MarketID (p_cfg p))"
  obtain pt r i1 i2 tid where a: "applyFill ?f (p_positions p) = Some pt"
    and p': "p_positions p' = pt" "p_cfg p' = p_cfg p" "cnt (p_eventSeq p') = cnt (p_eventSeq p) + 4"
      "p_events p' = p_events p @
        [side_fill ?f i1 tid RoleMaker (f_MakerOrderID ?f) (f_MakerUserID ?f) (f_MakerSide ?f)
           (f_MakerRemainQty ?f) (fr_MakerFee r) (fr_Currency r) (?b 1),
         side_fill ?f i2 tid RoleTaker (f_TakerOrderID ?f) (f_TakerUserID ?f) (Opposite (f_MakerSide ?f))
           (f_TakerRemainQty ?f) (fr_TakerFee r) (fr_Currency r) (?b 2),
         trade_event ?f tid r (?b 3), fill_depth_event ?f (?b 4)]" (is "_ = _ @ ?es")
    using assms by (auto simp: emitFill_def NewTradeID_def NewFillID_def Let_def emitEvent_def nextEventSeq_def emit_def
        Next_def add.commute elim!: bindE)
  have net: "net pt u = net (p_positions p) u + (\<Sum>e\<leftarrow>?es. bought_in u e)" for u
    using applyFill_net [OF a, of u] by (simp add: fill_bought_in)
  have base: "event_base (?es ! k) = ?b (of_nat (Suc k))" "replicate 4 now ! k = now" if "k < length ?es" for k
  proof -
    have "k = 0 \<or> k = 1 \<or> k = 2 \<or> k = 3" using that by auto
    then show "event_base (?es ! k) = ?b (of_nat (Suc k))" "replicate 4 now ! k = now" by (auto simp: fill_bought_in)
  qed
  define es where "es = ?es"
  note es = p'(4) [folded es_def] net [folded es_def] base [folded es_def]
  have len: "length es = 4" by (simp add: es_def)
  have rep: "trades_reported es" unfolding es_def by (rule fill_group_reported)
  have "logs (replicate 4 now) p p'" unfolding logs_def using p'(1-3) es(1-4) len rep
    by (intro conjI exI [of _ es]) simp_all
  then show ?thesis unfolding logs_at_def by blast
qed

lemma emitFills_logs: "emitFills now fs p = Some p' \<Longrightarrow> logs_at now p p'"
proof (induction fs arbitrary: p)
  case (Cons f fs)
  then obtain q where "emitFill now f p = Some q" "emitFills now fs q = Some p'" by (auto simp: bind_Some_iff)
  then show ?case using Cons.IH emitFill_logs logs_at_trans by blast
qed (auto simp: logs_at_refl)

lemma emitFillEvents_logs: "emitFillEvents fs now p = Some (r, p') \<Longrightarrow> logs_at now p p'"
  by (auto simp: emitFillEvents_def bind_Some_iff split: if_splits intro: emitFills_logs)

lemma emitRested_logs: "emitRested B oid uid s pr d now p = Some p' \<Longrightarrow> logs_at now p p'"
  by (auto simp: emitRested_def bind_Some_iff Let_def intro!: logs_at_trans [OF logs_emit logs_emit])

lemma emitUnfilled_logs: "emitUnfilled oid uid s pr q fs r now p = Some p' \<Longrightarrow> logs_at now p p'"
  by (auto simp: emitUnfilled_def bind_Some_iff intro!: logs_emit)

lemma emitDisposition_logs: "emitDisposition B oid uid s pr q fs d now p = Some p' \<Longrightarrow> logs_at now p p'"
  by (auto simp: emitDisposition_def split: Disposition.splits
      intro: emitRested_logs emitUnfilled_logs rejectOrder_logs logs_at_refl)

lemma placeAndEmit_logs: "placeAndEmit B place oid uid s pr q now p = Some (r, p') \<Longrightarrow> logs_at now p p'"
proof -
  assume "placeAndEmit B place oid uid s pr q now p = Some (r, p')"
  then obtain fs scs d b p1 where run: "emitFillEvents fs now (p\<lparr>p_book := b\<rparr>) = Some (r, p1)"
    "emitDisposition B oid uid s pr q fs d now (emitSTPCancels scs now p1) = Some p'"
    by (auto simp: placeAndEmit_def bind_Some_iff Let_def split: prod.splits)
  have "logs_at now p p1" using emitFillEvents_logs [OF run(1)] by simp
  then show ?thesis
    by (rule logs_at_trans) (rule logs_at_trans [OF emitSTPCancels_logs emitDisposition_logs [OF run(2)]])
qed

subsection \<open>The cascade\<close>

lemma haltMarket_logs: "logs_at now p (haltMarket r t now p)"
  by (auto simp: haltMarket_def transitionTo_def Let_def split: sum.split)

lemma checkBreaker_logs: "checkBreaker pr now p = Some p' \<Longrightarrow> logs_at now p p'"
  by (auto simp: checkBreaker_def transitionTo_def Let_def bind_Some_iff split: sum.splits option.splits if_splits)

lemma placeTriggered_logs: "placeTriggered B t i now p = Some (r, p') \<Longrightarrow> logs_at now p p'"
proof -
  assume run: "placeTriggered B t i now p = Some (r, p')"
  obtain q c where q: "nextOrderSeq p = (q, c)" by (cases "nextOrderSeq p")
  let ?q = "q\<lparr>p_book := set_b_node i (triggeredNode (p_cfg q) t i c now) (p_book q)\<rparr>"
  let ?e = "emitEvent now (triggered_accepted t (b_node (p_book ?q) i)) ?q"
  have "logs_at now ?e p'"
    using run by (auto simp: placeTriggered_def q Let_def split: if_splits intro: placeAndEmit_logs)
  moreover have "logs_at now p ?e"
    using no_log(2) [OF q] by (intro logs_emit_after) (simp_all add: triggered_accepted_def)
  ultimately show ?thesis by (rule logs_at_trans [rotated])
qed

lemma processTriggered_logs:
  assumes again: "\<And>pr d p p'. again pr d p = Some p' \<Longrightarrow> logs_at now p p'"
  shows "processTriggered B again pr d now ts p = Some p' \<Longrightarrow> logs_at now p p'"
proof (induction ts arbitrary: p)
  case (Cons t ts)
  have one: "processTriggeredOrder B again t d now p = Some p' \<Longrightarrow> logs_at now p p'" for p p'
  proof -
    assume run: "processTriggeredOrder B again t d now p = Some p'"
    show "logs_at now p p'"
    proof (cases "acquireOrder p")
      case (Inr q)
      obtain p1 i where a: "acquireOrder p = Inr (p1, i)" using Inr by (cases q) auto
      then obtain r p2 where "placeTriggered B t i now p1 = Some (r, p2)"
        "(case r of None \<Rightarrow> Some p2 | Some pr \<Rightarrow> again pr (d + 1) p2) = Some p'"
        using run by (auto simp: processTriggeredOrder_def bind_Some_iff)
      then have "logs_at now p1 p2" "logs_at now p2 p'"
        by (auto intro: placeTriggered_logs again logs_at_refl split: option.splits)
      then show ?thesis using no_log(1) [OF a] logs_at_trans by blast
    qed (use run rejectOrder_logs in \<open>auto simp: processTriggeredOrder_def\<close>)
  qed
  from Cons.prems obtain q where q: "processTriggeredOrder B again t d now
      (emitEvent now (\<lambda>base. EvStopTriggered \<lparr>sg_Base = base, sg_StopOrderID = to_OrderID t,
         sg_UserID = to_UserID t, sg_TriggerPrice = pr, sg_ConvertedTo = to_ConvertTo t,
         sg_ConvertedPrice = to_LimitPrice t\<rparr>) p) = Some q"
    "processTriggered B again pr d now ts q = Some p'" by (auto simp: bind_Some_iff)
  have "logs_at now p q" by (rule logs_at_trans [OF logs_emit one [OF q(1)]]) simp
  then show ?case using Cons.IH [OF q(2)] by (rule logs_at_trans)
qed (simp add: logs_at_refl)

lemma checkStopsAndBreaker_logs: "checkStopsAndBreaker B pr d now p = Some p' \<Longrightarrow> logs_at now p p'"
proof (induction rule: checkStopsAndBreaker.raw_induct [rotated, consumes 1])
  case (1 check B pr d now p p')
  then obtain r where r: "CheckTriggers B pr d (p_stopBook p) = Some r" by (auto simp: bind_Some_iff)
  show ?case
  proof (cases r)
    case (Inr v)
    obtain ts sb where v: "v = (ts, sb)" by (cases v)
    from 1(2) obtain q where q: "processTriggered B (\<lambda>pr d. check B pr d now) pr d now ts (p\<lparr>p_stopBook := sb\<rparr>) = Some q"
      "checkBreaker pr now q = Some p'" by (auto simp: r Inr v bind_Some_iff)
    have "logs_at now (p\<lparr>p_stopBook := sb\<rparr>) q" using 1(1) processTriggered_logs [OF _ q(1)] by blast
    then have "logs_at now p q" by simp
    then show ?thesis using checkBreaker_logs [OF q(2)] by (rule logs_at_trans)
  qed (use 1(2) r haltMarket_logs in auto)
qed

subsection \<open>The handlers\<close>

lemma afterMatch_logs: "afterMatch B now (r, p) = Some p' \<Longrightarrow> logs_at now p p'"
  by (auto simp: afterMatch_def split: option.split_asm intro: checkStopsAndBreaker_logs)

lemma match_logs:
  assumes "placeAndEmit B place oid uid s pr q now p = Some r" and "afterMatch B now r = Some p'"
  shows "logs_at now p p'"
  using assms by (cases r) (auto intro: logs_at_trans [OF placeAndEmit_logs afterMatch_logs])

lemma restOrder_logs: "restOrder B i cmd now p = Some p' \<Longrightarrow> logs_at now p p'"
  by (auto simp: restOrder_def elim!: bindE split: sum.split_asm dest!: emitDisposition_logs
      intro: logs_at_trans [OF no_log(3)])

lemma accepted_events [simp]:
  "event_base (limit_accepted cmd d s base) = base" "event_base (market_accepted cmd2 s base) = base"
  "event_base (stop_accepted cmd3 s base) = base" "event_base (expired_event oid uid sd pr q base) = base"
  "\<not> trade_ev (limit_accepted cmd d s base)" "\<not> trade_ev (market_accepted cmd2 s base)"
  "\<not> trade_ev (stop_accepted cmd3 s base)" "\<not> trade_ev (expired_event oid uid sd pr q base)"
  by (simp_all add: limit_accepted_def market_accepted_def stop_accepted_def expired_event_def)

lemma placeLimitOrder_logs: "placeLimitOrder B cmd now p = Some p' \<Longrightarrow> logs_at now p p'"
proof (cases "acquireOrder p")
  case (Inr v)
  assume run: "placeLimitOrder B cmd now p = Some p'"
  obtain p1 i where v: "v = (p1, i)" by (cases v)
  obtain p2 c where p2: "nextOrderSeq p1 = (p2, c)" by (cases "nextOrderSeq p1")
  from run obtain n where rest: "(if Current (p_state p2) = Halted \<or> Current (p_state p2) = PreOpen
      then restOrder B i cmd now (emitEvent now (limit_accepted cmd (n_DisplayQty n) c)
             (p2\<lparr>p_book := set_b_node i (\<lambda>_. n) (p_book p2)\<rparr>))
      else Option.bind (placeAndEmit B (PlaceLimit B i) (pl_OrderID cmd) (pl_UserID cmd) (pl_Side cmd)
              (pl_Price cmd) (pl_Qty cmd) now (emitEvent now (limit_accepted cmd (n_DisplayQty n) c)
             (p2\<lparr>p_book := set_b_node i (\<lambda>_. n) (p_book p2)\<rparr>))) (afterMatch B now)) = Some p'"
    by (auto simp: placeLimitOrder_def Inr v p2 Let_def bind_Some_iff)
  let ?q = "emitEvent now (limit_accepted cmd (n_DisplayQty n) c) (p2\<lparr>p_book := set_b_node i (\<lambda>_. n) (p_book p2)\<rparr>)"
  have "logs_at now p p2" using no_log(1) [of p p1 i] no_log(2) [OF p2] Inr v logs_at_trans by blast
  then have "logs_at now p ?q" by (intro logs_emit_after) simp_all
  moreover have "logs_at now ?q p'"
    using rest by (auto simp: bind_Some_iff split: if_split_asm intro: restOrder_logs match_logs)
  ultimately show ?thesis by (rule logs_at_trans)
qed (auto simp: placeLimitOrder_def rejectOrder_logs)

lemma processLimitOrder_logs: "processLimitOrder B cmd now p = Some p' \<Longrightarrow> logs_at now p p'"
proof -
  have auction: "acceptAuctionOrder c ab now p = Some p' \<Longrightarrow> logs_at now p p'" for c ab
    by (auto simp: acceptAuctionOrder_def nextOrderSeq_def Next_def Let_def bind_Some_iff)
  show "processLimitOrder B cmd now p = Some p' \<Longrightarrow> logs_at now p p'"
    by (auto simp: processLimitOrder_def elim!: bindE split: sum.split_asm option.split_asm if_split_asm
        intro: rejectOrder_logs placeLimitOrder_logs auction)
qed

lemma processMarketOrder_logs: "processMarketOrder B cmd now p = Some p' \<Longrightarrow> logs_at now p p'"
proof -
  have place: "logs_at now p p'" if run: "placeMarketOrder B cmd now p = Some p'"
  proof (cases "acquireOrder p")
    case (Inr v)
    obtain p1 i where v: "v = (p1, i)" by (cases v)
    obtain p2 c where p2: "nextOrderSeq p1 = (p2, c)" by (cases "nextOrderSeq p1")
    let ?q = "emitEvent now (market_accepted cmd c)
        (p2\<lparr>p_book := set_b_node i (marketNode (p_cfg p2) cmd i c now) (p_book p2)\<rparr>)"
    have "logs_at now p p2" using no_log(1) [of p p1 i] no_log(2) [OF p2] Inr v logs_at_trans by blast
    then have "logs_at now p ?q" by (intro logs_emit_after) simp_all
    moreover have "logs_at now ?q p'"
      using run by (auto simp: placeMarketOrder_def Inr v p2 Let_def bind_Some_iff intro: match_logs)
    ultimately show ?thesis by (rule logs_at_trans)
  qed (use run in \<open>auto simp: placeMarketOrder_def rejectOrder_logs\<close>)
  show "processMarketOrder B cmd now p = Some p' \<Longrightarrow> logs_at now p p'"
    by (auto simp: processMarketOrder_def elim!: bindE split: option.split_asm intro: rejectOrder_logs place)
qed

lemma processStopOrder_logs: "processStopOrder B cmd now p = Some p' \<Longrightarrow> logs_at now p p'"
proof -
  have "placeStopOrder B cmd now p = Some p' \<Longrightarrow> logs_at now p p'"
    by (auto simp: placeStopOrder_def nextOrderSeq_def Next_def Let_def rejectOrder_logs elim!: bindE split: sum.split_asm)
  then show "processStopOrder B cmd now p = Some p' \<Longrightarrow> logs_at now p p'"
    by (auto simp: processStopOrder_def elim!: bindE split: option.split_asm intro: rejectOrder_logs)
qed

lemma processCancelOrder_logs: "processCancelOrder B cmd now p = Some p' \<Longrightarrow> logs_at now p p'"
proof -
  have "cancelStopOrder B cmd now p = Some p' \<Longrightarrow> logs_at now p p'"
    by (auto simp: cancelStopOrder_def Let_def elim!: bindE split: sum.split_asm stop_error.split_asm intro: rejectOrder_logs)
  moreover have "emitCanceled B cmd n now p = Some p' \<Longrightarrow> logs_at now p p'" for n p and p' :: "'a Processor"
    by (auto simp: emitCanceled_def Let_def elim!: bindE split: if_split_asm)
  ultimately show "processCancelOrder B cmd now p = Some p' \<Longrightarrow> logs_at now p p'"
    by (fastforce simp: processCancelOrder_def elim!: bindE split: sum.split_asm book_error.split_asm
        intro: rejectOrder_logs logs_at_trans [OF _ no_log(3)])
qed

lemma emitExpired_logs: "emitExpired is now p = Some p' \<Longrightarrow> logs_at now p p'"
proof (induction "is" arbitrary: p)
  case (Cons i "is")
  let ?n = "b_node (p_book p) i"
  let ?q = "emitEvent now (expired_event (n_OrderID ?n) (n_UserID ?n) (n_Side ?n) (n_Price ?n) (n_RemainQty ?n)) p"
  from Cons.prems obtain q where q: "releaseOrder (n_PoolIndex ?n) ?q = Some q" "emitExpired is now q = Some p'"
    by (auto simp: Let_def elim!: bindE)
  have "logs_at now p ?q" by (intro logs_emit_after) simp_all
  then show ?case using no_log(3) [OF q(1)] Cons.IH [OF q(2)] logs_at_trans by blast
qed simp

lemma emitExpiredStops_logs: "emitExpiredStops is now p = Some p' \<Longrightarrow> logs_at now p p'"
proof (induction "is" arbitrary: p)
  case (Cons i "is")
  let ?n = "sb_node (p_stopBook p) i"
  let ?q = "emitEvent now (expired_event (st_OrderID ?n) (st_UserID ?n) (st_Side ?n) (st_TriggerPrice ?n) (st_Qty ?n)) p"
  from Cons.prems obtain sb where "emitExpiredStops is now (?q\<lparr>p_stopBook := sb\<rparr>) = Some p'"
    by (auto simp: Let_def elim!: bindE)
  moreover have "logs_at now p (?q\<lparr>p_stopBook := sb\<rparr>)" by (simp, intro logs_emit_after) simp_all
  ultimately show ?case using Cons.IH logs_at_trans by blast
qed simp

lemma runExpiryCheck_logs: "runExpiryCheck B ids sids now p = Some p' \<Longrightarrow> logs_at now p p'"
  by (auto simp: runExpiryCheck_def elim!: bindE dest!: emitExpired_logs emitExpiredStops_logs
      intro: logs_at_trans)

lemma haltResume_logs:
  "logs_at now p (processAdminHalt h now p)" "logs_at now p (processAdminResume r now p)"
  "logs_at now p (openAuction now p)"
  by (auto simp: processAdminHalt_def haltMarket_logs processAdminResume_def openAuction_def transitionTo_def
      Let_def split: sum.split)

lemma carryOver_logs: "carryOver B xs now p = Some p' \<Longrightarrow> logs_at now p p'"
proof (induction xs arbitrary: p)
  case (Cons x xs)
  show ?case
  proof (cases "acquireOrder p")
    case (Inl e)
    then show ?thesis using Cons logs_at_trans [OF rejectOrder_logs] by simp blast
  next
    case (Inr v)
    obtain p1 i where v: "v = (p1, i)" by (cases v)
    from Cons.prems obtain r p2 where run:
      "placeAndEmit B (PlaceLimit B i) (ao_OrderID x) (ao_UserID x) (ao_Side x) (ao_Price x) (ao_Qty x) now
         (p1\<lparr>p_book := set_b_node i (auctionNode (p_cfg p1) x i) (p_book p1)\<rparr>) = Some (r, p2)"
      "carryOver B xs now p2 = Some p'" by (auto simp: Inr v Let_def elim!: bindE)
    have "logs_at now p1 p2" using placeAndEmit_logs [OF run(1)] by simp
    then show ?thesis using no_log(1) Inr v Cons.IH [OF run(2)] logs_at_trans by blast
  qed
qed simp

lemma emitAuctionCancels_logs: "logs_at now p (emitAuctionCancels xs now p)"
proof (induction xs arbitrary: p)
  case (Cons x xs)
  then show ?case unfolding emitAuctionCancels.simps by (rule logs_at_trans [OF logs_emit, rotated]) simp
qed simp

lemma executeAuction_logs: "executeAuction B price qty ab now p = Some p' \<Longrightarrow> logs_at now p p'"
proof -
  let ?cleared = "emitEvent now (\<lambda>base. EvAuctionCleared
        \<lparr>al_Base = base, al_ClearingPrice = price, al_MatchedQty = qty\<rparr>)"
  assume "executeAuction B price qty ab now p = Some p'"
  then obtain fills r p1 unm p2 can where s:
    "emitFillEvents fills now p = Some (r, p1)" "carryOver B unm now p1 = Some p2"
    "p' = (case transitionTo Open (?cleared (emitAuctionCancels can now p2)) of
       Inl _ \<Rightarrow> ?cleared (emitAuctionCancels can now p2) | Inr p \<Rightarrow> p)"
    by (auto simp: executeAuction_def Let_def elim!: bindE)
  have "logs_at now p (emitAuctionCancels can now p2)"
    using emitFillEvents_logs [OF s(1)] carryOver_logs [OF s(2)] emitAuctionCancels_logs logs_at_trans by blast
  then have "logs_at now p (?cleared (emitAuctionCancels can now p2))" by auto
  then show ?thesis using s(3) by (auto split: sum.split intro: logs_at_trans [OF _ no_log(4)])
qed

lemma clearAuction_logs: "clearAuction B keys now p = Some p' \<Longrightarrow> logs_at now p p'"
proof -
  assume run: "clearAuction B keys now p = Some p'"
  define q where "q = (if Current (p_state p) = PreOpen then openAuction now p else p)"
  have "logs_at now p q" by (simp add: q_def haltResume_logs)
  moreover have "logs_at now q p'"
    using run unfolding clearAuction_def q_def [symmetric] Let_def
    by (auto elim!: bindE split: if_split_asm intro: executeAuction_logs)
  ultimately show ?thesis by (rule logs_at_trans)
qed

lemma dispatch_logs: "dispatch B cmd now p = Some p' \<Longrightarrow> logs_at now p p'"
  by (auto simp: dispatch_def haltResume_logs split: Command.split_asm intro: processLimitOrder_logs
      processMarketOrder_logs processStopOrder_logs processCancelOrder_logs)

fun input_time :: "Input \<Rightarrow> i64" where
  "input_time (InCommand cmd now) = now"
| "input_time (InTick ids stopIds now) = now"
| "input_time (InAuctionOpen now) = now"
| "input_time (InAuctionClear keys now) = now"

lemma serve_logs: "serve B i p = Some p' \<Longrightarrow> logs_at (input_time i) p p'"
  by (cases i) (auto simp: haltResume_logs intro: dispatch_logs runExpiryCheck_logs clearAuction_logs)

lemma run_logs: "run B is p = Some p' \<Longrightarrow> \<exists>ts. logs ts p p' \<and> set ts \<subseteq> input_time ` set is"
proof (induction "is" arbitrary: p)
  case (Cons i "is")
  from Cons.prems obtain q where q: "serve B i p = Some q" "run B is q = Some p'" by (auto elim!: bindE)
  obtain n ts where "logs (replicate n (input_time i)) p q" "logs ts q p'" "set ts \<subseteq> input_time ` set is"
    using serve_logs [OF q(1)] Cons.IH [OF q(2)] by (auto simp: logs_at_def)
  then show ?case
    using logs_trans by (intro exI [of _ "replicate n (input_time i) @ ts"]) (auto dest: in_set_replicate [THEN iffD1])
qed (auto intro: logs_Nil)

subsection \<open>A run only appends\<close>

lemma event_log_ok:
  assumes "run B inputs p = Some p'"
  shows "\<exists>new. p_events p' = p_events p @ new \<and>
     (\<forall>k<length new. SeqNum (new ! k) = Peek (p_eventSeq p) + of_nat (Suc k) \<and>
        Event_MarketID (new ! k) = mc_MarketID (p_cfg p) \<and>
        Timestamp (new ! k) \<in> input_time ` set inputs) \<and>
     Peek (p_eventSeq p') = Peek (p_eventSeq p) + of_nat (length new) \<and>
     trades_reported new \<and> (\<forall>u. net (p_positions p') u = net (p_positions p) u + (\<Sum>e\<leftarrow>new. bought_in u e))"
proof -
  obtain ts where ts: "logs ts p p'" "set ts \<subseteq> input_time ` set inputs" using run_logs [OF assms] by blast
  then obtain es where es: "p_events p' = p_events p @ es" "length es = length ts"
    "\<forall>k<length es. event_base (es ! k) =
       NewBase (cnt (p_eventSeq p) + of_nat (Suc k)) (ts ! k) (mc_MarketID (p_cfg p))"
    "trades_reported es" "\<forall>u. net (p_positions p') u = net (p_positions p) u + (\<Sum>e\<leftarrow>es. bought_in u e)"
    by (auto simp: logs_def)
  have "SeqNum (es ! k) = Peek (p_eventSeq p) + of_nat (Suc k) \<and> Event_MarketID (es ! k) = mc_MarketID (p_cfg p) \<and>
      Timestamp (es ! k) \<in> input_time ` set inputs" if "k < length es" for k
    using es(2,3) ts(2) that nth_mem [of k ts] by (auto simp: SeqNum_def Timestamp_def Event_MarketID_def NewBase_def Peek_def)
  then show ?thesis using ts(1) es(1,2,4,5) by (intro exI [of _ es]) (simp add: Peek_def logs_def)
qed

end
