(* ===== verification/Processor_Inv.thy ===== *)
theory Processor_Inv
  imports Event_Log Book_Ops_Claims Stop_Claims Auction_Proof
begin

section \<open>The invariant of the processor\<close>

text \<open>
  What holds of a market between two inputs: both books are well formed and name different
  orders, every price and quantity has the market's precision, the positions net out, the
  breaker's window is a queue of such prices.  Prices are bounded so that the breaker's
  division cannot overflow (\<open>price_fits\<close>).
\<close>

definition price_fits :: "u8 \<Rightarrow> Decimal \<Rightarrow> bool" where
  "price_fits pp d \<longleftrightarrow> d_precision d = pp \<and> 0 < ival d \<and> ival d * 10000 < 2 ^ 63"

definition market_ok :: "MarketConfig \<Rightarrow> bool" where
  "market_ok cfg \<longleftrightarrow>
     d_precision (mc_TickSize cfg) = mc_PricePrecision cfg \<and>
     d_precision (mc_LotSize cfg) = mc_QtyPrecision cfg \<and> unat (mc_QtyPrecision cfg) < 64 \<and>
     (IsZero (mc_MinOrderQty cfg) \<or> d_precision (mc_MinOrderQty cfg) = mc_QtyPrecision cfg) \<and>
     (IsZero (mc_MaxOrderQty cfg) \<or> d_precision (mc_MaxOrderQty cfg) = mc_QtyPrecision cfg) \<and>
     (\<forall>u. mc_STPMode cfg \<noteq> STPByte u)"

text \<open>A resting order: its price fits, and an iceberg's reserve has the market's precision.\<close>

definition resting_sound :: "u8 \<Rightarrow> Decimal \<Rightarrow> OrderNode \<Rightarrow> bool" where
  "resting_sound qp p n \<longleftrightarrow> (Has (n_Flags n) FlagIceberg \<longrightarrow> d_precision (n_HiddenQty n) = qp)"

definition level_sound :: "u8 \<Rightarrow> u8 \<Rightarrow> Decimal \<times> queue \<Rightarrow> bool" where
  "level_sound pp qp = (\<lambda>(p, q). price_fits pp p \<and> (\<forall>n\<in>set q. resting_sound qp p n))"

text \<open>A pending stop can become an order.\<close>

definition stop_sound :: "u8 \<Rightarrow> u8 \<Rightarrow> StopNode \<Rightarrow> bool" where
  "stop_sound pp qp n \<longleftrightarrow> d_precision (st_Qty n) = qp \<and> 0 < ival (st_Qty n) \<and>
     (\<forall>u. st_STPMode n \<noteq> STPByte u) \<and> (st_ConvertTo n \<noteq> Market \<longrightarrow> price_fits pp (st_LimitPrice n))"

abbreviation p_pp :: "'t Processor \<Rightarrow> u8" where "p_pp p \<equiv> mc_PricePrecision (p_cfg p)"
abbreviation p_qp :: "'t Processor \<Rightarrow> u8" where "p_qp p \<equiv> mc_QtyPrecision (p_cfg p)"

definition book_good :: "'t btree_fns \<Rightarrow> nat set \<Rightarrow> 't Processor \<Rightarrow> bool" where
  "book_good B X p \<longleftrightarrow> book_ok B (p_book p) X \<and> b_config (p_book p) = p_cfg p \<and>
     (\<forall>y. \<forall>e\<in>set (side_view B y (p_book p)). level_sound (p_pp p) (p_qp p) e)"

definition stops_good :: "'t btree_fns \<Rightarrow> 't Processor \<Rightarrow> bool" where
  "stops_good B p \<longleftrightarrow> stop_ok B (p_pp p) (p_stopBook p) {} \<and>
     (\<forall>x. \<forall>e\<in>set (stop_view B x (p_stopBook p)). \<forall>n\<in>set (snd e). stop_sound (p_pp p) (p_qp p) n)"

definition ids_apart :: "'t Processor \<Rightarrow> bool" where
  "ids_apart p \<longleftrightarrow> dom (b_index (p_book p)) \<inter> dom (sb_index (p_stopBook p)) = {}"

definition ledger_ok :: "'t Processor \<Rightarrow> bool" where
  "ledger_ok p \<longleftrightarrow> tracker_ok (p_positions p) \<and> pt_precision (p_positions p) = p_qp p \<and>
     net_total (p_positions p) = 0"

definition breaker_ok :: "'t Processor \<Rightarrow> bool" where
  "breaker_ok p \<longleftrightarrow> (case p_breaker p of None \<Rightarrow> True | Some br \<Rightarrow>
     window_ok (br_window br) \<and> d_precision (cb_MaxMovePercent (br_cfg br)) = 4 \<and>
     (\<forall>s\<in>set (samples (br_window br)). price_fits (p_pp p) (ps_Price s)))"

definition auction_good :: "'t Processor \<Rightarrow> bool" where
  "auction_good p \<longleftrightarrow> (case p_auctionBook p of None \<Rightarrow> True | Some ab \<Rightarrow>
     auction_ok (p_pp p) (p_qp p) ab \<and>
     (\<forall>x\<in>set (ab_bids ab) \<union> set (ab_asks ab). price_fits (p_pp p) (ao_Price x)))"

text \<open>A fill of the market's precisions.\<close>

definition fill_sound :: "u8 \<Rightarrow> u8 \<Rightarrow> Fill \<Rightarrow> bool" where
  "fill_sound pp qp f \<longleftrightarrow> d_precision (f_Qty f) = qp \<and> price_fits pp (f_Price f)"

text \<open>The settings: a market whose configuration is consistent, a fee calculator that answers for every
  such fill.\<close>

definition fees_total :: "MarketConfig \<Rightarrow> FeeCalculator \<Rightarrow> bool" where
  "fees_total cfg feeCalc \<longleftrightarrow>
     (\<forall>f. fill_sound (mc_PricePrecision cfg) (mc_QtyPrecision cfg) f \<longrightarrow> feeCalc (mc_FeeSchedule cfg) f \<noteq> None)"

definition settings_ok :: "'t Processor \<Rightarrow> bool" where
  "settings_ok p \<longleftrightarrow> market_ok (p_cfg p) \<and> fees_total (p_cfg p) (p_feeCalc p)"

definition proc_ok :: "'t btree_fns \<Rightarrow> nat set \<Rightarrow> 't Processor \<Rightarrow> bool" where
  "proc_ok B X p \<longleftrightarrow> book_good B X p \<and> stops_good B p \<and> ids_apart p \<and> ledger_ok p \<and>
     breaker_ok p \<and> auction_good p \<and> settings_ok p"

lemmas proc_parts = book_good_def stops_good_def ids_apart_def ledger_ok_def breaker_ok_def
  auction_good_def settings_ok_def

lemma proc_ok_emit [simp]: "proc_ok B X (emitEvent now mk p) = proc_ok B X p"
  by (simp add: proc_ok_def proc_parts cong: option.case_cong)

lemma proc_ok_fields [simp]:
  "proc_ok B X (p\<lparr>p_state := m\<rparr>) = proc_ok B X p" "proc_ok B X (p\<lparr>p_preHaltState := s\<rparr>) = proc_ok B X p"
  "proc_ok B X (p\<lparr>p_ulids := n\<rparr>) = proc_ok B X p"
  by (simp_all add: proc_ok_def proc_parts cong: option.case_cong)

lemma proc_ok_reject [simp]: "proc_ok B X (rejectOrder oid uid r m now p) = proc_ok B X p"
  by (simp add: rejectOrder_def)

lemma proc_ok_stpCancels [simp]: "proc_ok B X (emitSTPCancels scs now p) = proc_ok B X p"
  by (induction scs arbitrary: p) simp_all

text \<open>What an operation on the books leaves as it is.\<close>

definition same_market :: "'t Processor \<Rightarrow> 't Processor \<Rightarrow> bool" where
  "same_market p p' \<longleftrightarrow> p_cfg p' = p_cfg p \<and> p_feeCalc p' = p_feeCalc p \<and>
     p_auctionBook p' = p_auctionBook p \<and> sb_maxDepth (p_stopBook p') = sb_maxDepth (p_stopBook p)"

lemma same_market_refl [simp]: "same_market p p"
  by (simp add: same_market_def)

lemma same_market_trans: "same_market p q \<Longrightarrow> same_market q r \<Longrightarrow> same_market p r"
  by (simp add: same_market_def)

lemma same_market_emit [simp]:
  "same_market p (emitEvent now mk q) = same_market p q" "same_market (emitEvent now mk p) q = same_market p q"
  by (simp_all add: same_market_def)

lemma rejectOrder_sel [simp]:
  "p_book (rejectOrder oid uid r m now p) = p_book p" "p_stopBook (rejectOrder oid uid r m now p) = p_stopBook p"
  "same_market q (rejectOrder oid uid r m now p) = same_market q p"
  by (simp_all add: rejectOrder_def)

lemma emitSTPCancels_sel [simp]:
  "p_book (emitSTPCancels scs now p) = p_book p" "p_stopBook (emitSTPCancels scs now p) = p_stopBook p"
  "p_cfg (emitSTPCancels scs now p) = p_cfg p" "same_market q (emitSTPCancels scs now p) = same_market q p"
  by (induction scs arbitrary: p) simp_all

subsection \<open>The orders a book names\<close>

definition view_ids :: "(Decimal \<times> queue) list \<Rightarrow> OrderID set" where
  "view_ids L = (\<Union>(p, q)\<in>set L. n_OrderID ` set q)"

definition stop_view_ids :: "(Decimal \<times> stop_queue) list \<Rightarrow> OrderID set" where
  "stop_view_ids L = (\<Union>(p, q)\<in>set L. st_OrderID ` set q)"

lemma index_dom:
  assumes "book_ok B b X"
  shows "dom (b_index b) = view_ids (side_view B True b) \<union> view_ids (side_view B False b)"
proof -
  obtain G where rep: "book_rep B b G X" using assms by (auto simp: book_ok_def)
  have "view_ids (view_of b g) = n_OrderID ` b_node b ` set (level_nodes g)" for g
    by (induction g) (auto simp: view_ids_def view_of_def image_image)
  then have "view_ids (side_view B True b) \<union> view_ids (side_view B False b) = n_OrderID ` b_node b ` all_nodes G"
    by (simp add: side_view_ok [OF rep] all_nodes_def image_Un)
  moreover have "dom (b_index b) = n_OrderID ` b_node b ` all_nodes G"
    using book_repD(5) [OF rep] by (auto simp: index_on_def image_iff)
  ultimately show ?thesis by simp
qed

lemma stop_index_dom:
  assumes "stop_ok B pp s X"
  shows "dom (sb_index s) = stop_view_ids (stop_view B True s) \<union> stop_view_ids (stop_view B False s)"
    and "distinct (map st_OrderID (concat (map snd (stop_view B True s)) @ concat (map snd (stop_view B False s))))"
proof -
  obtain G where rep: "stop_rep B pp s G X" using assms by (auto simp: stop_ok_def)
  note idx = stop_repD(5) [OF rep]
  have ids: "map st_OrderID (concat (map snd (stop_shows s g))) = map (stop_ids (sb_heap s)) (level_nodes g)" for g
    by (induction g) (auto simp: stop_shows_def stop_core_def)
  have "stop_view_ids L = set (map st_OrderID (concat (map snd L)))" for L by (force simp: stop_view_ids_def)
  then have "stop_view_ids (stop_view B True s) \<union> stop_view_ids (stop_view B False s) = stop_ids (sb_heap s) ` all_nodes G"
    by (simp only: stop_view_ok [OF rep] ids) (auto simp: all_nodes_def)
  moreover have "dom (sb_index s) = stop_ids (sb_heap s) ` all_nodes G"
    using idx by (auto simp: index_on_def image_iff)
  ultimately show "dom (sb_index s) = stop_view_ids (stop_view B True s) \<union> stop_view_ids (stop_view B False s)"
    by simp
  have "inj_on (stop_ids (sb_heap s)) (all_nodes G)" using idx unfolding index_on_def inj_on_def by (metis option.inject)
  moreover have "distinct (level_nodes (G True) @ level_nodes (G False))"
    using stop_repD(3) [OF rep] by (simp add: disjoint_ghost_def)
  ultimately have "distinct (map (stop_ids (sb_heap s)) (level_nodes (G True) @ level_nodes (G False)))"
    by (simp only: distinct_map all_nodes_def) simp
  then show "distinct (map st_OrderID (concat (map snd (stop_view B True s)) @ concat (map snd (stop_view B False s))))"
    by (simp only: map_append stop_view_ok [OF rep] ids)
qed

subsection \<open>What the machine keeps\<close>

text \<open>The levels stay sound, no order appears, and every fill has the market's precisions.\<close>

definition sound_state :: "u8 \<Rightarrow> MarketConfig \<Rightarrow> OrderID set \<Rightarrow> mstate \<Rightarrow> bool" where
  "sound_state pp cfg ids s \<longleftrightarrow> good_state cfg s \<and>
     (\<forall>e\<in>set (ms_levels s). level_sound pp (mc_QtyPrecision cfg) e) \<and> view_ids (ms_levels s) \<subseteq> ids \<and>
     (\<forall>f\<in>set (ms_fills s). fill_sound pp (mc_QtyPrecision cfg) f)"

lemma view_ids_Cons [simp]: "view_ids ((p, q) # L) = n_OrderID ` set q \<union> view_ids L" "view_ids [] = {}"
  by (simp_all add: view_ids_def)

lemma resting_sound_taken [simp]:
  "resting_sound qp p (taken k m) = resting_sound qp p m" "n_OrderID (taken k m) = n_OrderID m"
  by (simp_all add: resting_sound_def taken_def)

lemma resting_sound_replenished [simp]:
  "resting_sound qp p (replenished c m) = resting_sound qp p m" "n_OrderID (replenished c m) = n_OrderID m"
  by (simp_all add: resting_sound_def replenished_def)

lemma queue_after_sound:
  "set (queue_after c (taken k m) q) \<subseteq> insert (taken k m) (insert (replenished (snd (Next c)) (taken k m)) (set q))"
  by (auto simp: queue_after_def)

lemma fill_after_qty_price [simp]: "f_Qty (fill_after qp m t p k q) = k" "f_Price (fill_after qp m t p k q) = p"
  by (simp_all add: fill_after_def new_fill_def)

lemma mstep_sound:
  assumes step: "mstep cfg s s'" and sound: "sound_state pp cfg ids s"
  shows "sound_state pp cfg ids s'"
proof -
  have good: "good_state cfg s'" using mstep_good [OF step] sound by (simp add: sound_state_def)
  note s = sound [unfolded sound_state_def]
  show ?thesis using step
  proof (cases rule: mstep.cases)
    case (trade p m q L t k q')
    have m: "good_maker (mc_QtyPrecision cfg) m" "d_precision (n_RemainQty t) = mc_QtyPrecision cfg"
      using trade sound by (simp_all add: sound_state_def good_state_def node_prec_def)
    have k: "d_precision k = mc_QtyPrecision cfg" using trade_qty(7) [OF m(1) trade(5,8)] m(2) by auto
    have lv: "price_fits pp p" "\<forall>n\<in>set (m # q). resting_sound (mc_QtyPrecision cfg) p n"
      and rest: "\<forall>e\<in>set L. level_sound pp (mc_QtyPrecision cfg) e" and ids: "view_ids ((p, m # q) # L) \<subseteq> ids"
      and fills: "\<forall>f\<in>set (ms_fills s). fill_sound pp (mc_QtyPrecision cfg) f"
      using sound trade(2) by (simp_all add: sound_state_def level_sound_def)
    have q': "set q' \<subseteq> insert (taken k m) (insert (replenished (snd (Next (ms_seq s))) (taken k m)) (set q))"
      using trade(9) queue_after_sound by simp
    have "\<forall>n\<in>set q'. resting_sound (mc_QtyPrecision cfg) p n" "n_OrderID ` set q' \<subseteq> n_OrderID ` set (m # q)"
      using q' lv(2) by auto
    moreover from this(2) have "view_ids ((p, q') # L) \<subseteq> ids" using ids by simp (meson insert_subset order_trans)
    ultimately show ?thesis using good k lv(1) rest fills unfolding trade(1)
      by (simp add: sound_state_def level_sound_def fill_sound_def)
  qed (use s good in \<open>simp_all add: sound_state_def level_sound_def\<close>)
qed

lemma msteps_sound: "msteps cfg s s' \<Longrightarrow> sound_state pp cfg ids s \<Longrightarrow> sound_state pp cfg ids s'"
  by (induction rule: rtranclp_induct) (auto intro: mstep_sound)

end
