(* ===== verification/Processor_Place.thy ===== *)
theory Processor_Place
  imports Processor_Inv
begin

section \<open>Placing an order keeps the invariant\<close>

text \<open>
  The emission of fills and dispositions is total on fills of the market's precision, so
  \<open>placeAndEmit\<close> always returns when the order is placeable: together with \<open>place_total\<close> this is
  the step all handlers that match share.
\<close>

text \<open>What an emission leaves: both books and the settings.\<close>

definition quiet :: "'t Processor \<Rightarrow> 't Processor \<Rightarrow> bool" where
  "quiet p p' \<longleftrightarrow> p_book p' = p_book p \<and> p_stopBook p' = p_stopBook p \<and> same_market p p'"

lemma quiet_refl [simp]: "quiet p p"
  by (simp add: quiet_def)

lemma quiet_trans: "quiet p q \<Longrightarrow> quiet q r \<Longrightarrow> quiet p r"
  by (simp add: quiet_def same_market_def)

lemma quiet_emit [simp]: "quiet p (emitEvent now mk q) = quiet p q" "quiet p (emitSTPCancels scs now q) = quiet p q"
  "quiet p (rejectOrder oid uid r m now q) = quiet p q"
  by (simp_all add: quiet_def)

lemma quiet_ulids [simp]: "quiet p (q\<lparr>p_ulids := n\<rparr>) = quiet p q"
  by (simp add: quiet_def same_market_def)

lemma quiet_positions [simp]: "quiet p (q\<lparr>p_positions := pt\<rparr>) = quiet p q"
  by (simp add: quiet_def same_market_def)

subsection \<open>Fills\<close>

lemma emitFill_ok:
  assumes ok: "proc_ok B X p" and f: "fill_sound (p_pp p) (p_qp p) f"
  shows "\<exists>p'. emitFill now f p = Some p' \<and> proc_ok B X p' \<and> quiet p p'"
proof -
  let ?f = "f\<lparr>f_Timestamp := now\<rparr>"
  have led: "tracker_ok (p_positions p)" "pt_precision (p_positions p) = p_qp p" "net_total (p_positions p) = 0"
    using ok by (simp_all add: proc_ok_def ledger_ok_def)
  obtain pt where pt: "applyFill ?f (p_positions p) = Some pt" "tracker_ok pt"
    "pt_precision pt = pt_precision (p_positions p)" "net_total pt = net_total (p_positions p)"
    using applyFill_ok [OF led(1), of ?f] f led(2) by (auto simp: fill_sound_def)
  have "fees_total (p_cfg p) (p_feeCalc p)" using ok by (simp add: proc_ok_def settings_ok_def)
  moreover have "fill_sound (p_pp p) (p_qp p) ?f" using f by (simp add: fill_sound_def)
  ultimately obtain fee where fee: "p_feeCalc p (mc_FeeSchedule (p_cfg p)) ?f = Some fee"
    unfolding fees_total_def by blast
  have "proc_ok B X (p\<lparr>p_positions := pt\<rparr>)"
    using ok pt led by (simp add: proc_ok_def proc_parts cong: option.case_cong)
  then show ?thesis
    using pt(1) fee by (simp add: emitFill_def NewTradeID_def NewFillID_def Let_def)
qed

lemma emitFills_ok:
  "proc_ok B X p \<Longrightarrow> \<forall>f\<in>set fs. fill_sound (p_pp p) (p_qp p) f \<Longrightarrow>
   \<exists>p'. emitFills now fs p = Some p' \<and> proc_ok B X p' \<and> quiet p p'"
proof (induction fs arbitrary: p)
  case (Cons f fs)
  obtain q where q: "emitFill now f p = Some q" "proc_ok B X q" "quiet p q"
    using emitFill_ok [OF Cons.prems(1)] Cons.prems(2) by (metis list.set_intros(1))
  have "p_cfg q = p_cfg p" using q(3) by (simp add: quiet_def same_market_def)
  then obtain p' where "emitFills now fs q = Some p'" "proc_ok B X p'" "quiet q p'"
    using Cons.IH [OF q(2)] Cons.prems(2) by auto
  then show ?case using q quiet_trans by auto
qed simp

lemma emitFillEvents_ok:
  assumes "proc_ok B X p" and "\<forall>f\<in>set fs. fill_sound (p_pp p) (p_qp p) f"
  shows "\<exists>r p'. emitFillEvents fs now p = Some (r, p') \<and> proc_ok B X p' \<and> quiet p p' \<and>
     (\<forall>pr. r = Some pr \<longrightarrow> price_fits (p_pp p) pr)"
proof (cases "fs = []")
  case False
  then have "price_fits (p_pp p) (f_Price (last fs))" using assms(2) by (simp add: fill_sound_def)
  moreover obtain p' where "emitFills now fs p = Some p'" "proc_ok B X p'" "quiet p p'"
    using emitFills_ok [OF assms] by blast
  ultimately show ?thesis using False by (simp add: emitFillEvents_def)
qed (use assms in \<open>simp add: emitFillEvents_def\<close>)

lemma sumFills_ok:
  "d_precision acc = qp \<Longrightarrow> \<forall>f\<in>set fs. d_precision (f_Qty f) = qp \<Longrightarrow>
   \<exists>q. sumFills acc fs = Some q \<and> d_precision q = qp"
  by (induction fs arbitrary: acc) (simp_all add: Add_same)

subsection \<open>Dispositions\<close>

lemma OrderRestInfo_total:
  assumes "book_ok B b X"
  shows "OrderRestInfo oid b \<noteq> None"
proof (cases "b_index b oid")
  case (Some i)
  obtain G where rep: "book_rep B b G X" using assms by (auto simp: book_ok_def)
  have "i \<in> all_nodes G" using book_repD(5) [OF rep] Some by (simp add: index_on_def)
  then obtain y p l q where q: "(p, l, q) \<in> set (G y)" "i \<in> set q"
    by (auto simp: all_nodes_def level_nodes_def)
  have "sound_order (qty_prec b) (b_node b i)"
    using levels_repD(2) [OF book_repD(2) [OF rep] q(1)] q(2) by (simp add: resting_order_def)
  then show ?thesis using Some by (auto simp: OrderRestInfo_def Let_def IsPositive_def sound_order_def node_prec_def Add_same)
qed (simp add: OrderRestInfo_def)

lemma LevelInfo_total:
  assumes "price_index B" "book_ok B b X" "d_precision pr = price_prec b"
  shows "LevelInfo B s pr b \<noteq> None"
proof -
  obtain r where "Get B pr (side_tree (s = Bid) b) = Some r" using get_view [OF assms] by blast
  then show ?thesis by (cases r) (simp_all add: LevelInfo_def Let_def)
qed

lemma emitDisposition_ok:
  assumes B: "price_index B" and ok: "proc_ok B X p" and pr: "d_precision pr = p_pp p"
    and q: "d_precision q = p_qp p" and fs: "\<forall>f\<in>set fs. fill_sound (p_pp p) (p_qp p) f"
  shows "\<exists>p'. emitDisposition B oid uid s pr q fs d now p = Some p' \<and> proc_ok B X p' \<and> quiet p p'"
proof -
  have b: "book_ok B (p_book p) X" "b_config (p_book p) = p_cfg p" using ok by (simp_all add: proc_ok_def book_good_def)
  obtain r1 r2 r3 where r: "OrderRestInfo oid (p_book p) = Some (r1, r2, r3)"
    using OrderRestInfo_total [OF b(1)] by (metis not_None_eq prod_cases3)
  obtain l1 l2 l3 l4 where l: "LevelInfo B s pr (p_book p) = Some (l1, l2, l3, l4)"
    using LevelInfo_total [OF B b(1)] pr b(2) by (metis not_None_eq prod_cases4)
  have "\<exists>p'. emitRested B oid uid s pr d now p = Some p' \<and> proc_ok B X p' \<and> quiet p p'" for d
    using ok by (simp add: emitRested_def r l)
  moreover have "\<exists>p'. emitUnfilled oid uid s pr q fs c now p = Some p' \<and> proc_ok B X p' \<and> quiet p p'" for c
    using ok q sumFills_ok [of "Zero (p_qp p)" "p_qp p" fs] fs
    by (auto simp: emitUnfilled_def fill_sound_def Sub_same Zero_def NewDecimal_def)
  ultimately show ?thesis using ok by (cases d) (simp_all add: emitDisposition_def)
qed

subsection \<open>Matching\<close>

lemma rest_in_cases:
  assumes "(p, q) \<in> set (rest_in y n L)"
  shows "(p, q) \<in> set L \<or> p = n_Price n \<and> (q = [n] \<or> (\<exists>q0. (p, q0) \<in> set L \<and> q = q0 @ [n]))"
  using assms by (auto simp: rest_in_def entries_set_def split: if_splits)

lemma rest_in_sound:
  assumes "\<forall>e\<in>set L. level_sound pp qp e" and "price_fits pp (n_Price n)" and "resting_sound qp (n_Price n) n"
  shows "\<forall>e\<in>set (rest_in y n L). level_sound pp qp e" "view_ids (rest_in y n L) \<subseteq> insert (n_OrderID n) (view_ids L)"
proof -
  have "level_sound pp qp (p, q) \<and> n_OrderID ` set q \<subseteq> insert (n_OrderID n) (view_ids L)"
    if "(p, q) \<in> set (rest_in y n L)" for p q
    using rest_in_cases [OF that] assms by (fastforce simp: level_sound_def view_ids_def)
  then show "\<forall>e\<in>set (rest_in y n L). level_sound pp qp e" "view_ids (rest_in y n L) \<subseteq> insert (n_OrderID n) (view_ids L)"
    by (auto simp: view_ids_def)
qed

text \<open>What is asked of an incoming order besides \<open>placeable\<close>.\<close>

definition taker_sound :: "u8 \<Rightarrow> u8 \<Rightarrow> OrderNode \<Rightarrow> bool" where
  "taker_sound pp qp n \<longleftrightarrow> resting_sound qp (n_Price n) n \<and> (n_Type n \<noteq> Market \<longrightarrow> price_fits pp (n_Price n))"

lemma taker_sound_strip:
  assumes "strip n' = strip n"
  shows "taker_sound pp qp n' = taker_sound pp qp n"
  using strip_eqD [OF assms] arg_cong [OF assms, of n_Flags]
  by (simp add: taker_sound_def resting_sound_def strip_def)

lemma match_keeps:
  assumes B: "price_index B" and ok: "book_ok B b X" and p: "placeable b X inc"
    and lv: "\<And>y. \<forall>e\<in>set (side_view B y b). level_sound (price_prec b) (qty_prec b) e"
    and t: "taker_sound (price_prec b) (qty_prec b) (b_node b inc)"
  shows "\<exists>fills cancels disp b'. match B inc b = Some (fills, cancels, disp, b') \<and>
     book_ok B b' (X - {inc}) \<and> b_config b' = b_config b \<and>
     (\<forall>y. \<forall>e\<in>set (side_view B y b'). level_sound (price_prec b) (qty_prec b) e) \<and>
     (\<forall>f\<in>set fills. fill_sound (price_prec b) (qty_prec b) f) \<and>
     dom (b_index b') \<subseteq> insert (n_OrderID (b_node b inc)) (dom (b_index b))"
proof -
  let ?n = "b_node b inc"
  define x where "x = (n_Side ?n \<noteq> Bid)"
  obtain fills cancels disp b' where m: "match B inc b = Some (fills, cancels, disp, b')"
    "book_ok B b' (X - {inc})"
    and cases: "disp = Rejected \<and> fills = [] \<and> cancels = [] \<and> rejected B b inc b' \<or>
      (\<exists>s rested. fills = ms_fills s \<and> cancels = ms_cancels s \<and> disp = disposition s rested \<and>
         (n_TIF ?n = FOK \<longrightarrow> canFillFull B inc b = Some True) \<and> matched B b inc s rested b')"
    using place_total [OF B ok p] by blast
  from cases show ?thesis
  proof (elim disjE exE conjE)
    assume "fills = []" "rejected B b inc b'"
    then show ?thesis using m lv unfolding rejected_def
      by (intro exI [of _ fills] exI [of _ cancels] exI [of _ disp] exI [of _ b']) auto
  next
    fix s rested assume fills: "fills = ms_fills s" and "matched B b inc s rested b'"
    then have M: "msteps (b_config b) (start_state (side_view B x b) (core ?n) (b_orderSeq b)) s"
      "side_view B x b' = ms_levels s" "b_config b' = b_config b"
      "side_view B (\<not> x) b' = (if rested then rest_in (\<not> x) (ms_taker s) (side_view B (\<not> x) b) else side_view B (\<not> x) b)"
      "rested \<longrightarrow> wants_rest s" by (simp_all add: matched_def Let_def x_def)
    obtain G where rep: "book_rep B b G X" "tidy b G" using ok by (auto simp: book_ok_def)
    have "sound_state (price_prec b) (b_config b) (view_ids (side_view B x b))
        (start_state (side_view B x b) (core ?n) (b_orderSeq b))"
      using start_good [OF rep p, of x "b_orderSeq b"] lv [of x] side_view_ok [OF rep(1), of x]
      by (simp add: sound_state_def start_state_def)
    from msteps_sound [OF M(1) this]
    have S: "\<forall>e\<in>set (ms_levels s). level_sound (price_prec b) (qty_prec b) e"
      "view_ids (ms_levels s) \<subseteq> view_ids (side_view B x b)"
      "\<forall>f\<in>set (ms_fills s). fill_sound (price_prec b) (qty_prec b) f" by (simp_all add: sound_state_def)
    have strip: "strip (ms_taker s) = strip (core ?n)" using msteps_strip [OF M(1)] by (simp add: start_state_def)
    have taker: "taker_sound (price_prec b) (qty_prec b) (ms_taker s)"
      using t taker_sound_strip [OF strip] by (simp add: taker_sound_def resting_sound_def core_def)
    have id: "n_OrderID (ms_taker s) = n_OrderID ?n" using strip_eqD(1) [OF strip] by simp
    have other: "(\<forall>e\<in>set (side_view B (\<not> x) b'). level_sound (price_prec b) (qty_prec b) e) \<and>
        view_ids (side_view B (\<not> x) b') \<subseteq> insert (n_OrderID ?n) (view_ids (side_view B (\<not> x) b))"
    proof (cases rested)
      case True
      then have "n_Type (ms_taker s) \<noteq> Market" using M(5) by (simp add: wants_rest_def)
      then have "price_fits (price_prec b) (n_Price (ms_taker s))"
        "resting_sound (qty_prec b) (n_Price (ms_taker s)) (ms_taker s)"
        using taker by (simp_all add: taker_sound_def)
      from rest_in_sound [OF lv [of "\<not> x"] this, of "\<not> x"] show ?thesis using True M(4) id by simp
    qed (use M(4) lv in auto)
    have both: "dom (b_index c) = view_ids (side_view B x c) \<union> view_ids (side_view B (\<not> x) c)"
      if "book_ok B c Y" for c Y using index_dom [OF that] by (cases x) auto
    have "dom (b_index b') \<subseteq> insert (n_OrderID ?n) (dom (b_index b))"
      unfolding both [OF m(2)] both [OF ok] using other S(2) M(2) by auto
    moreover have "\<forall>e\<in>set (side_view B y b'). level_sound (price_prec b) (qty_prec b) e" for y
      using other S(1) M(2) by (cases "y = x") auto
    ultimately show ?thesis using m fills S(3) M(3)
      by (intro exI [of _ fills] exI [of _ cancels] exI [of _ disp] exI [of _ b']) simp
  qed
qed

subsection \<open>The shared step\<close>

text \<open>An order that was filled into a slot and may be matched.\<close>

definition ready :: "nat \<Rightarrow> 't Processor \<Rightarrow> bool" where
  "ready i p \<longleftrightarrow> placeable (p_book p) {i} i \<and> taker_sound (p_pp p) (p_qp p) (b_node (p_book p) i) \<and>
     n_OrderID (b_node (p_book p) i) \<notin> dom (sb_index (p_stopBook p))"

lemma placeAndEmit_ok:
  assumes B: "price_index B" and ok: "proc_ok B {i} p" and r: "ready i p" and pl: "place = match B i"
    and pr: "d_precision pr = p_pp p" and q: "d_precision q = p_qp p"
  shows "\<exists>r p'. placeAndEmit B place oid uid s pr q now p = Some (r, p') \<and> proc_ok B {} p' \<and>
     (\<forall>pr. r = Some pr \<longrightarrow> price_fits (p_pp p) pr) \<and> same_market p p' \<and> p_stopBook p' = p_stopBook p \<and>
     dom (b_index (p_book p')) \<subseteq> insert (n_OrderID (b_node (p_book p) i)) (dom (b_index (p_book p)))"
proof -
  let ?b = "p_book p"
  have bk: "book_ok B ?b {i}" "b_config ?b = p_cfg p"
    "\<And>y. \<forall>e\<in>set (side_view B y ?b). level_sound (p_pp p) (p_qp p) e"
    using ok by (simp_all add: proc_ok_def book_good_def)
  obtain fills cancels disp b' where m: "match B i ?b = Some (fills, cancels, disp, b')"
    "book_ok B b' ({i} - {i})" "b_config b' = b_config ?b"
    "\<And>y. \<forall>e\<in>set (side_view B y b'). level_sound (p_pp p) (p_qp p) e"
    "\<forall>f\<in>set fills. fill_sound (p_pp p) (p_qp p) f"
    "dom (b_index b') \<subseteq> insert (n_OrderID (b_node ?b i)) (dom (b_index ?b))"
    using match_keeps [OF B bk(1), of i] r bk(2,3) by (auto simp: ready_def)
  let ?p = "p\<lparr>p_book := b'\<rparr>"
  have p1: "proc_ok B {} ?p"
    using ok m(2,3,4,6) bk(2) r unfolding proc_ok_def proc_parts ready_def
    by (simp cong: option.case_cong) blast
  obtain r p2 where e: "emitFillEvents fills now ?p = Some (r, p2)" "proc_ok B {} p2" "quiet ?p p2"
    "\<forall>pr. r = Some pr \<longrightarrow> price_fits (p_pp p) pr"
    using emitFillEvents_ok [OF p1, of fills now] m(5) that by auto
  let ?p3 = "emitSTPCancels cancels now p2"
  have cfg: "p_cfg p2 = p_cfg p" using e(3) by (simp add: quiet_def same_market_def)
  obtain p4 where d: "emitDisposition B oid uid s pr q fills disp now ?p3 = Some p4" "proc_ok B {} p4" "quiet ?p3 p4"
    using emitDisposition_ok [OF B, of "{}" ?p3 pr q fills oid uid s disp now] e(2) pr q m(5) cfg by auto
  have "quiet ?p p4" using e(3) d(3) quiet_trans [of ?p ?p3 p4] by simp
  then show ?thesis
    using m(1,6) e(1,4) d(1,2) pl by (simp add: placeAndEmit_def quiet_def same_market_def)
qed

end
