(* ===== verification/Processor_Cascade.thy ===== *)
theory Processor_Cascade
  imports Processor_Place
begin

section \<open>The trigger cascade returns and keeps the invariant\<close>

text \<open>
  Triggered stops become orders, whose trades trigger further stops.  The depth grows with each
  call and the stop book refuses to trigger at its limit, so the recursion ends; on the way
  every order that is placed has an id no book knows.
\<close>

definition known_ids :: "'t Processor \<Rightarrow> OrderID set" where
  "known_ids p = dom (b_index (p_book p)) \<union> dom (sb_index (p_stopBook p))"

lemma known_ids_emit [simp]: "known_ids (emitEvent now mk p) = known_ids p"
  "known_ids (rejectOrder oid uid r m now p) = known_ids p"
  by (simp_all add: known_ids_def)

text \<open>What a handler gives: it returns, keeps the invariant and the settings, and the books name
  no orders but those of \<open>ids\<close>.\<close>

definition serves :: "'t btree_fns \<Rightarrow> OrderID set \<Rightarrow> 't Processor \<Rightarrow> 't Processor option \<Rightarrow> bool" where
  "serves B ids p r \<longleftrightarrow> (\<exists>p'. r = Some p' \<and> proc_ok B {} p' \<and> same_market p p' \<and> known_ids p' \<subseteq> ids)"

lemma servesI: "proc_ok B {} p' \<Longrightarrow> same_market p p' \<Longrightarrow> known_ids p' \<subseteq> ids \<Longrightarrow> serves B ids p (Some p')"
  by (simp add: serves_def)

lemma serves_bind:
  assumes "serves B ids p m" and "\<And>q. proc_ok B {} q \<Longrightarrow> same_market p q \<Longrightarrow> known_ids q \<subseteq> ids \<Longrightarrow> serves B ids' q (f q)"
  shows "serves B ids' p (Option.bind m f)"
  using assms same_market_trans unfolding serves_def by (metis bind.bind_lunit)

subsection \<open>Acquiring a slot\<close>

lemma book_ok_seq [simp]: "book_ok B (b\<lparr>b_orderSeq := c\<rparr>) X = book_ok B b X"
  "side_view B y (b\<lparr>b_orderSeq := c\<rparr>) = side_view B y b" "set_b_node i f (b\<lparr>b_orderSeq := c\<rparr>) = (set_b_node i f b)\<lparr>b_orderSeq := c\<rparr>"
  by (simp_all add: book_ok_def book_rep_def levels_rep_def tidy_def side_tree_def side_view_def set_b_node_def)

lemma acquire_sound:
  assumes ok: "proc_ok B {} p" and acq: "acquireOrder p = Inr (p1, i)"
  defines "q \<equiv> \<lambda>f. p1\<lparr>p_book := set_b_node i f (p_book p1)\<rparr>"
  shows "proc_ok B {i} (q f)" "b_node (p_book (q f)) i = f zeroNode" "b_node (p_book p1) i = zeroNode"
    "b_index (p_book (q f)) = b_index (p_book p)" "p_stopBook p1 = p_stopBook p" "same_market p p1"
    "p_cfg p1 = p_cfg p" "p_state p1 = p_state p" "p_auctionBook p1 = p_auctionBook p"
    "b_config (p_book p1) = b_config (p_book p)"
proof -
  let ?b = "p_book p"
  obtain pool where a: "Acquire zeroNode (h_nodes (b_heap ?b)) = Inr (pool, i)"
    "p1 = p\<lparr>p_book := ?b\<lparr>b_heap := (b_heap ?b)\<lparr>h_nodes := pool\<rparr>\<rparr>\<rparr>"
    using acq by (auto simp: acquireOrder_def split: sum.splits)
  have bk: "book_ok B ?b {}" using ok by (simp add: proc_ok_def book_good_def)
  note A = acquire_ok [OF bk a(1) refl, of f]
  have A': "book_ok B (p_book (q f)) {i}" "b_node (p_book (q f)) i = f zeroNode"
    "b_index (p_book (q f)) = b_index ?b" "b_config (p_book (q f)) = b_config ?b"
    "\<And>y. side_view B y (p_book (q f)) = side_view B y ?b"
    using A by (simp_all add: q_def a(2))
  show "proc_ok B {i} (q f)"
    using ok A' unfolding proc_ok_def proc_parts by (simp add: q_def a(2) cong: option.case_cong)
  show "b_node (p_book (q f)) i = f zeroNode" "b_index (p_book (q f)) = b_index ?b" using A' by simp_all
  obtain G where rep: "book_rep B ?b G {}" using bk by (auto simp: book_ok_def)
  show "b_node (p_book p1) i = zeroNode" using book_rep_acquire(4) [OF rep a(1)] by (simp add: a(2))
  show "p_stopBook p1 = p_stopBook p" "same_market p p1" "p_cfg p1 = p_cfg p" "p_state p1 = p_state p"
    "p_auctionBook p1 = p_auctionBook p" "b_config (p_book p1) = b_config ?b"
    by (simp_all add: a(2) same_market_def)
qed

text \<open>With the next sequence number: the handlers fill the node in after both.\<close>

lemma acquire_seq_sound:
  assumes ok: "proc_ok B {} p" and acq: "acquireOrder p = Inr (p1, i)" and seq: "nextOrderSeq p1 = (p2, c)"
  defines "q \<equiv> \<lambda>f. p2\<lparr>p_book := set_b_node i f (p_book p2)\<rparr>"
  shows "proc_ok B {i} (q f)" "b_node (p_book (q f)) i = f zeroNode" "b_node (p_book p2) i = zeroNode"
    "b_index (p_book (q f)) = b_index (p_book p)" "p_stopBook p2 = p_stopBook p" "same_market p p2"
    "p_cfg p2 = p_cfg p" "p_state p2 = p_state p" "p_auctionBook p2 = p_auctionBook p"
    "b_config (p_book (q f)) = p_cfg p"
proof -
  have p2: "p2 = p1\<lparr>p_book := (p_book p1)\<lparr>b_orderSeq := fst (Next (b_orderSeq (p_book p1)))\<rparr>\<rparr>"
    using seq by (auto simp: nextOrderSeq_def split: prod.splits)
  note a = acquire_sound [OF ok acq]
  show "proc_ok B {i} (q f)"
    using a(1) unfolding proc_ok_def proc_parts by (simp add: q_def p2 cong: option.case_cong)
  show "b_node (p_book (q f)) i = f zeroNode" "b_node (p_book p2) i = zeroNode"
    "b_index (p_book (q f)) = b_index (p_book p)" "p_stopBook p2 = p_stopBook p" "same_market p p2"
    "p_cfg p2 = p_cfg p" "p_state p2 = p_state p" "p_auctionBook p2 = p_auctionBook p"
    using a by (simp_all add: q_def p2 same_market_def)
  show "b_config (p_book (q f)) = p_cfg p"
    using ok a(10) by (simp add: q_def p2 set_b_node_def proc_ok_def book_good_def)
qed

subsection \<open>The breaker\<close>

lemma price_fits_move:
  assumes "price_fits pp a" "price_fits pp b"
  shows "\<bar>ival a - ival b\<bar> * 10000 < 2 ^ 63"
  using assms by (simp add: price_fits_def abs_if)

lemma samples_added: "set (window_add s c xs) \<subseteq> insert s (set xs)"
  by (auto simp: window_add_def Let_def dest!: set_dropWhileD in_set_dropD)

lemma haltMarket_sound [simp]:
  "proc_ok B X (haltMarket r t now p) = proc_ok B X p" "same_market q (haltMarket r t now p) = same_market q p"
  "known_ids (haltMarket r t now p) = known_ids p"
  by (simp_all add: haltMarket_def transitionTo_def Let_def same_market_def known_ids_def split: sum.split)

lemma checkBreaker_ok:
  assumes ok: "proc_ok B {} p" and pr: "price_fits (p_pp p) pr" and ids: "known_ids p \<subseteq> ids"
  shows "serves B ids p (checkBreaker pr now p)"
proof (cases "p_breaker p")
  case None
  then show ?thesis using ok ids by (simp add: checkBreaker_def serves_def)
next
  case (Some br)
  let ?w = "br_window br"
  have br: "window_ok ?w" "d_precision (cb_MaxMovePercent (br_cfg br)) = 4"
    "\<forall>s\<in>set (samples ?w). price_fits (p_pp p) (ps_Price s)"
    using ok Some by (simp_all add: proc_ok_def breaker_ok_def)
  define ys where "ys = window_add \<lparr>ps_Price = pr, ps_Timestamp = now\<rparr> (now - w_duration ?w) (samples ?w)"
  have ys: "\<forall>s\<in>set ys. price_fits (p_pp p) (ps_Price s)"
    using samples_added [of "\<lparr>ps_Price = pr, ps_Timestamp = now\<rparr>"] br(3) pr unfolding ys_def by fastforce
  have prec: "\<forall>s\<in>set ys. d_precision (ps_Price s) = d_precision pr \<and> 0 < ival (ps_Price s)"
    using ys pr by (simp add: price_fits_def)
  have small: "\<forall>s\<in>set ys. \<bar>ival pr - ival (ps_Price s)\<bar> * 10000 < 2 ^ 63"
    using ys pr price_fits_move by blast
  obtain br' halt where c: "Check pr now br = Some (if halt then halt_reason else [], halt, br')"
    "samples (br_window br') = ys" "window_ok (br_window br')" "br_cfg br' = br_cfg br"
    using Check_ok [OF br(1,2) ys_def prec small] by blast
  have ok': "proc_ok B {} (p\<lparr>p_breaker := Some br'\<rparr>)" "proc_ok B {} (p\<lparr>p_breaker := Some (SetLastHalt now br')\<rparr>)"
    using ok br(2) c(2-4) ys Reset_window_ok(1) [OF c(3)] unfolding proc_ok_def proc_parts
    by (simp_all add: SetLastHalt_def Reset_window_ok(2) cong: option.case_cong)
  have swap: "p\<lparr>p_preHaltState := s, p_state := m, p_breaker := c\<rparr> =
      p\<lparr>p_breaker := c, p_preHaltState := s, p_state := m\<rparr>" for s m c by simp
  show ?thesis using ok' ids
    by (cases halt; cases "Transition Halted (p_state p)")
      (simp_all add: checkBreaker_def Some c(1) transitionTo_def Let_def serves_def swap same_market_def known_ids_def)
qed

subsection \<open>A triggered order\<close>

definition trig_sound :: "u8 \<Rightarrow> u8 \<Rightarrow> TriggeredOrder \<Rightarrow> bool" where
  "trig_sound pp qp t \<longleftrightarrow> d_precision (to_Qty t) = qp \<and> 0 < ival (to_Qty t) \<and>
     (\<forall>u. to_STPMode t \<noteq> STPByte u) \<and> (to_ConvertTo t \<noteq> Market \<longrightarrow> price_fits pp (to_LimitPrice t))"

lemma trig_sound_convert: "trig_sound pp qp (convertToTriggered n) = stop_sound pp qp n"
  by (simp add: trig_sound_def stop_sound_def convertToTriggered_def)

text \<open>What a step that places one order gives.\<close>

definition placed :: "'t btree_fns \<Rightarrow> OrderID \<Rightarrow> 't Processor \<Rightarrow> (Decimal option \<times> 't Processor) option \<Rightarrow> bool" where
  "placed B oid p r \<longleftrightarrow> (\<exists>pr p'. r = Some (pr, p') \<and> proc_ok B {} p' \<and> same_market p p' \<and>
     (\<forall>d. pr = Some d \<longrightarrow> price_fits (p_pp p) d) \<and> known_ids p' \<subseteq> insert oid (known_ids p))"

text \<open>A node as the handlers fill it in; the slot was empty.\<close>

definition new_order :: "u8 \<Rightarrow> u8 \<Rightarrow> nat \<Rightarrow> OrderNode \<Rightarrow> bool" where
  "new_order pp qp i n \<longleftrightarrow> sound_order qp n \<and> 0 < remaining n \<and> n_PoolIndex n = i \<and> priced pp n \<and>
     taker_sound pp qp n"

text \<open>A node that was filled in is ready, and the order is placed.\<close>

lemma place_node_ok:
  assumes B: "price_index B" and ok: "proc_ok B {} p" and ok': "proc_ok B {i} e"
    and node: "b_node (p_book e) i = n" and n: "new_order (p_pp p) (p_qp p) i n"
    and id: "n_OrderID n = oid" and fresh: "oid \<notin> known_ids p"
    and sm: "same_market p e" and stops: "p_stopBook e = p_stopBook p"
    and book: "b_index (p_book e) = b_index (p_book p)" "b_config (p_book e) = p_cfg p"
    and pl: "place = match B i" and pr: "d_precision pr = p_pp p" and q: "d_precision q = p_qp p"
  shows "ready i e" "placed B oid p (placeAndEmit B place oid' uid s pr q now e)"
proof -
  have cfg: "p_cfg e = p_cfg p" using sm by (simp add: same_market_def)
  have "\<forall>u. mc_STPMode (p_cfg p) \<noteq> STPByte u" using ok by (simp add: proc_ok_def settings_ok_def market_ok_def)
  then show r: "ready i e" using n fresh book
    by (simp add: ready_def placeable_def Let_def node new_order_def valid_stp_def sound_order_def stops cfg
      known_ids_def domIff id)
  show "placed B oid p (placeAndEmit B place oid' uid s pr q now e)"
    using placeAndEmit_ok [OF B ok' r pl, of pr q oid' uid s now] pr q same_market_trans [OF sm] book(1)
    by (auto simp: placed_def known_ids_def node id cfg stops) (meson domI domD insertE subsetD)
qed

text \<open>With the sequence number and the announcement in between, as in most handlers.\<close>

lemma place_filled_ok:
  assumes B: "price_index B" and ok: "proc_ok B {} p" and acq: "acquireOrder p = Inr (p1, i)"
    and seq: "nextOrderSeq p1 = (p2, c)" and n: "new_order (p_pp p) (p_qp p) i (f zeroNode)"
    and id: "n_OrderID (f zeroNode) = oid" and fresh: "oid \<notin> known_ids p"
    and pl: "place = match B i" and pr: "d_precision pr = p_pp p" and q: "d_precision q = p_qp p"
    and e: "e = emitEvent now mk (p2\<lparr>p_book := set_b_node i f (p_book p2)\<rparr>)"
  shows "proc_ok B {i} e" "ready i e" "same_market p e" "b_node (p_book e) i = f zeroNode"
    "placed B oid p (placeAndEmit B place oid' uid s pr q now e)"
proof -
  note a = acquire_seq_sound [OF ok acq seq]
  have book: "p_book e = p_book (p2\<lparr>p_book := set_b_node i f (p_book p2)\<rparr>)" by (simp add: e)
  show sm: "same_market p e" using a(6) by (simp add: e same_market_def)
  have stops: "p_stopBook e = p_stopBook p" using a(5) by (simp add: e)
  show node: "b_node (p_book e) i = f zeroNode" unfolding book by (rule a(2))
  show ok': "proc_ok B {i} e" using a(1) by (simp add: e)
  have b: "b_index (p_book e) = b_index (p_book p)" "b_config (p_book e) = p_cfg p"
    unfolding book by (rule a(4) a(10))+
  show "ready i e" "placed B oid p (placeAndEmit B place oid' uid s pr q now e)"
    by (rule place_node_ok [OF B ok ok' node n id fresh sm stops b pl pr q])+
qed

lemma zeroNode_sel [simp]: "n_HiddenQty zeroNode = zeroDecimal"
  by (simp add: zeroNode_def)

lemma zeroDecimal_ival [simp]: "ival zeroDecimal = 0"
  by (simp add: zeroDecimal_def)

lemma triggeredNode_new:
  assumes "trig_sound (mc_PricePrecision cfg) (mc_QtyPrecision cfg) t"
  shows "new_order (mc_PricePrecision cfg) (mc_QtyPrecision cfg) i (triggeredNode cfg t i c now zeroNode)"
  using assms by (simp add: new_order_def trig_sound_def triggeredNode_def sound_order_def node_prec_def priced_def
    taker_sound_def resting_sound_def price_fits_def Has_Clear FlagIceberg_def Zero_def NewDecimal_def)

lemma PlaceLimit_match: "PlaceLimit B i = match B i" "PlaceMarket B i = match B i"
  by (simp_all add: fun_eq_iff PlaceMarket_def PlaceLimit_def)

lemma placeTriggered_ok:
  assumes B: "price_index B" and ok: "proc_ok B {} p" and acq: "acquireOrder p = Inr (p1, i)"
    and t: "trig_sound (p_pp p) (p_qp p) t" and fresh: "to_OrderID t \<notin> known_ids p"
  shows "placed B (to_OrderID t) p (placeTriggered B t i now p1)"
proof -
  obtain p2 c where seq: "nextOrderSeq p1 = (p2, c)" by fastforce
  have cfg: "p_cfg p2 = p_cfg p" using acquire_seq_sound(7) [OF ok acq seq] .
  have qp: "d_precision (to_Qty t) = p_qp p" and z: "d_precision (Zero (p_pp p)) = p_pp p"
    and lp: "to_ConvertTo t \<noteq> Market \<Longrightarrow> d_precision (to_LimitPrice t) = p_pp p"
    using t by (simp_all add: trig_sound_def price_fits_def Zero_def NewDecimal_def)
  have id: "n_OrderID (triggeredNode (p_cfg p) t i c now zeroNode) = to_OrderID t" by (simp add: triggeredNode_def)
  note place = place_filled_ok(5) [where f = "triggeredNode (p_cfg p) t i c now",
      OF B ok acq seq triggeredNode_new [OF t] id fresh _ _ qp refl]
  show ?thesis using place [of _ "Zero (p_pp p)"] place [of _ "to_LimitPrice t"] z lp
    by (simp add: placeTriggered_def seq cfg PlaceLimit_match Let_def)
qed

text \<open>\<open>again\<close> is what the recursive call promises.\<close>

definition continues :: "'t btree_fns \<Rightarrow> 't Processor \<Rightarrow> (Decimal \<Rightarrow> 't Processor \<Rightarrow> 't Processor option) \<Rightarrow> bool" where
  "continues B p0 k \<longleftrightarrow> (\<forall>pr q. proc_ok B {} q \<longrightarrow> same_market p0 q \<longrightarrow> price_fits (p_pp p0) pr \<longrightarrow>
     serves B (known_ids q) q (k pr q))"

lemma processTriggeredOrder_ok:
  assumes B: "price_index B" and ok: "proc_ok B {} p" and again: "continues B p (\<lambda>pr. again pr (depth + 1))"
    and t: "trig_sound (p_pp p) (p_qp p) t" and fresh: "to_OrderID t \<notin> known_ids p"
  shows "serves B (insert (to_OrderID t) (known_ids p)) p (processTriggeredOrder B again t depth now p)"
proof (cases "acquireOrder p")
  case (Inl err)
  then show ?thesis using ok by (auto simp: processTriggeredOrder_def serves_def)
next
  case (Inr a)
  obtain p1 i where a: "a = (p1, i)" by fastforce
  obtain pr q where q: "placeTriggered B t i now p1 = Some (pr, q)" "proc_ok B {} q" "same_market p q"
    "\<forall>d. pr = Some d \<longrightarrow> price_fits (p_pp p) d" "known_ids q \<subseteq> insert (to_OrderID t) (known_ids p)"
    using placeTriggered_ok [OF B ok Inr [unfolded a] t fresh, of now] by (auto simp: placed_def)
  show ?thesis
  proof (cases pr)
    case None
    then show ?thesis using Inr a q by (simp add: processTriggeredOrder_def serves_def)
  next
    case (Some d)
    then have "serves B (known_ids q) q (again d (depth + 1) q)" using again q by (simp add: continues_def)
    then show ?thesis using Inr a Some q same_market_trans [OF q(3)]
      by (auto simp: processTriggeredOrder_def serves_def)
  qed
qed

lemma continues_same: "continues B p k \<Longrightarrow> same_market p q \<Longrightarrow> continues B q k"
  using same_market_trans by (auto simp: continues_def same_market_def)

lemma processTriggered_ok:
  assumes B: "price_index B"
  shows "proc_ok B {} p \<Longrightarrow> continues B p (\<lambda>pr. again pr (depth + 1)) \<Longrightarrow>
    \<forall>t\<in>set ts. trig_sound (p_pp p) (p_qp p) t \<Longrightarrow> distinct (map to_OrderID ts) \<Longrightarrow>
    to_OrderID ` set ts \<inter> known_ids p = {} \<Longrightarrow>
    serves B (to_OrderID ` set ts \<union> known_ids p) p (processTriggered B again lp depth now ts p)"
proof (induction ts arbitrary: p)
  case Nil
  then show ?case by (simp add: serves_def)
next
  case (Cons t ts)
  define e where "e = emitEvent now (\<lambda>base. EvStopTriggered
          \<lparr>sg_Base = base, sg_StopOrderID = to_OrderID t, sg_UserID = to_UserID t,
           sg_TriggerPrice = lp, sg_ConvertedTo = to_ConvertTo t,
           sg_ConvertedPrice = to_LimitPrice t\<rparr>) p"
  have e: "proc_ok B {} e" "same_market p e" "known_ids e = known_ids p" "p_cfg e = p_cfg p"
    using Cons.prems(1) by (simp_all add: e_def same_market_def)
  obtain q where q: "processTriggeredOrder B again t depth now e = Some q" "proc_ok B {} q" "same_market e q"
    "known_ids q \<subseteq> insert (to_OrderID t) (known_ids p)"
    using processTriggeredOrder_ok [where again = again and depth = depth and now = now and t = t,
        OF B e(1) continues_same [OF Cons.prems(2) e(2)]] Cons.prems e
    by (auto simp: serves_def)
  have m: "same_market p q" using same_market_trans [OF e(2) q(3)] .
  then have "p_cfg q = p_cfg p" by (simp add: same_market_def)
  moreover have "to_OrderID ` set ts \<inter> known_ids q = {}"
  proof -
    have "to_OrderID ` set ts \<inter> insert (to_OrderID t) (known_ids p) = {}" using Cons.prems(4,5) by auto
    then show ?thesis using q(4) by blast
  qed
  moreover have "distinct (map to_OrderID ts)" "\<forall>t\<in>set ts. trig_sound (p_pp p) (p_qp p) t" using Cons.prems by simp_all
  ultimately obtain q' where q': "processTriggered B again lp depth now ts q = Some q'" "proc_ok B {} q'" "same_market q q'"
    "known_ids q' \<subseteq> to_OrderID ` set ts \<union> known_ids q"
    using Cons.IH [OF q(2) continues_same [OF Cons.prems(2) m]] by (auto simp: serves_def)
  have "processTriggered B again lp depth now (t # ts) p = Some q'" using q(1) q'(1) by (simp add: e_def)
  moreover have "known_ids q' \<subseteq> to_OrderID ` set (t # ts) \<union> known_ids p" using q'(4) q(4) by auto
  ultimately show ?case using q'(2) same_market_trans [OF m q'(3)] by (simp add: serves_def)
qed

subsection \<open>The stops that fire\<close>

lemma distinct_filter_concat:
  assumes "distinct (concat (map g L))"
  shows "distinct (concat (map g (filter P L)))"
    "set (concat (map g (filter P L))) \<inter> set (concat (map g (filter (\<lambda>x. \<not> P x) L))) = {}"
  using assms by (induction L) auto

lemma set_stop_view_ids: "stop_view_ids L = set (concat (map (map st_OrderID \<circ> snd) L))"
  by (force simp: stop_view_ids_def)

lemma fired_ids:
  assumes ok: "stop_ok B pp s X" and ok': "stop_ok B pp s' X"
    and view: "\<forall>x. stop_view B x s' = filter (\<lambda>e. \<not> hit x lp (fst e)) (stop_view B x s)"
    and ts: "ts = concat (map (map convertToTriggered \<circ> snd) (filter (hit True lp \<circ> fst) (stop_view B True s)) @
       map (map convertToTriggered \<circ> snd) (filter (hit False lp \<circ> fst) (stop_view B False s)))"
  shows "distinct (map to_OrderID ts)" "to_OrderID ` set ts \<inter> dom (sb_index s') = {}"
    "to_OrderID ` set ts \<subseteq> dom (sb_index s)" "dom (sb_index s') \<subseteq> dom (sb_index s)"
    "set ts = {convertToTriggered n | x e n. e \<in> set (stop_view B x s) \<and> hit x lp (fst e) \<and> n \<in> set (snd e)}"
proof -
  define L where "L = map (Pair True) (stop_view B True s) @ map (Pair False) (stop_view B False s)"
  define g where "g = (\<lambda>(x :: bool, e :: Decimal \<times> stop_queue). map st_OrderID (snd e))"
  define P where "P = (\<lambda>(x, e :: Decimal \<times> stop_queue). hit x lp (fst e))"
  have filt: "filter Q (map (Pair x) es) = map (Pair x) (filter (\<lambda>e. Q (x, e)) es)" for Q :: "bool \<times> Decimal \<times> stop_queue \<Rightarrow> bool" and x es
    by (induction es) simp_all
  have gP: "map g (map (Pair x) es) = map (map st_OrderID \<circ> snd) es" for x es by (simp add: g_def)
  have conv: "map to_OrderID (concat (map (map convertToTriggered \<circ> snd) es)) = concat (map (map st_OrderID \<circ> snd) es)" for es
    by (simp add: map_concat comp_def convertToTriggered_def)
  have "concat (map g L) = map st_OrderID (concat (map snd (stop_view B True s)) @ concat (map snd (stop_view B False s)))"
    by (simp add: L_def g_def map_concat comp_def)
  then have d: "distinct (concat (map g L))" using stop_index_dom(2) [OF ok] by simp
  have hits: "map to_OrderID ts = concat (map g (filter P L))"
    by (simp add: ts L_def filt gP conv P_def comp_def g_def map_concat convertToTriggered_def)
  have rest: "dom (sb_index s') = set (concat (map g (filter (\<lambda>x. \<not> P x) L)))"
    using stop_index_dom(1) [OF ok'] view by (simp add: L_def filt P_def g_def set_stop_view_ids comp_def)
  show "distinct (map to_OrderID ts)" unfolding hits by (rule distinct_filter_concat(1) [OF d])
  show "to_OrderID ` set ts \<inter> dom (sb_index s') = {}"
    unfolding rest using distinct_filter_concat(2) [OF d, of P] hits by (metis set_map)
  have all: "dom (sb_index s) = set (concat (map g L))"
    using stop_index_dom(1) [OF ok] by (simp add: L_def g_def set_stop_view_ids comp_def)
  have "to_OrderID ` set ts = set (concat (map g (filter P L)))" using hits by (metis set_map)
  then show "to_OrderID ` set ts \<subseteq> dom (sb_index s)" unfolding all by auto
  show "dom (sb_index s') \<subseteq> dom (sb_index s)" unfolding rest all by auto
  show "set ts = {convertToTriggered n | x e n. e \<in> set (stop_view B x s) \<and> hit x lp (fst e) \<and> n \<in> set (snd e)}"
    unfolding ts by (auto simp: ex_bool_eq)
qed

lemma stops_fired:
  assumes B: "price_index B" and ok: "proc_ok B {} p" and lp: "price_fits (p_pp p) lp"
    and depth: "depth < sb_maxDepth (p_stopBook p)"
  shows "\<exists>ts sb. CheckTriggers B lp depth (p_stopBook p) = Some (Inr (ts, sb)) \<and>
     proc_ok B {} (p\<lparr>p_stopBook := sb\<rparr>) \<and> same_market p (p\<lparr>p_stopBook := sb\<rparr>) \<and>
     (\<forall>t\<in>set ts. trig_sound (p_pp p) (p_qp p) t) \<and> distinct (map to_OrderID ts) \<and>
     to_OrderID ` set ts \<inter> known_ids (p\<lparr>p_stopBook := sb\<rparr>) = {} \<and>
     to_OrderID ` set ts \<union> known_ids (p\<lparr>p_stopBook := sb\<rparr>) \<subseteq> known_ids p"
proof -
  let ?s = "p_stopBook p"
  have st: "stop_ok B (p_pp p) ?s {}" "\<forall>x. \<forall>e\<in>set (stop_view B x ?s). \<forall>n\<in>set (snd e). stop_sound (p_pp p) (p_qp p) n"
    and apart: "dom (b_index (p_book p)) \<inter> dom (sb_index ?s) = {}"
    using ok by (simp_all add: proc_ok_def stops_good_def ids_apart_def)
  have lp': "d_precision lp = p_pp p" using lp by (simp add: price_fits_def)
  obtain ts sb where c: "CheckTriggers B lp depth ?s = Some (Inr (ts, sb))"
    "ts = concat (map (map convertToTriggered \<circ> snd) (filter (hit True lp \<circ> fst) (stop_view B True ?s)) @
       map (map convertToTriggered \<circ> snd) (filter (hit False lp \<circ> fst) (stop_view B False ?s)))"
    "stop_ok B (p_pp p) sb {}" "sb_maxDepth sb = sb_maxDepth ?s"
    "\<forall>x. stop_view B x sb = filter (\<lambda>e. \<not> hit x lp (fst e)) (stop_view B x ?s)"
    using CheckTriggers_ok [OF B st(1) lp' depth] by blast
  note ids = fired_ids [OF st(1) c(3,5,2)]
  have "\<forall>t\<in>set ts. trig_sound (p_pp p) (p_qp p) t"
    using st(2) unfolding ids(5) by (auto simp: trig_sound_convert)
  moreover have "proc_ok B {} (p\<lparr>p_stopBook := sb\<rparr>)"
  proof -
    have "\<forall>x. \<forall>e\<in>set (stop_view B x sb). \<forall>n\<in>set (snd e). stop_sound (p_pp p) (p_qp p) n"
    proof (intro allI ballI)
      fix x e n assume "e \<in> set (stop_view B x sb)" "n \<in> set (snd e)"
      moreover from this(1) have "e \<in> set (stop_view B x ?s)" by (simp add: c(5))
      ultimately show "stop_sound (p_pp p) (p_qp p) n" using st(2) by blast
    qed
    moreover have "dom (b_index (p_book p)) \<inter> dom (sb_index sb) = {}" using apart ids(4) by blast
    ultimately show ?thesis
      using ok c(3) unfolding proc_ok_def proc_parts by (simp del: c(5) cong: option.case_cong)
  qed
  ultimately show ?thesis using c(1,4) ids(1-4) apart
    by (intro exI [of _ ts] exI [of _ sb]) (simp add: same_market_def known_ids_def, blast)
qed

text \<open>The whole cascade.\<close>

lemma checkStopsAndBreaker_ok:
  assumes B: "price_index B"
  shows "proc_ok B {} p \<Longrightarrow> price_fits (p_pp p) lp \<Longrightarrow> serves B (known_ids p) p (checkStopsAndBreaker B lp depth now p)"
proof (induction "nat (sb_maxDepth (p_stopBook p) - depth)" arbitrary: p lp depth rule: less_induct)
  case less
  let ?again = "\<lambda>price d. checkStopsAndBreaker B price d now"
  show ?case
  proof (cases "sb_maxDepth (p_stopBook p) \<le> depth")
    case True
    then show ?thesis using less.prems
      by (subst checkStopsAndBreaker.simps) (simp add: CheckTriggers_def serves_def)
  next
    case False
    then have "depth < sb_maxDepth (p_stopBook p)" by simp
    from stops_fired [OF B less.prems this] obtain ts sb where
      s: "CheckTriggers B lp depth (p_stopBook p) = Some (Inr (ts, sb))"
      "proc_ok B {} (p\<lparr>p_stopBook := sb\<rparr>)" "same_market p (p\<lparr>p_stopBook := sb\<rparr>)"
      "\<forall>t\<in>set ts. trig_sound (p_pp p) (p_qp p) t" "distinct (map to_OrderID ts)"
      "to_OrderID ` set ts \<inter> known_ids (p\<lparr>p_stopBook := sb\<rparr>) = {}"
      "to_OrderID ` set ts \<union> known_ids (p\<lparr>p_stopBook := sb\<rparr>) \<subseteq> known_ids p" by blast
    let ?p = "p\<lparr>p_stopBook := sb\<rparr>"
    have "serves B (known_ids q) q (?again pr (depth + 1) q)"
      if "proc_ok B {} q" "same_market p q" "price_fits (p_pp p) pr" for q pr
    proof -
      have "nat (sb_maxDepth (p_stopBook q) - (depth + 1)) < nat (sb_maxDepth (p_stopBook p) - depth)"
        "p_cfg q = p_cfg p" using that(2) False by (auto simp: same_market_def)
      then show ?thesis using less.hyps [OF _ that(1)] that(3) by simp
    qed
    then have "continues B p (\<lambda>pr. ?again pr (depth + 1))" by (simp add: continues_def)
    from processTriggered_ok [where again = ?again and depth = depth and ts = ts and lp = lp and now = now,
        OF B s(2) continues_same [OF this s(3)] _ s(5,6)]
    obtain q where q: "processTriggered B ?again lp depth now ts ?p = Some q" "proc_ok B {} q"
      "same_market ?p q" "known_ids q \<subseteq> to_OrderID ` set ts \<union> known_ids ?p"
      using s(4) by (auto simp: serves_def)
    have "known_ids q \<subseteq> known_ids p" using q(4) s(7) by (rule subset_trans)
    then have "serves B (known_ids p) p (processTriggered B ?again lp depth now ts ?p)"
      using q(1-3) same_market_trans [OF s(3)] by (simp add: serves_def)
    moreover have "serves B (known_ids p) q (checkBreaker lp now q)"
      if "proc_ok B {} q" "same_market p q" "known_ids q \<subseteq> known_ids p" for q
      using checkBreaker_ok [OF that(1) _ that(3)] that(2) less.prems(2) by (simp add: same_market_def)
    ultimately have "serves B (known_ids p) p
        (Option.bind (processTriggered B ?again lp depth now ts ?p) (checkBreaker lp now))"
      by (rule serves_bind)
    then show ?thesis by (subst checkStopsAndBreaker.simps) (simp add: s(1))
  qed
qed

end
