(* ===== verification/Processor_Handlers.thy ===== *)
theory Processor_Handlers
  imports Processor_Cascade
begin

section \<open>The order handlers return and keep the invariant\<close>

text \<open>
  A command whose decimals have the market's precisions passes through the checks without a
  panic; what passes all of them is a node that can be placed.  Market and limit orders then
  share the steps of \<open>Processor_Cascade\<close>.
\<close>

subsection \<open>Checks\<close>

definition answers :: "'a option \<Rightarrow> bool" where
  "answers c \<longleftrightarrow> (\<exists>r. c = Some r)"

lemma first_check_total: "\<forall>c\<in>set cs. answers c \<Longrightarrow> answers (first_check cs)"
  by (induction cs) (auto simp: answers_def split: option.splits)

lemma first_check_pass: "first_check cs = Some None \<longleftrightarrow> (\<forall>c\<in>set cs. c = Some None)"
  by (induction cs) (auto split: option.splits)

declare first_check.simps(2) [simp del]

lemma check_simps [simp]:
  "answers (check f r m)" "check f r m = Some None \<longleftrightarrow> \<not> f"
  "answers (check_that b r m) \<longleftrightarrow> answers b" "check_that b r m = Some None \<longleftrightarrow> b = Some False"
  by (auto simp: check_def check_that_def answers_def bind_Some_iff)

lemma and_then_simps [simp]:
  "answers (and_then a b) \<longleftrightarrow> (a \<longrightarrow> answers b)" "and_then a b = Some False \<longleftrightarrow> (a \<longrightarrow> b = Some False)"
  by (auto simp: and_then_def answers_def)

lemma answers_simps [simp]: "answers (Some x)" "answers (map_option f b) \<longleftrightarrow> answers b"
  by (auto simp: answers_def)

lemma answers_bind: "answers m \<Longrightarrow> (\<And>x. m = Some x \<Longrightarrow> answers (f x)) \<Longrightarrow> answers (Option.bind m f)"
  by (auto simp: answers_def)

text \<open>The scale of a quantity is not zero as a 64-bit number.\<close>

lemma qtyScale_nonzero:
  assumes "n < 64"
  shows "qtyScale n \<noteq> 0"
proof
  assume "qtyScale n = 0"
  moreover have "qtyScale n = word_of_int (10 ^ n)" by (simp add: qtyScale_eq)
  ultimately have "2 ^ 64 dvd (10 ^ n :: int)" using word_of_int_eq_0_iff [where ?'a = 64, of "10 ^ n"] by simp
  also have "(10 ^ n :: int) = 2 ^ n * 5 ^ n" by (simp add: power_mult_distrib [symmetric])
  also have "(2 ^ 64 :: int) = 2 ^ n * 2 ^ (64 - n)" using assms by (simp add: power_add [symmetric] del: power_numeral)
  finally have "2 ^ (64 - n) dvd (5 ^ n :: int)" by (simp del: power_numeral)
  moreover have "2 dvd (2 ^ (64 - n) :: int)" using assms by (simp add: dvd_power)
  ultimately have "even (5 ^ n :: int)" by (rule dvd_trans [rotated])
  then show False by simp
qed

lemma valueAboveMax_total:
  "unat (d_precision q) < 64 \<Longrightarrow> answers (valueAboveMax p q m)"
  using qtyScale_nonzero by (simp add: valueAboveMax_def go_quot_def Let_def)

lemma valid_tick_total:
  assumes "d_precision d = d_precision t"
  shows "answers (IsValidTick d t)" "answers (IsValidLot d t)"
  using assms by (auto simp: answers_def IsValidTick_def IsValidLot_def go_prec go_rem_def)

lemma wouldIncrease_total:
  assumes "tracker_ok pt" and "d_precision q = pt_precision pt"
  shows "answers (wouldIncrease u s q pt)"
proof -
  have "d_precision (position u pt) = pt_precision pt"
    using assms(1) by (auto simp: tracker_ok_def position_def Zero_def NewDecimal_def split: option.splits intro: ranI)
  then show ?thesis using assms(2) by (simp add: wouldIncrease_def Let_def Add_same Sub_same)
qed

lemma proc_qtyD:
  assumes "proc_ok B X p"
  shows "market_ok (p_cfg p)" "tracker_ok (p_positions p)" "pt_precision (p_positions p) = p_qp p"
    "book_ok B (p_book p) X" "b_config (p_book p) = p_cfg p" "stop_ok B (p_pp p) (p_stopBook p) {}"
  using assms by (simp_all add: proc_ok_def proc_parts)

lemma qtyChecks_total:
  assumes "market_ok cfg" and "d_precision q = mc_QtyPrecision cfg"
  shows "\<forall>c\<in>set (qtyChecks cfg q). answers c"
  using assms by (auto simp: qtyChecks_def market_ok_def compare_same)

lemma reduceOnlyChecks_total:
  assumes "proc_ok B X p" and "d_precision q = p_qp p"
  shows "\<forall>c\<in>set (reduceOnlyChecks u s q fl p). answers c"
  using wouldIncrease_total [of "p_positions p" q u s] proc_qtyD(2,3) [OF assms(1)] assms(2)
  by (auto simp: reduceOnlyChecks_def)

lemma not_known: "knownOrder oid p \<longleftrightarrow> oid \<in> known_ids p"
  by (auto simp: knownOrder_def known_ids_def HasOrder_def Has_stop_def)

subsection \<open>Handlers\<close>

text \<open>A handler returns and keeps the invariant; the configuration never changes.\<close>

definition keeps :: "'t btree_fns \<Rightarrow> 't Processor \<Rightarrow> 't Processor option \<Rightarrow> bool" where
  "keeps B p r \<longleftrightarrow> (\<exists>p'. r = Some p' \<and> proc_ok B {} p' \<and> p_cfg p' = p_cfg p)"

lemma serves_keeps: "serves B ids p r \<Longrightarrow> keeps B p r"
  by (auto simp: serves_def keeps_def same_market_def)

lemma keeps_reject [simp]: "keeps B p (Some (rejectOrder oid uid r m now p)) = proc_ok B {} p"
  by (auto simp: keeps_def rejectOrder_def)

lemma afterMatch_ok:
  assumes B: "price_index B" and p: "placed B oid p r"
  shows "keeps B p (Option.bind r (afterMatch B now))"
proof -
  obtain pr q where q: "r = Some (pr, q)" "proc_ok B {} q" "same_market p q"
    "\<forall>d. pr = Some d \<longrightarrow> price_fits (p_pp p) d"
    using p by (auto simp: placed_def)
  have cfg: "p_cfg q = p_cfg p" using q(3) by (simp add: same_market_def)
  have "keeps B q (afterMatch B now (pr, q))"
  proof (cases pr)
    case None
    then show ?thesis using q(2) by (simp add: afterMatch_def keeps_def)
  next
    case (Some d)
    then have "serves B (known_ids q) q (checkStopsAndBreaker B d 0 now q)"
      using checkStopsAndBreaker_ok [OF B q(2)] q(4) cfg by simp
    then show ?thesis using Some by (simp add: afterMatch_def serves_keeps)
  qed
  then show ?thesis using q(1) cfg by (simp add: keeps_def)
qed

lemma match_filled_ok:
  assumes B: "price_index B" and ok: "proc_ok B {} p" and acq: "acquireOrder p = Inr (p1, i)"
    and seq: "nextOrderSeq p1 = (p2, c)" and n: "new_order (p_pp p) (p_qp p) i (f zeroNode)"
    and fresh: "n_OrderID (f zeroNode) \<notin> known_ids p"
    and pr: "d_precision pr = p_pp p" and q: "d_precision q = p_qp p"
  shows "keeps B p (Option.bind (placeAndEmit B (match B i) oid' uid s pr q now
     (emitEvent now mk (p2\<lparr>p_book := set_b_node i f (p_book p2)\<rparr>))) (afterMatch B now))"
  by (rule afterMatch_ok [OF B place_filled_ok(5) [where f = f, OF B ok acq seq n refl fresh refl pr q refl]])

subsection \<open>Market orders\<close>

definition market_form :: "MarketConfig \<Rightarrow> PlaceMarketOrder \<Rightarrow> bool" where
  "market_form cfg cmd \<longleftrightarrow> d_precision (pm_Qty cmd) = mc_QtyPrecision cfg \<and> (\<forall>u. pm_STPMode cmd \<noteq> STPByte u)"

lemma marketNode_new:
  assumes "market_form cfg cmd" and "IsPositive (pm_Qty cmd)" and "\<not> Has (pm_Flags cmd) FlagIceberg"
  shows "new_order (mc_PricePrecision cfg) (mc_QtyPrecision cfg) i (marketNode cfg cmd i c now zeroNode)"
  using assms by (simp add: new_order_def market_form_def marketNode_def sound_order_def node_prec_def priced_def
    taker_sound_def resting_sound_def IsPositive_def Zero_def NewDecimal_def)

lemma marketChecks_total:
  assumes "proc_ok B {} p" and "market_form (p_cfg p) cmd"
  shows "answers (marketChecks cmd p)"
  unfolding marketChecks_def
  using reduceOnlyChecks_total [OF assms(1)] qtyChecks_total [OF proc_qtyD(1) [OF assms(1)]] assms(2)
  by (intro first_check_total) (auto simp: market_form_def)

lemma processMarketOrder_ok:
  assumes B: "price_index B" and ok: "proc_ok B {} p" and f: "market_form (p_cfg p) cmd"
  shows "keeps B p (processMarketOrder B cmd now p)"
proof -
  obtain v where v: "marketChecks cmd p = Some v" using marketChecks_total [OF ok f] by (auto simp: answers_def)
  show ?thesis
  proof (cases v)
    case (Some r)
    then show ?thesis using v ok by (cases r) (simp add: processMarketOrder_def)
  next
    case None
    then have pass: "IsPositive (pm_Qty cmd)" "\<not> Has (pm_Flags cmd) FlagIceberg" "pm_OrderID cmd \<notin> known_ids p"
      using v by (simp_all add: marketChecks_def first_check_pass qtyChecks_def not_known)
    have "keeps B p (placeMarketOrder B cmd now p)"
    proof (cases "acquireOrder p")
      case (Inl err)
      then show ?thesis using ok by (simp add: placeMarketOrder_def)
    next
      case (Inr a)
      obtain p1 i where a: "a = (p1, i)" by fastforce
      obtain p2 c where seq: "nextOrderSeq p1 = (p2, c)" by fastforce
      have cfg: "p_cfg p2 = p_cfg p" using acquire_seq_sound(7) [OF ok Inr [unfolded a] seq] .
      have id: "n_OrderID (marketNode (p_cfg p) cmd i c now zeroNode) = pm_OrderID cmd" by (simp add: marketNode_def)
      show ?thesis
        using match_filled_ok [where f = "marketNode (p_cfg p) cmd i c now", OF B ok Inr [unfolded a] seq
            marketNode_new [OF f pass(1,2)], of "Zero (p_pp p)" "pm_Qty cmd"] pass(3) f
        by (simp add: placeMarketOrder_def Inr a seq cfg PlaceLimit_match Let_def id Zero_def NewDecimal_def market_form_def)
    qed
    then show ?thesis using v None by (simp add: processMarketOrder_def)
  qed
qed

subsection \<open>Limit orders\<close>

definition limit_form :: "MarketConfig \<Rightarrow> PlaceLimitOrder \<Rightarrow> bool" where
  "limit_form cfg cmd \<longleftrightarrow> d_precision (pl_Price cmd) = mc_PricePrecision cfg \<and>
     ival (pl_Price cmd) * 10000 < 2 ^ 63 \<and> d_precision (pl_Qty cmd) = mc_QtyPrecision cfg \<and>
     (Has (pl_Flags cmd) FlagIceberg \<longrightarrow> d_precision (pl_DisplayQty cmd) = mc_QtyPrecision cfg) \<and>
     (\<forall>u. pl_STPMode cmd \<noteq> STPByte u)"

text \<open>What an order that is handed to the book satisfies.\<close>

definition limit_valid :: "MarketConfig \<Rightarrow> PlaceLimitOrder \<Rightarrow> i64 \<Rightarrow> bool" where
  "limit_valid cfg cmd now \<longleftrightarrow> validateLimitOrder cfg cmd now = Some None"

lemma validateLimitOrder_total:
  assumes "market_ok cfg" and "limit_form cfg cmd"
  shows "answers (validateLimitOrder cfg cmd now)"
proof -
  have t: "answers (IsValidTick (pl_Price cmd) (mc_TickSize cfg))" "answers (IsValidLot (pl_Qty cmd) (mc_LotSize cfg))"
    "answers (valueAboveMax (pl_Price cmd) (pl_Qty cmd) m)" for m
    using assms by (auto simp: market_ok_def limit_form_def intro!: valid_tick_total valueAboveMax_total)
  have i: "\<forall>c\<in>set (icebergChecks cfg cmd). answers c"
    using assms by (auto simp: icebergChecks_def market_ok_def limit_form_def compare_same intro!: valid_tick_total)
  have q: "\<forall>c\<in>set (qtyChecks cfg (pl_Qty cmd)). answers c"
    using assms by (intro qtyChecks_total) (simp_all add: limit_form_def)
  show ?thesis unfolding validateLimitOrder_def
    using t i q by (intro first_check_total) (auto simp: dayChecks_def)
qed

lemma limitChecks_total:
  assumes "proc_ok B {} p" and "limit_form (p_cfg p) cmd"
  shows "answers (limitChecks cmd now p)"
  unfolding limitChecks_def
  using reduceOnlyChecks_total [OF assms(1)] validateLimitOrder_total [OF proc_qtyD(1) [OF assms(1)] assms(2)] assms(2)
  by (intro first_check_total) (auto simp: limit_form_def)

lemma book_queries_total:
  assumes B: "price_index B" and ok: "proc_ok B {} p" and pr: "d_precision price = p_pp p"
  shows "answers (WouldCross B price s (p_book p))" "answers (HasLevel B s price (p_book p))"
    "0 < mc_MaxDepth (p_cfg p) \<Longrightarrow> answers (WouldExceedMaxDepth B price s (p_book p))"
proof -
  note b = proc_qtyD(4,5) [OF ok]
  have pr': "d_precision price = price_prec (p_book p)" using pr b(2) by simp
  show "answers (WouldCross B price s (p_book p))" using WouldCross_ok [OF B b(1) pr'] by simp
  show "answers (HasLevel B s price (p_book p))"
    using get_view [OF B b(1) pr', of "s \<noteq> Ask"] by (auto simp: HasLevel_def)
  show "0 < mc_MaxDepth (p_cfg p) \<Longrightarrow> answers (WouldExceedMaxDepth B price s (p_book p))"
    using WouldExceedMaxDepth_ok [OF B b(1) pr'] b(2) by simp
qed

text \<open>All checks answer, and what they let through keeps its terms except for its time in force.\<close>

lemma limitVerdict_total:
  assumes B: "price_index B" and ok: "proc_ok B {} p" and f: "limit_form (p_cfg p) cmd"
  shows "answers (limitVerdict B cmd now p)"
proof -
  have pr: "d_precision (pl_Price cmd) = p_pp p" using f by (simp add: limit_form_def)
  note q = book_queries_total [OF B ok pr]
  obtain v where v: "limitChecks cmd now p = Some v" using limitChecks_total [OF ok f] by (auto simp: answers_def)
  have "answers (depthLimit B cmd p)" unfolding depthLimit_def
    using q(3) by (intro answers_bind) (auto split: DepthMode.split)
  then obtain d where d: "depthLimit B cmd p = Some d" by (auto simp: answers_def)
  have late: "answers (first_check [postOnlyCheck B cmd' p, levelCheck B cmd' p, hookCheck cmd' p])"
    if "pl_Price cmd' = pl_Price cmd" for cmd'
  proof -
    have h: "answers (HasLevel B s (pl_Price cmd') (p_book p))" "answers (WouldCross B (pl_Price cmd') s (p_book p))" for s
      using q that by auto
    have "answers (levelCheck B cmd' p)" unfolding levelCheck_def
      using h by (intro answers_bind) auto
    moreover have "answers (hookCheck cmd' p)" by (auto simp: hookCheck_def Let_def split: option.split)
    ultimately show ?thesis using h by (intro first_check_total) (auto simp: postOnlyCheck_def)
  qed
  have price: "pl_Price cmd' = pl_Price cmd" if "d = Inr cmd'" for cmd'
    using d that unfolding depthLimit_def by (auto elim!: bindE split: if_split_asm DepthMode.split_asm)
  show ?thesis
  proof (cases v)
    case None
    show ?thesis
    proof (cases d)
      case (Inr cmd')
      then show ?thesis using late [OF price [OF Inr]] None v d
        by (auto simp: limitVerdict_def intro!: answers_bind split: option.split)
    qed (use None v d in \<open>simp add: limitVerdict_def\<close>)
  qed (use v in \<open>simp add: limitVerdict_def\<close>)
qed

text \<open>What they let through.\<close>

lemma limitVerdict_pass:
  assumes "limitVerdict B cmd now p = Some (Inr cmd')"
  shows "limitChecks cmd now p = Some None"
    "cmd' = cmd \<or> CanRest (pl_TIF cmd) \<and> mc_MaxDepthMode (p_cfg p) = DepthTreatAsIOC \<and> cmd' = cmd\<lparr>pl_TIF := IOC\<rparr>"
    "postOnlyCheck B cmd' p = Some None" "levelCheck B cmd' p = Some None" "hookCheck cmd' p = Some None"
proof -
  from assms obtain d where d: "limitChecks cmd now p = Some None" "depthLimit B cmd p = Some (Inr cmd')"
    "first_check [postOnlyCheck B cmd' p, levelCheck B cmd' p, hookCheck cmd' p] = Some None"
    unfolding limitVerdict_def by (auto elim!: bindE split: option.split_asm sum.split_asm)
  then show "limitChecks cmd now p = Some None" "postOnlyCheck B cmd' p = Some None"
    "levelCheck B cmd' p = Some None" "hookCheck cmd' p = Some None" by (simp_all add: first_check_pass)
  show "cmd' = cmd \<or> CanRest (pl_TIF cmd) \<and> mc_MaxDepthMode (p_cfg p) = DepthTreatAsIOC \<and> cmd' = cmd\<lparr>pl_TIF := IOC\<rparr>"
    using d(2) unfolding depthLimit_def and_then_def
    by (auto elim!: bindE split: if_split_asm DepthMode.split_asm)
qed

text \<open>The rules of the market for a limit order, as the checks enforce them.\<close>

lemma limitChecks_pass:
  assumes "limitChecks cmd now p = Some None"
  shows "CanAcceptLimitOrder (p_state p)" "pl_OrderID cmd \<notin> known_ids p"
    "\<And>ab. p_auctionBook p = Some ab \<Longrightarrow> \<not> Has_auction (pl_OrderID cmd) ab"
    "IsPositive (pl_Price cmd)" "IsPositive (pl_Qty cmd)"
    "IsValidTick (pl_Price cmd) (mc_TickSize (p_cfg p)) = Some True"
    "IsValidLot (pl_Qty cmd) (mc_LotSize (p_cfg p)) = Some True"
    "Has (pl_Flags cmd) FlagIceberg \<Longrightarrow> IsPositive (pl_DisplayQty cmd) \<and>
       IsValidLot (pl_DisplayQty cmd) (mc_LotSize (p_cfg p)) = Some True \<and>
       GreaterThanOrEqual (pl_DisplayQty cmd) (pl_Qty cmd) = Some False"
proof -
  have "validateLimitOrder (p_cfg p) cmd now = Some None"
    using assms by (simp add: limitChecks_def first_check_pass)
  then have v: "IsPositive (pl_Price cmd)" "IsPositive (pl_Qty cmd)"
    "map_option Not (IsValidTick (pl_Price cmd) (mc_TickSize (p_cfg p))) = Some False"
    "map_option Not (IsValidLot (pl_Qty cmd) (mc_LotSize (p_cfg p))) = Some False"
    "\<forall>c\<in>set (icebergChecks (p_cfg p) cmd). c = Some None"
    by (simp_all add: validateLimitOrder_def first_check_pass qtyChecks_def ball_Un)
  show "IsPositive (pl_Price cmd)" "IsPositive (pl_Qty cmd)" by (fact v)+
  show "IsValidTick (pl_Price cmd) (mc_TickSize (p_cfg p)) = Some True"
    "IsValidLot (pl_Qty cmd) (mc_LotSize (p_cfg p)) = Some True" using v(3,4) by auto
  show "Has (pl_Flags cmd) FlagIceberg \<Longrightarrow> IsPositive (pl_DisplayQty cmd) \<and>
       IsValidLot (pl_DisplayQty cmd) (mc_LotSize (p_cfg p)) = Some True \<and>
       GreaterThanOrEqual (pl_DisplayQty cmd) (pl_Qty cmd) = Some False"
    using v(5) by (auto simp: icebergChecks_def)
  show "CanAcceptLimitOrder (p_state p)" "pl_OrderID cmd \<notin> known_ids p"
    "\<And>ab. p_auctionBook p = Some ab \<Longrightarrow> \<not> Has_auction (pl_OrderID cmd) ab"
    using assms by (simp_all add: limitChecks_def first_check_pass not_known)
qed

lemma limit_fits:
  assumes "limit_form cfg cmd" and "IsPositive (pl_Price cmd)"
  shows "price_fits (mc_PricePrecision cfg) (pl_Price cmd)"
  using assms by (simp add: limit_form_def price_fits_def IsPositive_def)

text \<open>The node of a valid order: an iceberg shows its display quantity and hides the rest.\<close>

lemma limitNode_new:
  assumes f: "limit_form cfg cmd" and pos: "IsPositive (pl_Price cmd)" "IsPositive (pl_Qty cmd)"
    and ice: "Has (pl_Flags cmd) FlagIceberg \<Longrightarrow> IsPositive (pl_DisplayQty cmd) \<and>
       GreaterThanOrEqual (pl_DisplayQty cmd) (pl_Qty cmd) = Some False"
  shows "\<exists>n. limitNode cfg cmd i c now zeroNode = Some n \<and>
     new_order (mc_PricePrecision cfg) (mc_QtyPrecision cfg) i n \<and> n_OrderID n = pl_OrderID cmd \<and>
     n_Type n = Limit \<and> n_Price n = pl_Price cmd \<and> n_Side n = pl_Side cmd \<and> n_UserID n = pl_UserID cmd"
proof (cases "Has (pl_Flags cmd) FlagIceberg")
  case True
  have q: "d_precision (pl_Qty cmd) = mc_QtyPrecision cfg" "d_precision (pl_DisplayQty cmd) = mc_QtyPrecision cfg"
    using f True by (simp_all add: limit_form_def)
  have "ival (pl_DisplayQty cmd) < ival (pl_Qty cmd)" "0 < ival (pl_DisplayQty cmd)"
    using ice [OF True] q by (simp_all add: compare_same IsPositive_def)
  then show ?thesis using True q f limit_fits [OF f pos(1)]
    by (simp add: limitNode_def Let_def Sub_same new_order_def sound_order_def node_prec_def priced_def taker_sound_def
      resting_sound_def price_fits_def limit_form_def Zero_def NewDecimal_def sint_sub_nonneg)
next
  case False
  then show ?thesis using f pos limit_fits [OF f pos(1)]
    by (simp add: limitNode_def Let_def new_order_def sound_order_def node_prec_def priced_def taker_sound_def
      resting_sound_def price_fits_def limit_form_def Zero_def NewDecimal_def IsPositive_def)
qed

text \<open>In the auction: the order joins the auction book.\<close>

lemma nextOrderSeq_sound:
  assumes "nextOrderSeq p = (p1, c)"
  shows "proc_ok B X p1 = proc_ok B X p" "p_cfg p1 = p_cfg p" "p_auctionBook p1 = p_auctionBook p"
    "p_stopBook p1 = p_stopBook p" "known_ids p1 = known_ids p"
proof -
  have p1: "p1 = p\<lparr>p_book := (p_book p)\<lparr>b_orderSeq := fst (Next (b_orderSeq (p_book p)))\<rparr>\<rparr>"
    using assms by (auto simp: nextOrderSeq_def split: prod.splits)
  show "proc_ok B X p1 = proc_ok B X p" "p_cfg p1 = p_cfg p" "p_auctionBook p1 = p_auctionBook p"
    "p_stopBook p1 = p_stopBook p" "known_ids p1 = known_ids p"
    by (simp_all add: p1 proc_ok_def proc_parts known_ids_def cong: option.case_cong)
qed

lemma acceptAuctionOrder_ok:
  assumes ok: "proc_ok B {} p" and ab: "p_auctionBook p = Some ab"
    and f: "limit_form (p_cfg p) cmd" and pos: "IsPositive (pl_Price cmd)" "IsPositive (pl_Qty cmd)"
  shows "keeps B p (acceptAuctionOrder cmd ab now p)"
proof -
  obtain p1 c where seq: "nextOrderSeq p = (p1, c)" by fastforce
  note s = nextOrderSeq_sound [OF seq]
  let ?x = "\<lparr>ao_OrderID = pl_OrderID cmd, ao_UserID = pl_UserID cmd, ao_Side = pl_Side cmd,
        ao_Price = pl_Price cmd, ao_Qty = pl_Qty cmd, ao_TIF = pl_TIF cmd, ao_SeqNum = c\<rparr>"
  have g: "auction_ok (p_pp p) (p_qp p) ab" "\<forall>x\<in>set (ab_bids ab) \<union> set (ab_asks ab). price_fits (p_pp p) (ao_Price x)"
    using ok ab by (simp_all add: proc_ok_def auction_good_def)
  have "auction_order (p_pp p) (p_qp p) ?x"
    using f pos by (simp add: auction_order_def limit_form_def IsPositive_def)
  from AddOrder_ok [OF g(1) this] obtain a' where a': "AddOrder ?x ab = Some a'" "auction_ok (p_pp p) (p_qp p) a'"
    "mset (ab_bids a') = mset (ab_bids ab) + (if pl_Side cmd = Bid then {#?x#} else {#})"
    "mset (ab_asks a') = mset (ab_asks ab) + (if pl_Side cmd = Bid then {#} else {#?x#})" by auto
  have "set (ab_bids a') \<union> set (ab_asks a') \<subseteq> insert ?x (set (ab_bids ab) \<union> set (ab_asks ab))"
    using arg_cong [OF a'(3), of set_mset] arg_cong [OF a'(4), of set_mset] by (auto split: if_splits)
  then have "\<forall>x\<in>set (ab_bids a') \<union> set (ab_asks a'). price_fits (p_pp p) (ao_Price x)"
    using g(2) limit_fits [OF f pos(1)] by auto
  moreover have "proc_ok B {} p1" using ok s by simp
  ultimately have "proc_ok B {} (p1\<lparr>p_auctionBook := Some a'\<rparr>)"
    using a'(2) s(2) unfolding proc_ok_def proc_parts by (simp cong: option.case_cong)
  moreover have "(emitEvent now e p1)\<lparr>p_auctionBook := Some a'\<rparr> = emitEvent now e (p1\<lparr>p_auctionBook := Some a'\<rparr>)" for e
    by (simp add: emitEvent_def nextEventSeq_def emit_def Let_def split: prod.split)
  ultimately show ?thesis using s a'(1) by (simp add: acceptAuctionOrder_def seq keeps_def Let_def)
qed

text \<open>Resting without matching; when the level pool is exhausted the slot goes back.\<close>

lemma releaseOrder_ok:
  assumes ok: "proc_ok B X p" and i: "i \<in> X"
  shows "\<exists>p'. releaseOrder i p = Some p' \<and> proc_ok B (X - {i}) p' \<and> same_market p p' \<and> known_ids p' = known_ids p \<and>
     b_node (p_book p') = b_node (p_book p) \<and> p_stopBook p' = p_stopBook p \<and> p_events p' = p_events p \<and>
     p_positions p' = p_positions p \<and> b_index (p_book p') = b_index (p_book p) \<and>
     (\<forall>y. side_view B y (p_book p') = side_view B y (p_book p))"
proof -
  obtain G where "book_rep B (p_book p) G X" "tidy (p_book p) G"
    using proc_qtyD(4) [OF ok] by (auto simp: book_ok_def)
  from release_ok [OF this i] obtain b' where b': "releaseNode i (p_book p) = Some b'" "book_ok B b' (X - {i})"
    "b_node b' = b_node (p_book p)" "b_config b' = b_config (p_book p)" "b_index b' = b_index (p_book p)"
    "\<forall>y. side_view B y b' = side_view B y (p_book p)" by blast
  have "proc_ok B (X - {i}) (p\<lparr>p_book := b'\<rparr>)"
    using ok b' unfolding proc_ok_def proc_parts by (simp cong: option.case_cong)
  then show ?thesis using b' by (simp add: releaseOrder_def same_market_def known_ids_def)
qed

lemma resting_proc_ok:
  assumes B: "price_index B" and ok: "proc_ok B {i} p" and r: "ready i p"
    and n: "n_Type (b_node (p_book p) i) \<noteq> Market" "0 < remaining (b_node (p_book p) i)"
  shows "PlaceResting B i (p_book p) = Some (Inl ErrPoolExhausted) \<or>
    (\<exists>b'. PlaceResting B i (p_book p) = Some (Inr b') \<and> proc_ok B {} (p\<lparr>p_book := b'\<rparr>) \<and>
       b_index b' = (b_index (p_book p))(n_OrderID (b_node (p_book p) i) \<mapsto> i))"
proof -
  let ?b = "p_book p"
  let ?n = "core (b_node ?b i)" and ?y = "n_Side (b_node ?b i) = Bid"
  have bk: "book_ok B ?b {i}" "b_config ?b = p_cfg p"
    "\<And>y. \<forall>e\<in>set (side_view B y ?b). level_sound (p_pp p) (p_qp p) e"
    using ok by (simp_all add: proc_ok_def book_good_def)
  have pf: "price_fits (p_pp p) (n_Price (b_node ?b i))" and rs: "resting_sound (p_qp p) (n_Price (b_node ?b i)) (b_node ?b i)"
    using r n(1) by (simp_all add: ready_def taker_sound_def)
  have "restable ?b {i} i"
    using r n(2) pf bk(2) by (simp add: ready_def placeable_def restable_def Let_def price_fits_def)
  from PlaceResting_ok [OF B bk(1) this refl refl] show ?thesis
  proof (elim disjE exE conjE)
    fix b' assume b': "PlaceResting B i ?b = Some (Inr b')" "book_ok B b' ({i} - {i})"
      "b_index b' = (b_index ?b)(n_OrderID ?n \<mapsto> i)" "b_config b' = b_config ?b"
      "side_view B (\<not> ?y) b' = side_view B (\<not> ?y) ?b" "side_view B ?y b' = rest_in ?y ?n (side_view B ?y ?b)"
    have "price_fits (p_pp p) (n_Price ?n)" "resting_sound (p_qp p) (n_Price ?n) ?n"
      using pf rs by (simp_all add: core_def resting_sound_def)
    from rest_in_sound(1) [OF bk(3) this, of ?y ?y]
    have "\<forall>e\<in>set (side_view B ?y b'). level_sound (p_pp p) (p_qp p) e" by (simp add: b'(6))
    moreover have "\<forall>e\<in>set (side_view B (\<not> ?y) b'). level_sound (p_pp p) (p_qp p) e" using bk(3) by (simp add: b'(5))
    ultimately have "\<forall>e\<in>set (side_view B y b'). level_sound (p_pp p) (p_qp p) e" for y by (cases "y = ?y") auto
    moreover have "n_OrderID ?n \<notin> dom (sb_index (p_stopBook p))" using r by (simp add: ready_def core_def)
    ultimately have "proc_ok B {} (p\<lparr>p_book := b'\<rparr>)"
      using ok b'(2-4) bk(2) unfolding proc_ok_def proc_parts by (simp cong: option.case_cong)
    moreover have "n_OrderID ?n = n_OrderID (b_node ?b i)" by (simp add: core_def)
    ultimately show ?thesis using b'(1,3) by auto
  qed blast
qed

lemma restOrder_ok:
  assumes B: "price_index B" and ok: "proc_ok B {i} p" and r: "ready i p"
    and n: "n_Type (b_node (p_book p) i) \<noteq> Market" "0 < remaining (b_node (p_book p) i)"
    and f: "limit_form (p_cfg p) cmd"
  shows "keeps B p (restOrder B i cmd now p)"
proof -
  have prec: "d_precision (pl_Price cmd) = p_pp p" "d_precision (pl_Qty cmd) = p_qp p"
    using f by (simp_all add: limit_form_def)
  have idx: "n_PoolIndex (b_node (p_book p) i) = i" using r by (simp add: ready_def placeable_def Let_def)
  from resting_proc_ok [OF B ok r n] show ?thesis
  proof (elim disjE exE conjE)
    assume e: "PlaceResting B i (p_book p) = Some (Inl ErrPoolExhausted)"
    obtain p1 where p1: "releaseOrder i p = Some p1" "proc_ok B {} p1" "same_market p p1"
      using releaseOrder_ok [OF ok, of i] by auto
    have cfg: "p_cfg p1 = p_cfg p" using p1(3) by (simp add: same_market_def)
    obtain p2 where "emitDisposition B (pl_OrderID cmd) (pl_UserID cmd) (pl_Side cmd) (pl_Price cmd) (pl_Qty cmd) []
        Canceled now p1 = Some p2" "proc_ok B {} p2" "quiet p1 p2"
      using emitDisposition_ok [OF B p1(2), of "pl_Price cmd" "pl_Qty cmd" "[]" "pl_OrderID cmd" "pl_UserID cmd" "pl_Side cmd" Canceled now] prec cfg by auto
    then show ?thesis using cfg by (simp add: restOrder_def e idx p1(1) keeps_def quiet_def same_market_def)
  next
    fix b' assume b': "PlaceResting B i (p_book p) = Some (Inr b')" "proc_ok B {} (p\<lparr>p_book := b'\<rparr>)"
    obtain p2 where "emitDisposition B (pl_OrderID cmd) (pl_UserID cmd) (pl_Side cmd) (pl_Price cmd) (pl_Qty cmd) []
        Rested now (p\<lparr>p_book := b'\<rparr>) = Some p2" "proc_ok B {} p2" "quiet (p\<lparr>p_book := b'\<rparr>) p2"
      using emitDisposition_ok [OF B b'(2), of "pl_Price cmd" "pl_Qty cmd" "[]" "pl_OrderID cmd" "pl_UserID cmd" "pl_Side cmd" Rested now] prec by auto
    then show ?thesis by (simp add: restOrder_def b'(1) keeps_def quiet_def same_market_def)
  qed
qed

lemma placeLimitOrder_ok:
  assumes B: "price_index B" and ok: "proc_ok B {} p" and f: "limit_form (p_cfg p) cmd"
    and pos: "IsPositive (pl_Price cmd)" "IsPositive (pl_Qty cmd)"
    and ice: "Has (pl_Flags cmd) FlagIceberg \<Longrightarrow> IsPositive (pl_DisplayQty cmd) \<and>
       GreaterThanOrEqual (pl_DisplayQty cmd) (pl_Qty cmd) = Some False"
    and fresh: "pl_OrderID cmd \<notin> known_ids p"
  shows "keeps B p (placeLimitOrder B cmd now p)"
proof (cases "acquireOrder p")
  case (Inl err)
  then show ?thesis using ok by (simp add: placeLimitOrder_def)
next
  case (Inr a)
  obtain p1 i where a: "a = (p1, i)" by fastforce
  obtain p2 c where seq: "nextOrderSeq p1 = (p2, c)" by fastforce
  note acq = Inr [unfolded a]
  note s = acquire_seq_sound [OF ok acq seq]
  obtain n where n: "limitNode (p_cfg p) cmd i c now zeroNode = Some n" "new_order (p_pp p) (p_qp p) i n"
    "n_OrderID n = pl_OrderID cmd" "n_Type n = Limit" using limitNode_new [OF f pos ice] by blast
  let ?e = "emitEvent now (limit_accepted cmd (n_DisplayQty n) c) (p2\<lparr>p_book := set_b_node i (\<lambda>_. n) (p_book p2)\<rparr>)"
  have prec: "d_precision (pl_Price cmd) = p_pp p" "d_precision (pl_Qty cmd) = p_qp p"
    using f by (simp_all add: limit_form_def)
  note place = match_filled_ok [where f = "\<lambda>_. n", OF B ok acq seq n(2) _ prec]
    place_filled_ok [where f = "\<lambda>_. n", OF B ok acq seq n(2,3) fresh refl prec refl]
  have cfg: "p_cfg ?e = p_cfg p" using place(4) [of now "limit_accepted cmd (n_DisplayQty n) c"] by (simp add: same_market_def)
  have "keeps B ?e (restOrder B i cmd now ?e)"
    using place(2,3,5) [of now "limit_accepted cmd (n_DisplayQty n) c"] n(2,4) f cfg
    by (intro restOrder_ok [OF B]) (auto simp: new_order_def)
  then have rest: "keeps B p (restOrder B i cmd now ?e)" using cfg by (simp add: keeps_def)
  show ?thesis using rest place(1) n(3) fresh
    by (simp add: placeLimitOrder_def acq seq s(3,7) n(1) PlaceLimit_match Let_def)
qed

lemma processLimitOrder_ok:
  assumes B: "price_index B" and ok: "proc_ok B {} p" and f: "limit_form (p_cfg p) cmd"
  shows "keeps B p (processLimitOrder B cmd now p)"
proof -
  obtain v where v: "limitVerdict B cmd now p = Some v" using limitVerdict_total [OF B ok f] by (auto simp: answers_def)
  show ?thesis
  proof (cases v)
    case (Inl r)
    then show ?thesis using v ok by (cases r) (simp add: processLimitOrder_def)
  next
    case (Inr cmd')
    note pass = limitVerdict_pass [OF v [unfolded Inr]]
    note c = limitChecks_pass [OF pass(1)]
    have same: "limit_form (p_cfg p) cmd'" "pl_OrderID cmd' = pl_OrderID cmd" "pl_Price cmd' = pl_Price cmd"
      "pl_Qty cmd' = pl_Qty cmd" "pl_DisplayQty cmd' = pl_DisplayQty cmd" "pl_Flags cmd' = pl_Flags cmd"
      "pl_UserID cmd' = pl_UserID cmd"
      using pass(2) f by (auto simp: limit_form_def)
    have "keeps B p (placeLimitOrder B cmd' now p)"
      using c same by (intro placeLimitOrder_ok [OF B ok]) auto
    moreover have "keeps B p (acceptAuctionOrder cmd' ab now p)" if "p_auctionBook p = Some ab" for ab
      using acceptAuctionOrder_ok [OF ok that same(1)] c same by simp
    ultimately show ?thesis using v Inr by (simp add: processLimitOrder_def split: option.split)
  qed
qed

end
