(* ===== verification/Processor_Admin.thy ===== *)
theory Processor_Admin
  imports Processor_Handlers
begin

section \<open>Stops, cancellation, expiry and the state of the market\<close>

text \<open>
  The handlers that do not match: they move orders in and out of the two books, give slots
  back, and change the state machine.  Each returns and keeps the invariant.
\<close>

subsection \<open>Views with orders taken out or put in\<close>

lemma without_mem:
  assumes "e \<in> set (without P L)"
  shows "\<exists>q. (fst e, q) \<in> set L \<and> set (snd e) \<subseteq> set q"
  using assms by (auto simp: without_def)

lemma without_sound:
  assumes "\<forall>e\<in>set L. level_sound pp qp e"
  shows "\<forall>e\<in>set (without P L). level_sound pp qp e"
proof
  fix e assume "e \<in> set (without P L)"
  from without_mem [OF this] obtain q where "(fst e, q) \<in> set L" "set (snd e) \<subseteq> set q" by blast
  then show "level_sound pp qp e" using assms by (cases e) (fastforce simp: level_sound_def)
qed

lemma without_stops:
  assumes "\<forall>e\<in>set L. \<forall>n\<in>set (snd e). S n"
  shows "\<forall>e\<in>set (without P L). \<forall>n\<in>set (snd e). S n"
  using assms by (force dest: without_mem)

lemma stop_in_stops:
  assumes "\<forall>e\<in>set L. \<forall>n\<in>set (snd e). S n" and "S n"
  shows "\<forall>e\<in>set (stop_in x n L). \<forall>n\<in>set (snd e). S n"
  using assms by (fastforce simp: stop_in_def entries_set_def split: if_splits)

text \<open>A processor whose stop book alone has changed.\<close>

lemma proc_ok_stops:
  assumes ok: "proc_ok B X p" and st: "stop_ok B (p_pp p) sb {}"
    and view: "\<And>x. \<forall>e\<in>set (stop_view B x sb). \<forall>n\<in>set (snd e). stop_sound (p_pp p) (p_qp p) n"
    and apart: "dom (b_index (p_book p)) \<inter> dom (sb_index sb) = {}"
  shows "proc_ok B X (p\<lparr>p_stopBook := sb\<rparr>)"
  using ok st view apart unfolding proc_ok_def proc_parts by (simp cong: option.case_cong)

text \<open>A slot that is in no queue can be given back.\<close>

lemma ReleaseNode_ok:
  assumes ok: "stop_ok B pp s X" and i: "i \<in> X"
  shows "\<exists>s'. ReleaseNode i s = Some s' \<and> stop_ok B pp s' (X - {i}) \<and> sb_node s' = sb_node s \<and>
     sb_index s' = sb_index s \<and> sb_maxDepth s' = sb_maxDepth s \<and> (\<forall>y. stop_view B y s' = stop_view B y s)"
proof -
  obtain G where rep: "stop_rep B pp s G X" and full: "full_levels G" using ok by (auto simp: stop_ok_def)
  note r = stop_repD [OF rep]
  have "pool_ok (sh_nodes (sb_heap s))" "i \<in> used_slots (sh_nodes (sb_heap s))"
    using r(6) i by (auto simp: stop_pools_def)
  from Release_ok [OF this] obtain p' where p': "Release i (sh_nodes (sb_heap s)) = Some p'"
    "pool_ok p'" "used_slots p' = used_slots (sh_nodes (sb_heap s)) - {i}"
    "store p' = store (sh_nodes (sb_heap s))" by blast
  let ?h = "(sb_heap s)\<lparr>sh_nodes := p'\<rparr>"
  let ?s = "s\<lparr>sb_heap := ?h\<rparr>"
  have rel: "ReleaseNode i s = Some ?s" by (simp add: ReleaseNode_def p')
  have n: "snode ?h = sb_node s" and l: "slevel ?h = sb_level s"
    by (simp_all add: fun_eq_iff snode_def slevel_def p'(4))
  have sz: "snodes_n ?h = snodes_n (sb_heap s)" "slevels_n ?h = slevels_n (sb_heap s)" by (simp_all add: p'(4))
  have rep': "stop_rep B pp ?s G (X - {i})"
  proof (rule stop_repI)
    have "stop_tree x ?s = stop_tree x s" for x by (simp add: stop_tree_def)
    then show "stop_tree_rep B x pp (stop_tree x ?s) (entries (G x))" for x using r(1) by simp
    show "stop_levels_rep (sb_heap ?s) x (G x)" for x
      unfolding stop_levels_rep_def
    proof (clarify, intro conjI ballI)
      fix pr k q assume kq: "(pr, k, q) \<in> set (G x)"
      show "stop_level_rep (sb_heap ?s) pr k q"
        using stop_level_rep_frame [OF stop_levels_repD(1) [OF r(2) kq], of ?h] n l sz by simp
      show "stop_order x pr j (snode (sb_heap ?s) j)" if "j \<in> set q" for j
        using stop_levels_repD(2) [OF r(2) kq that] n by simp
    qed
    show "disjoint_ghost G" by (fact r(3))
    show "(X - {i}) \<inter> all_nodes G = {}" using r(4) by auto
    show "index_on (sb_index ?s) (stop_ids (sb_heap ?s)) (all_nodes G)" using r(5) n by (simp add: index_on_def)
    have "all_nodes G \<union> X - {i} = all_nodes G \<union> (X - {i})" using r(4) i by auto
    then show "stop_pools (sb_heap ?s) (all_nodes G \<union> (X - {i})) (all_slots G)"
      using r(6) p'(2,3) by (simp add: stop_pools_def)
  qed
  have "stop_view B y ?s = stop_view B y s" for y
    using stop_view_ok [OF rep] stop_view_ok [OF rep'] n by (simp add: stop_shows_def)
  then show ?thesis using rel rep' full n by (auto simp: stop_ok_def)
qed

subsection \<open>Stop orders\<close>

definition stop_form :: "MarketConfig \<Rightarrow> PlaceStopOrder \<Rightarrow> bool" where
  "stop_form cfg cmd \<longleftrightarrow> d_precision (po_TriggerPrice cmd) = mc_PricePrecision cfg \<and>
     d_precision (po_Qty cmd) = mc_QtyPrecision cfg \<and> (\<forall>u. po_STPMode cmd \<noteq> STPByte u) \<and>
     (po_ConvertTo cmd \<noteq> Market \<longrightarrow> po_ConvertTo cmd = Limit \<and>
        d_precision (po_LimitPrice cmd) = mc_PricePrecision cfg \<and> ival (po_LimitPrice cmd) * 10000 < 2 ^ 63)"

text \<open>A new trigger price needs a slot of the level pool; the code panics when there is none.\<close>

definition stop_room :: "'t btree_fns \<Rightarrow> PlaceStopOrder \<Rightarrow> 't Processor \<Rightarrow> bool" where
  "stop_room B cmd p \<longleftrightarrow>
     po_TriggerPrice cmd \<in> fst ` set (stop_view B (po_Side cmd = Ask) (p_stopBook p)) \<or>
     Len (sh_levels (sb_heap (p_stopBook p))) \<noteq> Capacity (sh_levels (sb_heap (p_stopBook p)))"

lemma stopChecks_total:
  assumes ok: "proc_ok B {} p" and f: "stop_form (p_cfg p) cmd"
  shows "answers (stopChecks cmd now p)"
proof -
  have cfg: "market_ok (p_cfg p)" using proc_qtyD(1) [OF ok] .
  have q: "\<forall>c\<in>set (qtyChecks (p_cfg p) (po_Qty cmd)). answers c"
    using f by (intro qtyChecks_total [OF cfg]) (simp add: stop_form_def)
  have "answers (priceCheck (p_cfg p) price msg)" if "d_precision price = p_pp p" for price msg
    using that cfg by (auto simp: priceCheck_def market_ok_def intro!: valid_tick_total)
  moreover have "answers (IsValidLot (po_Qty cmd) (mc_LotSize (p_cfg p)))"
    "answers (valueAboveMax (po_TriggerPrice cmd) (po_Qty cmd) m)" for m
    using f cfg by (auto simp: market_ok_def stop_form_def intro!: valid_tick_total valueAboveMax_total)
  ultimately show ?thesis unfolding stopChecks_def
    using q f by (intro first_check_total) (auto simp: dayChecks_def stop_form_def)
qed

lemma stopChecks_pass:
  assumes "stopChecks cmd now p = Some None"
  shows "IsPositive (po_Qty cmd)" "po_OrderID cmd \<notin> known_ids p" "po_ConvertTo cmd = Limit \<Longrightarrow> IsPositive (po_LimitPrice cmd)"
  using assms by (auto simp: stopChecks_def first_check_pass qtyChecks_def not_known priceCheck_def ball_Un split: if_splits)

text \<open>A slot is acquired, filled in as a sound stop and added.\<close>

lemma add_stop_ok:
  assumes B: "price_index B" and ok: "proc_ok B {} p" and acq: "AcquireNode (p_stopBook p) = Inr (sb, i)"
    and seq: "nextOrderSeq p = (p1, c)"
    and n: "stop_sound (p_pp p) (p_qp p) (f zeroStopNode)" "d_precision (st_TriggerPrice (f zeroStopNode)) = p_pp p"
      "st_PoolIndex (f zeroStopNode) = i"
    and fresh: "st_OrderID (f zeroStopNode) \<notin> known_ids p"
    and room: "st_TriggerPrice (f zeroStopNode) \<in> fst ` set (stop_view B (st_Side (f zeroStopNode) = Ask) (p_stopBook p)) \<or>
      Len (sh_levels (sb_heap (p_stopBook p))) \<noteq> Capacity (sh_levels (sb_heap (p_stopBook p)))"
  shows "\<exists>s2. AddStop B i (sb\<lparr>sb_heap := set_snode i f (sb_heap sb)\<rparr>) = Some s2 \<and>
    proc_ok B {} (p1\<lparr>p_stopBook := s2\<rparr>) \<and>
    sb_index s2 = (sb_index (p_stopBook p))(st_OrderID (f zeroStopNode) \<mapsto> i)"
proof -
  let ?s = "p_stopBook p"
  let ?s1 = "sb\<lparr>sb_heap := set_snode i f (sb_heap sb)\<rparr>"
  note s = nextOrderSeq_sound [OF seq]
  have s1: "?s1 = sb\<lparr>sb_heap := set_snode i f (sb_heap sb)\<rparr>" by simp
  note acq = AcquireNode_ok [OF proc_qtyD(6) [OF ok] acq s1]
  have ok1: "proc_ok B {} p1" using ok s(1) by simp
  have id: "sb_index ?s (st_OrderID (f zeroStopNode)) = None" using fresh by (simp add: known_ids_def domIff)
  define m where "m = stop_core (sb_node ?s1 i)"
  have mm: "st_OrderID m = st_OrderID (f zeroStopNode)" "st_TriggerPrice m = st_TriggerPrice (f zeroStopNode)"
    "st_Side m = st_Side (f zeroStopNode)" "stop_sound (p_pp p) (p_qp p) m"
    using n(1) unfolding m_def acq(3) by (simp_all add: stop_core_def stop_sound_def)
  have add: "addable (p_pp p) ?s1 {i} i" using n id acq(4) unfolding addable_def Let_def acq(3) by simp
  have ok_s1: "stop_ok B (p_pp p) ?s1 {i}" using acq(1) by simp
  obtain s2 where s2: "AddStop B i ?s1 = Some s2" "stop_ok B (p_pp p) s2 ({i} - {i})"
    "sb_index s2 = (sb_index ?s1)(st_OrderID m \<mapsto> i)"
    "stop_view B (\<not> (st_Side m = Ask)) s2 = stop_view B (\<not> (st_Side m = Ask)) ?s1"
    "stop_view B (st_Side m = Ask) s2 = stop_in (st_Side m = Ask) m (stop_view B (st_Side m = Ask) ?s1)"
    using AddStop_ok [OF B ok_s1 add m_def refl] room mm(2,3) acq(6,7) by (auto simp: stop_added_def split: if_splits)
  have view: "\<forall>e\<in>set (stop_view B x ?s). \<forall>n\<in>set (snd e). stop_sound (p_pp p) (p_qp p) n" for x
    using ok by (simp add: proc_ok_def stops_good_def)
  have "\<forall>e\<in>set (stop_view B x s2). \<forall>n\<in>set (snd e). stop_sound (p_pp p) (p_qp p) n" for x
  proof (cases "x = (st_Side m = Ask)")
    case True
    then show ?thesis using stop_in_stops [OF view [of x] mm(4), of x] s2(5) acq(6) by simp
  next
    case False
    then have "stop_view B x s2 = stop_view B x ?s" using s2(4) acq(6) by (cases x; cases "st_Side m = Ask") auto
    then show ?thesis using view by simp
  qed
  moreover have "dom (b_index (p_book p)) \<inter> dom (sb_index s2) = {}"
    using s2(3) acq(4) mm(1) fresh ok by (auto simp: known_ids_def proc_ok_def ids_apart_def)
  moreover have "b_index (p_book p1) = b_index (p_book p)"
    using seq by (auto simp: nextOrderSeq_def split: prod.splits)
  ultimately have "proc_ok B {} (p1\<lparr>p_stopBook := s2\<rparr>)"
    using proc_ok_stops [OF ok1, of s2] s2(2) s(2) by simp
  then show ?thesis using s2(1,3) acq(4) mm(1) by simp
qed

lemma placeStopOrder_ok:
  assumes B: "price_index B" and ok: "proc_ok B {} p" and f: "stop_form (p_cfg p) cmd"
    and pos: "IsPositive (po_Qty cmd)" "po_ConvertTo cmd = Limit \<Longrightarrow> IsPositive (po_LimitPrice cmd)"
    and fresh: "po_OrderID cmd \<notin> known_ids p" and room: "stop_room B cmd p"
  shows "keeps B p (placeStopOrder B cmd now p)"
proof (cases "AcquireNode (p_stopBook p)")
  case (Inl err)
  then show ?thesis using ok by (simp add: placeStopOrder_def)
next
  case (Inr a)
  obtain sb i where a: "AcquireNode (p_stopBook p) = Inr (sb, i)" using Inr by (cases a) simp
  obtain p1 c where seq: "nextOrderSeq p = (p1, c)" by fastforce
  let ?n = "stopNode (p_cfg p) cmd i c now zeroStopNode"
  have "stop_sound (p_pp p) (p_qp p) ?n"
    using f pos by (simp add: stopNode_def stop_sound_def stop_form_def price_fits_def IsPositive_def)
  moreover have "st_OrderID ?n = po_OrderID cmd" "st_TriggerPrice ?n = po_TriggerPrice cmd" "st_Side ?n = po_Side cmd"
    "st_PoolIndex ?n = i" by (simp_all add: stopNode_def)
  ultimately obtain s2 where "AddStop B i (sb\<lparr>sb_heap := set_snode i (stopNode (p_cfg p) cmd i c now) (sb_heap sb)\<rparr>) = Some s2"
    "proc_ok B {} (p1\<lparr>p_stopBook := s2\<rparr>)"
    using add_stop_ok [OF B ok a seq, of "stopNode (p_cfg p) cmd i c now"] fresh room f
    by (auto simp: stop_room_def stop_form_def)
  then show ?thesis using nextOrderSeq_sound(2) [OF seq] by (simp add: placeStopOrder_def a seq Let_def keeps_def)
qed

lemma processStopOrder_ok:
  assumes B: "price_index B" and ok: "proc_ok B {} p" and f: "stop_form (p_cfg p) cmd" and room: "stop_room B cmd p"
  shows "keeps B p (processStopOrder B cmd now p)"
proof -
  obtain v where v: "stopChecks cmd now p = Some v" using stopChecks_total [OF ok f] by (auto simp: answers_def)
  show ?thesis
  proof (cases v)
    case (Some r)
    then show ?thesis using v ok by (cases r) (simp add: processStopOrder_def)
  next
    case None
    note pass = stopChecks_pass [OF v [unfolded None]]
    show ?thesis using placeStopOrder_ok [OF B ok f pass(1,3,2) room] v None by (simp add: processStopOrder_def)
  qed
qed

subsection \<open>Cancellation\<close>

lemma emitEvent_stopBook: "(emitEvent now mk p)\<lparr>p_stopBook := sb\<rparr> = emitEvent now mk (p\<lparr>p_stopBook := sb\<rparr>)"
  by (simp add: emitEvent_def nextEventSeq_def emit_def Let_def split: prod.split)

text \<open>An order of the book.\<close>

lemma indexed_order:
  assumes ok: "proc_ok B X p" and i: "b_index (p_book p) oid = Some i"
  shows "sound_order (p_qp p) (b_node (p_book p) i)" "n_PoolIndex (b_node (p_book p) i) = i"
    "price_fits (p_pp p) (n_Price (b_node (p_book p) i))"
    "resting_sound (p_qp p) (n_Price (b_node (p_book p) i)) (b_node (p_book p) i)"
proof -
  let ?b = "p_book p"
  obtain G where rep: "book_rep B ?b G X" using proc_qtyD(4) [OF ok] by (auto simp: book_ok_def)
  have "i \<in> all_nodes G" using book_repD(5) [OF rep] i by (simp add: index_on_def)
  then obtain y pr l q where q: "(pr, l, q) \<in> set (G y)" "i \<in> set q"
    by (auto simp: all_nodes_def level_nodes_def)
  have r: "resting_order (p_qp p) y pr i (b_node ?b i)"
    using levels_repD(2) [OF book_repD(2) [OF rep] q] proc_qtyD(5) [OF ok] by simp
  have "(pr, map (core \<circ> b_node ?b) q) \<in> set (side_view B y ?b)"
    using q(1) by (force simp: side_view_ok [OF rep] view_of_def)
  then have "level_sound (p_pp p) (p_qp p) (pr, map (core \<circ> b_node ?b) q)"
    using ok by (auto simp: proc_ok_def book_good_def)
  then show "sound_order (p_qp p) (b_node ?b i)" "n_PoolIndex (b_node ?b i) = i"
    "price_fits (p_pp p) (n_Price (b_node ?b i))" "resting_sound (p_qp p) (n_Price (b_node ?b i)) (b_node ?b i)"
    using r q(2) by (auto simp: resting_order_def level_sound_def resting_sound_def core_def)
qed

lemma emitEvent_events:
  "p_events (emitEvent now mk p) = p_events p @ [mk (NewBase (cnt (p_eventSeq p) + 1) now (mc_MarketID (p_cfg p)))]"
  by (simp add: emitEvent_def nextEventSeq_def emit_def Next_def Let_def)

text \<open>The two events of a cancelled order, and the rest of the processor as it was.\<close>

definition canceled_events :: "'t btree_fns \<Rightarrow> CancelOrder \<Rightarrow> OrderNode \<Rightarrow> 't Processor \<Rightarrow> Event list \<Rightarrow> bool" where
  "canceled_events B cmd n p evs \<longleftrightarrow> (\<exists>c d. evs = [EvCanceled c, EvDepthUpdate d] \<and>
     oc_OrderID c = co_OrderID cmd \<and> oc_UserID c = co_UserID cmd \<and> oc_Reason c = CancelUserRequested \<and>
     oc_Price c = n_Price n \<and> oc_FilledQty c = n_FilledQty n \<and>
     Some (oc_CanceledQty c) =
       (if Has (n_Flags n) FlagIceberg then Add (n_RemainQty n) (n_HiddenQty n) else Some (n_RemainQty n)) \<and>
     du_Side d = n_Side n \<and> du_Price d = n_Price n \<and>
     du_UpdateType d = (if n_Price n \<in> fst ` set (side_view B (n_Side n = Bid) (p_book p)) then DepthModify else DepthDelete))"

lemma canceled_events_core: "canceled_events B cmd (core m) q evs = canceled_events B cmd m q evs"
  by (simp add: canceled_events_def core_def)

lemma canceled_events_view:
  "\<forall>y. side_view B y (p_book q') = side_view B y (p_book q) \<Longrightarrow>
    canceled_events B cmd m q' evs = canceled_events B cmd m q evs"
  by (simp add: canceled_events_def)

lemma emitCanceled_ok:
  assumes B: "price_index B" and ok: "proc_ok B X p" and n: "sound_order (p_qp p) n"
    "price_fits (p_pp p) (n_Price n)" "resting_sound (p_qp p) (n_Price n) n"
  shows "\<exists>p' evs. emitCanceled B cmd n now p = Some p' \<and> proc_ok B X p' \<and> quiet p p' \<and>
     p_positions p' = p_positions p \<and> p_events p' = p_events p @ evs \<and> canceled_events B cmd n p evs"
proof -
  obtain cq where q: "(if Has (n_Flags n) FlagIceberg then Add (n_RemainQty n) (n_HiddenQty n) else Some (n_RemainQty n)) = Some cq"
    using n(1,3) by (cases "Has (n_Flags n) FlagIceberg") (simp_all add: sound_order_def node_prec_def resting_sound_def Add_same)
  obtain r where r: "Get B (n_Price n) (side_tree (n_Side n = Bid) (p_book p)) = Some r"
    "r = None \<longleftrightarrow> n_Price n \<notin> fst ` set (side_view B (n_Side n = Bid) (p_book p))"
    using get_view [OF B proc_qtyD(4) [OF ok], of "n_Price n" "n_Side n = Bid"] n(2) proc_qtyD(5) [OF ok]
    by (auto simp: price_fits_def)
  show ?thesis using ok r
    by (cases r) (simp_all add: emitCanceled_def q LevelInfo_def Let_def emitEvent_events canceled_events_def)
qed

text \<open>A processor whose book alone has changed, by taking an order out.\<close>

lemma proc_ok_removed:
  assumes ok: "proc_ok B X p" and b: "book_ok B b Y" "b_config b = b_config (p_book p)"
    and view: "\<And>y. \<exists>P. side_view B y b = without P (side_view B y (p_book p))"
    and dom: "dom (b_index b) \<subseteq> dom (b_index (p_book p))"
  shows "proc_ok B Y (p\<lparr>p_book := b\<rparr>)"
proof -
  have "\<forall>e\<in>set (side_view B y b). level_sound (p_pp p) (p_qp p) e" for y
  proof -
    obtain P where P: "side_view B y b = without P (side_view B y (p_book p))" using view by blast
    show ?thesis unfolding P using ok by (intro without_sound) (simp add: proc_ok_def book_good_def)
  qed
  moreover have "dom (b_index b) \<inter> dom (sb_index (p_stopBook p)) = {}"
    using dom ok by (auto simp: proc_ok_def ids_apart_def)
  ultimately show ?thesis using ok b unfolding proc_ok_def proc_parts by (simp cong: option.case_cong)
qed

lemma proc_ok_stop_removed:
  assumes ok: "proc_ok B X p" and s: "stop_ok B (p_pp p) s {}"
    and view: "\<And>y. \<exists>P. stop_view B y s = without P (stop_view B y (p_stopBook p))"
    and dom: "dom (sb_index s) \<subseteq> dom (sb_index (p_stopBook p))"
  shows "proc_ok B X (p\<lparr>p_stopBook := s\<rparr>)"
proof (rule proc_ok_stops [OF ok s])
  show "\<forall>e\<in>set (stop_view B y s). \<forall>n\<in>set (snd e). stop_sound (p_pp p) (p_qp p) n" for y
  proof -
    obtain P where P: "stop_view B y s = without P (stop_view B y (p_stopBook p))" using view by blast
    show ?thesis unfolding P using ok by (intro without_stops) (simp add: proc_ok_def stops_good_def)
  qed
  show "dom (b_index (p_book p)) \<inter> dom (sb_index s) = {}"
    using dom ok by (auto simp: proc_ok_def ids_apart_def)
qed

lemma stop_pool_index:
  assumes ok: "stop_ok B pp s X" and i: "sb_index s oid = Some i"
  shows "st_PoolIndex (sb_node s i) = i"
proof -
  obtain G where rep: "stop_rep B pp s G X" using ok by (auto simp: stop_ok_def)
  have "i \<in> all_nodes G" using stop_repD(5) [OF rep] i by (simp add: index_on_def)
  then obtain y pr l q where "(pr, l, q) \<in> set (G y)" "i \<in> set q"
    by (auto simp: all_nodes_def level_nodes_def)
  then show ?thesis using stop_levels_repD(2) [OF stop_repD(2) [OF rep]] by (simp add: stop_order_def)
qed

abbreviation cancel_refused :: "CancelOrder \<Rightarrow> i64 \<Rightarrow> 't Processor \<Rightarrow> 't Processor option" where
  "cancel_refused cmd now p \<equiv>
     Some (rejectOrder (co_OrderID cmd) (co_UserID cmd) RejectOrderNotFound ''order not found'' now p)"

lemma cancelStopOrder_owned:
  assumes B: "price_index B" and ok: "proc_ok B {} p" and i: "sb_index (p_stopBook p) (co_OrderID cmd) = Some i"
    and u: "st_UserID (sb_node (p_stopBook p) i) = co_UserID cmd"
  shows "\<exists>p' c. cancelStopOrder B cmd now p = Some p' \<and> proc_ok B {} p' \<and> p_cfg p' = p_cfg p \<and>
     p_book p' = p_book p \<and> p_positions p' = p_positions p \<and> p_events p' = p_events p @ [EvCanceled c] \<and>
     oc_OrderID c = co_OrderID cmd \<and> oc_Reason c = CancelUserRequested \<and>
     oc_CanceledQty c = st_Qty (sb_node (p_stopBook p) i) \<and>
     sb_index (p_stopBook p') = (sb_index (p_stopBook p))(co_OrderID cmd := None) \<and>
     (\<forall>y. stop_view B y (p_stopBook p') = without (\<lambda>n. st_OrderID n = co_OrderID cmd) (stop_view B y (p_stopBook p)))"
proof -
  let ?s = "p_stopBook p"
  note st = proc_qtyD(6) [OF ok]
  obtain s1 where s1: "CancelStop B (co_OrderID cmd) (co_UserID cmd) ?s = Some (Inr (i, s1))"
    "stop_ok B (p_pp p) s1 {i}" "stop_core (sb_node s1 i) = stop_core (sb_node ?s i)"
    "sb_index s1 = (sb_index ?s)(co_OrderID cmd := None)"
    "\<forall>y. stop_view B y s1 = without (\<lambda>n. st_OrderID n = co_OrderID cmd) (stop_view B y ?s)"
    using CancelStop_ok [OF B st i u] by auto
  have "st_PoolIndex (stop_core n) = st_PoolIndex n" "st_Qty (stop_core n) = st_Qty n" for n by (simp_all add: stop_core_def)
  then have idx: "st_PoolIndex (sb_node s1 i) = i" "st_Qty (sb_node s1 i) = st_Qty (sb_node ?s i)"
    using s1(3) stop_pool_index [OF st i] by metis+
  obtain s2 where s2: "ReleaseNode i s1 = Some s2" "stop_ok B (p_pp p) s2 {}" "sb_index s2 = sb_index s1"
    "\<forall>y. stop_view B y s2 = stop_view B y s1"
    using ReleaseNode_ok [OF s1(2), of i] by auto
  have "proc_ok B {} (p\<lparr>p_stopBook := s2\<rparr>)"
    using s2 s1(4,5) by (intro proc_ok_stop_removed [OF ok]) auto
  then show ?thesis using s1(4,5) s2(3,4)
    by (simp add: cancelStopOrder_def s1(1) idx s2(1) Let_def emitEvent_stopBook emitEvent_events)
qed

lemma cancelStopOrder_ok:
  assumes B: "price_index B" and ok: "proc_ok B {} p"
  shows "keeps B p (cancelStopOrder B cmd now p)"
proof (cases "sb_index (p_stopBook p) (co_OrderID cmd)")
  case None
  then show ?thesis using ok by (simp add: cancelStopOrder_def CancelStop_def)
next
  case (Some i)
  show ?thesis
  proof (cases "st_UserID (sb_node (p_stopBook p) i) = co_UserID cmd")
    case False
    then show ?thesis using Some ok by (simp add: cancelStopOrder_def CancelStop_def)
  next
    case True
    then show ?thesis using cancelStopOrder_owned [OF B ok Some] unfolding keeps_def by blast
  qed
qed

lemma processCancelOrder_owned:
  assumes B: "price_index B" and ok: "proc_ok B {} p" and i: "b_index (p_book p) (co_OrderID cmd) = Some i"
    and u: "n_UserID (b_node (p_book p) i) = co_UserID cmd"
  shows "\<exists>p' evs. processCancelOrder B cmd now p = Some p' \<and> proc_ok B {} p' \<and> p_cfg p' = p_cfg p \<and>
     p_stopBook p' = p_stopBook p \<and> p_positions p' = p_positions p \<and> p_events p' = p_events p @ evs \<and>
     canceled_events B cmd (core (b_node (p_book p) i)) p' evs \<and>
     b_index (p_book p') = (b_index (p_book p))(co_OrderID cmd := None) \<and>
     (\<forall>y. side_view B y (p_book p') = without (\<lambda>n. n_OrderID n = co_OrderID cmd) (side_view B y (p_book p)))"
proof -
  let ?b = "p_book p"
  obtain b' where b': "Cancel B (co_OrderID cmd) (co_UserID cmd) ?b = Some (Inr (i, b'))" "book_ok B b' {i}"
    "core (b_node b' i) = core (b_node ?b i)" "b_index b' = (b_index ?b)(co_OrderID cmd := None)"
    "b_config b' = b_config ?b"
    "\<forall>y. side_view B y b' = without (\<lambda>n. n_OrderID n = co_OrderID cmd) (side_view B y ?b)"
    using Cancel_ok [OF B proc_qtyD(4) [OF ok] i u] by auto
  note n = indexed_order [OF ok i]
  have ok1: "proc_ok B {i} (p\<lparr>p_book := b'\<rparr>)"
    using b' by (intro proc_ok_removed [OF ok]) auto
  have "sound_order qp (core m) = sound_order qp m" "n_PoolIndex (core m) = n_PoolIndex m" "n_Price (core m) = n_Price m"
    "resting_sound qp pr (core m) = resting_sound qp pr m" for m qp pr
    by (simp_all add: core_def sound_order_def node_prec_def resting_sound_def)
  then have n': "sound_order (p_qp p) (b_node b' i)" "n_PoolIndex (b_node b' i) = i"
    "price_fits (p_pp p) (n_Price (b_node b' i))" "resting_sound (p_qp p) (n_Price (b_node b' i)) (b_node b' i)"
    using n b'(3) by metis+
  obtain p1 evs where p1: "emitCanceled B cmd (b_node b' i) now (p\<lparr>p_book := b'\<rparr>) = Some p1" "proc_ok B {i} p1"
    "quiet (p\<lparr>p_book := b'\<rparr>) p1" "p_positions p1 = p_positions p" "p_events p1 = p_events p @ evs"
    "canceled_events B cmd (b_node b' i) (p\<lparr>p_book := b'\<rparr>) evs"
    using emitCanceled_ok [OF B ok1, of "b_node b' i" cmd now] n' by auto
  obtain p2 where p2: "releaseOrder i p1 = Some p2" "proc_ok B {} p2" "same_market p1 p2" "p_events p2 = p_events p1"
    "p_positions p2 = p_positions p1" "p_stopBook p2 = p_stopBook p1" "b_index (p_book p2) = b_index (p_book p1)"
    "\<forall>y. side_view B y (p_book p2) = side_view B y (p_book p1)"
    using releaseOrder_ok [OF p1(2), of i] by auto
  have book: "p_book p1 = b'" "p_stopBook p1 = p_stopBook p" "p_cfg p1 = p_cfg p"
    using p1(3) by (simp_all add: quiet_def same_market_def)
  have "canceled_events B cmd (core (b_node ?b i)) (p\<lparr>p_book := b'\<rparr>) evs"
    using p1(6) canceled_events_core [of B cmd "b_node b' i"] by (simp add: b'(3))
  moreover have "side_view B y (p_book p2) = side_view B y (p_book (p\<lparr>p_book := b'\<rparr>))" for y
    using p2(8) book(1) by simp
  ultimately have "canceled_events B cmd (core (b_node ?b i)) p2 evs"
    using canceled_events_view [of B p2 "p\<lparr>p_book := b'\<rparr>" cmd "core (b_node ?b i)" evs] by blast
  then show ?thesis using p1 p2 book b'(4,6)
    by (simp add: processCancelOrder_def b'(1) n'(2) same_market_def)
qed

lemma processCancelOrder_ok:
  assumes B: "price_index B" and ok: "proc_ok B {} p"
  shows "keeps B p (processCancelOrder B cmd now p)"
proof (cases "b_index (p_book p) (co_OrderID cmd)")
  case None
  then show ?thesis using cancelStopOrder_ok [OF B ok] by (simp add: processCancelOrder_def Cancel_def)
next
  case (Some i)
  show ?thesis
  proof (cases "n_UserID (b_node (p_book p) i) = co_UserID cmd")
    case False
    then show ?thesis using Some ok by (simp add: processCancelOrder_def Cancel_def)
  next
    case True
    then show ?thesis using processCancelOrder_owned [OF B ok Some] unfolding keeps_def by blast
  qed
qed

subsection \<open>Expiry\<close>

lemma emitExpired_ok:
  "proc_ok B (set is) p \<Longrightarrow> distinct is \<Longrightarrow> \<forall>i\<in>set is. n_PoolIndex (b_node (p_book p) i) = i \<Longrightarrow>
   \<exists>p'. emitExpired is now p = Some p' \<and> proc_ok B {} p' \<and> same_market p p' \<and> p_stopBook p' = p_stopBook p"
proof (induction "is" arbitrary: p)
  case Nil
  then show ?case by simp
next
  case (Cons i "is")
  let ?n = "b_node (p_book p) i"
  let ?e = "emitEvent now (expired_event (n_OrderID ?n) (n_UserID ?n) (n_Side ?n) (n_Price ?n) (n_RemainQty ?n)) p"
  have ok: "proc_ok B (set (i # is)) ?e" using Cons.prems(1) by simp
  obtain q where q: "releaseOrder i ?e = Some q" "proc_ok B (set (i # is) - {i}) q" "same_market ?e q"
    "b_node (p_book q) = b_node (p_book p)" "p_stopBook q = p_stopBook p"
    using releaseOrder_ok [OF ok, of i] by auto
  have "set (i # is) - {i} = set is" using Cons.prems(2) by auto
  then obtain p' where "emitExpired is now q = Some p'" "proc_ok B {} p'" "same_market q p'" "p_stopBook p' = p_stopBook q"
    using Cons.IH [of q] q(2,4) Cons.prems(2,3) by auto
  then show ?case using q Cons.prems(3) by (simp add: Let_def same_market_def)
qed

lemma emitExpiredStops_ok:
  "proc_ok B {} (p\<lparr>p_stopBook := s\<rparr>) \<Longrightarrow> stop_ok B (p_pp p) (p_stopBook p) (set is) \<Longrightarrow> distinct is \<Longrightarrow>
   \<forall>i\<in>set is. st_PoolIndex (sb_node (p_stopBook p) i) = i \<Longrightarrow>
   (\<And>y. \<exists>P. stop_view B y (p_stopBook p) = without P (stop_view B y s)) \<Longrightarrow>
   dom (sb_index (p_stopBook p)) \<subseteq> dom (sb_index s) \<Longrightarrow> keeps B p (emitExpiredStops is now p)"
proof (induction "is" arbitrary: p)
  case Nil
  then have "proc_ok B {} (p\<lparr>p_stopBook := s\<rparr>\<lparr>p_stopBook := p_stopBook p\<rparr>)"
    using proc_ok_stop_removed [of B "{}" "p\<lparr>p_stopBook := s\<rparr>" "p_stopBook p"] by simp
  then show ?case by (simp add: keeps_def)
next
  case (Cons i "is")
  let ?n = "sb_node (p_stopBook p) i"
  let ?ev = "expired_event (st_OrderID ?n) (st_UserID ?n) (st_Side ?n) (st_TriggerPrice ?n) (st_Qty ?n)"
  obtain s1 where s1: "ReleaseNode i (p_stopBook p) = Some s1" "stop_ok B (p_pp p) s1 (set (i # is) - {i})"
    "sb_node s1 = sb_node (p_stopBook p)" "sb_index s1 = sb_index (p_stopBook p)"
    "\<forall>y. stop_view B y s1 = stop_view B y (p_stopBook p)"
    using ReleaseNode_ok [OF Cons.prems(2), of i] by auto
  let ?q = "(emitEvent now ?ev p)\<lparr>p_stopBook := s1\<rparr>"
  have same: "set (i # is) - {i} = set is" using Cons.prems(3) by auto
  have "proc_ok B {} (?q\<lparr>p_stopBook := s\<rparr>)" using Cons.prems(1) by (simp add: emitEvent_stopBook)
  then have "keeps B ?q (emitExpiredStops is now ?q)"
  proof (rule Cons.IH)
    show "stop_ok B (p_pp ?q) (p_stopBook ?q) (set is)" using s1(2) same by simp
    show "distinct is" "\<forall>i\<in>set is. st_PoolIndex (sb_node (p_stopBook ?q) i) = i" using Cons.prems(3,4) s1(3) by simp_all
    show "\<exists>P. stop_view B y (p_stopBook ?q) = without P (stop_view B y s)" for y using Cons.prems(5) [of y] s1(5) by simp
    show "dom (sb_index (p_stopBook ?q)) \<subseteq> dom (sb_index s)" using Cons.prems(6) s1(4) by simp
  qed
  then show ?case using s1(1) Cons.prems(4) by (simp add: Let_def keeps_def)
qed

lemma expired_stops_index:
  assumes "i \<in> set (expired_stops ids now s)"
  shows "\<exists>oid\<in>set ids. sb_index s oid = Some i"
  using assms by (auto simp: expired_stops_def List.map_filter_def)

text \<open>The lists are the orders in which the run visits the two maps.\<close>

lemma runExpiryCheck_ok:
  assumes B: "price_index B" and ok: "proc_ok B {} p"
    and ids: "distinct ids" "set ids = dom (b_index (p_book p))"
    and stopIds: "distinct stopIds" "set stopIds = dom (sb_index (p_stopBook p))"
  shows "keeps B p (runExpiryCheck B ids stopIds now p)"
proof -
  let ?b = "p_book p" and ?s = "p_stopBook p"
  let ?E = "map (the \<circ> b_index ?b) (filter (due_id now ?b) ids)"
  note bk = proc_qtyD(4) [OF ok] and st = proc_qtyD(6) [OF ok]
  obtain b' where b': "ExpireGTD B ids now ?b = Some (?E, b')" "book_ok B b' ({} \<union> set ?E)"
    "\<forall>j. core (b_node b' j) = core (b_node ?b j)"
    "b_index b' = (\<lambda>oid. if oid \<in> set ids \<and> due_id now ?b oid then None else b_index ?b oid)"
    "b_config b' = b_config ?b"
    "\<forall>y. side_view B y b' = without (\<lambda>n. due now n \<and> n_OrderID n \<in> set ids) (side_view B y ?b)"
    using ExpireGTD_ok [OF B bk ids(1)] by blast
  obtain G where rep: "book_rep B ?b G {}" using bk by (auto simp: book_ok_def)
  have idx: "b_index ?b oid = Some (the (b_index ?b oid))" "n_OrderID (b_node ?b (the (b_index ?b oid))) = oid"
    if m: "oid \<in> set ids" for oid
  proof -
    obtain i where i: "b_index ?b oid = Some i" using m ids(2) by auto
    then have "n_OrderID (b_node ?b i) = oid" using book_repD(5) [OF rep] by (simp add: index_on_def)
    with i show "b_index ?b oid = Some (the (b_index ?b oid))" "n_OrderID (b_node ?b (the (b_index ?b oid))) = oid"
      by simp_all
  qed
  have "inj_on (the \<circ> b_index ?b) (set ids)" using idx(2) by (intro inj_onI) (metis comp_apply)
  then have dist: "distinct ?E" using ids(1) by (auto simp: distinct_map inj_on_def)
  have pool: "n_PoolIndex (b_node b' i) = i" if "i \<in> set ?E" for i
  proof -
    from that obtain oid where "oid \<in> set ids" "i = the (b_index ?b oid)" by auto
    then have "n_PoolIndex (b_node ?b i) = i" using indexed_order(2) [OF ok] idx(1) by blast
    moreover have "n_PoolIndex (core m) = n_PoolIndex m" for m by (simp add: core_def)
    ultimately show ?thesis using b'(3) by metis
  qed
  have ok1: "proc_ok B (set ?E) (p\<lparr>p_book := b'\<rparr>)"
  proof (rule proc_ok_removed [OF ok])
    show "book_ok B b' (set ?E)" using b'(2) by simp
    show "b_config b' = b_config ?b" by (fact b'(5))
    show "\<exists>P. side_view B y b' = without P (side_view B y ?b)" for y using b'(6) by blast
    show "dom (b_index b') \<subseteq> dom (b_index ?b)" unfolding b'(4) by (auto split: if_splits)
  qed
  obtain p1 where p1: "emitExpired ?E now (p\<lparr>p_book := b'\<rparr>) = Some p1" "proc_ok B {} p1"
    "same_market (p\<lparr>p_book := b'\<rparr>) p1" "p_stopBook p1 = ?s"
    using emitExpired_ok [OF ok1 dist, of now] pool by auto
  have cfg: "p_cfg p1 = p_cfg p" using p1(3) by (simp add: same_market_def)
  let ?S = "expired_stops stopIds now ?s"
  obtain s1 where s1: "ExpireGTD_stop B stopIds now ?s = Some (?S, s1)" "stop_ok B (p_pp p) s1 ({} \<union> set ?S)"
    "\<forall>j. stop_core (sb_node s1 j) = stop_core (sb_node ?s j)"
    "\<forall>y. stop_view B y s1 = without (due_stop now) (stop_view B y ?s)"
    using ExpireGTD_stop_ok [OF B st stopIds] by blast
  obtain H where srep: "stop_rep B (p_pp p) ?s H {}" using st by (auto simp: stop_ok_def)
  have spool: "st_PoolIndex (sb_node s1 i) = i" if m: "i \<in> set ?S" for i
  proof -
    obtain oid where "sb_index ?s oid = Some i" using expired_stops_index [OF m] by blast
    moreover have "st_PoolIndex (stop_core n) = st_PoolIndex n" for n by (simp add: stop_core_def)
    ultimately show ?thesis using s1(3) stop_pool_index [OF st] by metis
  qed
  have "stop_view_ids (stop_view B y s1) \<subseteq> stop_view_ids (stop_view B y ?s)" for y
    using s1(4) without_mem [of _ "due_stop now" "stop_view B y ?s"] by (fastforce simp: stop_view_ids_def)
  then have dom: "dom (sb_index s1) \<subseteq> dom (sb_index ?s)"
    using stop_index_dom(1) [OF s1(2)] stop_index_dom(1) [OF st] by blast
  have "keeps B (p1\<lparr>p_stopBook := s1\<rparr>) (emitExpiredStops ?S now (p1\<lparr>p_stopBook := s1\<rparr>))"
  proof (rule emitExpiredStops_ok [where s = ?s])
    have "p1\<lparr>p_stopBook := s1\<rparr>\<lparr>p_stopBook := ?s\<rparr> = p1" using p1(4) by simp
    then show "proc_ok B {} (p1\<lparr>p_stopBook := s1\<rparr>\<lparr>p_stopBook := ?s\<rparr>)" using p1(2) by simp
    show "distinct ?S" by (rule expired_stops_ok(1) [OF srep stopIds(1)])
  qed (use s1 spool dom cfg in auto)
  then show ?thesis
    by (simp add: runExpiryCheck_def b'(1) p1(1,4) s1(1) keeps_def cfg)
qed

subsection \<open>The state of the market\<close>

lemma transitionTo_ok: "transitionTo s p = Inr q \<Longrightarrow> proc_ok B X q = proc_ok B X p \<and> p_cfg q = p_cfg p \<and>
    known_ids q = known_ids p \<and> p_auctionBook q = p_auctionBook p"
  by (auto simp: transitionTo_def known_ids_def split: sum.splits)

lemma processAdmin_ok:
  assumes "proc_ok B {} p"
  shows "keeps B p (Some (processAdminHalt hc now p))" "keeps B p (Some (processAdminResume rc now p))"
    "keeps B p (Some (openAuction now p))"
  using assms by (auto simp: keeps_def processAdminHalt_def haltMarket_def processAdminResume_def openAuction_def Let_def
      transitionTo_def split: sum.split)

end
