(* ===== verification/Processor_Clear.thy ===== *)
theory Processor_Clear
  imports Processor_Admin Auction_Claims
begin

section \<open>Clearing the auction returns and keeps the invariant\<close>

text \<open>
  The clearing price, the sweep and its fills, then the orders that are left over enter the
  continuous book one after the other.  It needs orders whose ids are known to no book: the code
  checks an order against the auction book only when it is a limit order.
\<close>

subsection \<open>What the sweep hands back\<close>

lemma allot_range:
  "0 \<le> v \<Longrightarrow> \<forall>q\<in>set qs. 0 \<le> q \<and> q < K \<Longrightarrow> \<forall>r\<in>set (allot v qs). 0 \<le> r \<and> r < K"
proof (induction v qs rule: allot.induct)
  case (2 v q qs)
  then show ?case by (auto simp: min_def)
qed simp

lemma rest_orders_ok:
  assumes "\<forall>x\<in>set xs. auction_order pp qp x" and "\<forall>r\<in>set rs. 0 \<le> r \<and> r < 2 ^ 63"
  shows "\<forall>y\<in>set (rest_orders qp (zip xs rs)). auction_order pp qp y \<and>
     (\<exists>x\<in>set xs. ao_OrderID y = ao_OrderID x \<and> ao_Price y = ao_Price x)"
proof
  fix y assume "y \<in> set (rest_orders qp (zip xs rs))"
  then obtain x r where xr: "(x, r) \<in> set (zip xs rs)" "r \<noteq> 0"
    "y = x\<lparr>ao_Qty := \<lparr>d_value = word_of_int r, d_precision = qp\<rparr>\<rparr>" by (auto simp: rest_orders_def)
  have m: "x \<in> set xs" "r \<in> set rs" using xr(1) by (auto dest: set_zip_leftD set_zip_rightD)
  then have r: "0 \<le> r" "r < 2 ^ 63" using assms(2) by auto
  then have "sint (word_of_int r :: i64) = r" by (intro sint_word_of_int) (simp add: in_i64_def)
  moreover have "0 < r" using r xr(2) by simp
  ultimately show "auction_order pp qp y \<and> (\<exists>x\<in>set xs. ao_OrderID y = ao_OrderID x \<and> ao_Price y = ao_Price x)"
    using assms(1) m(1) unfolding xr(3) by (auto simp: auction_order_def)
qed

lemma rest_orders_distinct:
  "distinct (map ao_OrderID xs) \<Longrightarrow> distinct (map ao_OrderID (rest_orders qp (zip xs rs)))"
proof (induction xs arbitrary: rs)
  case (Cons x xs)
  show ?case
  proof (cases rs)
    case (Cons r rs')
    have "ao_OrderID x \<notin> ao_OrderID ` set (rest_orders qp (zip xs rs'))"
      using Cons.prems by (auto simp: rest_orders_def dest: set_zip_leftD)
    then show ?thesis using Cons Cons.IH [of rs'] Cons.prems by (simp add: rest_orders_def image_image)
  qed (simp add: rest_orders_def)
qed (simp add: rest_orders_def)

lemma volume_nonneg: "auction_ok pp qp a \<Longrightarrow> 0 \<le> volume a p"
  using volumes_bounded(1,3) [of pp qp a p] by (simp add: volume_def)

lemma auction_rest_ok:
  assumes ok: "auction_ok pp qp a" and ids: "distinct (map ao_OrderID (ab_bids a @ ab_asks a))"
  shows "\<forall>y\<in>set (auction_rest qp a p). auction_order pp qp y \<and>
       (\<exists>x\<in>set (ab_bids a) \<union> set (ab_asks a). ao_OrderID y = ao_OrderID x \<and> ao_Price y = ao_Price x)"
    "distinct (map ao_OrderID (auction_rest qp a p))"
proof -
  note d = auction_okD [OF ok]
  note v = volume_nonneg [OF ok, of p]
  have pos: "0 \<le> ival (ao_Qty x) \<and> ival (ao_Qty x) < 2 ^ 63" if "auction_order pp qp x" for x
    using auction_orderD(4) [OF that] sint_upper by simp
  let ?B = "elig_bids a p" and ?A = "elig_asks a p"
  have sub: "set ?B \<subseteq> set (ab_bids a)" "set ?A \<subseteq> set (ab_asks a)" by (auto simp: elig_bids_def elig_asks_def)
  have order: "\<forall>x\<in>set ?B. auction_order pp qp x" "\<forall>x\<in>set ?A. auction_order pp qp x" using sub d(3,4) by auto
  have lb: "\<forall>y\<in>set (rest_orders qp (left_bids a p)). auction_order pp qp y \<and>
       (\<exists>x\<in>set ?B. ao_OrderID y = ao_OrderID x \<and> ao_Price y = ao_Price x)"
    unfolding left_bids_def using order(1) pos by (intro rest_orders_ok allot_range v) auto
  have la: "\<forall>y\<in>set (rest_orders qp (left_asks a p)). auction_order pp qp y \<and>
       (\<exists>x\<in>set ?A. ao_OrderID y = ao_OrderID x \<and> ao_Price y = ao_Price x)"
    unfolding left_asks_def using order(2) pos by (intro rest_orders_ok allot_range v) auto
  show "\<forall>y\<in>set (auction_rest qp a p). auction_order pp qp y \<and>
       (\<exists>x\<in>set (ab_bids a) \<union> set (ab_asks a). ao_OrderID y = ao_OrderID x \<and> ao_Price y = ao_Price x)"
    using lb la sub d(3,4) unfolding auction_rest_def by (auto 0 4)
  have inj: "inj_on ao_OrderID (set (ab_bids a) \<union> set (ab_asks a))" and disj: "set (ab_bids a) \<inter> set (ab_asks a) = {}"
    using ids by (auto simp: distinct_map inj_on_Un)
  have dist: "distinct (map ao_OrderID (ab_bids a))" "distinct (map ao_OrderID (ab_asks a))" using ids by simp_all
  have dd: "distinct (map ao_OrderID (rest_orders qp (left_bids a p)))" "distinct (map ao_OrderID (rest_orders qp (left_asks a p)))"
    using dist unfolding left_bids_def left_asks_def
    by (auto intro!: rest_orders_distinct simp: elig_bids_def elig_asks_def distinct_map_filter)
  let ?I = "\<lambda>xs. ao_OrderID ` set xs"
  let ?C = "filter (\<lambda>x. ival (ao_Price x) < ival p) (ab_bids a)"
  let ?D = "filter (\<lambda>x. ival p < ival (ao_Price x)) (ab_asks a)"
  have ib: "?I (rest_orders qp (left_bids a p)) \<subseteq> ?I ?B" and ia: "?I (rest_orders qp (left_asks a p)) \<subseteq> ?I ?A"
    using lb la by auto
  have apart: "?I xs \<inter> ?I ys = {}"
    if "set xs \<inter> set ys = {}" "set xs \<subseteq> set (ab_bids a) \<union> set (ab_asks a)"
      "set ys \<subseteq> set (ab_bids a) \<union> set (ab_asks a)" for xs ys
    using inj_on_image_Int [OF inj that(2,3)] that(1) by simp
  have "?I ?B \<inter> ?I ?A = {}" using disj sub by (intro apart) auto
  then have 1: "?I (rest_orders qp (left_bids a p)) \<inter> ?I (rest_orders qp (left_asks a p)) = {}" using ib ia by blast
  have "?I ?B \<inter> ?I (?C @ ?D) = {}" using disj by (intro apart) (auto simp: elig_bids_def)
  then have 2: "?I (rest_orders qp (left_bids a p)) \<inter> ?I (?C @ ?D) = {}" using ib by blast
  have "?I ?A \<inter> ?I (?C @ ?D) = {}" using disj by (intro apart) (auto simp: elig_asks_def)
  then have 3: "?I (rest_orders qp (left_asks a p)) \<inter> ?I (?C @ ?D) = {}" using ia by blast
  have 4: "?I ?C \<inter> ?I ?D = {}" using disj by (intro apart) auto
  have 5: "distinct (map ao_OrderID ?C)" "distinct (map ao_OrderID ?D)" using dist by (simp_all add: distinct_map_filter)
  show "distinct (map ao_OrderID (auction_rest qp a p))"
    unfolding auction_rest_def map_append distinct_append set_append set_map Int_Un_distrib Un_empty
    using dd 1 2 3 4 5 by (simp only: set_append image_Un Int_Un_distrib Un_empty)
qed

subsection \<open>The carry-over\<close>

lemma auctionNode_new:
  assumes "auction_order (mc_PricePrecision cfg) (mc_QtyPrecision cfg) a" and "price_fits (mc_PricePrecision cfg) (ao_Price a)"
  shows "new_order (mc_PricePrecision cfg) (mc_QtyPrecision cfg) i (auctionNode cfg a i zeroNode)"
  using assms by (simp add: new_order_def auction_order_def auctionNode_def sound_order_def node_prec_def priced_def
    taker_sound_def resting_sound_def zeroNode_def Has_def FlagIceberg_def zeroDecimal_def Zero_def NewDecimal_def)

lemma carryOver_ok:
  assumes B: "price_index B"
  shows "proc_ok B {} p \<Longrightarrow> \<forall>a\<in>set as. auction_order (p_pp p) (p_qp p) a \<and> price_fits (p_pp p) (ao_Price a) \<Longrightarrow>
    distinct (map ao_OrderID as) \<Longrightarrow> ao_OrderID ` set as \<inter> known_ids p = {} \<Longrightarrow>
    serves B (ao_OrderID ` set as \<union> known_ids p) p (carryOver B as now p)"
proof (induction "as" arbitrary: p)
  case Nil
  then show ?case by (simp add: serves_def)
next
  case (Cons a "as")
  have step: "\<exists>q. carryOver B (a # as) now p = carryOver B as now q \<and> proc_ok B {} q \<and> same_market p q \<and>
      known_ids q \<subseteq> insert (ao_OrderID a) (known_ids p)"
  proof (cases "acquireOrder p")
    case (Inl err)
    then show ?thesis using Cons.prems(1)
      by (intro exI [of _ "rejectOrder (ao_OrderID a) (ao_UserID a) RejectPoolExhausted
          ''node pool exhausted on auction carryover'' now p"]) auto
  next
    case (Inr r)
    obtain p1 i where r: "r = (p1, i)" by fastforce
    note acq = Inr [unfolded r]
    note s = acquire_sound [OF Cons.prems(1) acq]
    let ?f = "auctionNode (p_cfg p) a i"
    let ?e = "p1\<lparr>p_book := set_b_node i ?f (p_book p1)\<rparr>"
    have e: "proc_ok B {i} ?e" "b_node (p_book ?e) i = ?f zeroNode" "b_index (p_book ?e) = b_index (p_book p)"
      "b_config (p_book ?e) = p_cfg p"
      using s(1-4,10) proc_qtyD(5) [OF Cons.prems(1)] by (simp_all add: set_b_node_def)
    have sm: "same_market p ?e" "p_stopBook ?e = p_stopBook p" using s(5,6) by (simp_all add: same_market_def)
    have n: "new_order (p_pp p) (p_qp p) i (?f zeroNode)" using Cons.prems(2) by (intro auctionNode_new) simp_all
    have id: "n_OrderID (?f zeroNode) = ao_OrderID a" by (simp add: auctionNode_def)
    have "placed B (ao_OrderID a) p (placeAndEmit B (match B i) (ao_OrderID a) (ao_UserID a) (ao_Side a) (ao_Price a) (ao_Qty a) now ?e)"
      using Cons.prems(2,4) by (intro place_node_ok(2) [OF B Cons.prems(1) e(1,2) n id _ sm e(3,4) refl])
        (auto simp: auction_order_def)
    then show ?thesis by (auto simp: acq s(7) PlaceLimit_match placed_def Let_def)
  qed
  then obtain q where q: "carryOver B (a # as) now p = carryOver B as now q" "proc_ok B {} q" "same_market p q"
    "known_ids q \<subseteq> insert (ao_OrderID a) (known_ids p)" by blast
  have "ao_OrderID ` set as \<inter> insert (ao_OrderID a) (known_ids p) = {}" using Cons.prems(3,4) by auto
  then have "ao_OrderID ` set as \<inter> known_ids q = {}" using q(4) by blast
  moreover have "p_cfg q = p_cfg p" using q(3) by (simp add: same_market_def)
  ultimately obtain p' where p': "carryOver B as now q = Some p'" "proc_ok B {} p'" "same_market q p'"
    "known_ids p' \<subseteq> ao_OrderID ` set as \<union> known_ids q"
    using Cons.IH [OF q(2)] Cons.prems(2,3) by (auto simp: serves_def)
  have "known_ids p' \<subseteq> ao_OrderID ` set (a # as) \<union> known_ids p" using p'(4) q(4) by auto
  then show ?case using p' q(1) same_market_trans [OF q(3)] by (simp add: serves_def)
qed

subsection \<open>Clearing\<close>

text \<open>The orders of the auction are known to no book, and their quantities add up in 63 bits; the
  keys are the prices in the order in which the run visits the map.\<close>

definition clearable :: "string list \<Rightarrow> 't Processor \<Rightarrow> bool" where
  "clearable keys p \<longleftrightarrow> (case p_auctionBook p of None \<Rightarrow> False | Some ab \<Rightarrow>
     fits ab \<and> distinct (map ao_OrderID (ab_bids ab @ ab_asks ab)) \<and>
     ao_OrderID ` (set (ab_bids ab) \<union> set (ab_asks ab)) \<inter> known_ids p = {} \<and>
     distinct keys \<and> set keys = price_keys ab) \<and>
     unat (p_pp p) \<le> 18 \<and> d_precision (auctionReference (p_cfg p)) = p_pp p \<and>
     0 \<le> ival (auctionReference (p_cfg p))"

lemma emitAuctionCancels_sel [simp]:
  "proc_ok B X (emitAuctionCancels as now p) = proc_ok B X p" "p_cfg (emitAuctionCancels as now p) = p_cfg p"
  by (induction "as" arbitrary: p) simp_all

lemma executeAuction_ok:
  assumes B: "price_index B" and ok: "proc_ok B {} p" and ab: "p_auctionBook p = Some ab"
    and cp: "d_precision cp = p_pp p" "price_fits (p_pp p) cp \<or> volume ab cp = 0"
    and ids: "distinct (map ao_OrderID (ab_bids ab @ ab_asks ab))"
      "ao_OrderID ` (set (ab_bids ab) \<union> set (ab_asks ab)) \<inter> known_ids p = {}"
  shows "keeps B p (executeAuction B cp mq ab now p)"
proof -
  have g: "auction_ok (p_pp p) (p_qp p) ab" "\<forall>x\<in>set (ab_bids ab) \<union> set (ab_asks ab). price_fits (p_pp p) (ao_Price x)"
    using ok ab by (simp_all add: proc_ok_def auction_good_def)
  let ?rest = "auction_rest (p_qp p) ab cp"
  obtain fs where fs: "Sweep cp ab = Some (fs, filter (\<lambda>x. ao_TIF x = GTC) ?rest, filter (\<lambda>x. ao_TIF x \<noteq> GTC) ?rest)"
    "\<forall>f\<in>set fs. fair_fill cp (elig_bids ab cp) (elig_asks ab cp) f \<and> d_precision (f_Qty f) = p_qp p"
    "(\<Sum>f\<leftarrow>fs. ival (f_Qty f)) = volume ab cp"
    using Sweep_ok [OF g(1) cp(1)] ids(1) by auto
  have "price_fits (p_pp p) cp" if "f \<in> set fs" for f
  proof -
    have nn: "\<forall>q\<in>set (map (\<lambda>f. ival (f_Qty f)) fs). 0 \<le> q" using fs(2) by (auto simp: fair_fill_def)
    have "ival (f_Qty f) \<le> volume ab cp"
      using member_le_sum_list [of "ival (f_Qty f)" "map (\<lambda>f. ival (f_Qty f)) fs"] nn that fs(3) by simp
    moreover have "0 < ival (f_Qty f)" using fs(2) that by (simp add: fair_fill_def)
    ultimately show ?thesis using cp(2) by auto
  qed
  then have "\<forall>f\<in>set fs. fill_sound (p_pp p) (p_qp p) f" using fs(2) by (auto simp: fill_sound_def fair_fill_def)
  from emitFillEvents_ok [OF ok this, of now] obtain r p1 where
    p1: "emitFillEvents fs now p = Some (r, p1)" "proc_ok B {} p1" "quiet p p1" by blast
  have same: "known_ids p1 = known_ids p" "p_cfg p1 = p_cfg p"
    using p1(3) by (simp_all add: quiet_def known_ids_def same_market_def)
  note rest = auction_rest_ok [OF g(1) ids(1), of cp]
  let ?gtc = "filter (\<lambda>x. ao_TIF x = GTC) ?rest"
  have "\<forall>a\<in>set ?gtc. auction_order (p_pp p1) (p_qp p1) a \<and> price_fits (p_pp p1) (ao_Price a)"
    using rest(1) g(2) same(2) by fastforce
  moreover have "distinct (map ao_OrderID ?gtc)" using rest(2) by (simp add: distinct_map_filter)
  moreover have "ao_OrderID ` set ?gtc \<inter> known_ids p1 = {}"
  proof -
    have "ao_OrderID ` set ?gtc \<subseteq> ao_OrderID ` (set (ab_bids ab) \<union> set (ab_asks ab))" using rest(1) by fastforce
    then show ?thesis using ids(2) same(1) by blast
  qed
  ultimately have "serves B (ao_OrderID ` set ?gtc \<union> known_ids p1) p1 (carryOver B ?gtc now p1)"
    by (rule carryOver_ok [OF B p1(2)])
  then obtain p2 where p2: "carryOver B ?gtc now p1 = Some p2" "proc_ok B {} p2" "same_market p1 p2"
    unfolding serves_def by blast
  then show ?thesis using same(2)
    by (simp add: executeAuction_def fs(1) p1(1) Let_def keeps_def same_market_def transitionTo_def split: sum.split)
qed

lemma clearAuction_ok:
  assumes B: "price_index B" and ok: "proc_ok B {} p" and c: "clearable keys p"
  shows "keeps B p (clearAuction B keys now p)"
proof -
  define q where "q = (if Current (p_state p) = PreOpen then openAuction now p else p)"
  have q: "proc_ok B {} q" "p_cfg q = p_cfg p" "known_ids q = known_ids p" "p_auctionBook q = p_auctionBook p"
    using ok by (auto simp: q_def openAuction_def known_ids_def transitionTo_def split: sum.split)
  obtain ab where ab: "p_auctionBook q = Some ab" "fits ab" "distinct (map ao_OrderID (ab_bids ab @ ab_asks ab))"
    "ao_OrderID ` (set (ab_bids ab) \<union> set (ab_asks ab)) \<inter> known_ids q = {}" "distinct keys" "set keys = price_keys ab"
    using c q by (auto simp: clearable_def split: option.splits)
  have ref: "unat (p_pp q) \<le> 18" "d_precision (auctionReference (p_cfg p)) = p_pp q" "0 \<le> ival (auctionReference (p_cfg p))"
    using c q(2) by (simp_all add: clearable_def)
  have g: "auction_ok (p_pp q) (p_qp q) ab" "\<forall>x\<in>set (ab_bids ab) \<union> set (ab_asks ab). price_fits (p_pp q) (ao_Price x)"
    using q(1) ab(1) by (simp_all add: proc_ok_def auction_good_def)
  note price = ComputeClearingPrice_ok [OF g(1) ab(2) ref ab(5,6)]
  have ex: "keeps B q (executeAuction B cp mq ab now q)"
    if "d_precision cp = p_pp q" "price_fits (p_pp q) cp \<or> volume ab cp = 0" for cp mq
    by (rule executeAuction_ok [OF B q(1) ab(1) that ab(3,4)])
  have "keeps B q (do {
        (clearingPrice, matchedQty, found) \<leftarrow> ComputeClearingPrice keys (auctionReference (p_cfg q)) ab;
        if found then executeAuction B clearingPrice matchedQty ab now q
        else executeAuction B (Zero (p_pp q)) (Zero (p_qp q)) ab now q })"
  proof (cases "crossing ab")
    case True
    then obtain cp mq where "ComputeClearingPrice keys (auctionReference (p_cfg p)) ab = Some (cp, mq, True)"
      "cp \<in> limit_prices ab" using price by auto
    moreover have "price_fits (p_pp q) cp" using \<open>cp \<in> limit_prices ab\<close> g(2) by (auto simp: limit_prices_def)
    ultimately show ?thesis using ex [of cp mq] q(2) by (simp add: price_fits_def)
  next
    case False
    have "\<not> 0 < volume ab (Zero (p_pp q))"
      using volume_pos [OF g(1)] auction_orderD(3) [OF auction_okD(4) [OF g(1)]] by (force simp: Zero_def NewDecimal_def)
    moreover have "0 \<le> volume ab (Zero (p_pp q))" by (rule volume_nonneg [OF g(1)])
    ultimately show ?thesis using price False ex [of "Zero (p_pp q)"] q(2) by (simp add: Zero_def NewDecimal_def)
  qed
  then show ?thesis using q(1,2) ab(1)
    by (simp add: clearAuction_def flip: q_def) (simp add: keeps_def)
qed

end
