(* ===== verification/Processor_Run.thy ===== *)
theory Processor_Run
  imports Processor_Clear
begin

section \<open>A run of the processor\<close>

text \<open>
  What the callers of the engine have to keep to, input by input, for the loop to go on for
  ever: decimals of the market's precision, the enumerations of the code, a free slot for the
  level of a new stop, and for the timers the keys of the maps the run visits.
\<close>

fun admissible :: "'t btree_fns \<Rightarrow> Input \<Rightarrow> 't Processor \<Rightarrow> bool" where
  "admissible B (InCommand cmd now) p \<longleftrightarrow> (case cmd of
       CmdLimit c \<Rightarrow> limit_form (p_cfg p) c
     | CmdMarket c \<Rightarrow> market_form (p_cfg p) c
     | CmdStop c \<Rightarrow> stop_form (p_cfg p) c \<and> stop_room B c p
     | _ \<Rightarrow> True)"
| "admissible B (InTick ids stopIds now) p \<longleftrightarrow>
     distinct ids \<and> set ids = dom (b_index (p_book p)) \<and>
     distinct stopIds \<and> set stopIds = dom (sb_index (p_stopBook p))"
| "admissible B (InAuctionOpen now) p \<longleftrightarrow> True"
| "admissible B (InAuctionClear keys now) p \<longleftrightarrow> clearable keys p"

fun admissible_run :: "'t btree_fns \<Rightarrow> Input list \<Rightarrow> 't Processor \<Rightarrow> bool" where
  "admissible_run B [] p \<longleftrightarrow> True"
| "admissible_run B (i # inputs) p \<longleftrightarrow> admissible B i p \<and>
     (case serve B i p of None \<Rightarrow> True | Some p' \<Rightarrow> admissible_run B inputs p')"

lemma serve_ok:
  assumes B: "price_index B" and ok: "proc_ok B {} p" and a: "admissible B i p"
  shows "keeps B p (serve B i p)"
proof (cases i)
  case (InCommand cmd now)
  then show ?thesis
    using a ok processLimitOrder_ok [OF B ok] processMarketOrder_ok [OF B ok] processStopOrder_ok [OF B ok]
      processCancelOrder_ok [OF B ok] processAdmin_ok [OF ok]
    by (cases cmd) (simp_all add: dispatch_def, simp add: keeps_def)
next
  case (InTick ids stopIds now)
  then show ?thesis using a runExpiryCheck_ok [OF B ok] by simp
next
  case (InAuctionOpen now)
  then show ?thesis using processAdmin_ok(3) [OF ok] by simp
next
  case (InAuctionClear keys now)
  then show ?thesis using a clearAuction_ok [OF B ok] by simp
qed

lemma run_ok:
  assumes B: "price_index B"
  shows "proc_ok B {} p \<Longrightarrow> admissible_run B inputs p \<Longrightarrow> keeps B p (run B inputs p)"
proof (induction inputs arbitrary: p)
  case Nil
  then show ?case by (simp add: keeps_def)
next
  case (Cons i inputs)
  have "admissible B i p" using Cons.prems(2) by simp
  from serve_ok [OF B Cons.prems(1) this] obtain q where
    q: "serve B i p = Some q" "proc_ok B {} q" "p_cfg q = p_cfg p" unfolding keeps_def by blast
  then show ?case using Cons.IH [OF q(2)] Cons.prems(2) by (simp add: keeps_def)
qed

subsection \<open>No slot is lost\<close>

lemma slots_counted:
  assumes "book_ok B b {}"
  shows "Len (h_nodes (b_heap b)) = OpenOrderCount b"
proof -
  obtain G where rep: "book_rep B b G {}" using assms by (auto simp: book_ok_def)
  have pool: "pool_ok (h_nodes (b_heap b))" "used_slots (h_nodes (b_heap b)) = all_nodes G"
    using book_repD(6) [OF rep] by (simp_all add: pools_rep_def)
  show ?thesis
    using index_card [OF book_repD(5) [OF rep]] pool card_used_slots [OF pool(1)] by (simp add: OpenOrderCount_def)
qed

lemma stop_slots_counted:
  assumes "stop_ok B pp s {}"
  shows "int (Len (sh_nodes (sb_heap s))) = Len_stop s"
proof -
  obtain G where rep: "stop_rep B pp s G {}" using assms by (auto simp: stop_ok_def)
  have pool: "pool_ok (sh_nodes (sb_heap s))" "used_slots (sh_nodes (sb_heap s)) = all_nodes G"
    using stop_repD(6) [OF rep] by (simp_all add: stop_pools_def)
  show ?thesis
    using index_card [OF stop_repD(5) [OF rep]] pool card_used_slots [OF pool(1)] by (simp add: Len_stop_def)
qed

subsection \<open>The processor of a new engine\<close>

text \<open>Two of the calculators of the library answer always: the one without fees, and the tiered one if the volumes have the
  precision of the tiers.\<close>

lemma ZeroFee_total: "fees_total cfg ZeroFee_Calculate"
  by (simp add: fees_total_def ZeroFee_Calculate_def Let_def)

lemma TieredFee_total:
  assumes "market_ok cfg" and "\<forall>t\<in>set (fs_Tiers (mc_FeeSchedule cfg)). \<forall>u. d_precision (ft_MinVolume t) = d_precision (getVolume u marketID)"
  shows "fees_total cfg (TieredFee_Calculate getVolume marketID)"
proof -
  have tier: "findTier (fs_Tiers (mc_FeeSchedule cfg)) (getVolume u marketID) \<noteq> None" for u
    using findTier_loop_ok [of "fs_Tiers (mc_FeeSchedule cfg)" "getVolume u marketID"] assms(2) by (simp add: findTier_def)
  have nz: "qtyScale (unat (mc_QtyPrecision cfg)) \<noteq> 0" using assms(1) by (intro qtyScale_nonzero) (simp add: market_ok_def)
  have "TieredFee_Calculate getVolume marketID (mc_FeeSchedule cfg) f \<noteq> None"
    if f: "d_precision (f_Qty f) = mc_QtyPrecision cfg" for f
  proof -
    obtain a b where "findTier (fs_Tiers (mc_FeeSchedule cfg)) (getVolume (f_MakerUserID f) marketID) = Some a"
      "findTier (fs_Tiers (mc_FeeSchedule cfg)) (getVolume (f_TakerUserID f) marketID) = Some b" using tier by blast
    then show ?thesis using f nz by (simp add: TieredFee_Calculate_def Let_def go_quot_def)
  qed
  then show ?thesis by (simp add: fees_total_def fill_sound_def)
qed

definition engine_settings :: "'t Engine \<Rightarrow> bool" where
  "engine_settings e \<longleftrightarrow> settings_ok (en_processor e) \<and>
     (\<forall>cb. mc_CircuitBreaker (en_cfg e) = Some cb \<longrightarrow> d_precision (cb_MaxMovePercent cb) = 4)"

lemma new_breaker_ok: "window_ok (br_window (NewCircuitBreaker cb))" "samples (br_window (NewCircuitBreaker cb)) = []"
  "br_cfg (NewCircuitBreaker cb) = cb"
  by (simp_all add: NewCircuitBreaker_def NewRollingWindow_def window_ok_def samples_def maxSamples_def)

lemma new_auction_ok: "auction_ok pp qp (NewAuctionBook pp qp)" "ab_bids (NewAuctionBook pp qp) = []"
  "ab_asks (NewAuctionBook pp qp) = []"
  by (simp_all add: NewAuctionBook_def auction_ok_def)

text \<open>Whatever the sizes of the pools.\<close>

lemma newCommandProcessor_ok:
  assumes B: "price_index B" and h: "pools_rep h {} {}" and sh: "stop_pools sh {} {}"
    and ab: "\<forall>a. ab = Some a \<longrightarrow> a = NewAuctionBook (mc_PricePrecision cfg) (mc_QtyPrecision cfg)"
    and breaker: "\<forall>cb. breaker = Some cb \<longrightarrow> d_precision (cb_MaxMovePercent cb) = 4"
    and cfg: "market_ok cfg" and fee: "fees_total cfg feeCalc"
    and p: "p = newCommandProcessor (NewOrderBook B cfg h c) (NewStopBook B sh d) ab
      (map_option NewCircuitBreaker breaker) m feeCalc hook cfg newULID"
  shows "proc_ok B {} p" "known_ids p = {}" "p_cfg p = cfg" "p_events p = []" "p_eventSeq p = NewCounter (mc_InitialEventSeq cfg)"
proof -
  have pb: "p_book p = NewOrderBook B cfg h c" and ps: "p_stopBook p = NewStopBook B sh d"
    by (simp_all add: p newCommandProcessor_def)
  have book: "book_ok B (p_book p) {}" "side_view B y (p_book p) = []" "b_index (p_book p) = Map.empty"
    "b_config (p_book p) = cfg" for y
    unfolding pb using NewOrderBook_ok [OF B h] by (simp_all add: NewOrderBook_def)
  have st: "stop_ok B pp (p_stopBook p) {}" "stop_view B y (p_stopBook p) = []" "sb_index (p_stopBook p) = Map.empty" for pp y
    unfolding ps using NewStopBook_ok [OF B sh] by (simp_all add: NewStopBook_def)
  show c: "p_cfg p = cfg" by (simp add: p newCommandProcessor_def)
  have "ledger_ok p" by (simp add: p newCommandProcessor_def ledger_ok_def new_tracker_ok)
  moreover have "breaker_ok p" using breaker
    by (cases breaker) (simp_all add: p newCommandProcessor_def breaker_ok_def new_breaker_ok)
  moreover have "auction_good p" using ab
    by (cases ab) (simp_all add: p newCommandProcessor_def auction_good_def new_auction_ok)
  moreover have "settings_ok p" using cfg fee by (simp add: p newCommandProcessor_def settings_ok_def)
  ultimately show "proc_ok B {} p" using book st c
    by (simp add: proc_ok_def book_good_def stops_good_def ids_apart_def)
  show "known_ids p = {}" using book(3) st(3) by (simp add: known_ids_def)
  show "p_events p = []" "p_eventSeq p = NewCounter (mc_InitialEventSeq cfg)" by (simp_all add: p newCommandProcessor_def)
qed

lemma New_engine_ok:
  assumes B: "price_index B" and new: "New_engine B newULID cfg opts = Some (Inr e)" and s: "engine_settings e"
  shows "proc_ok B {} (en_processor e)" "known_ids (en_processor e) = {}" "p_cfg (en_processor e) = en_cfg e"
    "p_events (en_processor e) = []" "en_started e = False" "en_cmdChan e = []"
    "Peek (p_eventSeq (en_processor e)) = mc_InitialEventSeq (en_cfg e) - 1"
proof -
  obtain cfg' where v: "Validate cfg = Some (Inr cfg')"
    using new by (auto simp: New_engine_def elim!: bindE split: sum.split_asm)
  define ab where "ab = (if Has_feature (mc_Features cfg') FeatureAuctions \<and> mc_Auction cfg' \<noteq> None
        then Some (NewAuctionBook (mc_PricePrecision cfg') (mc_QtyPrecision cfg')) else None)"
  obtain n l d hook fee where
    p: "en_processor e = newCommandProcessor
       (NewOrderBook B cfg' (empty_heap n l) (NewCounter (mc_InitialOrderSeq cfg')))
       (NewStopBook B \<lparr>sh_nodes = New zeroStopNode (nat defaultStopPool),
          sh_levels = New zeroStopLevel (nat defaultStopPool div 10)\<rparr> d) ab
       (map_option NewCircuitBreaker (mc_CircuitBreaker cfg')) (NewMachine cfg') fee hook cfg' newULID"
    and e: "en_cfg e = cfg'" "en_started e = False" "en_cmdChan e = []"
    using new v by (auto simp: New_engine_def Let_def empty_heap_def ab_def elim!: bindE)
  have set: "market_ok cfg'" "fees_total cfg' fee"
    "\<forall>cb. mc_CircuitBreaker cfg' = Some cb \<longrightarrow> d_precision (cb_MaxMovePercent cb) = 4"
    using s e by (simp_all add: engine_settings_def settings_ok_def p newCommandProcessor_def)
  have "\<forall>a. ab = Some a \<longrightarrow> a = NewAuctionBook (mc_PricePrecision cfg') (mc_QtyPrecision cfg')" by (simp add: ab_def)
  from newCommandProcessor_ok [OF B empty_heap_ok stop_pools_new this set(3,1,2) p]
  show "proc_ok B {} (en_processor e)" "known_ids (en_processor e) = {}" "p_cfg (en_processor e) = en_cfg e"
    "p_events (en_processor e) = []" "en_started e = False" "en_cmdChan e = []"
    "Peek (p_eventSeq (en_processor e)) = mc_InitialEventSeq (en_cfg e) - 1"
    by (simp_all add: e Peek_def NewCounter_def)
qed

end
