(* ===== verification/Engine_Recovery.thy ===== *)
theory Engine_Recovery
  imports Processor_Run
begin

section \<open>Recovery and the engine's queue\<close>

text \<open>
  \<open>Start\<close> puts the recovered orders back into the two books before the first command; \<open>Submit\<close>
  appends to the command channel and the loop takes from its front.  Together with
  \<open>New_engine_ok\<close> and \<open>run_ok\<close> this covers the life of an engine.
\<close>

subsection \<open>Recovered orders\<close>

definition is_stop_order :: "RecoveredOrder \<Rightarrow> bool" where
  "is_stop_order ro \<longleftrightarrow> ro_Type ro = Stop \<or> ro_Type ro = StopLimit"

definition recovered_form :: "MarketConfig \<Rightarrow> RecoveredOrder \<Rightarrow> bool" where
  "recovered_form cfg ro \<longleftrightarrow> d_precision (ro_RemainQty ro) = mc_QtyPrecision cfg \<and> 0 < ival (ro_RemainQty ro) \<and>
     (if is_stop_order ro then d_precision (ro_StopPrice ro) = mc_PricePrecision cfg \<and>
        (ro_Type ro = StopLimit \<longrightarrow> price_fits (mc_PricePrecision cfg) (ro_Price ro))
      else price_fits (mc_PricePrecision cfg) (ro_Price ro) \<and>
        (Has (ro_Flags ro) FlagIceberg \<longrightarrow> d_precision (ro_DisplayQty ro) = mc_QtyPrecision cfg))"

definition recovered_room :: "'t btree_fns \<Rightarrow> RecoveredOrder \<Rightarrow> 't Processor \<Rightarrow> bool" where
  "recovered_room B ro p \<longleftrightarrow> ro_StopPrice ro \<in> fst ` set (stop_view B (ro_Side ro = Ask) (p_stopBook p)) \<or>
     Len (sh_levels (sb_heap (p_stopBook p))) \<noteq> Capacity (sh_levels (sb_heap (p_stopBook p)))"

definition seed_one :: "'t btree_fns \<Rightarrow> RecoveredOrder \<Rightarrow> i64 \<Rightarrow> 't Processor \<Rightarrow> 't Processor option" where
  "seed_one B ro now p = (if is_stop_order ro then seedStop B ro now p
     else if ro_Type ro = Market then Some p else seedOrder B ro now p)"

lemma seedInitialOrders_Cons:
  "seedInitialOrders B (ro # ros) now p = Option.bind (seed_one B ro now p) (seedInitialOrders B ros now)"
  by (simp add: seed_one_def is_stop_order_def)

text \<open>What recovery needs: well-formed orders with ids of their own.\<close>

fun recoverable :: "'t btree_fns \<Rightarrow> RecoveredOrder list \<Rightarrow> i64 \<Rightarrow> 't Processor \<Rightarrow> bool" where
  "recoverable B [] now p \<longleftrightarrow> True"
| "recoverable B (ro # ros) now p \<longleftrightarrow>
     (ro_Type ro \<noteq> Market \<longrightarrow> recovered_form (p_cfg p) ro \<and> \<not> knownOrder (ro_OrderID ro) p) \<and>
     (is_stop_order ro \<longrightarrow> recovered_room B ro p) \<and>
     (case seed_one B ro now p of None \<Rightarrow> True | Some q \<Rightarrow> recoverable B ros now q)"

lemma recoveredNode_new:
  assumes f: "recovered_form cfg ro" and ns: "\<not> is_stop_order ro"
  shows "\<exists>n. recoveredNode cfg ro i c now zeroNode = Some n \<and>
     new_order (mc_PricePrecision cfg) (mc_QtyPrecision cfg) i n \<and> n_OrderID n = ro_OrderID ro \<and> n_Type n = Limit"
proof (cases "Has (ro_Flags ro) FlagIceberg \<and> IsPositive (ro_DisplayQty ro) \<and> ival (ro_DisplayQty ro) < ival (ro_RemainQty ro)")
  case True
  have "d_precision (ro_RemainQty ro) = mc_QtyPrecision cfg" "d_precision (ro_DisplayQty ro) = mc_QtyPrecision cfg"
    using f ns True by (simp_all add: recovered_form_def)
  then show ?thesis using True f ns
    by (simp add: recoveredNode_def Let_def Sub_same compare_same and_then_def new_order_def sound_order_def node_prec_def
      priced_def taker_sound_def resting_sound_def price_fits_def recovered_form_def Zero_def NewDecimal_def
      sint_sub_nonneg IsPositive_def zeroNode_def)
next
  case False
  have af: "and_then (Has (ro_Flags ro) FlagIceberg \<and> IsPositive (ro_DisplayQty ro))
       (LessThan (ro_DisplayQty ro) (ro_RemainQty ro)) = Some False"
    using f ns False by (auto simp: and_then_def recovered_form_def compare_same)
  show ?thesis using f ns
    by (simp add: af recoveredNode_def Let_def new_order_def sound_order_def node_prec_def
      priced_def taker_sound_def resting_sound_def price_fits_def recovered_form_def Zero_def NewDecimal_def zeroNode_def)
qed

lemma recoveredStop_sound:
  assumes "recovered_form cfg ro" and "is_stop_order ro"
  shows "stop_sound (mc_PricePrecision cfg) (mc_QtyPrecision cfg) (recoveredStop cfg ro i c now zeroStopNode)"
    "d_precision (st_TriggerPrice (recoveredStop cfg ro i c now zeroStopNode)) = mc_PricePrecision cfg"
    "st_PoolIndex (recoveredStop cfg ro i c now zeroStopNode) = i"
    "st_OrderID (recoveredStop cfg ro i c now zeroStopNode) = ro_OrderID ro"
    "st_TriggerPrice (recoveredStop cfg ro i c now zeroStopNode) = ro_StopPrice ro"
    "st_Side (recoveredStop cfg ro i c now zeroStopNode) = ro_Side ro"
  using assms by (auto simp: recoveredStop_def Let_def stop_sound_def recovered_form_def zeroStopNode_def)

lemma seedStop_ok:
  assumes B: "price_index B" and ok: "proc_ok B {} p" and f: "recovered_form (p_cfg p) ro" "is_stop_order ro"
    and fresh: "\<not> knownOrder (ro_OrderID ro) p" and room: "recovered_room B ro p"
  shows "keeps B p (seedStop B ro now p)"
proof (cases "AcquireNode (p_stopBook p)")
  case (Inl err)
  then show ?thesis using ok by (simp add: seedStop_def keeps_def)
next
  case (Inr a)
  obtain sb i where a: "AcquireNode (p_stopBook p) = Inr (sb, i)" using Inr by (cases a) simp
  obtain p1 c where seq: "nextOrderSeq p = (p1, c)" by fastforce
  note r = recoveredStop_sound [OF f, of i c now]
  obtain s2 where "AddStop B i (sb\<lparr>sb_heap := set_snode i (recoveredStop (p_cfg p) ro i c now) (sb_heap sb)\<rparr>) = Some s2"
    "proc_ok B {} (p1\<lparr>p_stopBook := s2\<rparr>)"
    using add_stop_ok [where f = "recoveredStop (p_cfg p) ro i c now", OF B ok a seq r(1-3)] fresh room by (auto simp: r(4-6) not_known recovered_room_def)
  then show ?thesis using nextOrderSeq_sound(2) [OF seq] by (simp add: seedStop_def a seq Let_def keeps_def)
qed

lemma seedOrder_ok:
  assumes B: "price_index B" and ok: "proc_ok B {} p" and f: "recovered_form (p_cfg p) ro" "\<not> is_stop_order ro"
    and fresh: "\<not> knownOrder (ro_OrderID ro) p"
  shows "keeps B p (seedOrder B ro now p)"
proof (cases "acquireOrder p")
  case (Inl err)
  then show ?thesis using ok by (simp add: seedOrder_def keeps_def)
next
  case (Inr a)
  obtain p1 i where a: "a = (p1, i)" by fastforce
  obtain p2 c where seq: "nextOrderSeq p1 = (p2, c)" by fastforce
  note acq = Inr [unfolded a]
  note s = acquire_seq_sound [OF ok acq seq]
  obtain n where n: "recoveredNode (p_cfg p) ro i c now zeroNode = Some n" "new_order (p_pp p) (p_qp p) i n"
    "n_OrderID n = ro_OrderID ro" "n_Type n = Limit" using recoveredNode_new [OF f] by blast
  let ?q = "p2\<lparr>p_book := set_b_node i (\<lambda>_. n) (p_book p2)\<rparr>"
  have q: "proc_ok B {i} ?q" "b_node (p_book ?q) i = n" "b_index (p_book ?q) = b_index (p_book p)"
    "b_config (p_book ?q) = p_cfg p" by (rule s(1) s(2) s(4) s(10))+
  have sm: "same_market p ?q" "p_stopBook ?q = p_stopBook p" "p_cfg ?q = p_cfg p" using s(5-7) by (simp_all add: same_market_def)
  have r: "ready i ?q"
    using fresh by (intro place_node_ok(1) [OF B ok q(1,2) n(2,3) _ sm(1,2) q(3,4) refl, of "Zero (p_pp p)" "Zero (p_qp p)"])
      (simp_all add: not_known Zero_def NewDecimal_def)
  have nn: "n_Type (b_node (p_book ?q) i) \<noteq> Market" "0 < remaining (b_node (p_book ?q) i)" "n_PoolIndex (b_node (p_book ?q) i) = i"
    unfolding q(2) using n(2,4) by (simp_all add: new_order_def)
  from resting_proc_ok [OF B q(1) r nn(1,2)] show ?thesis
  proof (elim disjE exE conjE)
    assume e: "PlaceResting B i (p_book ?q) = Some (Inl ErrPoolExhausted)"
    obtain p' where "releaseOrder i ?q = Some p'" "proc_ok B {} p'" "same_market ?q p'"
      using releaseOrder_ok [OF q(1), of i] by auto
    then show ?thesis using e nn(3) sm(3)
      by (simp add: seedOrder_def acq seq s(3,7) n(1) Let_def keeps_def same_market_def)
  next
    fix b' assume "PlaceResting B i (p_book ?q) = Some (Inr b')" "proc_ok B {} (?q\<lparr>p_book := b'\<rparr>)"
    then show ?thesis using sm(3) by (simp add: seedOrder_def acq seq s(3,7) n(1) Let_def keeps_def)
  qed
qed

lemma seedInitialOrders_ok:
  assumes B: "price_index B"
  shows "proc_ok B {} p \<Longrightarrow> recoverable B ros now p \<Longrightarrow> keeps B p (seedInitialOrders B ros now p)"
proof (induction ros arbitrary: p)
  case Nil
  then show ?case by (simp add: keeps_def)
next
  case (Cons ro ros)
  have "keeps B p (seed_one B ro now p)"
    using Cons.prems seedStop_ok [OF B Cons.prems(1)] seedOrder_ok [OF B Cons.prems(1)]
    by (auto simp: seed_one_def is_stop_order_def keeps_def)
  then obtain q where q: "seed_one B ro now p = Some q" "proc_ok B {} q" "p_cfg q = p_cfg p"
    unfolding keeps_def by blast
  then show ?case using Cons.IH [OF q(2)] Cons.prems(2)
    by (simp add: seedInitialOrders_Cons keeps_def del: seedInitialOrders.simps)
qed

end
