(* ===== verification/Processor_Demo.thy ===== *)
theory Processor_Demo
  imports Engine_Recovery
begin

section \<open>A small market\<close>

text \<open>A market on the list tree with four order slots, two stop slots and no fees, for the examples.\<close>

definition demo_processor :: "(Decimal, nat) list_tree Processor" where
  "demo_processor = newCommandProcessor
     (NewOrderBook list_btree demo_config (empty_heap 4 3) (NewCounter 1))
     (NewStopBook list_btree \<lparr>sh_nodes = New zeroStopNode 2, sh_levels = New zeroStopLevel 1\<rparr> 10)
     (Some (NewAuctionBook 2 0)) None (NewMachine demo_config) ZeroFee_Calculate None demo_config
     (\<lambda>n. replicate n CHR ''u'')"

definition demo_limit :: "OrderID \<Rightarrow> UserID \<Rightarrow> Side \<Rightarrow> i64 \<Rightarrow> i64 \<Rightarrow> TIF \<Rightarrow> Command" where
  "demo_limit oid uid s price qty tif = CmdLimit \<lparr>pl_MarketID = ''TEST-USD'', pl_OrderID = oid, pl_UserID = uid,
     pl_Side = s, pl_Price = NewDecimal price 2, pl_Qty = NewDecimal qty 0, pl_DisplayQty = NewDecimal 0 0,
     pl_TIF = tif, pl_Flags = 0, pl_ExpireAt = 0, pl_STPMode = STPDisabled\<rparr>"

definition demo_market :: "OrderID \<Rightarrow> UserID \<Rightarrow> Side \<Rightarrow> i64 \<Rightarrow> Command" where
  "demo_market oid uid s qty = CmdMarket \<lparr>pm_MarketID = ''TEST-USD'', pm_OrderID = oid, pm_UserID = uid,
     pm_Side = s, pm_Qty = NewDecimal qty 0, pm_TIF = IOC, pm_Flags = 0, pm_STPMode = STPDisabled\<rparr>"

definition demo_cancel :: "OrderID \<Rightarrow> UserID \<Rightarrow> Command" where
  "demo_cancel oid uid = CmdCancel \<lparr>co_MarketID = ''TEST-USD'', co_OrderID = oid, co_UserID = uid\<rparr>"

definition demo_halt :: Command where
  "demo_halt = CmdHalt \<lparr>hm_MarketID = ''TEST-USD'', hm_Reason = ''test''\<rparr>"

definition demo_resume :: Command where
  "demo_resume = CmdResume \<lparr>rm_MarketID = ''TEST-USD''\<rparr>"

text \<open>A market is opened by an administrator; Alice offers, Bob buys, Alice cancels the rest.\<close>

definition demo_inputs :: "Input list" where
  "demo_inputs = [InCommand demo_halt 1, InCommand demo_resume 2,
     InCommand (demo_limit ''a1'' ''alice'' Ask 10000 5 GTC) 3,
     InCommand (demo_limit ''b1'' ''bob'' Bid 10100 2 GTC) 4, InCommand (demo_market ''b2'' ''bob'' Bid 1) 5,
     InCommand (demo_cancel ''a1'' ''alice'') 6]"

lemma demo_processor_ok: "proc_ok list_btree {} demo_processor" "known_ids demo_processor = {}"
  "p_cfg demo_processor = demo_config" "p_events demo_processor = []"
proof -
  have cfg: "market_ok demo_config" by (simp add: market_ok_def demo_config_def IsZero_def Zero_def NewDecimal_def)
  have fee: "fees_total demo_config ZeroFee_Calculate" by (rule ZeroFee_total)
  have p: "demo_processor = newCommandProcessor
     (NewOrderBook list_btree demo_config (empty_heap 4 3) (NewCounter 1))
     (NewStopBook list_btree \<lparr>sh_nodes = New zeroStopNode 2, sh_levels = New zeroStopLevel 1\<rparr> 10)
     (Some (NewAuctionBook 2 0)) (map_option NewCircuitBreaker None) (NewMachine demo_config) ZeroFee_Calculate None demo_config
     (\<lambda>n. replicate n CHR ''u'')" by (simp add: demo_processor_def)
  show "proc_ok list_btree {} demo_processor" "known_ids demo_processor = {}"
    "p_cfg demo_processor = demo_config" "p_events demo_processor = []"
    by (rule newCommandProcessor_ok [OF list_index empty_heap_ok stop_pools_new _ _ cfg fee p]; simp)+
qed

text \<open>Commands without stops are admissible whatever the state.\<close>

definition plain_input :: "MarketConfig \<Rightarrow> Input \<Rightarrow> bool" where
  "plain_input cfg i \<longleftrightarrow> (case i of InCommand (CmdLimit c) now \<Rightarrow> limit_form cfg c
     | InCommand (CmdMarket c) now \<Rightarrow> market_form cfg c | InCommand (CmdStop c) now \<Rightarrow> False
     | InCommand _ now \<Rightarrow> True | InAuctionOpen now \<Rightarrow> True | _ \<Rightarrow> False)"

lemma plain_admissible: "plain_input (p_cfg p) i \<Longrightarrow> admissible B i p"
  by (cases i; cases "case i of InCommand c _ \<Rightarrow> c | _ \<Rightarrow> undefined")
    (auto simp: plain_input_def split: Command.splits)

lemma plain_admissible_run:
  assumes B: "price_index B"
  shows "proc_ok B {} p \<Longrightarrow> \<forall>i\<in>set inputs. plain_input (p_cfg p) i \<Longrightarrow> admissible_run B inputs p"
proof (induction inputs arbitrary: p)
  case (Cons i inputs)
  have a: "admissible B i p" using Cons.prems(2) by (intro plain_admissible) simp
  from serve_ok [OF B Cons.prems(1) this] obtain q where
    "serve B i p = Some q" "proc_ok B {} q" "p_cfg q = p_cfg p" unfolding keeps_def by blast
  then show ?case using a Cons.IH [of q] Cons.prems(2) by simp
qed simp

lemma demo_plain: "\<forall>i\<in>set demo_inputs. plain_input demo_config i"
  by (simp add: demo_inputs_def plain_input_def demo_halt_def demo_resume_def demo_limit_def demo_market_def demo_cancel_def
      limit_form_def market_form_def Has_def FlagIceberg_def)

lemma demo_admissible: "admissible_run list_btree demo_inputs demo_processor"
  using plain_admissible_run [OF list_index demo_processor_ok(1)] demo_plain by (simp add: demo_processor_ok(3))

end
