(* ===== verification/Engine_Queue.thy ===== *)
theory Engine_Queue
  imports Engine_Recovery Event_Log
begin

section \<open>The engine's queue and timers\<close>

text \<open>
  Submitters and the processor's loop share the command channel.  The lemmas show that in every
  interleaving (\<open>loop_run\<close>) the channel is a bounded first-in first-out queue, that the loop drains it, that the
  inputs served are a \<open>run\<close> of the processor, and that each auction timer fires at most once
  and not before its time.
\<close>

fun input_cmds :: "Input list \<Rightarrow> Command list" where
  "input_cmds (InCommand cmd now # ins) = cmd # input_cmds ins"
| "input_cmds (_ # ins) = input_cmds ins"
| "input_cmds [] = []"

lemma input_cmds_append [simp]: "input_cmds (xs @ ys) = input_cmds xs @ input_cmds ys"
  by (induction xs rule: input_cmds.induct) simp_all

lemma input_cmds_map2: "length ts = length cs \<Longrightarrow> input_cmds (map2 InCommand cs ts) = cs"
  by (induction cs ts rule: list_induct2') simp_all

lemma run_append: "run B (xs @ ys) p = Option.bind (run B xs p) (run B ys)"
proof (induction xs arbitrary: p)
  case (Cons i xs)
  then show ?case by (cases "serve B i p") simp_all
qed simp

text \<open>One step: what has been served and what waits is what waited and what was accepted.\<close>

definition fifo :: "'t btree_fns \<Rightarrow> 't Loop \<Rightarrow> Command list \<Rightarrow> Input list \<Rightarrow> 't Loop \<Rightarrow> bool" where
  "fifo B l acc ins l' \<longleftrightarrow>
     run B ins (en_processor (lp_engine l)) = Some (en_processor (lp_engine l')) \<and>
     en_cmdChan (lp_engine l) @ acc = input_cmds ins @ en_cmdChan (lp_engine l') \<and>
     en_cmdBuffer (lp_engine l') = en_cmdBuffer (lp_engine l) \<and>
     (length (en_cmdChan (lp_engine l)) \<le> en_cmdBuffer (lp_engine l) \<longrightarrow>
        length (en_cmdChan (lp_engine l')) \<le> en_cmdBuffer (lp_engine l))"

lemma loop_step_fifo: "loop_step B l acc ins l' \<Longrightarrow> fifo B l acc ins l'"
  by (erule loop_stepE; auto simp: fifo_def Submit_def receive_def Close_def serve_input_def split: if_split_asm elim!: bindE)

lemma loop_run_fifo: "loop_run B l acc ins l' \<Longrightarrow> fifo B l acc ins l'"
proof (induction rule: loop_run.induct)
  case (step l acc ins l' acc' ins' l'')
  from loop_step_fifo [OF step.hyps(2)] step.IH show ?case
    unfolding fifo_def by (simp add: run_append) (metis append.assoc)
qed (simp add: fifo_def)

text \<open>How often each timer has fired, with one for a timer that is still armed.\<close>

fun openings :: "Input list \<Rightarrow> i64 list" where
  "openings (InAuctionOpen now # ins) = now # openings ins"
| "openings (_ # ins) = openings ins"
| "openings [] = []"

fun clearings :: "Input list \<Rightarrow> i64 list" where
  "clearings (InAuctionClear keys now # ins) = now # clearings ins"
| "clearings (_ # ins) = clearings ins"
| "clearings [] = []"

lemma openings_append [simp]: "openings (xs @ ys) = openings xs @ openings ys"
  by (induction xs rule: openings.induct) simp_all

lemma clearings_append [simp]: "clearings (xs @ ys) = clearings xs @ clearings ys"
  by (induction xs rule: clearings.induct) simp_all

definition fires :: "i64 option \<Rightarrow> i64 list \<Rightarrow> i64 option \<Rightarrow> bool" where
  "fires timer ts timer' \<longleftrightarrow> ts = [] \<and> timer' = timer \<or> (\<exists>now. ts = [now] \<and> fired timer now \<and> timer' = None)"

lemma fires_trans: "fires a ts b \<Longrightarrow> fires b us c \<Longrightarrow> fires a (ts @ us) c"
  by (auto simp: fires_def fired_def)

lemma loop_step_fires:
  "loop_step B l acc ins l' \<Longrightarrow> fires (lp_openC l) (openings ins) (lp_openC l') \<and> fires (lp_clearC l) (clearings ins) (lp_clearC l')"
  by (erule loop_stepE; auto simp: fires_def serve_input_def elim!: bindE)

lemma loop_run_fires:
  "loop_run B l acc ins l' \<Longrightarrow> fires (lp_openC l) (openings ins) (lp_openC l') \<and> fires (lp_clearC l) (clearings ins) (lp_clearC l')"
proof (induction rule: loop_run.induct)
  case (step l acc ins l' acc' ins' l'')
  then show ?case using loop_step_fires [OF step.hyps(2)] fires_trans by (metis openings_append clearings_append)
qed (simp add: fires_def)

text \<open>The loop on its own, one turn for each time of the clock.\<close>

fun drain :: "'t btree_fns \<Rightarrow> i64 list \<Rightarrow> 't Engine \<Rightarrow> 't Engine option" where
  "drain B [] e = Some e"
| "drain B (now # clock) e = Option.bind (receive B now e) (drain B clock)"

lemma drain_run:
  "length clock = length (en_cmdChan e) \<Longrightarrow>
    drain B clock e = map_option (\<lambda>p. e\<lparr>en_cmdChan := [], en_processor := p\<rparr>)
      (run B (map2 InCommand (en_cmdChan e) clock) (en_processor e))"
proof (induction clock arbitrary: e)
  case (Cons now clock)
  then obtain cmd cmds where c: "en_cmdChan e = cmd # cmds" by (cases "en_cmdChan e") auto
  show ?case
  proof (cases "dispatch B cmd now (en_processor e)")
    case (Some p)
    let ?e = "e\<lparr>en_cmdChan := cmds, en_processor := p\<rparr>"
    have "drain B clock ?e = map_option (\<lambda>p. ?e\<lparr>en_cmdChan := [], en_processor := p\<rparr>)
      (run B (map2 InCommand (en_cmdChan ?e) clock) (en_processor ?e))"
      using Cons.prems c by (intro Cons.IH) simp
    then show ?thesis using c Some by (simp add: receive_def)
  qed (simp add: c receive_def)
qed simp

subsection \<open>Starting\<close>

text \<open>Recovery sends no event.\<close>

lemma seedStop_events: "seedStop B ro now p = Some p' \<Longrightarrow> p_events p' = p_events p \<and> p_eventSeq p' = p_eventSeq p \<and> p_cfg p' = p_cfg p"
  by (auto simp: seedStop_def nextOrderSeq_def Let_def split: sum.splits prod.splits elim!: bindE)

lemma seedOrder_events: "seedOrder B ro now p = Some p' \<Longrightarrow> p_events p' = p_events p \<and> p_eventSeq p' = p_eventSeq p \<and> p_cfg p' = p_cfg p"
  by (auto simp: seedOrder_def acquireOrder_def releaseOrder_def nextOrderSeq_def Let_def split: sum.splits prod.splits elim!: bindE)

lemma seed_events:
  "seedInitialOrders B ros now p = Some p' \<Longrightarrow> p_events p' = p_events p \<and> p_eventSeq p' = p_eventSeq p \<and> p_cfg p' = p_cfg p"
proof (induction ros arbitrary: p)
  case (Cons ro ros)
  then obtain q where q: "seed_one B ro now p = Some q" "seedInitialOrders B ros now q = Some p'"
    by (auto simp: seedInitialOrders_Cons simp del: seedInitialOrders.simps elim!: bindE)
  have "p_events q = p_events p \<and> p_eventSeq q = p_eventSeq p \<and> p_cfg q = p_cfg p"
    using q(1) seedStop_events [of B ro now p q] seedOrder_events [of B ro now p q]
    by (auto simp: seed_one_def split: if_splits)
  then show ?case using Cons.IH [OF q(2)] by simp
qed simp

end
