(* ===== verification/Engine_Claims.thy ===== *)
theory Engine_Claims
  imports Engine_Queue Processor_Demo
begin

section \<open>The engine: the properties\<close>

text \<open>
  The life of one engine from \<open>New\<close> on, and the command queue under every interleaving of
  submitters and the processor's loop.
\<close>

subsection \<open>From construction to service\<close>


text \<open>The small market, with one order recovered.\<close>

definition demo_recovered :: RecoveredOrder where
  "demo_recovered = \<lparr>ro_OrderID = ''r1'', ro_UserID = ''carol'', ro_Side = Ask, ro_Type = Limit,
     ro_Price = NewDecimal 10500 2, ro_StopPrice = NewDecimal 0 2, ro_RemainQty = NewDecimal 3 0,
     ro_DisplayQty = NewDecimal 0 0, ro_Flags = 0, ro_TIF = GTC, ro_ExpireAt = 0\<rparr>"

definition demo_options :: "Option list" where
  "demo_options = [WithNodePoolSize 4, WithLevelPoolSize 3, WithInitialOrders [demo_recovered]]"

lemma demo_engine:
  "\<exists>e. New_engine list_btree (\<lambda>n. replicate n CHR ''u'') demo_config demo_options = Some (Inr e) \<and>
     engine_settings e \<and> en_initialOrders e = [demo_recovered] \<and> en_cfg e = demo_config \<and> en_cmdBuffer e = 1024"
proof -
  have "market_ok demo_config" by (simp add: market_ok_def demo_config_def IsZero_def Zero_def NewDecimal_def)
  moreover have "mc_CircuitBreaker demo_config = None" by (simp add: demo_config_def)
  ultimately show ?thesis
    by (simp add: New_engine_def demo_config_valid demo_options_def default_options_def Let_def make_size_def
        WithNodePoolSize_def WithLevelPoolSize_def WithInitialOrders_def defaultCmdBuffer_def defaultEventBuffer_def
        engine_settings_def settings_ok_def newCommandProcessor_def ZeroFee_total)
qed

lemma demo_recoverable:
  assumes "p_cfg p = demo_config" and "known_ids p = {}"
  shows "recoverable B [demo_recovered] now p"
  using assms by (auto simp: recovered_form_def is_stop_order_def demo_recovered_def not_known price_fits_def Has_def
      FlagIceberg_def split: option.split)


subsection \<open>The loop\<close>


text \<open>A halt is accepted and served, the auction timer fires (which takes the halted market into its
  auction), a resume is accepted and waits.\<close>

definition demo_engine_at :: "Command list \<Rightarrow> (Decimal, nat) list_tree Processor \<Rightarrow> (Decimal, nat) list_tree Engine" where
  "demo_engine_at cmds p = \<lparr>en_processor = p, en_cfg = demo_config, en_cmdChan = cmds, en_cmdBuffer = 2,
     en_started = True, en_quit = False, en_initialOrders = []\<rparr>"

definition demo_loop :: "(Decimal, nat) list_tree Loop" where
  "demo_loop = startLoop 1 (demo_engine_at [] demo_processor)"

lemma demo_loop_sel: "lp_engine demo_loop = demo_engine_at [] demo_processor" "lp_openC demo_loop = Some 1"
  "lp_clearC demo_loop = Some 1000001" "\<not> lp_done demo_loop"
proof -
  have "armTimers 1 demo_processor = (Some 1, Some 1000001)"
    by (simp add: armTimers_def demo_processor_ok(3)) (simp add: demo_processor_def newCommandProcessor_def demo_config_def)
  then show "lp_engine demo_loop = demo_engine_at [] demo_processor" "lp_openC demo_loop = Some 1"
    "lp_clearC demo_loop = Some 1000001" "\<not> lp_done demo_loop"
    by (simp_all add: demo_loop_def startLoop_def demo_engine_at_def)
qed

lemma demo_loop_run:
  "\<exists>l'. loop_run list_btree demo_loop [demo_halt, demo_resume] [InCommand demo_halt 1, InAuctionOpen 2] l' \<and>
     en_cmdChan (lp_engine l') = [demo_resume]"
proof -
  let ?p = "processAdminHalt \<lparr>hm_MarketID = ''TEST-USD'', hm_Reason = ''test''\<rparr> 1 demo_processor"
  let ?l1 = "demo_loop\<lparr>lp_engine := demo_engine_at [demo_halt] demo_processor\<rparr>"
  let ?l2 = "demo_loop\<lparr>lp_engine := demo_engine_at [] ?p\<rparr>"
  let ?l3 = "demo_loop\<lparr>lp_engine := demo_engine_at [] (openAuction 2 ?p), lp_openC := None\<rparr>"
  let ?l4 = "demo_loop\<lparr>lp_openC := None, lp_engine := demo_engine_at [demo_resume] (openAuction 2 ?p)\<rparr>"
  have s1: "loop_step list_btree demo_loop [demo_halt] [] ?l1"
    by (rule accept) (simp add: Submit_def demo_loop_sel demo_engine_at_def)
  have "receive list_btree 1 (lp_engine ?l1) = Some (demo_engine_at [] ?p)"
    by (simp add: receive_def demo_engine_at_def demo_halt_def dispatch_def)
  then have s2: "loop_step list_btree ?l1 [] [InCommand demo_halt 1] ?l2"
    using command [of ?l1 demo_halt "[]" list_btree 1 "demo_engine_at [] ?p"] by (simp add: demo_loop_sel demo_engine_at_def)
  have "serve_input list_btree (InAuctionOpen 2) ?l2 = Some (demo_loop\<lparr>lp_engine := demo_engine_at [] (openAuction 2 ?p)\<rparr>)"
    by (simp add: serve_input_def demo_engine_at_def)
  then have s3: "loop_step list_btree ?l2 [] [InAuctionOpen 2] ?l3"
    using auction_open [of ?l2 2 list_btree] by (simp add: demo_loop_sel fired_def)
  have s4: "loop_step list_btree ?l3 [demo_resume] [] ?l4"
    using accept [of demo_resume ?l3 "demo_engine_at [demo_resume] (openAuction 2 ?p)" list_btree]
    by (simp add: Submit_def demo_engine_at_def)
  have "loop_run list_btree demo_loop [demo_halt, demo_resume] [InCommand demo_halt 1, InAuctionOpen 2] ?l4"
    using step [OF step [OF step [OF step [OF begun s1] s2] s3] s4] by simp
  then show ?thesis by (intro exI [of _ ?l4]) (simp add: demo_engine_at_def)
qed


text \<open>Claim C17: the auction timers.  In every execution of the loop of a processor, the auction opens at most once and is
  cleared at most once by a timer; only if the market has auctions, and not before the times
  of its configuration.\<close>

theorem auction_timers:
  assumes "loop_run B (startLoop now e) accepted served l'" and "sint now + 1000000 < 2 ^ 63"
  shows "length (openings served) \<le> 1 \<and> length (clearings served) \<le> 1 \<and>
     (\<forall>t\<in>set (openings served). \<exists>ac. mc_Auction (p_cfg (en_processor e)) = Some ac \<and>
        sint (ac_OpenTime ac - ac_PreOpenDuration ac) \<le> sint t) \<and>
     (\<forall>t\<in>set (clearings served). \<exists>ac. mc_Auction (p_cfg (en_processor e)) = Some ac \<and>
        sint (ac_OpenTime ac) \<le> sint t) \<and>
     (p_auctionBook (en_processor e) = None \<longrightarrow> openings served = [] \<and> clearings served = [])"
proof -
  obtain oc cc where arm: "armTimers now (en_processor e) = (oc, cc)" by fastforce
  have f: "fires oc (openings served) (lp_openC l')" "fires cc (clearings served) (lp_clearC l')"
    using loop_run_fires [OF assms(1)] by (simp_all add: startLoop_def arm)
  have later: "sint (now + 1000000) = sint now + 1000000"
    using sint_add [of now 1000000] assms(2) sint_lower [of now] by (simp add: in_i64_def)
  show ?thesis
  proof (cases "p_auctionBook (en_processor e) = None \<or> mc_Auction (p_cfg (en_processor e)) = None")
    case True
    then have "oc = None" "cc = None" using arm by (auto simp: armTimers_def split: option.splits)
    then show ?thesis using f by (auto simp: fires_def fired_def)
  next
    case False
    then obtain ab ac where a: "p_auctionBook (en_processor e) = Some ab" "mc_Auction (p_cfg (en_processor e)) = Some ac" by auto
    let ?o = "ac_OpenTime ac - ac_PreOpenDuration ac" and ?c = "ac_OpenTime ac"
    have "oc = Some (if sint now < sint ?o then ?o else now)" "cc = Some (if sint now < sint ?c then ?c else now + 1000000)"
      using arm by (simp_all add: armTimers_def a Let_def)
    then show ?thesis using f later by (auto simp: fires_def fired_def a split: if_split_asm)
  qed
qed

theorem auction_timers_witness:
  "\<exists>l'. loop_run list_btree (startLoop 1 (demo_engine_at [] demo_processor)) [demo_halt, demo_resume]
     [InCommand demo_halt 1, InAuctionOpen 2] l' \<and> length (openings [InCommand demo_halt 1, InAuctionOpen 2]) \<le> 1"
proof -
  obtain l' where l': "loop_run list_btree (startLoop 1 (demo_engine_at [] demo_processor)) [demo_halt, demo_resume]
     [InCommand demo_halt 1, InAuctionOpen 2] l'" using demo_loop_run unfolding demo_loop_def by blast
  have "sint (1 :: i64) + 1000000 < 2 ^ 63" by simp
  from auction_timers [OF l' this] show ?thesis using l' by blast
qed

end
