(* ===== verification/Divergences.thy ===== *)
theory Divergences
  imports Processor_Demo
begin

section \<open>Where code and documentation part\<close>

text \<open>
  Facts about the model, each of which contradicts what a comment or the README says of the
  code, or what the surrounding code means to do.  None of them is used elsewhere.
\<close>

text \<open>The README lets limit orders queue while a market is halted; they rest without regard to the
  other side, so that the book is crossed -- a bid at 101.00 above an ask at 100.00 -- once the market is open
  again, until some later order happens to match.\<close>

lemma resume_leaves_book_crossed:
  "map_option (\<lambda>p. (Current (p_state p), BBO list_btree (p_book p)))
    (run list_btree [InCommand (demo_limit ''b1'' ''bob'' Bid 10100 2 GTC) 1,
       InCommand (demo_limit ''a1'' ''alice'' Ask 10000 5 GTC) 2, InCommand demo_halt 3, InCommand demo_resume 4]
      demo_processor) =
   Some (Open, NewDecimal 10100 2, NewDecimal 10000 2, True, True)"
  by code_simp

text \<open>An immediate-or-cancel order given before the opening stays in the book.\<close>

lemma ioc_rests_before_opening:
  "map_option (\<lambda>p. b_index (p_book p) ''b1'' \<noteq> None)
    (run list_btree [InCommand (demo_limit ''b1'' ''bob'' Bid 10100 2 IOC) 1] demo_processor) = Some True"
  by code_simp

text \<open>The state to resume to is overwritten before the transition is checked: a second halt of a
  market that was halted in its auction makes it resume to continuous trading.\<close>

lemma second_halt_forgets:
  assumes "Current (p_state p) = State_Machine.Auction"
  shows "Current (p_state (processAdminResume r t (processAdminHalt h t p))) = State_Machine.Auction \<and>
    Current (p_state (processAdminResume r t (processAdminHalt h t (processAdminHalt h t p)))) = Open"
  using assms
  by (simp add: processAdminResume_def processAdminHalt_def haltMarket_def transitionTo_def Transition_def
      CanTransition_def emitEvent_def nextEventSeq_def emit_def Next_def Current_def Let_def split: prod.splits)

text \<open>The README permits cancels during the auction; an order that is in the auction book is not
  found.\<close>

lemma auction_orders_cannot_be_cancelled:
  assumes "p_auctionBook p = Some ab" and "Has_auction (co_OrderID cmd) ab"
    and "\<not> HasOrder (co_OrderID cmd) (p_book p)" and "\<not> Has_stop (co_OrderID cmd) (p_stopBook p)"
  shows "processCancelOrder B cmd now p =
    Some (rejectOrder (co_OrderID cmd) (co_UserID cmd) RejectOrderNotFound ''order not found'' now p)"
  using assms(3,4) by (simp add: processCancelOrder_def Cancel_def cancelStopOrder_def CancelStop_def HasOrder_def Has_stop_def
      split: option.splits)

text \<open>The check of the order value multiplies the mantissas in 64 bits: an order of value
  \<open>2 ^ 64\<close> passes a limit of one.\<close>

lemma order_value_wraps:
  "valueAboveMax (NewDecimal (2 ^ 32) 0) (NewDecimal (2 ^ 32) 0) (NewDecimal 1 0) = Some False"
  by code_simp

text \<open>The timer that opens the auction lifts a halt: the table of transitions lets a halted market
  go to its auction.\<close>

lemma timer_lifts_halt:
  assumes "Current (p_state p) = PreOpen"
  shows "Current (p_state (processAdminHalt h t p)) = Halted \<and>
    Current (p_state (openAuction t' (processAdminHalt h t p))) = State_Machine.Auction"
  using assms
  by (simp add: openAuction_def processAdminHalt_def haltMarket_def transitionTo_def Transition_def
      CanTransition_def emitEvent_def nextEventSeq_def emit_def Next_def Current_def Let_def split: prod.splits)

text \<open>The flat fee of a trade panics, inside the engine's goroutine, when its notional does not fit in 64 bits;
  a market without a bound on the quantity accepts both orders.\<close>

lemma flat_fee_panics:
  "FlatRate_Calculate (mc_FeeSchedule demo_config)
     (demo_fill ''a'' ''b'' Ask (NewDecimal (2 ^ 40) 2) (NewDecimal (2 ^ 40) 0)) = None"
proof -
  have "sint (2 ^ 40 :: i64) = 2 ^ 40" by simp
  then have "MulQty (NewDecimal (2 ^ 40) 2) (NewDecimal (2 ^ 40) 0) = None" by (subst MulQty_eq) simp_all
  then show ?thesis by (simp add: FlatRate_Calculate_def demo_fill_def)
qed

text \<open>\<open>Submit\<close> goes on accepting commands after \<open>Close\<close>, when nothing receives them any more.\<close>

lemma submit_after_close:
  assumes "Close e = Some (Inr e')" and "length (en_cmdChan e) < en_cmdBuffer e"
  shows "Submit cmd e' = Inr (e'\<lparr>en_cmdChan := en_cmdChan e @ [cmd]\<rparr>)"
  using assms by (auto simp: Close_def Submit_def split: if_split_asm)

end
