(* ===== verification/Multi_Engine.thy ===== *)
theory Multi_Engine
  imports Engine
begin

section \<open>Many markets (\<open>engine/multiengine.go\<close>)\<close>

text \<open>
  \<open>MultiEngine\<close> routes commands to the engine of their market.  The lock makes each operation
  atomic, so each is a function of the map of engines.
\<close>

datatype multi_error =
    ErrMarketNotFound | ErrMarketAlreadyExists
  | EngineError engine_error | ConfigError config_error

type_synonym 't MultiEngine = "MarketID \<rightharpoonup> 't Engine"

definition NewMultiEngine :: "'t MultiEngine" where
  "NewMultiEngine = Map.empty"

definition CreateMarket :: "'t btree_fns \<Rightarrow> (nat \<Rightarrow> string) \<Rightarrow> i64 \<Rightarrow> MarketConfig \<Rightarrow> Option list \<Rightarrow>
    't MultiEngine \<Rightarrow> (multi_error + 't MultiEngine) option" where
  "CreateMarket B newULID now cfg opts m =
     (if m (mc_MarketID cfg) \<noteq> None then Some (Inl ErrMarketAlreadyExists)
      else do {
        r \<leftarrow> New_engine B newULID cfg opts;
        case r of
          Inl err \<Rightarrow> Some (Inl (ConfigError err))
        | Inr e \<Rightarrow> do {
            r \<leftarrow> Start B now e;
            case r of
              Inl err \<Rightarrow> Some (Inl (EngineError err))
            | Inr e \<Rightarrow> Some (Inr (m(mc_MarketID cfg \<mapsto> e))) } })"

definition Submit_multi :: "Command \<Rightarrow> 't MultiEngine \<Rightarrow> multi_error + 't MultiEngine" where
  "Submit_multi cmd m =
     (case m (CommandMarketID cmd) of
        None \<Rightarrow> Inl ErrMarketNotFound
      | Some e \<Rightarrow>
          (case Submit cmd e of
             Inl err \<Rightarrow> Inl (EngineError err)
           | Inr e \<Rightarrow> Inr (m(CommandMarketID cmd \<mapsto> e))))"

definition Events_multi :: "MarketID \<Rightarrow> 't MultiEngine \<Rightarrow> multi_error + Event list" where
  "Events_multi marketID m =
     (case m marketID of None \<Rightarrow> Inl ErrMarketNotFound | Some e \<Rightarrow> Inr (Events_of e))"

definition Stats_multi :: "MarketID \<Rightarrow> 't MultiEngine \<Rightarrow> multi_error + EngineStats" where
  "Stats_multi marketID m =
     (case m marketID of None \<Rightarrow> Inl ErrMarketNotFound | Some e \<Rightarrow> Inr (Stats e))"

text \<open>\<open>AllEvents\<close> starts a goroutine for each market that forwards its channel to the merged one, which is
  closed when all are done: what comes out is some interleaving of the channels, here of all
  the events each engine sends.  \<open>ids\<close>: the keys of the map in the order the run visits them.\<close>

inductive merged :: "'a list list \<Rightarrow> 'a list \<Rightarrow> bool" where
  all_done: "\<forall>src\<in>set sources. src = [] \<Longrightarrow> merged sources []"
| forward: "k < length sources \<Longrightarrow> sources ! k = ev # rest \<Longrightarrow> merged (sources[k := rest]) out \<Longrightarrow>
    merged sources (ev # out)"

definition AllEvents :: "MarketID list \<Rightarrow> 't MultiEngine \<Rightarrow> Event list \<Rightarrow> bool" where
  "AllEvents ids m out = merged (map (\<lambda>marketID. Events_of (the (m marketID))) ids) out"

text \<open>The market is removed before its engine is closed.\<close>

definition CloseMarket :: "MarketID \<Rightarrow> 't MultiEngine \<Rightarrow> (multi_error option \<times> 't MultiEngine) option" where
  "CloseMarket marketID m =
     (case m marketID of
        None \<Rightarrow> Some (Some ErrMarketNotFound, m)
      | Some e \<Rightarrow> do {
          let m = m(marketID := None);
          r \<leftarrow> Close e;
          case r of Inl err \<Rightarrow> Some (Some (EngineError err), m) | Inr e \<Rightarrow> Some (None, m) })"

definition Snapshot_multi :: "'t btree_fns \<Rightarrow> MarketID \<Rightarrow> int \<Rightarrow> i64 \<Rightarrow> 't MultiEngine \<Rightarrow>
    (multi_error + BookSnapshot) option" where
  "Snapshot_multi B marketID levels now m =
     (case m marketID of
        None \<Rightarrow> Some (Inl ErrMarketNotFound)
      | Some e \<Rightarrow> do { s \<leftarrow> Snapshot_engine B levels now e; Some (Inr s) })"

definition BBO_multi :: "'t btree_fns \<Rightarrow> MarketID \<Rightarrow> 't MultiEngine \<Rightarrow>
    multi_error + (Decimal \<times> Decimal \<times> bool \<times> bool)" where
  "BBO_multi B marketID m =
     (case m marketID of None \<Rightarrow> Inl ErrMarketNotFound | Some e \<Rightarrow> Inr (BBO_engine B e))"

text \<open>\<open>ids\<close>: the keys of the map in the order the run visits them.  The first error ends the loop.\<close>

fun Close_multi :: "MarketID list \<Rightarrow> 't MultiEngine \<Rightarrow> (multi_error option \<times> 't MultiEngine) option" where
  "Close_multi [] m = Some (None, m)"
| "Close_multi (marketID # ids) m = do {
     (err, m) \<leftarrow> CloseMarket marketID m;
     if err \<noteq> None then Some (err, m) else Close_multi ids m }"

end
