(* ===== verification/Multi_Claims.thy ===== *)
theory Multi_Claims
  imports Multi_Engine Engine_Claims
begin

section \<open>Many markets: the properties\<close>

text \<open>
  A \<open>MultiEngine\<close> in use: its callers create, close and submit to markets, the loop of each engine takes
  a turn or one of its timers fires, in any order.  Every sequence of these actions keeps each
  engine under its own id, started and open; and what happens in one market is
  independent of all the others.
\<close>

datatype action =
    Create MarketConfig "Option list" i64
  | Place Command
  | Turn MarketID i64
  | Timer MarketID Input
  | Shut MarketID

fun market_of :: "action \<Rightarrow> MarketID" where
  "market_of (Create cfg opts now) = mc_MarketID cfg"
| "market_of (Place cmd) = CommandMarketID cmd"
| "market_of (Turn marketID now) = marketID"
| "market_of (Timer marketID i) = marketID"
| "market_of (Shut marketID) = marketID"

definition on_engine :: "('t Engine \<Rightarrow> 't Engine option) \<Rightarrow> MarketID \<Rightarrow> 't MultiEngine \<Rightarrow> 't MultiEngine option" where
  "on_engine f marketID m =
     (case m marketID of None \<Rightarrow> Some m | Some e \<Rightarrow> map_option (\<lambda>e. m(marketID \<mapsto> e)) (f e))"

fun is_timer :: "Input \<Rightarrow> bool" where
  "is_timer (InCommand cmd now) = False"
| "is_timer _ = True"

definition fire_timer :: "'t btree_fns \<Rightarrow> Input \<Rightarrow> 't Engine \<Rightarrow> 't Engine option" where
  "fire_timer B i e =
     (if is_timer i then map_option (\<lambda>p. e\<lparr>en_processor := p\<rparr>) (serve B i (en_processor e)) else Some e)"

fun act :: "'t btree_fns \<Rightarrow> (nat \<Rightarrow> string) \<Rightarrow> action \<Rightarrow> 't MultiEngine \<Rightarrow> 't MultiEngine option" where
  "act B u (Create cfg opts now) m =
     map_option (\<lambda>r. case r of Inl err \<Rightarrow> m | Inr m \<Rightarrow> m) (CreateMarket B u now cfg opts m)"
| "act B u (Place cmd) m = Some (case Submit_multi cmd m of Inl err \<Rightarrow> m | Inr m \<Rightarrow> m)"
| "act B u (Turn marketID now) m = on_engine (receive B now) marketID m"
| "act B u (Timer marketID i) m = on_engine (fire_timer B i) marketID m"
| "act B u (Shut marketID) m = map_option snd (CloseMarket marketID m)"

fun acts :: "'t btree_fns \<Rightarrow> (nat \<Rightarrow> string) \<Rightarrow> action list \<Rightarrow> 't MultiEngine \<Rightarrow> 't MultiEngine option" where
  "acts B u [] m = Some m"
| "acts B u (a # as) m = Option.bind (act B u a m) (acts B u as)"

subsection \<open>Isolation\<close>

text \<open>The engine of a new market does not depend on the others.\<close>

definition new_market :: "'t btree_fns \<Rightarrow> (nat \<Rightarrow> string) \<Rightarrow> MarketConfig \<Rightarrow> Option list \<Rightarrow> i64 \<Rightarrow>
    (multi_error + 't Engine) option" where
  "new_market B u cfg opts now = do {
     r \<leftarrow> New_engine B u cfg opts;
     case r of Inl err \<Rightarrow> Some (Inl (ConfigError err))
     | Inr e \<Rightarrow> map_option (map_sum EngineError (\<lambda>e. e)) (Start B now e) }"

lemma CreateMarket_new:
  "CreateMarket B u now cfg opts m =
     (if m (mc_MarketID cfg) \<noteq> None then Some (Inl ErrMarketAlreadyExists)
      else map_option (map_sum (\<lambda>err. err) (\<lambda>e. m(mc_MarketID cfg \<mapsto> e))) (new_market B u cfg opts now))"
proof (cases "New_engine B u cfg opts")
  case (Some r)
  show ?thesis
  proof (cases r)
    case (Inr e)
    show ?thesis
    proof (cases "Start B now e")
      case (Some r2)
      then show ?thesis using \<open>New_engine B u cfg opts = Some r\<close> Inr by (cases r2) (simp_all add: CreateMarket_def new_market_def)
    qed (simp add: CreateMarket_def new_market_def Some Inr)
  qed (simp add: CreateMarket_def new_market_def Some)
qed (simp add: CreateMarket_def new_market_def)

lemma act_other:
  assumes "act B u a m = Some m'" and "marketID \<noteq> market_of a"
  shows "m' marketID = m marketID"
proof (cases a)
  case (Create cfg opts now)
  then show ?thesis using assms
    by (cases "new_market B u cfg opts now"; cases "the (new_market B u cfg opts now)")
      (auto simp: CreateMarket_new split: if_split_asm)
next
  case (Place cmd)
  then show ?thesis using assms by (auto simp: Submit_multi_def split: option.split_asm sum.split_asm)
qed (use assms in \<open>auto simp: on_engine_def CloseMarket_def Let_def elim!: bindE split: option.split_asm sum.split_asm\<close>)

lemma act_same:
  assumes "m (market_of a) = n (market_of a)" and "act B u a m = Some m'"
  shows "\<exists>n'. act B u a n = Some n' \<and> n' (market_of a) = m' (market_of a)"
proof (cases a)
  case (Create cfg opts now)
  show ?thesis
  proof (cases "n (mc_MarketID cfg)")
    case None
    with assms Create obtain r where r: "new_market B u cfg opts now = Some r" by (auto simp: CreateMarket_new)
    then show ?thesis using None assms Create by (cases r) (auto simp: CreateMarket_new)
  next
    case (Some e)
    then show ?thesis using assms Create by (auto simp: CreateMarket_new)
  qed
next
  case (Place cmd)
  then show ?thesis using assms by (auto simp: Submit_multi_def split: option.split sum.split)
next
  case (Turn marketID now)
  then show ?thesis using assms by (auto simp: on_engine_def split: option.splits)
next
  case (Timer marketID i)
  then show ?thesis using assms by (auto simp: on_engine_def split: option.splits)
next
  case (Shut marketID)
  show ?thesis
  proof (cases "n marketID")
    case None
    then show ?thesis using assms Shut by (simp add: CloseMarket_def)
  next
    case (Some e)
    with assms Shut obtain r where "Close e = Some r" by (auto simp: CloseMarket_def Let_def elim!: bindE)
    then show ?thesis using Some assms Shut by (cases r) (auto simp: CloseMarket_def)
  qed
qed

text \<open>Claim C18: markets do not influence each other.  Leaving out all actions of the other markets, the
  run still goes through and ends with the same engine for this one -- books, stops, positions,
  queue and events.\<close>

theorem markets_isolated:
  assumes "acts B u as m = Some m'"
  shows "\<exists>n'. acts B u (filter (\<lambda>a. market_of a = marketID) as) m = Some n' \<and> n' marketID = m' marketID"
proof -
  have "\<exists>n'. acts B u (filter (\<lambda>a. market_of a = marketID) as) n = Some n' \<and> n' marketID = m' marketID"
    if "acts B u as m = Some m'" "n marketID = m marketID" for n m
    using that
  proof (induction as arbitrary: n m)
    case (Cons a as)
    then obtain m1 where m1: "act B u a m = Some m1" "acts B u as m1 = Some m'" by (auto elim!: bindE)
    show ?case
    proof (cases "market_of a = marketID")
      case True
      then obtain n1 where "act B u a n = Some n1" "n1 marketID = m1 marketID"
        using act_same [of m a n B u m1] m1(1) Cons.prems(2) by auto
      then show ?thesis using True Cons.IH [OF m1(2)] by simp
    next
      case False
      then have "n marketID = m1 marketID" using act_other [OF m1(1), of marketID] Cons.prems(2) by simp
      then show ?thesis using False Cons.IH [OF m1(2)] by simp
    qed
  qed simp
  then show ?thesis using assms by blast
qed

text \<open>Two markets, of which the second is closed again: the first is what it would be alone.\<close>

definition small_pools :: "Option list" where
  "small_pools = [WithNodePoolSize 4, WithLevelPoolSize 3]"

definition second_config :: MarketConfig where
  "second_config = demo_config\<lparr>mc_MarketID := ''OTHER''\<rparr>"

lemma second_config_valid: "Validate second_config = Some (Inr second_config)"
  by (simp add: second_config_def Validate_def demo_config_def Has_feature_def FeatureAuctions_def IsPositive_def
      IsZero_def IsNegative_def)

lemma small_market:
  assumes "Validate cfg = Some (Inr cfg)"
  shows "\<exists>e. new_market B u cfg small_pools now = Some (Inr e) \<and> en_cmdChan e = [] \<and> en_cmdBuffer e = 1024 \<and>
     en_started e \<and> \<not> en_quit e"
  using assms
  by (simp add: new_market_def New_engine_def small_pools_def default_options_def Let_def make_size_def Start_def
      WithNodePoolSize_def WithLevelPoolSize_def defaultCmdBuffer_def defaultEventBuffer_def)

definition two_markets :: "action list" where
  "two_markets = [Create demo_config small_pools 0, Create second_config small_pools 1, Place demo_halt, Shut ''OTHER'']"

lemma two_markets_run:
  "\<exists>m e. acts B u two_markets Map.empty = Some m \<and> dom m = {''TEST-USD''} \<and> m ''TEST-USD'' = Some e \<and>
     en_cmdChan e = [demo_halt]"
proof -
  obtain e1 e2 where e: "new_market B u demo_config small_pools 0 = Some (Inr e1)" "en_cmdChan e1 = []"
    "en_cmdBuffer e1 = 1024" "en_started e1"
    "new_market B u second_config small_pools 1 = Some (Inr e2)" "en_started e2" "\<not> en_quit e2"
    using small_market [OF demo_config_valid] small_market [OF second_config_valid] by metis
  have "mc_MarketID demo_config = ''TEST-USD''" "mc_MarketID second_config = ''OTHER''"
    by (simp_all add: demo_config_def second_config_def)
  then show ?thesis using e
    by (auto simp: two_markets_def CreateMarket_new Submit_multi_def Submit_def CloseMarket_def Close_def demo_halt_def)
qed

theorem markets_isolated_witness:
  "\<exists>m n. acts list_btree (\<lambda>n. replicate n CHR ''u'') two_markets Map.empty = Some m \<and>
     acts list_btree (\<lambda>n. replicate n CHR ''u'') [Create demo_config small_pools 0, Place demo_halt] Map.empty = Some n \<and>
     m ''TEST-USD'' = n ''TEST-USD''"
proof -
  obtain m where m: "acts list_btree (\<lambda>n. replicate n CHR ''u'') two_markets Map.empty = Some m" using two_markets_run by blast
  have "filter (\<lambda>a. market_of a = ''TEST-USD'') two_markets = [Create demo_config small_pools 0, Place demo_halt]"
    by (simp add: two_markets_def demo_config_def second_config_def demo_halt_def)
  then show ?thesis using markets_isolated [OF m, of "''TEST-USD''"] m by metis
qed

subsection \<open>What every sequence of actions keeps\<close>

text \<open>Each engine is stored under its id, started and not closed, and all its events carry that id.\<close>

definition engine_in :: "MarketID \<Rightarrow> 't Engine \<Rightarrow> bool" where
  "engine_in marketID e \<longleftrightarrow> mc_MarketID (p_cfg (en_processor e)) = marketID \<and> en_started e \<and> \<not> en_quit e \<and>
     (\<forall>ev\<in>set (Events_of e). Event_MarketID ev = marketID)"

definition multi_ok :: "'t MultiEngine \<Rightarrow> bool" where
  "multi_ok m \<longleftrightarrow> (\<forall>marketID e. m marketID = Some e \<longrightarrow> engine_in marketID e)"

lemma serve_market:
  assumes "serve B i p = Some p'" and "\<forall>ev\<in>set (p_events p). Event_MarketID ev = mc_MarketID (p_cfg p)"
  shows "p_cfg p' = p_cfg p \<and> (\<forall>ev\<in>set (p_events p'). Event_MarketID ev = mc_MarketID (p_cfg p))"
proof -
  obtain n where n: "logs (replicate n (input_time i)) p p'" using serve_logs [OF assms(1)] by (auto simp: logs_at_def)
  have "run B [i] p = Some p'" using assms(1) by simp
  from event_log_ok [OF this] obtain new where new: "p_events p' = p_events p @ new"
    "\<forall>k<length new. Event_MarketID (new ! k) = mc_MarketID (p_cfg p)" by blast
  have "\<forall>ev\<in>set new. Event_MarketID ev = mc_MarketID (p_cfg p)" using new(2) by (auto simp: in_set_conv_nth)
  moreover have "p_cfg p' = p_cfg p" using n unfolding logs_def by (rule conjunct1)
  ultimately show ?thesis using new(1) assms(2) by auto
qed

lemma Validate_market:
  assumes "Validate cfg = Some (Inr cfg')"
  shows "mc_MarketID cfg' = mc_MarketID cfg"
proof -
  define c1 where "c1 = (if mc_MaxCascadeDepth cfg = 0 then cfg\<lparr>mc_MaxCascadeDepth := 10\<rparr> else cfg)"
  define c2 where "c2 = (if mc_InitialOrderSeq c1 = 0 then c1\<lparr>mc_InitialOrderSeq := 1\<rparr> else c1)"
  define c3 where "c3 = (if mc_InitialEventSeq c2 = 0 then c2\<lparr>mc_InitialEventSeq := 1\<rparr> else c2)"
  have "cfg' = c3" using assms unfolding Validate_def Let_def c1_def [symmetric] c2_def [symmetric] c3_def [symmetric]
    by (auto elim!: bindE split: if_split_asm)
  then show ?thesis by (simp add: c3_def c2_def c1_def)
qed

lemma New_engine_market:
  assumes "New_engine B u cfg opts = Some (Inr e)"
  shows "mc_MarketID (p_cfg (en_processor e)) = mc_MarketID cfg \<and> \<not> en_quit e \<and> \<not> en_started e \<and>
     p_events (en_processor e) = []"
proof -
  obtain r where r: "Validate cfg = Some r" using assms by (auto simp: New_engine_def elim!: bindE)
  then obtain cfg' where c: "Validate cfg = Some (Inr cfg')" using assms by (cases r) (simp_all add: New_engine_def)
  show ?thesis using assms Validate_market [OF c]
    by (auto simp: New_engine_def c Let_def newCommandProcessor_def elim!: bindE)
qed

lemma new_market_ok:
  assumes "new_market B u cfg opts now = Some (Inr e)"
  shows "mc_MarketID (p_cfg (en_processor e)) = mc_MarketID cfg \<and> en_started e \<and> \<not> en_quit e \<and> Events_of e = []"
proof -
  obtain r where r: "New_engine B u cfg opts = Some r" using assms by (auto simp: new_market_def elim!: bindE)
  then obtain e0 where e0: "New_engine B u cfg opts = Some (Inr e0)" using assms by (cases r) (simp_all add: new_market_def)
  note new = New_engine_market [OF e0]
  obtain s where s: "Start B now e0 = Some s" using assms e0 by (auto simp: new_market_def)
  then have "s = Inr e" using assms e0 by (cases s) (simp_all add: new_market_def)
  then obtain p where "seedInitialOrders B (en_initialOrders e0) now (en_processor e0) = Some p"
    "e = e0\<lparr>en_started := True, en_processor := p\<rparr>" using s new by (auto simp: Start_def elim!: bindE)
  then show ?thesis using new seed_events [of B "en_initialOrders e0" now "en_processor e0" p] by (simp add: Events_of_def)
qed

lemma multi_okD: "multi_ok m \<Longrightarrow> m marketID = Some e \<Longrightarrow> engine_in marketID e"
  by (simp add: multi_ok_def)

lemma multi_ok_update: "multi_ok m \<Longrightarrow> engine_in marketID e \<Longrightarrow> multi_ok (m(marketID \<mapsto> e))"
  by (simp add: multi_ok_def)

text \<open>Each engine operation keeps an engine in its market.\<close>

lemma serve_in:
  assumes "engine_in marketID e" and "serve B i (en_processor e) = Some p"
  shows "engine_in marketID (e\<lparr>en_processor := p\<rparr>)"
  using serve_market [OF assms(2)] assms(1) by (simp add: engine_in_def Events_of_def)

lemma queue_in [simp]: "engine_in marketID (e\<lparr>en_cmdChan := cmds\<rparr>) = engine_in marketID e"
  by (simp add: engine_in_def Events_of_def)

lemma Submit_in:
  assumes "engine_in marketID e" and "Submit cmd e = Inr e'"
  shows "engine_in marketID e'"
  using assms by (auto simp: Submit_def split: if_splits)

lemma receive_in:
  assumes "engine_in marketID e" and "receive B now e = Some e'"
  shows "engine_in marketID e'"
proof (cases "en_cmdChan e")
  case (Cons cmd cmds)
  then obtain p where p: "dispatch B cmd now (en_processor e) = Some p" "e' = e\<lparr>en_cmdChan := cmds, en_processor := p\<rparr>"
    using assms(2) by (auto simp: receive_def elim!: bindE)
  have "engine_in marketID ((e\<lparr>en_cmdChan := cmds\<rparr>)\<lparr>en_processor := p\<rparr>)"
    using assms(1) p(1) by (intro serve_in [where B = B and i = "InCommand cmd now"]) simp_all
  then show ?thesis by (simp add: p(2))
qed (use assms in \<open>simp add: receive_def\<close>)

lemma fire_timer_in:
  assumes "engine_in marketID e" and "fire_timer B i e = Some e'"
  shows "engine_in marketID e'"
  using assms serve_in by (auto simp: fire_timer_def split: if_splits)

lemma on_engine_ok:
  assumes "multi_ok m" and "on_engine f marketID m = Some m'"
    and "\<And>e e'. engine_in marketID e \<Longrightarrow> f e = Some e' \<Longrightarrow> engine_in marketID e'"
  shows "multi_ok m'"
proof (cases "m marketID")
  case (Some e)
  then obtain e' where "f e = Some e'" "m' = m(marketID \<mapsto> e')" using assms(2) by (auto simp: on_engine_def)
  then show ?thesis using assms(3) [OF multi_okD [OF assms(1) Some]] multi_ok_update [OF assms(1)] by blast
qed (use assms(1,2) in \<open>simp add: on_engine_def\<close>)

lemma CreateMarket_multi_ok:
  assumes "multi_ok m" and "CreateMarket B u now cfg opts m = Some (Inr m')"
  shows "multi_ok m'"
proof -
  have none: "m (mc_MarketID cfg) = None" using assms(2) by (auto simp: CreateMarket_new split: if_split_asm)
  with assms(2) obtain r where r: "new_market B u cfg opts now = Some r" by (auto simp: CreateMarket_new)
  then obtain e where e: "new_market B u cfg opts now = Some (Inr e)" "m' = m(mc_MarketID cfg \<mapsto> e)"
    using assms(2) none by (cases r) (auto simp: CreateMarket_new)
  show ?thesis using new_market_ok [OF e(1)] assms(1) e(2) by (simp add: multi_ok_update engine_in_def)
qed

lemma Submit_multi_ok:
  assumes "multi_ok m" and "Submit_multi cmd m = Inr m'"
  shows "multi_ok m'"
proof (cases "m (CommandMarketID cmd)")
  case (Some e)
  then obtain e' where "Submit cmd e = Inr e'" "m' = m(CommandMarketID cmd \<mapsto> e')"
    using assms(2) by (auto simp: Submit_multi_def split: sum.split_asm)
  then show ?thesis using Submit_in [OF multi_okD [OF assms(1) Some]] multi_ok_update [OF assms(1)] by blast
qed (use assms in \<open>simp add: Submit_multi_def\<close>)

lemma CloseMarket_multi_ok:
  assumes "multi_ok m" and "CloseMarket marketID m = Some (err, m')"
  shows "multi_ok m'"
proof (cases "m marketID")
  case (Some e)
  then have "m' = m(marketID := None)"
    using assms(2) multi_okD [OF assms(1) Some] by (simp add: CloseMarket_def Close_def engine_in_def)
  then show ?thesis using assms(1) by (simp add: multi_ok_def)
qed (use assms in \<open>simp add: CloseMarket_def\<close>)

lemma act_ok:
  assumes ok: "multi_ok m" and a: "act B u a m = Some m'"
  shows "multi_ok m'"
proof (cases a)
  case (Create cfg opts now)
  then obtain r where "CreateMarket B u now cfg opts m = Some r" "m' = (case r of Inl err \<Rightarrow> m | Inr m \<Rightarrow> m)" using a by auto
  then show ?thesis using CreateMarket_multi_ok ok by (auto split: sum.splits)
next
  case (Place cmd)
  then show ?thesis using a ok Submit_multi_ok by (auto split: sum.splits)
next
  case (Turn marketID now)
  then show ?thesis using a on_engine_ok [OF ok _ receive_in] by simp
next
  case (Timer marketID i)
  then show ?thesis using a on_engine_ok [OF ok _ fire_timer_in] by simp
next
  case (Shut marketID)
  then show ?thesis using a CloseMarket_multi_ok [OF ok] by auto
qed

lemma acts_ok: "multi_ok m \<Longrightarrow> acts B u as m = Some m' \<Longrightarrow> multi_ok m'"
proof (induction as arbitrary: m)
  case (Cons a as)
  then obtain m1 where "act B u a m = Some m1" "acts B u as m1 = Some m'" by (auto elim!: bindE)
  then show ?case using act_ok [OF Cons.prems(1)] Cons.IH by blast
qed simp

text \<open>So closing everything succeeds in whatever order the map is visited, and leaves no market.\<close>

lemma Close_multi_ok:
  "multi_ok m \<Longrightarrow> distinct ids \<Longrightarrow> set ids = dom m \<Longrightarrow> Close_multi ids m = Some (None, Map.empty)"
proof (induction ids arbitrary: m)
  case Nil
  then have "m = Map.empty" by (metis dom_eq_empty_conv list.set(1))
  then show ?case by simp
next
  case (Cons marketID ids)
  then obtain e where e: "m marketID = Some e" by auto
  have "CloseMarket marketID m = Some (None, m(marketID := None))"
    using multi_okD [OF Cons.prems(1) e] e by (simp add: CloseMarket_def Close_def engine_in_def)
  moreover have rest: "multi_ok (m(marketID := None))" "distinct ids" "set ids = dom (m(marketID := None))"
    using Cons.prems by (auto simp: multi_ok_def)
  ultimately show ?case using Cons.IH [OF rest] by (simp add: fun_upd_def)
qed

subsection \<open>The merged channel\<close>

text \<open>If each source has a tag of its own, the elements of a tag come out in the order they went in.\<close>

lemma merged_filter:
  "merged sources out \<Longrightarrow> length tags = length sources \<Longrightarrow> distinct tags \<Longrightarrow>
   (\<And>k ev. k < length sources \<Longrightarrow> ev \<in> set (sources ! k) \<Longrightarrow> f ev = tags ! k) \<Longrightarrow>
   k < length sources \<Longrightarrow> filter (\<lambda>ev. f ev = tags ! k) out = sources ! k"
proof (induction rule: merged.induct)
  case (all_done sources)
  then show ?case by (metis filter.simps(1) nth_mem)
next
  case (forward j sources ev rest out)
  have "f e = tags ! i" if "i < length (sources[j := rest])" "e \<in> set (sources[j := rest] ! i)" for i e
    using that forward.prems(3) [of i e] forward.hyps(1,2) by (cases "i = j") auto
  then have IH: "filter (\<lambda>ev. f ev = tags ! k) out = sources[j := rest] ! k"
    using forward.IH forward.prems by simp
  have ev: "f ev = tags ! j" using forward.prems(3) [of j ev] forward.hyps by simp
  show ?case
  proof (cases "k = j")
    case True
    then show ?thesis using IH ev forward.hyps by simp
  next
    case False
    then have "f ev \<noteq> tags ! k" using ev forward.prems(1,2,4) forward.hyps(1) by (simp add: nth_eq_iff_index_eq)
    then show ?thesis using IH False by simp
  qed
qed

text \<open>Claim C19: the merged channel keeps every market in order.  After any sequence of actions, what
  \<open>AllEvents\<close> delivers contains for each market exactly the events of its engine, in the order it
  sent them, however the goroutines are scheduled.\<close>

theorem AllEvents_in_order:
  assumes "acts B u as NewMultiEngine = Some m" and "distinct ids" and "set ids = dom m"
    and "AllEvents ids m out" and "m marketID = Some e"
  shows "filter (\<lambda>ev. Event_MarketID ev = marketID) out = Events_of e"
proof -
  have "multi_ok m" using acts_ok [OF _ assms(1)] by (simp add: multi_ok_def NewMultiEngine_def)
  note ok = multi_okD [OF this, unfolded engine_in_def]
  obtain k where k: "k < length ids" "ids ! k = marketID"
    using assms(3,5) by (metis domI in_set_conv_nth)
  let ?srcs = "map (\<lambda>marketID. Events_of (the (m marketID))) ids"
  have tag: "Event_MarketID ev = ids ! j" if "j < length ?srcs" "ev \<in> set (?srcs ! j)" for j ev
  proof -
    have "ids ! j \<in> dom m" using that(1) assms(3) nth_mem [of j ids] by simp
    then obtain e' where "m (ids ! j) = Some e'" by blast
    then show ?thesis using ok [of "ids ! j" e'] that by simp
  qed
  have "length ids = length ?srcs" "k < length ?srcs" using k(1) by simp_all
  then have "filter (\<lambda>ev. Event_MarketID ev = ids ! k) out = ?srcs ! k"
    by (intro merged_filter [where f = Event_MarketID and tags = ids and sources = ?srcs and out = out]
        assms(2) assms(4) [unfolded AllEvents_def] tag) assumption+
  then show ?thesis using k assms(5) by simp
qed

text \<open>The first market has served its halt.\<close>

lemma merged_one: "merged [xs] xs"
  by (induction xs) (auto intro: all_done forward [of 0])

theorem AllEvents_in_order_witness:
  "\<exists>m e out. acts list_btree (\<lambda>n. replicate n CHR ''u'') (two_markets @ [Turn ''TEST-USD'' 5]) NewMultiEngine = Some m \<and>
     AllEvents [''TEST-USD''] m out \<and> m ''TEST-USD'' = Some e \<and>
     filter (\<lambda>ev. Event_MarketID ev = ''TEST-USD'') out = Events_of e"
proof -
  let ?u = "\<lambda>n. replicate n CHR ''u''"
  obtain m e where m: "acts list_btree ?u two_markets Map.empty = Some m" "dom m = {''TEST-USD''}"
    "m ''TEST-USD'' = Some e" "en_cmdChan e = [demo_halt]" using two_markets_run by metis
  have app: "acts list_btree ?u (as @ bs) n = Option.bind (acts list_btree ?u as n) (acts list_btree ?u bs)" for as bs n
    by (induction as arbitrary: n) (simp_all split: bind_split)
  obtain e' where e': "receive list_btree 5 e = Some e'" by (simp add: receive_def m(4) demo_halt_def dispatch_def)
  let ?m = "m(''TEST-USD'' \<mapsto> e')"
  have run: "acts list_btree ?u (two_markets @ [Turn ''TEST-USD'' 5]) NewMultiEngine = Some ?m"
    using m(1,3) e' by (simp add: app NewMultiEngine_def on_engine_def)
  have all: "AllEvents [''TEST-USD''] ?m (Events_of e')" by (simp add: AllEvents_def merged_one)
  show ?thesis using AllEvents_in_order [OF run _ _ all, of "''TEST-USD''" e'] run all m(2)
    by (intro exI [of _ ?m] exI [of _ e'] exI [of _ "Events_of e'"]) simp
qed

end
