(* ===== verification/Json_Text.thy ===== *)
theory Json_Text
  imports Market_Config
begin

section \<open>The JSON codecs (\<open>types/decimal.go\<close>, \<open>config/market.go\<close>)\<close>

text \<open>
  \<open>Decimal\<close> and \<open>HaltType\<close> travel as JSON strings.  Of \<open>encoding/json\<close> the code uses two functions
  on strings: \<open>Marshal\<close> of a text of ASCII characters, and \<open>Unmarshal\<close> into a string variable, which takes a string
  literal, leaves the variable empty on \<open>null\<close>, and fails on every other input.  A byte above
  the ASCII range is kept as it is (Go replaces ill-formed UTF-8, which neither codec accepts afterwards).
\<close>

subsection \<open>String literals\<close>

definition hex_digit :: "nat \<Rightarrow> char" where
  "hex_digit d = (if d < 10 then char_of (48 + d) else char_of (87 + d))"

definition hex_val :: "char \<Rightarrow> nat option" where
  "hex_val c =
     (let n = of_char c in
      if 48 \<le> n \<and> n \<le> 57 then Some (n - 48) else if 97 \<le> n \<and> n \<le> 102 then Some (n - 87)
      else if 65 \<le> n \<and> n \<le> 70 then Some (n - 55) else None)"

text \<open>\<open>getu4\<close>: the value of the four digits of a \<open>u\<close> escape, and what follows.\<close>

fun hex4 :: "string \<Rightarrow> (nat \<times> string) option" where
  "hex4 (a # b # c # d # cs) =
     (case (hex_val a, hex_val b, hex_val c, hex_val d) of
        (Some i, Some j, Some k, Some l) \<Rightarrow> Some (((i * 16 + j) * 16 + k) * 16 + l, cs)
      | _ \<Rightarrow> None)"
| "hex4 _ = None"

lemma hex4_shorter: "hex4 s = Some (n, t) \<Longrightarrow> length t < length s"
  by (cases s rule: hex4.cases) (auto split: option.splits)

definition utf8 :: "nat \<Rightarrow> string" where
  "utf8 r =
     (if r < 0x80 then [char_of r]
      else if r < 0x800 then [char_of (0xC0 + r div 64), char_of (0x80 + r mod 64)]
      else if r < 0x10000 then
        [char_of (0xE0 + r div 4096), char_of (0x80 + r div 64 mod 64), char_of (0x80 + r mod 64)]
      else [char_of (0xF0 + r div 262144), char_of (0x80 + r div 4096 mod 64),
            char_of (0x80 + r div 64 mod 64), char_of (0x80 + r mod 64)])"

definition escaped :: "char \<Rightarrow> char option" where
  "escaped c =
     (if c = CHR 0x22 \<or> c = CHR 0x5C \<or> c = CHR 0x2F then Some c
      else if c = CHR ''b'' then Some (CHR 0x08) else if c = CHR ''f'' then Some (CHR 0x0C)
      else if c = CHR ''n'' then Some (CHR 0x0A) else if c = CHR ''r'' then Some (CHR 0x0D)
      else if c = CHR ''t'' then Some (CHR 0x09) else None)"

text \<open>The code points of a \<open>u\<close> escape: two escapes that form a surrogate pair are one
  character, any other surrogate is the replacement character.\<close>

definition escape_rune :: "nat \<Rightarrow> string \<Rightarrow> nat \<times> string" where
  "escape_rune r cs =
     (if r < 0xD800 \<or> 0xDFFF < r then (r, cs)
      else
        case (case cs of a # b # ds \<Rightarrow> if a = CHR 0x5C \<and> b = CHR ''u'' then hex4 ds else None
              | _ \<Rightarrow> None) of
          Some (r2, rest) \<Rightarrow>
            if r < 0xDC00 \<and> 0xDC00 \<le> r2 \<and> r2 < 0xE000
            then ((r - 0xD800) * 1024 + (r2 - 0xDC00) + 0x10000, rest) else (0xFFFD, cs)
        | None \<Rightarrow> (0xFFFD, cs))"

lemma escape_rune_shorter: "escape_rune r cs = (r', t) \<Longrightarrow> length t \<le> length cs"
  by (auto simp: escape_rune_def split: if_split_asm option.split_asm list.split_asm dest!: hex4_shorter)

text \<open>From behind the opening quote: the text and what follows the closing quote.\<close>

function unquote :: "string \<Rightarrow> (string \<times> string) option" where
  "unquote [] = None"
| "unquote (c # cs) =
     (if c = CHR 0x22 then Some ([], cs)
      else if c = CHR 0x5C then
        (case cs of
           [] \<Rightarrow> None
         | e # cs' \<Rightarrow>
             if e = CHR ''u'' then
               (case hex4 cs' of
                  None \<Rightarrow> None
                | Some (r, rest) \<Rightarrow>
                    (case escape_rune r rest of
                       (r, rest) \<Rightarrow> map_option (\<lambda>(s, t). (utf8 r @ s, t)) (unquote rest)))
             else
               (case escaped e of
                  None \<Rightarrow> None
                | Some x \<Rightarrow> map_option (\<lambda>(s, t). (x # s, t)) (unquote cs')))
      else if (of_char c :: nat) < 0x20 then None
      else map_option (\<lambda>(s, t). (c # s, t)) (unquote cs))"
  by pat_completeness auto

termination
  by (relation "measure length")
    (auto dest!: hex4_shorter escape_rune_shorter [OF sym])

definition is_space :: "char \<Rightarrow> bool" where
  "is_space c \<longleftrightarrow> c = CHR 0x20 \<or> c = CHR 0x09 \<or> c = CHR 0x0D \<or> c = CHR 0x0A"

definition Unmarshal_string :: "string \<Rightarrow> string option" where
  "Unmarshal_string b =
     (let b = dropWhile is_space b in
      if take 4 b = ''null'' \<and> list_all is_space (drop 4 b) then Some []
      else
        case b of
          [] \<Rightarrow> None
        | q # cs \<Rightarrow>
            if q \<noteq> CHR 0x22 then None
            else
              case unquote cs of
                None \<Rightarrow> None
              | Some (s, rest) \<Rightarrow> if list_all is_space rest then Some s else None)"

text \<open>\<open>Marshal\<close> escapes quotes, control characters and what HTML reads as markup.\<close>

definition json_escape :: "char \<Rightarrow> string" where
  "json_escape c =
     (let n = of_char c in
      if c = CHR 0x22 \<or> c = CHR 0x5C then [CHR 0x5C, c]
      else if c = CHR 0x0A then [CHR 0x5C, CHR ''n''] else if c = CHR 0x0D then [CHR 0x5C, CHR ''r'']
      else if c = CHR 0x09 then [CHR 0x5C, CHR ''t'']
      else if n < 0x20 \<or> c = CHR ''<'' \<or> c = CHR ''>'' \<or> c = CHR 0x26
      then [CHR 0x5C, CHR ''u'', CHR ''0'', CHR ''0'', hex_digit (n div 16), hex_digit (n mod 16)]
      else [c])"

definition Marshal_string :: "string \<Rightarrow> string" where
  "Marshal_string s = CHR 0x22 # concat (map json_escape s) @ [CHR 0x22]"

subsection \<open>The two codecs\<close>

datatype json_error = JSONError | NotDecimal parse_error | UnknownHaltType string

definition MarshalJSON :: "Decimal \<Rightarrow> string option" where
  "MarshalJSON d = map_option Marshal_string (String_dec d)"

text \<open>The receiver \<open>d\<close> gives the precision when the text has no point.\<close>

definition UnmarshalJSON :: "string \<Rightarrow> Decimal \<Rightarrow> (json_error + Decimal) option" where
  "UnmarshalJSON b d =
     (case Unmarshal_string b of
        None \<Rightarrow> Some (Inl JSONError)
      | Some s \<Rightarrow> do {
          let precision =
            (if CHR ''.'' \<in> set s then
               let p = length s - length (takeWhile (\<lambda>x. x \<noteq> CHR ''.'') s) - 1
               in of_nat (if 18 < p then 18 else p)
             else d_precision d);
          parsed \<leftarrow> ParseDecimal s precision;
          Some (case parsed of Inl err \<Rightarrow> Inl (NotDecimal err) | Inr x \<Rightarrow> Inr x) })"

definition HaltType_MarshalJSON :: "HaltType \<Rightarrow> string" where
  "HaltType_MarshalJSON h = Marshal_string (HaltType_String h)"

definition HaltType_UnmarshalJSON :: "string \<Rightarrow> json_error + HaltType" where
  "HaltType_UnmarshalJSON b =
     (case Unmarshal_string b of
        None \<Rightarrow> Inl JSONError
      | Some s \<Rightarrow>
          if s = ''circuit_breaker'' then Inr HaltCircuitBreaker
          else if s = ''cascade_limit'' then Inr HaltCascadeLimit
          else if s = ''admin'' then Inr HaltAdmin
          else Inl (UnknownHaltType s))"

subsection \<open>The round trips\<close>

text \<open>Characters that need no escape.\<close>

definition plain :: "char \<Rightarrow> bool" where
  "plain c \<longleftrightarrow> c \<noteq> CHR 0x22 \<and> c \<noteq> CHR 0x5C \<and> 0x20 \<le> (of_char c :: nat) \<and> c \<noteq> CHR ''<'' \<and> c \<noteq> CHR ''>'' \<and> c \<noteq> CHR 0x26"

lemma plain_escape:
  assumes "plain c"
  shows "json_escape c = [c]"
proof -
  have low: "\<not> (of_char c :: nat) < 0x20" using assms unfolding plain_def by linarith
  have "(of_char (CHR 0x0A) :: nat) = 10" "(of_char (CHR 0x0D) :: nat) = 13" "(of_char (CHR 0x09) :: nat) = 9" by simp_all
  then have "c \<noteq> CHR 0x0A" "c \<noteq> CHR 0x0D" "c \<noteq> CHR 0x09" using low by fastforce+
  then show ?thesis unfolding json_escape_def Let_def using assms low unfolding plain_def by presburger
qed

lemma unquote_plain_char: "plain c \<Longrightarrow> unquote (c # cs) = map_option (\<lambda>(s, t). (c # s, t)) (unquote cs)"
  by (simp add: plain_def)

lemma unquote_quote: "unquote (CHR 0x22 # t) = Some ([], t)"
  by simp

lemma unquote_plain: "list_all plain s \<Longrightarrow> unquote (s @ CHR 0x22 # t) = Some (s, t)"
proof (induction s)
  case Nil
  show ?case unfolding append_Nil by (rule unquote_quote)
next
  case (Cons c s)
  then show ?case unfolding append_Cons using unquote_plain_char [of c] by (simp del: unquote.simps)
qed

lemma Unmarshal_Marshal: "list_all plain s \<Longrightarrow> Unmarshal_string (Marshal_string s) = Some s"
proof -
  assume p: "list_all plain s"
  then have "concat (map json_escape s) = s" by (induction s) (simp_all add: plain_escape)
  then have "Marshal_string s = CHR 0x22 # s @ [CHR 0x22]" by (simp add: Marshal_string_def)
  then show ?thesis using unquote_plain [OF p, of "[]"]
    by (simp add: Unmarshal_string_def is_space_def del: unquote.simps)
qed

lemma digits_plain: "is_digits s \<Longrightarrow> list_all plain s"
proof -
  have "plain c" if "digit_val c \<noteq> None" for c
    using that by (auto simp: digit_val_def plain_def split: if_split_asm)
  then show "is_digits s \<Longrightarrow> list_all plain s" by (auto simp: is_digits_def list_all_iff)
qed

lemma decimal_text_plain:
  assumes "is_digits ip" and "is_digits fp"
  shows "list_all plain (decimal_text neg ip fp)"
proof -
  have "plain (CHR ''-'')" "plain (CHR ''.'')" by (simp_all add: plain_def)
  then show ?thesis using digits_plain [OF assms(1)] digits_plain [OF assms(2)] by (simp add: decimal_text_def)
qed

text \<open>The precision is read off the text.\<close>

lemma decimal_text_point:
  assumes "is_digits ip" and "is_digits fp"
  shows "CHR ''.'' \<in> set (decimal_text neg ip fp) \<longleftrightarrow> fp \<noteq> []"
    and "fp \<noteq> [] \<Longrightarrow> length (decimal_text neg ip fp) -
       length (takeWhile (\<lambda>x. x \<noteq> CHR ''.'') (decimal_text neg ip fp)) - 1 = length fp"
  using dot_not_digits [OF assms(1)] dot_not_digits [OF assms(2)]
  by (auto simp: decimal_text_def takeWhile_append takeWhile_no_dot)

lemma MarshalJSON_reads_back:
  assumes p: "unat (d_precision d) \<le> 18" and v: "ival d \<noteq> - (2 ^ 63)"
    and r: "d_precision d = 0 \<longrightarrow> d_precision r = 0"
  shows "\<exists>b. MarshalJSON d = Some b \<and> UnmarshalJSON b r = Some (Inr d)"
proof -
  define n m where "n = unat (d_precision d)" and "m = nat \<bar>ival d\<bar>"
  define ip fp where "ip = digits10 (m div 10 ^ n)"
    and "fp = (if d_precision d = 0 then [] else pad0 n (m mod 10 ^ n))"
  define s where "s = decimal_text (ival d < 0) ip fp"
  have str: "String_dec d = Some s"
    unfolding s_def ip_def fp_def n_def m_def by (rule String_dec_text [OF p v])
  have parses: "ParseDecimal s (d_precision d) = Some (Inr d)" using String_parses [OF p v] str by simp
  have dg: "is_digits ip" "is_digits fp" by (simp_all add: ip_def fp_def pad0_facts(1))
  have n0: "d_precision d = 0 \<longleftrightarrow> n = 0" by (simp add: n_def unat_eq_zero)
  have len: "length fp = n"
  proof (cases "d_precision d = 0")
    case False
    then have "0 < n" using n0 by simp
    then show ?thesis using False pad0_facts(3) [where n = "m mod 10 ^ n" and w = n] by (simp add: fp_def)
  qed (simp add: fp_def n_def)
  have un: "Unmarshal_string (Marshal_string s) = Some s"
    unfolding s_def by (rule Unmarshal_Marshal [OF decimal_text_plain [OF dg]])
  have "UnmarshalJSON (Marshal_string s) r = Some (Inr d)"
  proof (cases "d_precision d = 0")
    case True
    then have "CHR ''.'' \<notin> set s" using decimal_text_point(1) [OF dg, of "ival d < 0"] by (simp add: s_def fp_def)
    then show ?thesis using un parses True r by (simp add: UnmarshalJSON_def)
  next
    case False
    then have "fp \<noteq> []" using len n0 by auto
    then have dot: "CHR ''.'' \<in> set s" "length s - length (takeWhile (\<lambda>x. x \<noteq> CHR ''.'') s) - 1 = n"
      using decimal_text_point [OF dg, of "ival d < 0"] len by (simp_all add: s_def)
    have w: "of_nat (if 18 < n then 18 else n) = d_precision d" using p by (simp add: n_def)
    show ?thesis unfolding UnmarshalJSON_def un option.case Let_def dot(2) if_P [OF dot(1)] w using parses by simp
  qed
  then show ?thesis using str by (simp add: MarshalJSON_def)
qed

lemma HaltType_reads_back:
  assumes "h \<in> {HaltCircuitBreaker, HaltCascadeLimit, HaltAdmin}"
  shows "HaltType_UnmarshalJSON (HaltType_MarshalJSON h) = Inr h"
proof -
  have "list_all plain ''circuit_breaker''" "list_all plain ''cascade_limit''" "list_all plain ''admin''"
    by (simp_all add: plain_def)
  then show ?thesis using assms
    by (auto simp: HaltType_UnmarshalJSON_def HaltType_MarshalJSON_def Unmarshal_Marshal)
qed



end
