(* ===== verification/Spec2Isabelle.thy ===== *)
theory Spec2Isabelle
  imports Decimal_Claims Book_Claims Book_Ops_Claims Stop_Claims Auction_Claims Processor_Claims Engine_Claims
    Divergences Multi_Claims Json_Text
begin

text \<open>
  \<^bold>\<open>A central limit order book, verified.\<close>  The repository is a Go library for exchanges: an engine
  per market takes commands from a queue, checks them, matches orders in price-time priority and
  sends events.  This development models its packages function by function and proves what
  makes them correct.  Names are those of the code; a name that two packages share, or that
  HOL has, carries a suffix (\<open>Snapshot_engine\<close>, \<open>Has_stop\<close>, \<open>String_dec\<close>).

  \<^bold>\<open>How the code is modelled.\<close>  A Go integer is a word of its width (\<open>i64\<close>, \<open>u8\<close>), so arithmetic wraps
  around as it does in Go; a struct is a record, an enumeration a datatype with one more
  constructor for the bytes the code does not name.  A function that can panic, or whose loop might
  not end, returns an \<open>option\<close>, with \<open>None\<close> for not returning a value; an error result is \<open>Inl\<close>.  A
  pointer to a pooled object is the index of its slot, and the linked lists are kept in the
  slots as the code keeps them.  Time, the order in which Go visits a map, ULIDs, the pre-order hook,
  the volume provider and the B-tree library (\<open>tidwall/btree\<close>) are parameters; for the tree library
  the locales \<open>btree\<close> and \<open>price_index\<close> state its documented laws, and both are
  interpreted on the list tree of \<open>BTree_Lib\<close>, on which all examples evaluate.

  \<^bold>\<open>Theories and source files.\<close>

  \<^item> \<open>Go_Prelude\<close>: the conventions, words, 128-bit division, lemmas on lists and options.
  \<^item> \<open>Decimal\<close>, \<open>Decimal_Text\<close>, \<open>Decimal_Claims\<close>: \<open>types/decimal.go\<close>.  \<open>Order_Types\<close>: the other
    files of \<open>types\<close>.  \<open>Market_Config\<close>: package \<open>config\<close>.  \<open>Json_Text\<close>: the JSON codecs of \<open>Decimal\<close> and \<open>HaltType\<close>,
    with string literals as \<open>encoding/json\<close> reads and writes them.
  \<^item> \<open>Pool\<close>: packages \<open>pool\<close> and \<open>sequence\<close>; the locale \<open>slot_allocator\<close> is the contract of the pool.
  \<^item> \<open>Linked_Queue\<close>: doubly linked lists in slots, shared by the levels of both books.
  \<^item> Order book, package \<open>book\<close>: \<open>Book_Heap\<close> (nodes and levels), \<open>BTree_Lib\<close> and \<open>Price_Tree\<close>
    (the sides), \<open>Order_Book\<close> (operations), \<open>Matching\<close> (\<open>matching.go\<close>).
    Proofs: \<open>Level_Queue\<close> (a level is a queue), \<open>Book_Inv\<close> (the invariant \<open>book_ok\<close>), \<open>Match_Spec\<close> (an abstract
    price-time machine without pointers), \<open>Match_Proof\<close> and \<open>Match_Result\<close> (\<open>match\<close> simulates it),
    \<open>Match_Laws\<close> (what every run of the machine satisfies), \<open>Match_Fok\<close>, \<open>Book_Setup\<close>, \<open>Book_Ops\<close>,
    \<open>Book_Demo\<close>; properties in \<open>Book_Claims\<close> and \<open>Book_Ops_Claims\<close>.
  \<^item> Stop book, package \<open>stopbook\<close>: \<open>Stop_Heap\<close>, \<open>Stop_Book\<close>; proofs in \<open>Stop_Inv\<close>, \<open>Stop_Ops\<close>, \<open>Stop_Trigger\<close>;
    properties in \<open>Stop_Claims\<close>.
  \<^item> Call auction, package \<open>auction\<close>: \<open>Auction\<close>, \<open>Auction_Proof\<close>, \<open>Auction_Claims\<close>.
  \<^item> \<open>State_Machine\<close>, \<open>Circuit\<close>, \<open>Fees\<close>, \<open>Positions\<close>, \<open>Events\<close>, \<open>Commands\<close>: packages \<open>statemachine\<close>,
    \<open>circuit\<close>, \<open>fees\<close>, \<open>events\<close>, \<open>hooks\<close> and \<open>engine/positions.go\<close>, \<open>engine/commands.go\<close>, each with its properties.
  \<^item> Command processor, \<open>engine/processor.go\<close>: \<open>Processor\<close> (state, event emission), \<open>Cascade\<close>
    (stops and breaker), \<open>Limit_Orders\<close>, \<open>Handlers\<close> (the other handlers, the auction,
    \<open>dispatch\<close>, \<open>serve\<close> and \<open>run\<close>).  Proofs: \<open>Event_Log\<close> (the log only grows, and reports every
    trade by four events that agree with the positions),
    \<open>Processor_Inv\<close> (the invariant \<open>proc_ok\<close>), \<open>Processor_Place\<close>, \<open>Processor_Cascade\<close>,
    \<open>Processor_Handlers\<close>, \<open>Processor_Admin\<close>, \<open>Processor_Clear\<close> (every handler returns and keeps it),
    \<open>Processor_Run\<close> (so does every run); properties in \<open>Processor_Claims\<close>.
  \<^item> Engine, \<open>engine/engine.go\<close>, \<open>recovery.go\<close>, \<open>multiengine.go\<close>: \<open>Engine\<close> (with the loop of \<open>run\<close> as the step
    relation \<open>loop_step\<close>: submitters, ticker, auction timers, closing), \<open>Multi_Engine\<close>; proofs in
    \<open>Engine_Recovery\<close> and \<open>Engine_Queue\<close>, properties in \<open>Engine_Claims\<close> and \<open>Multi_Claims\<close>.
  \<^item> \<open>Divergences\<close>: evaluated behaviours that contradict a comment, the README or the evident intent.

  \<^bold>\<open>The specifications.\<close>  The order book is specified by its two visible sides, each a list of prices
  with queues of orders; \<open>PlaceLimit\<close> and \<open>PlaceMarket\<close> refine the price-time machine on them, the other
  operations are described by what they do to them.  The stop book is specified in the same
  way, the ring buffer of the breaker by a bounded queue, the pool by its set of used slots, the clearing
  price by an optimality condition over all prices, the positions by the sums of signed fills and of the reported
  trades, the command queue by the sequences of accepted and served commands under every interleaving, and the
  multi-engine by its projection to one market.

  \<^bold>\<open>Bounds.\<close>  The proofs about whole runs ask callers for what the code does not check itself:
  decimals of the market's precision, named enumeration bytes, prices whose mantissa times 10000 fits in 63 bits
  (\<open>price_fits\<close>; the breaker's division panics beyond it), a level slot for the trigger price of a
  new stop (\<open>stop_room\<close>; the code panics without one), auction orders whose ids no other book
  knows (\<open>clearable\<close>; the code checks this only for limit orders), and a fee calculator that returns
  for every fill of the market's precisions (\<open>fees_total\<close>: the zero and the tiered one do, the flat one panics
  where a notional exceeds 64 bits).  \<open>admissible\<close> states them input by
  input, \<open>recoverable\<close> for recovered orders.  Quantities are not bounded: level totals may wrap around, and
  the statements about \<open>canFillFull\<close> and \<open>Snapshot\<close> say where that matters.  Every loop and the cascade of stops are
  proved to end; the fuel of the matching loop and of \<open>processTriggered\<close> is a number the code's own
  state bounds, and the refinement theorems show that it suffices.

  \<^bold>\<open>Not modelled.\<close>  The generation of ULIDs (a library call on the clock and on randomness) is a
  parameter, and the order of Go's map iteration and the clock are arguments.  The event channel is the list of all
  events sent: that a full channel delays the loop, and that readers take events out of it, is
  left out.  Goroutines appear as interleavings only (\<open>loop_run\<close>, \<open>merged\<close>, the actions of
  \<open>Multi_Claims\<close>); data races are not a subject, since all state belongs to one goroutine.  The post-fill hook,
  an interface that nothing calls, and \<open>testutil\<close>, helpers of the test suite, have no model.
\<close>

end
